(* ===== verification/NoDB_Prelude.thy ===== *)
theory NoDB_Prelude
  imports Main "HOL-Library.Word" "HOL-Library.Monad_Syntax"
begin

text \<open>
  Shared vocabulary of the development: the C types the NoDB sources use, array accesses that
  make an out-of-range index visible, counted loops, and the generic lemmas about them.

  A model function of type \<open>_ \<Rightarrow> 'a option\<close> returns \<open>None\<close> exactly where the C program has
  undefined behaviour (an index outside an array, a dereference of NULL or of a freed object, a
  read of a value that was never written, a failing \<open>Assert\<close>). Error codes that the sources
  return (0 or -1) are ordinary values.

  An array of type \<open>T *\<close> obtained from malloc is a list of \<open>T option\<close> where the contents may be
  indeterminate, and a list of \<open>T\<close> where the code initialises it in the same function.
\<close>

section \<open>C types\<close>

type_synonym NoDBCol_t = int            \<comment> \<open>typedef int NoDBCol_t\<close>
type_synonym NoDBRow_t = "64 word"      \<comment> \<open>typedef unsigned long NoDBRow_t\<close>
type_synonym byte = "8 word"

named_theorems arr_simps \<open>rewriting of array accesses\<close>
named_theorems loop_simps \<open>rewriting of counted loops\<close>

section \<open>Array accesses\<close>

definition arr_get :: "'a list \<Rightarrow> int \<Rightarrow> 'a option" where
  "arr_get xs i = (if 0 \<le> i \<and> i < int (length xs) then Some (xs ! nat i) else None)"

definition arr_set :: "'a list \<Rightarrow> int \<Rightarrow> 'a \<Rightarrow> 'a list option" where
  "arr_set xs i v = (if 0 \<le> i \<and> i < int (length xs) then Some (xs[nat i := v]) else None)"

lemma arr_get_nat [simp, arr_simps]: "arr_get xs (int i) = (if i < length xs then Some (xs ! i) else None)"
  by (simp add: arr_get_def)

lemma arr_set_nat [simp, arr_simps]: "arr_set xs (int i) v = (if i < length xs then Some (xs[i := v]) else None)"
  by (simp add: arr_set_def)

lemma arr_get_in: "0 \<le> i \<Longrightarrow> nat i < length xs \<Longrightarrow> arr_get xs i = Some (xs ! nat i)"
  by (simp add: arr_get_def nat_less_iff)

lemma arr_set_in: "0 \<le> i \<Longrightarrow> nat i < length xs \<Longrightarrow> arr_set xs i v = Some (xs[nat i := v])"
  by (simp add: arr_set_def nat_less_iff)

lemma arr_get_Some_iff: "arr_get xs i = Some v \<longleftrightarrow> 0 \<le> i \<and> nat i < length xs \<and> xs ! nat i = v"
  by (auto simp: arr_get_def)

lemma arr_get_None_iff: "arr_get xs i = None \<longleftrightarrow> i < 0 \<or> int (length xs) \<le> i"
  by (auto simp: arr_get_def)

lemma arr_set_Some_iff: "arr_set xs i v = Some ys \<longleftrightarrow> 0 \<le> i \<and> nat i < length xs \<and> ys = xs[nat i := v]"
  by (auto simp: arr_set_def)

lemma arr_set_length: "arr_set xs i v = Some ys \<Longrightarrow> length ys = length xs"
  by (auto simp: arr_set_Some_iff)

lemma arr_get_set:
  "arr_set xs i v = Some ys \<Longrightarrow> arr_get ys j = (if j = i then Some v else arr_get xs j)"
  by (auto simp: arr_set_def arr_get_def nth_list_update split: if_splits)

lemma arr_get_in_set: "arr_get xs i = Some v \<Longrightarrow> v \<in> set xs"
  by (auto simp: arr_get_Some_iff)

lemma arr_get_map: "arr_get (map f xs) i = map_option f (arr_get xs i)"
  by (auto simp: arr_get_def)

section \<open>Counted loops\<close>

text \<open>A loop \<open>for (x in xs) s = f s x\<close> whose body may be undefined.\<close>

fun foldM :: "('s \<Rightarrow> 'a \<Rightarrow> 's option) \<Rightarrow> 's \<Rightarrow> 'a list \<Rightarrow> 's option" where
  "foldM f s [] = Some s"
| "foldM f s (x # xs) = (case f s x of None \<Rightarrow> None | Some s' \<Rightarrow> foldM f s' xs)"

lemma foldM_append [loop_simps]:
  "foldM f s (xs @ ys) = (case foldM f s xs of None \<Rightarrow> None | Some s' \<Rightarrow> foldM f s' ys)"
  by (induction xs arbitrary: s) (auto split: option.splits)

lemma foldM_snoc [loop_simps]:
  "foldM f s (xs @ [x]) = (case foldM f s xs of None \<Rightarrow> None | Some s' \<Rightarrow> f s' x)"
  by (auto simp: foldM_append split: option.splits)

text \<open>Total correctness of a loop: an invariant indexed by the number of completed iterations.\<close>

lemma foldM_rule:
  assumes base: "P 0 s"
    and step: "\<And>i t. i < length xs \<Longrightarrow> P i t \<Longrightarrow> \<exists>t'. f t (xs ! i) = Some t' \<and> P (Suc i) t'"
  shows "\<exists>t. foldM f s xs = Some t \<and> P (length xs) t"
proof -
  have "\<exists>t. foldM f s (take n xs) = Some t \<and> P n t" if "n \<le> length xs" for n
    using that
  proof (induction n)
    case 0
    then show ?case using base by simp
  next
    case (Suc n)
    then obtain t where t: "foldM f s (take n xs) = Some t" "P n t" by auto
    with Suc.prems step [of n t] obtain t' where "f t (xs ! n) = Some t'" "P (Suc n) t'" by auto
    with t Suc.prems show ?case
      by (auto simp: take_Suc_conv_app_nth foldM_snoc)
  qed
  from this [of "length xs"] show ?thesis by simp
qed

text \<open>Partial correctness of a loop: what holds at the start and is kept by the body.\<close>

lemma foldM_inv:
  assumes "foldM f s xs = Some t" and "P s"
    and "\<And>x u u'. x \<in> set xs \<Longrightarrow> P u \<Longrightarrow> f u x = Some u' \<Longrightarrow> P u'"
  shows "P t"
  using assms
proof (induction xs arbitrary: s)
  case Nil
  then show ?case by simp
next
  case (Cons x xs)
  from Cons.prems(1) obtain u where u: "f s x = Some u" "foldM f u xs = Some t"
    by (auto split: option.splits)
  have "P u" using Cons.prems(2) Cons.prems(3) [OF _ _ u(1)] by simp
  with u(2) show ?case using Cons.IH Cons.prems(3) by auto
qed

lemma foldM_pure: "(\<And>s x. f s x = Some (g s x)) \<Longrightarrow> foldM f s xs = Some (foldl g s xs)"
  by (induction xs arbitrary: s) auto

lemma foldM_cong:
  "(\<And>u x. x \<in> set xs \<Longrightarrow> f u x = g u x) \<Longrightarrow> foldM f s xs = foldM g s xs"
proof (induction xs arbitrary: s)
  case (Cons x xs)
  then show ?case by (cases "g s x") auto
qed simp

text \<open>A loop over the indices of an array is a loop over its elements.\<close>

lemma foldM_map: "foldM f s (map g xs) = foldM (\<lambda>s x. f s (g x)) s xs"
  by (induction xs arbitrary: s) (auto split: option.splits)

lemma foldM_index:
  assumes "\<And>u i. i < length xs \<Longrightarrow> f u i = g u (xs ! i)"
  shows "foldM f s [0..<length xs] = foldM g s xs"
proof -
  have "foldM g s xs = foldM (\<lambda>s i. g s (xs ! i)) s [0..<length xs]"
    using foldM_map[of g s "(!) xs" "[0..<length xs]"] by (simp add: map_nth)
  also have "\<dots> = foldM f s [0..<length xs]" by (rule foldM_cong) (simp add: assms)
  finally show ?thesis by simp
qed

section \<open>Lists\<close>

lemma filter_insert_remove_set: "set (filter p xs) \<union> set (filter (\<lambda>x. \<not> p x) xs) = set xs"
  by auto

lemma sum_list_update_nat:
  fixes xs :: "nat list"
  shows "i < length xs \<Longrightarrow> sum_list (xs[i := v]) + xs ! i = sum_list xs + v"
  by (induction xs arbitrary: i) (auto split: nat.splits simp: less_Suc_eq_0_disj)

lemma sorted_wrt_less_distinct: "sorted_wrt (<) (xs :: 'a :: linorder list) \<Longrightarrow> distinct xs"
  by (simp add: strict_sorted_iff)

lemma those_map_Some [simp]: "those (map Some xs) = Some xs"
  by (induction xs) auto

lemma upt_conv_index: "i < n \<Longrightarrow> [0..<n] ! i = i"
  by simp

section \<open>Words\<close>

lemma unat_of_nat_lt: "n < 2 ^ LENGTH('a) \<Longrightarrow> unat (of_nat n :: 'a::len word) = n"
  by (simp add: unat_of_nat take_bit_nat_eq_self)

lemma unat_add_lt:
  "unat (a :: 'a::len word) + unat b < 2 ^ LENGTH('a) \<Longrightarrow> unat (a + b) = unat a + unat b"
  by (simp add: unat_word_ariths)

lemma word_less_iff_unat: "(a :: 'a::len word) < b \<longleftrightarrow> unat a < unat b"
  by (rule word_less_nat_alt)

lemma word_le_iff_unat: "(a :: 'a::len word) \<le> b \<longleftrightarrow> unat a \<le> unat b"
  by (rule word_le_nat_alt)

end
