(* ===== verification/NoDB_Lists.thy ===== *)
theory NoDB_Lists
  imports NoDB_Prelude
begin

text \<open>
  The list and vector helpers of \<open>src/postgresql-9.6.5/src/backend/noDB/auxiliary\<close>:
  \<open>NoDBList.c\<close>, \<open>NoDBCol.c\<close> and \<open>NoDBRow.c\<close>.

  A NULL-terminated chain of \<open>NoDBList_t\<close>, \<open>NoDBIntList_t\<close>, \<open>NoDBColList_t\<close> or \<open>NoDBRowList_t\<close>
  nodes is the HOL list of its payloads. The functions never write a node that another list
  shares, so the in-place insertion of \<open>NoDBColListArenaAddSortUnique\<close> and the in-place deletion of
  \<open>NoDBColListArenaDelete\<close> are functions on that list. The memory a node comes from (malloc or one
  of the arenas, see theory \<open>NoDB_Arena\<close>) does not change the list that is built.

  A \<open>NoDBColVector_t\<close> or \<open>NoDBRowVector_t\<close> is its array, with \<open>None\<close> for an element that has not
  been stored yet; the field \<open>size\<close> is the length of the array.
\<close>

section \<open>Pointer lists (NoDBList.c)\<close>

type_synonym 'a NoDBList_t = "'a list"

definition NoDBListAdd :: "'a NoDBList_t \<Rightarrow> 'a \<Rightarrow> 'a NoDBList_t" where
  "NoDBListAdd l ptr = ptr # l"

definition NoDBListArenaAdd :: "'a NoDBList_t \<Rightarrow> 'a \<Rightarrow> 'a NoDBList_t" where
  "NoDBListArenaAdd l ptr = ptr # l"

fun NoDBListSize_loop :: "'a list \<Rightarrow> int \<Rightarrow> int" where
  "NoDBListSize_loop [] n = n"
| "NoDBListSize_loop (x # l) n = NoDBListSize_loop l (n + 1)"

definition NoDBListSize :: "'a NoDBList_t \<Rightarrow> int" where
  "NoDBListSize l = NoDBListSize_loop l 0"

section \<open>Integer lists (NoDBList.c)\<close>

type_synonym NoDBIntList_t = "int list"

fun NoDBIntListContains :: "NoDBIntList_t \<Rightarrow> int \<Rightarrow> bool" where
  "NoDBIntListContains [] v = False"
| "NoDBIntListContains (x # l) v = (if x = v then True else NoDBIntListContains l v)"

definition NoDBIntListAdd :: "NoDBIntList_t \<Rightarrow> int \<Rightarrow> NoDBIntList_t" where
  "NoDBIntListAdd l v = v # l"

definition NoDBIntListArenaAdd :: "NoDBIntList_t \<Rightarrow> int \<Rightarrow> NoDBIntList_t" where
  "NoDBIntListArenaAdd l v = v # l"

definition NoDBIntListArenaAddUnique :: "NoDBIntList_t \<Rightarrow> int \<Rightarrow> NoDBIntList_t" where
  "NoDBIntListArenaAddUnique l v =
     (if NoDBIntListContains l v then l else NoDBIntListArenaAdd l v)"

text \<open>Deletes the first node; the dereference of NULL is undefined.\<close>

fun NoDBIntListDelete :: "NoDBIntList_t \<Rightarrow> NoDBIntList_t option" where
  "NoDBIntListDelete [] = None"
| "NoDBIntListDelete (x # l) = Some l"

fun NoDBIntListSize_loop :: "NoDBIntList_t \<Rightarrow> int \<Rightarrow> int" where
  "NoDBIntListSize_loop [] n = n"
| "NoDBIntListSize_loop (x # l) n = NoDBIntListSize_loop l (n + 1)"

definition NoDBIntListSize :: "NoDBIntList_t \<Rightarrow> int" where
  "NoDBIntListSize l = NoDBIntListSize_loop l 0"

fun NoDBIntListDuplicate_loop :: "NoDBIntList_t \<Rightarrow> NoDBIntList_t \<Rightarrow> NoDBIntList_t" where
  "NoDBIntListDuplicate_loop [] nl = nl"
| "NoDBIntListDuplicate_loop (v # l) nl = NoDBIntListDuplicate_loop l (NoDBIntListAdd nl v)"

definition NoDBIntListDuplicate :: "NoDBIntList_t \<Rightarrow> NoDBIntList_t" where
  "NoDBIntListDuplicate l = NoDBIntListDuplicate_loop l []"

fun NoDBIntListArenaDuplicate_loop :: "NoDBIntList_t \<Rightarrow> NoDBIntList_t \<Rightarrow> NoDBIntList_t" where
  "NoDBIntListArenaDuplicate_loop [] nl = nl"
| "NoDBIntListArenaDuplicate_loop (v # l) nl =
     NoDBIntListArenaDuplicate_loop l (NoDBIntListArenaAdd nl v)"

definition NoDBIntListArenaDuplicate :: "NoDBIntList_t \<Rightarrow> NoDBIntList_t" where
  "NoDBIntListArenaDuplicate l = NoDBIntListArenaDuplicate_loop l []"

text \<open>\<open>while (l) { v[i++] = l->v; l = l->next; }\<close> on a freshly allocated array.\<close>

fun fill_array :: "'a list \<Rightarrow> int \<Rightarrow> 'a option list \<Rightarrow> 'a option list option" where
  "fill_array [] i v = Some v"
| "fill_array (x # l) i v = (case arr_set v i (Some x) of None \<Rightarrow> None | Some v' \<Rightarrow> fill_array l (i + 1) v')"

definition NoDBIntVectorFromList :: "NoDBIntList_t \<Rightarrow> int option list option" where
  "NoDBIntVectorFromList l = fill_array l 0 (replicate (nat (NoDBIntListSize l)) None)"

definition NoDBIntVectorArenaFromList :: "NoDBIntList_t \<Rightarrow> int option list option" where
  "NoDBIntVectorArenaFromList l = fill_array l 0 (replicate (nat (NoDBIntListSize l)) None)"

section \<open>Sorting (NoDBSort.c)\<close>

text \<open>
  \<open>NoDBQuickSort\<close> is the C library's \<open>qsort\<close>: it is defined when the comparison is defined on
  the elements of the array and orders them totally, and then permutes the array into ascending
  order. Elements that compare equal are equal for the two callers, so the order is unique; it is
  computed by insertion.
\<close>

definition comp_total :: "'a list \<Rightarrow> ('a \<Rightarrow> 'a \<Rightarrow> int option) \<Rightarrow> bool" where
  "comp_total xs compar \<longleftrightarrow>
     (\<forall>a \<in> set xs. \<forall>b \<in> set xs. compar a b \<noteq> None) \<and>
     (\<forall>a \<in> set xs. \<forall>b \<in> set xs. sgn (the (compar a b)) = - sgn (the (compar b a))) \<and>
     (\<forall>a \<in> set xs. \<forall>b \<in> set xs. \<forall>c \<in> set xs.
        the (compar a b) \<le> 0 \<and> the (compar b c) \<le> 0 \<longrightarrow> the (compar a c) \<le> 0)"

fun comp_insert :: "('a \<Rightarrow> 'a \<Rightarrow> int option) \<Rightarrow> 'a \<Rightarrow> 'a list \<Rightarrow> 'a list" where
  "comp_insert compar x [] = [x]"
| "comp_insert compar x (y # ys) =
     (if the (compar x y) \<le> 0 then x # y # ys else y # comp_insert compar x ys)"

definition NoDBQuickSort :: "'a list \<Rightarrow> ('a \<Rightarrow> 'a \<Rightarrow> int option) \<Rightarrow> 'a list option" where
  "NoDBQuickSort base compar =
     (if comp_total base compar then Some (foldr (comp_insert compar) base []) else None)"

section \<open>Column vectors (NoDBCol.c)\<close>

type_synonym NoDBColVector_t = "NoDBCol_t option list"

definition NoDBColVectorInit :: "int \<Rightarrow> NoDBColVector_t" where
  "NoDBColVectorInit sz = (if sz \<noteq> 0 then replicate (nat sz) None else [])"

definition NoDBColVectorArenaInit :: "int \<Rightarrow> NoDBColVector_t" where
  "NoDBColVectorArenaInit sz = (if sz \<noteq> 0 then replicate (nat sz) None else [])"

definition NoDBColVectorSize :: "NoDBColVector_t \<Rightarrow> int" where
  "NoDBColVectorSize v = int (length v)"

definition NoDBColVectorGet :: "NoDBColVector_t \<Rightarrow> int \<Rightarrow> NoDBCol_t option" where
  "NoDBColVectorGet v i = (case arr_get v i of None \<Rightarrow> None | Some c \<Rightarrow> c)"

definition NoDBColVectorSet :: "NoDBColVector_t \<Rightarrow> int \<Rightarrow> NoDBCol_t \<Rightarrow> NoDBColVector_t option" where
  "NoDBColVectorSet v i col = arr_set v i (Some col)"

function NoDBColVectorIndex_loop :: "NoDBColVector_t \<Rightarrow> NoDBCol_t \<Rightarrow> int \<Rightarrow> int option" where
  "NoDBColVectorIndex_loop v col i =
     (if i < int (length v) then
        (case NoDBColVectorGet v i of
           None \<Rightarrow> None
         | Some c \<Rightarrow> if c = col then Some i else NoDBColVectorIndex_loop v col (i + 1))
      else Some (-1))"
  by pat_completeness auto
termination
  by (relation "measure (\<lambda>(v, col, i). nat (int (length v) - i))") auto

declare NoDBColVectorIndex_loop.simps [simp del]

definition NoDBColVectorIndex :: "NoDBColVector_t \<Rightarrow> NoDBCol_t \<Rightarrow> int option" where
  "NoDBColVectorIndex v col = NoDBColVectorIndex_loop v col 0"

text \<open>
  The binary search starts with \<open>max = v.size\<close>, one past the last element, and reads
  \<open>v.cols[i]\<close> for \<open>min \<le> i \<le> max\<close>.
\<close>

function NoDBColVectorBinarySearch_loop ::
    "NoDBColVector_t \<Rightarrow> NoDBCol_t \<Rightarrow> int \<Rightarrow> int \<Rightarrow> int option" where
  "NoDBColVectorBinarySearch_loop v col mn mx =
     (if mx \<ge> mn then
        (let i = mn + (mx - mn) div 2 in
         case NoDBColVectorGet v i of
           None \<Rightarrow> None
         | Some c \<Rightarrow>
             if c < col then NoDBColVectorBinarySearch_loop v col (i + 1) mx
             else if c > col then NoDBColVectorBinarySearch_loop v col mn (i - 1)
             else Some i)
      else Some (-1))"
  by pat_completeness auto
termination
  by (relation "measure (\<lambda>(v, col, mn, mx). nat (mx - mn + 1))") auto

declare NoDBColVectorBinarySearch_loop.simps [simp del]

definition NoDBColVectorBinarySearch :: "NoDBColVector_t \<Rightarrow> NoDBCol_t \<Rightarrow> int option" where
  "NoDBColVectorBinarySearch v col = NoDBColVectorBinarySearch_loop v col 0 (int (length v))"

function NoDBColVectorContains_loop :: "NoDBColVector_t \<Rightarrow> NoDBCol_t \<Rightarrow> int \<Rightarrow> bool option" where
  "NoDBColVectorContains_loop v col i =
     (if i < int (length v) then
        (case NoDBColVectorGet v i of
           None \<Rightarrow> None
         | Some c \<Rightarrow> if c = col then Some True else NoDBColVectorContains_loop v col (i + 1))
      else Some False)"
  by pat_completeness auto
termination
  by (relation "measure (\<lambda>(v, col, i). nat (int (length v) - i))") auto

declare NoDBColVectorContains_loop.simps [simp del]

definition NoDBColVectorContains :: "NoDBColVector_t \<Rightarrow> NoDBCol_t \<Rightarrow> bool option" where
  "NoDBColVectorContains v col = NoDBColVectorContains_loop v col 0"

text \<open>
  \<open>NoDBColVectorApply\<close> calls \<open>fn\<close> on every element in order; \<open>fn\<close> works on the state \<open>arg\<close>
  points to.
\<close>

definition NoDBColVectorApply :: "NoDBColVector_t \<Rightarrow> (NoDBCol_t \<Rightarrow> 's \<Rightarrow> 's) \<Rightarrow> 's \<Rightarrow> 's option" where
  "NoDBColVectorApply v fn arg =
     foldM (\<lambda>s i. case NoDBColVectorGet v (int i) of None \<Rightarrow> None | Some c \<Rightarrow> Some (fn c s)) arg
       [0..<length v]"

text \<open>
  The comparison of two columns is their \<open>int\<close> difference, whose overflow is undefined.
\<close>

definition NoDBCol_comp :: "NoDBCol_t \<Rightarrow> NoDBCol_t \<Rightarrow> int option" where
  "NoDBCol_comp a b = (if - (2 ^ 31) \<le> a - b \<and> a - b < 2 ^ 31 then Some (a - b) else None)"

definition NoDBColVectorSort :: "NoDBColVector_t \<Rightarrow> NoDBColVector_t option" where
  "NoDBColVectorSort v =
     (case those v of
        None \<Rightarrow> None
      | Some cs \<Rightarrow> map_option (map Some) (NoDBQuickSort cs NoDBCol_comp))"

fun NoDBColListSize_loop :: "NoDBCol_t list \<Rightarrow> int \<Rightarrow> int" where
  "NoDBColListSize_loop [] n = n"
| "NoDBColListSize_loop (x # l) n = NoDBColListSize_loop l (n + 1)"

section \<open>Column lists (NoDBCol.c)\<close>

type_synonym NoDBColList_t = "NoDBCol_t list"

definition NoDBColListSize :: "NoDBColList_t \<Rightarrow> int" where
  "NoDBColListSize l = NoDBColListSize_loop l 0"

definition NoDBColVectorFromList :: "NoDBColList_t \<Rightarrow> NoDBColVector_t option" where
  "NoDBColVectorFromList l = fill_array l 0 (NoDBColVectorInit (NoDBColListSize l))"

definition NoDBColVectorArenaFromList :: "NoDBColList_t \<Rightarrow> NoDBColVector_t option" where
  "NoDBColVectorArenaFromList l = fill_array l 0 (NoDBColVectorArenaInit (NoDBColListSize l))"

fun NoDBColListContains :: "NoDBColList_t \<Rightarrow> NoDBCol_t \<Rightarrow> bool" where
  "NoDBColListContains [] col = False"
| "NoDBColListContains (x # l) col = (if x = col then True else NoDBColListContains l col)"

fun NoDBColListContainsColList :: "NoDBColList_t \<Rightarrow> NoDBColList_t \<Rightarrow> bool" where
  "NoDBColListContainsColList l [] = True"
| "NoDBColListContainsColList l (c # sub) =
     (if \<not> NoDBColListContains l c then False else NoDBColListContainsColList l sub)"

definition NoDBColListAdd :: "NoDBColList_t \<Rightarrow> NoDBCol_t \<Rightarrow> NoDBColList_t" where
  "NoDBColListAdd l col = col # l"

definition NoDBColListArenaAdd :: "NoDBColList_t \<Rightarrow> NoDBCol_t \<Rightarrow> NoDBColList_t" where
  "NoDBColListArenaAdd l col = col # l"

definition NoDBColListAddUnique :: "NoDBColList_t \<Rightarrow> NoDBCol_t \<Rightarrow> NoDBColList_t" where
  "NoDBColListAddUnique l col = (if NoDBColListContains l col then l else NoDBColListAdd l col)"

definition NoDBColListArenaAddUnique :: "NoDBColList_t \<Rightarrow> NoDBCol_t \<Rightarrow> NoDBColList_t" where
  "NoDBColListArenaAddUnique l col = (if NoDBColListContains l col then l else NoDBColListArenaAdd l col)"

text \<open>
  The insertion loop of \<open>NoDBColListArenaAddSortUnique\<close>: \<open>prev\<close> is the last node passed, kept here
  as the (reversed) list of nodes already passed. \<open>None\<close> is the early return of the unchanged list.
\<close>

fun AddSortUnique_scan :: "'a::linorder \<Rightarrow> 'a list \<Rightarrow> 'a list \<Rightarrow> ('a list \<times> 'a list) option" where
  "AddSortUnique_scan x passed [] = Some (passed, [])"
| "AddSortUnique_scan x passed (c # cur) =
     (if c = x then None
      else if c > x then Some (passed, c # cur)
      else AddSortUnique_scan x (c # passed) cur)"

definition NoDBColListArenaAddSortUnique :: "NoDBColList_t \<Rightarrow> NoDBCol_t \<Rightarrow> NoDBColList_t" where
  "NoDBColListArenaAddSortUnique l col =
     (case l of
        [] \<Rightarrow> [col]
      | c # rest \<Rightarrow>
          if c > col then col # l
          else if c = col then l
          else (case AddSortUnique_scan col [c] rest of
                  None \<Rightarrow> l
                | Some (passed, cur) \<Rightarrow> rev passed @ col # cur))"

fun ArenaDelete_scan :: "NoDBCol_t \<Rightarrow> NoDBColList_t \<Rightarrow> NoDBColList_t \<Rightarrow> NoDBColList_t option" where
  "ArenaDelete_scan col passed [] = None"
| "ArenaDelete_scan col passed (c # cur) =
     (if c = col then Some (rev passed @ cur) else ArenaDelete_scan col (c # passed) cur)"

definition NoDBColListArenaDelete :: "NoDBColList_t \<Rightarrow> NoDBCol_t \<Rightarrow> NoDBColList_t" where
  "NoDBColListArenaDelete l col =
     (case l of
        [] \<Rightarrow> []
      | c # rest \<Rightarrow>
          if c = col then rest
          else (case ArenaDelete_scan col [c] rest of None \<Rightarrow> l | Some l' \<Rightarrow> l'))"

fun NoDBColListDuplicate_loop :: "NoDBColList_t \<Rightarrow> NoDBColList_t \<Rightarrow> NoDBColList_t" where
  "NoDBColListDuplicate_loop [] nl = nl"
| "NoDBColListDuplicate_loop (c # l) nl = NoDBColListDuplicate_loop l (NoDBColListAdd nl c)"

definition NoDBColListDuplicate :: "NoDBColList_t \<Rightarrow> NoDBColList_t" where
  "NoDBColListDuplicate l = NoDBColListDuplicate_loop l []"

fun NoDBColListArenaDuplicate_loop :: "NoDBColList_t \<Rightarrow> NoDBColList_t \<Rightarrow> NoDBColList_t" where
  "NoDBColListArenaDuplicate_loop [] nl = nl"
| "NoDBColListArenaDuplicate_loop (c # l) nl =
     NoDBColListArenaDuplicate_loop l (NoDBColListArenaAdd nl c)"

definition NoDBColListArenaDuplicate :: "NoDBColList_t \<Rightarrow> NoDBColList_t" where
  "NoDBColListArenaDuplicate l = NoDBColListArenaDuplicate_loop l []"

section \<open>Row vectors and row lists (NoDBRow.c)\<close>

type_synonym NoDBRowVector_t = "NoDBRow_t option list"
type_synonym NoDBRowList_t = "NoDBRow_t list"

definition NoDBRowVectorInit :: "int \<Rightarrow> NoDBRowVector_t" where
  "NoDBRowVectorInit sz = (if sz \<noteq> 0 then replicate (nat sz) None else [])"

definition NoDBRowVectorArenaInit :: "int \<Rightarrow> NoDBRowVector_t" where
  "NoDBRowVectorArenaInit sz = (if sz \<noteq> 0 then replicate (nat sz) None else [])"

definition NoDBRowVectorGet :: "NoDBRowVector_t \<Rightarrow> int \<Rightarrow> NoDBRow_t option" where
  "NoDBRowVectorGet v i = (case arr_get v i of None \<Rightarrow> None | Some r \<Rightarrow> r)"

definition NoDBRowVectorSet :: "NoDBRowVector_t \<Rightarrow> int \<Rightarrow> NoDBRow_t \<Rightarrow> NoDBRowVector_t option" where
  "NoDBRowVectorSet v i row = arr_set v i (Some row)"

definition NoDBRowVectorSize :: "NoDBRowVector_t \<Rightarrow> int" where
  "NoDBRowVectorSize v = int (length v)"

definition NoDBRowVectorApply :: "NoDBRowVector_t \<Rightarrow> (NoDBRow_t \<Rightarrow> 's \<Rightarrow> 's) \<Rightarrow> 's \<Rightarrow> 's option" where
  "NoDBRowVectorApply v fn arg =
     foldM (\<lambda>s i. case NoDBRowVectorGet v (int i) of None \<Rightarrow> None | Some r \<Rightarrow> Some (fn r s)) arg
       [0..<length v]"

text \<open>
  The comparison function of \<open>NoDBRowVectorSort\<close>: an unsigned 64-bit difference converted to a
  32-bit \<open>int\<close>.
\<close>

definition NoDBRow_comp :: "NoDBRow_t \<Rightarrow> NoDBRow_t \<Rightarrow> int option" where
  "NoDBRow_comp a b = Some (sint (ucast (a - b) :: 32 word))"

definition NoDBRowVectorSort :: "NoDBRowVector_t \<Rightarrow> NoDBRowVector_t option" where
  "NoDBRowVectorSort v =
     (case those v of
        None \<Rightarrow> None
      | Some rs \<Rightarrow> map_option (map Some) (NoDBQuickSort rs NoDBRow_comp))"

fun NoDBRowListSize_loop :: "NoDBRowList_t \<Rightarrow> int \<Rightarrow> int" where
  "NoDBRowListSize_loop [] n = n"
| "NoDBRowListSize_loop (x # l) n = NoDBRowListSize_loop l (n + 1)"

definition NoDBRowListSize :: "NoDBRowList_t \<Rightarrow> int" where
  "NoDBRowListSize l = NoDBRowListSize_loop l 0"

definition NoDBRowVectorFromList :: "NoDBRowList_t \<Rightarrow> NoDBRowVector_t option" where
  "NoDBRowVectorFromList l = fill_array l 0 (NoDBRowVectorInit (NoDBRowListSize l))"

definition NoDBRowVectorArenaFromList :: "NoDBRowList_t \<Rightarrow> NoDBRowVector_t option" where
  "NoDBRowVectorArenaFromList l = fill_array l 0 (NoDBRowVectorArenaInit (NoDBRowListSize l))"

fun NoDBRowListMember :: "NoDBRowList_t \<Rightarrow> NoDBRow_t \<Rightarrow> bool" where
  "NoDBRowListMember [] row = False"
| "NoDBRowListMember (r # node) row = (if r = row then True else NoDBRowListMember node row)"

definition NoDBRowListAddUnique :: "NoDBRowList_t \<Rightarrow> NoDBRow_t \<Rightarrow> NoDBRowList_t" where
  "NoDBRowListAddUnique l row = (if NoDBRowListMember l row then l else row # l)"

definition NoDBRowListArenaAddUnique :: "NoDBRowList_t \<Rightarrow> NoDBRow_t \<Rightarrow> NoDBRowList_t" where
  "NoDBRowListArenaAddUnique l row = (if NoDBRowListMember l row then l else row # l)"

definition NoDBRowListArenaAddSortUnique :: "NoDBRowList_t \<Rightarrow> NoDBRow_t \<Rightarrow> NoDBRowList_t" where
  "NoDBRowListArenaAddSortUnique l row =
     (case l of
        [] \<Rightarrow> [row]
      | r # rest \<Rightarrow>
          if r > row then row # l
          else if r = row then l
          else (case AddSortUnique_scan row [r] rest of
                  None \<Rightarrow> l
                | Some (passed, cur) \<Rightarrow> rev passed @ row # cur))"

section \<open>Membership, sizes and conversions\<close>

lemma NoDBIntListContains_iff [simp]: "NoDBIntListContains l v \<longleftrightarrow> v \<in> set l"
  by (induction l) auto

lemma NoDBColListContains_iff [simp]: "NoDBColListContains l c \<longleftrightarrow> c \<in> set l"
  by (induction l) auto

lemma NoDBRowListMember_iff [simp]: "NoDBRowListMember l r \<longleftrightarrow> r \<in> set l"
  by (induction l) auto

lemma NoDBColListContainsColList_iff [simp]: "NoDBColListContainsColList l s \<longleftrightarrow> set s \<subseteq> set l"
  by (induction s) auto

lemma NoDBListSize_eq [simp]: "NoDBListSize l = int (length l)"
proof -
  have "NoDBListSize_loop l n = n + int (length l)" for n by (induction l arbitrary: n) auto
  then show ?thesis by (simp add: NoDBListSize_def)
qed

lemma NoDBIntListSize_eq [simp]: "NoDBIntListSize l = int (length l)"
proof -
  have "NoDBIntListSize_loop l n = n + int (length l)" for n by (induction l arbitrary: n) auto
  then show ?thesis by (simp add: NoDBIntListSize_def)
qed

lemma NoDBColListSize_eq [simp]: "NoDBColListSize l = int (length l)"
proof -
  have "NoDBColListSize_loop l n = n + int (length l)" for n by (induction l arbitrary: n) auto
  then show ?thesis by (simp add: NoDBColListSize_def)
qed

lemma NoDBRowListSize_eq [simp]: "NoDBRowListSize l = int (length l)"
proof -
  have "NoDBRowListSize_loop l n = n + int (length l)" for n by (induction l arbitrary: n) auto
  then show ?thesis by (simp add: NoDBRowListSize_def)
qed

lemma duplicate_loops:
  "NoDBIntListDuplicate_loop l nl = rev l @ nl"
  "NoDBIntListArenaDuplicate_loop l nl = rev l @ nl"
  "NoDBColListDuplicate_loop m nl = rev m @ nl"
  "NoDBColListArenaDuplicate_loop m nl = rev m @ nl"
  by (induction l arbitrary: nl)
     (simp_all add: NoDBIntListAdd_def NoDBIntListArenaAdd_def,
      (induction m arbitrary: nl; simp add: NoDBColListAdd_def NoDBColListArenaAdd_def)+)

lemma fill_array_eq:
  "length xs = n \<Longrightarrow> fill_array xs (int (length pre)) (map Some pre @ replicate n None) = Some (map Some (pre @ xs))"
proof (induction xs arbitrary: pre n)
  case (Cons x xs)
  have "arr_set (map Some pre @ replicate n None) (int (length pre)) (Some x)
      = Some (map Some (pre @ [x]) @ replicate (length xs) None)"
    using Cons.prems by (auto simp: arr_set_nat list_update_append)
  moreover have "int (length pre) + 1 = int (length (pre @ [x]))" by simp
  ultimately show ?case
    using Cons.IH[of "length xs" "pre @ [x]"] by (simp add: add.commute)
qed simp

lemmas fill_array_fresh = fill_array_eq[where pre = "[]", simplified]

lemma vector_from_list [simp]:
  "NoDBIntVectorFromList l = Some (map Some l)"
  "NoDBIntVectorArenaFromList l = Some (map Some l)"
  "NoDBColVectorFromList l = Some (map Some l)"
  "NoDBColVectorArenaFromList l = Some (map Some l)"
  "NoDBRowVectorFromList r = Some (map Some r)"
  "NoDBRowVectorArenaFromList r = Some (map Some r)"
  using fill_array_fresh[of l "length l"] fill_array_fresh[of r "length r"]
  by (auto simp: NoDBIntVectorFromList_def NoDBIntVectorArenaFromList_def
      NoDBColVectorFromList_def NoDBColVectorArenaFromList_def NoDBColVectorInit_def
      NoDBColVectorArenaInit_def NoDBRowVectorFromList_def NoDBRowVectorArenaFromList_def
      NoDBRowVectorInit_def NoDBRowVectorArenaInit_def)

lemma NoDBColVectorGet_vec [simp]:
  "NoDBColVectorGet (map Some xs) i = arr_get xs i"
  by (auto simp: NoDBColVectorGet_def arr_get_def)

lemma NoDBRowVectorGet_vec [simp]:
  "NoDBRowVectorGet (map Some xs) i = arr_get xs i"
  by (auto simp: NoDBRowVectorGet_def arr_get_def)

lemma vector_size [simp]:
  "NoDBColVectorSize v = int (length v)" "NoDBRowVectorSize r = int (length r)"
  by (simp_all add: NoDBColVectorSize_def NoDBRowVectorSize_def)

section \<open>The contract of duplicate-free insertion\<close>

text \<open>
  Every \<open>AddUnique\<close> and \<open>AddSortUnique\<close> function promises the same: the elements become those of
  the list and the new one, the representation invariant (no duplicates, or strictly ascending)
  is kept, and adding a present element returns the list itself.
\<close>

locale unique_add =
  fixes add :: "'a list \<Rightarrow> 'a \<Rightarrow> 'a list"
    and ok :: "'a list \<Rightarrow> bool"
  assumes ok_Nil: "ok []"
    and ok_distinct: "ok l \<Longrightarrow> distinct l"
    and ok_add: "ok l \<Longrightarrow> ok (add l x)"
    and set_add: "ok l \<Longrightarrow> set (add l x) = insert x (set l)"
    and add_present: "ok l \<Longrightarrow> x \<in> set l \<Longrightarrow> add l x = l"
begin

lemma foldl_add:
  "ok l \<Longrightarrow> ok (foldl add l xs) \<and> set (foldl add l xs) = set l \<union> set xs"
  by (induction xs arbitrary: l) (auto simp: ok_add set_add)

lemma foldl_add_present: "ok l \<Longrightarrow> set xs \<subseteq> set l \<Longrightarrow> foldl add l xs = l"
  by (induction xs arbitrary: l) (auto simp: add_present)

lemma length_foldl_add: "ok l \<Longrightarrow> length (foldl add l xs) = card (set l \<union> set xs)"
  using foldl_add[of l xs] ok_distinct distinct_card by metis

lemma length_add: "ok l \<Longrightarrow> length (add l x) = (if x \<in> set l then length l else Suc (length l))"
  using ok_distinct[of "add l x"] ok_add[of l x] set_add[of l x] ok_distinct[of l]
  by (metis List.finite_set add_present card_insert_disjoint distinct_card)

end

interpretation iau: unique_add NoDBIntListArenaAddUnique distinct
  by unfold_locales (auto simp: NoDBIntListArenaAddUnique_def NoDBIntListArenaAdd_def)

interpretation cau: unique_add NoDBColListAddUnique distinct
  by unfold_locales (auto simp: NoDBColListAddUnique_def NoDBColListAdd_def)

interpretation caau: unique_add NoDBColListArenaAddUnique distinct
  by unfold_locales (auto simp: NoDBColListArenaAddUnique_def NoDBColListArenaAdd_def)

interpretation rau: unique_add NoDBRowListAddUnique distinct
  by unfold_locales (auto simp: NoDBRowListAddUnique_def)

interpretation raau: unique_add NoDBRowListArenaAddUnique distinct
  by unfold_locales (auto simp: NoDBRowListArenaAddUnique_def)

text \<open>
  The sorted insertion, on an ascending list: the scan stops before the first larger element.
\<close>

definition sorted_unique_add :: "'a::linorder list \<Rightarrow> 'a \<Rightarrow> 'a list" where
  "sorted_unique_add l x = takeWhile (\<lambda>c. c < x) l @ (if x \<in> set l then [] else [x]) @ dropWhile (\<lambda>c. c < x) l"

lemma AddSortUnique_scan_eq:
  assumes "sorted_wrt (<) l"
  shows "AddSortUnique_scan x passed l =
    (if x \<in> set l then None
     else Some (rev (takeWhile (\<lambda>c. c < x) l) @ passed, dropWhile (\<lambda>c. c < x) l))"
  using assms
proof (induction l arbitrary: passed)
  case (Cons c l)
  then show ?case by (cases c x rule: linorder_cases) auto
qed simp

lemma dropWhile_less_sorted:
  "sorted_wrt (<) l \<Longrightarrow> (x::'a::linorder) < hd l \<Longrightarrow> l \<noteq> [] \<Longrightarrow> dropWhile (\<lambda>c. c < x) l = l \<and> takeWhile (\<lambda>c. c < x) l = [] \<and> x \<notin> set l"
  by (cases l) auto

lemma NoDBColListArenaAddSortUnique_eq:
  "sorted_wrt (<) l \<Longrightarrow> NoDBColListArenaAddSortUnique l x = sorted_unique_add l x"
  by (cases l)
     (auto simp: NoDBColListArenaAddSortUnique_def sorted_unique_add_def AddSortUnique_scan_eq
        takeWhile_dropWhile_id)

lemma NoDBRowListArenaAddSortUnique_eq:
  "sorted_wrt (<) l \<Longrightarrow> NoDBRowListArenaAddSortUnique l x = sorted_unique_add l x"
  by (cases l)
     (auto simp: NoDBRowListArenaAddSortUnique_def sorted_unique_add_def AddSortUnique_scan_eq
        takeWhile_dropWhile_id)

lemma set_sorted_unique_add: "set (sorted_unique_add l x) = insert x (set l)"
proof -
  have "set l = set (takeWhile (\<lambda>c. c < x) l) \<union> set (dropWhile (\<lambda>c. c < x) l)"
    by (metis set_append takeWhile_dropWhile_id)
  then show ?thesis by (auto simp: sorted_unique_add_def)
qed

lemma sorted_unique_add_Cons:
  "sorted_wrt (<) (c # l) \<Longrightarrow>
   sorted_unique_add (c # l) x =
     (if c < x then c # sorted_unique_add l x else if c = x then c # l else x # c # l)"
  by (auto simp: sorted_unique_add_def)

lemma sorted_sorted_unique_add:
  "sorted_wrt (<) l \<Longrightarrow> sorted_wrt (<) (sorted_unique_add l x)"
proof (induction l)
  case (Cons c l)
  then show ?case
    by (auto simp: sorted_unique_add_Cons set_sorted_unique_add split: if_splits)
qed (simp add: sorted_unique_add_def)

lemma sorted_unique_add_present: "x \<in> set l \<Longrightarrow> sorted_unique_add l x = l"
  by (simp add: sorted_unique_add_def takeWhile_dropWhile_id)

interpretation casu: unique_add NoDBColListArenaAddSortUnique "sorted_wrt (<)"
  by unfold_locales
     (simp_all add: NoDBColListArenaAddSortUnique_eq set_sorted_unique_add sorted_sorted_unique_add
        sorted_unique_add_present sorted_wrt_less_distinct)

interpretation rasu: unique_add NoDBRowListArenaAddSortUnique "sorted_wrt (<)"
  by unfold_locales
     (simp_all add: NoDBRowListArenaAddSortUnique_eq set_sorted_unique_add sorted_sorted_unique_add
        sorted_unique_add_present sorted_wrt_less_distinct)

section \<open>Searching a vector\<close>

lemma NoDBColVectorIndex_loop_eq:
  assumes "0 \<le> i" "i \<le> int (length xs)" "\<forall>j < nat i. xs ! j \<noteq> c"
  shows "NoDBColVectorIndex_loop (map Some xs) c i =
    (if c \<in> set xs then Some (int (LEAST k. xs ! k = c \<and> k < length xs)) else Some (- 1))"
  using assms
proof (induction "map Some xs" c i rule: NoDBColVectorIndex_loop.induct)
  case (1 c i)
  show ?case
  proof (cases "i < int (length xs)")
    case False
    then have "c \<notin> set xs" using "1.prems" by (auto simp: in_set_conv_nth)
    then show ?thesis using False by (subst NoDBColVectorIndex_loop.simps) simp
  next
    case True
    obtain k where k: "i = int k" "k < length xs" using True "1.prems"(1) by (metis int_nat_eq of_nat_less_iff)
    show ?thesis
    proof (cases "xs ! k = c")
      case True
      have "(LEAST k. xs ! k = c \<and> k < length xs) = k"
        using True k "1.prems"(3) by (intro Least_equality) (auto simp: not_less[symmetric])
      moreover have "c \<in> set xs" using True k nth_mem by blast
      ultimately show ?thesis using True k by (subst NoDBColVectorIndex_loop.simps) auto
    next
      case False
      have "\<forall>j < nat (i + 1). xs ! j \<noteq> c" using False k "1.prems"(3) by (auto simp: less_Suc_eq nat_add_distrib)
      then have "NoDBColVectorIndex_loop (map Some xs) c (i + 1) =
          (if c \<in> set xs then Some (int (LEAST k. xs ! k = c \<and> k < length xs)) else Some (- 1))"
        using "1.hyps"[of "xs ! k"] k False by simp
      then show ?thesis using k False by (subst NoDBColVectorIndex_loop.simps) simp
    qed
  qed
qed

lemma NoDBColVectorIndex_nth:
  "distinct xs \<Longrightarrow> k < length xs \<Longrightarrow> NoDBColVectorIndex (map Some xs) (xs ! k) = Some (int k)"
  unfolding NoDBColVectorIndex_def
  by (subst NoDBColVectorIndex_loop_eq) (auto intro!: Least_equality simp: nth_eq_iff_index_eq)

lemma NoDBColVectorIndex_absent:
  "c \<notin> set xs \<Longrightarrow> NoDBColVectorIndex (map Some xs) c = Some (- 1)"
  unfolding NoDBColVectorIndex_def by (subst NoDBColVectorIndex_loop_eq) auto

lemma NoDBColVectorBinarySearch_loop_eq:
  assumes "sorted_wrt (<) xs" "0 \<le> mn" "mn \<le> int (length xs)"
    and "mx = int (length xs) \<or> - 1 \<le> mx \<and> mx + 1 < int (length xs)"
    and "\<forall>j < length xs. int j < mn \<longrightarrow> xs ! j < c"
    and "\<forall>j < length xs. mx < int j \<longrightarrow> c < xs ! j"
  shows "NoDBColVectorBinarySearch_loop (map Some xs) c mn mx =
    (if \<exists>x \<in> set xs. c \<le> x then NoDBColVectorIndex (map Some xs) c else None)"
  using assms
proof (induction "map Some xs" c mn mx rule: NoDBColVectorBinarySearch_loop.induct)
  case (1 c mn mx)
  show ?case
  proof (cases "mn \<le> mx")
    case False
    then have mx: "- 1 \<le> mx" "mx + 1 < int (length xs)" using "1.prems" by auto
    then have "nat (mx + 1) < length xs" by linarith
    then have "xs ! nat (mx + 1) \<in> set xs" "c \<le> xs ! nat (mx + 1)"
      using mx "1.prems"(6)[rule_format, of "nat (mx + 1)"] by auto
    moreover have "c \<notin> set xs"
      using False "1.prems"(5,6) by (force simp: in_set_conv_nth not_le)
    ultimately show ?thesis
      using False by (subst NoDBColVectorBinarySearch_loop.simps) (auto simp: NoDBColVectorIndex_absent)
  next
    case True
    define i where "i = mn + (mx - mn) div 2"
    have i: "mn \<le> i" "i \<le> mx" using True by (auto simp: i_def)
    show ?thesis
    proof (cases "i < int (length xs)")
      case False
      then have "mn = int (length xs)" "mx = int (length xs)"
        using i "1.prems"(3,4) i_def by auto
      moreover from this have "\<not> (\<exists>x \<in> set xs. c \<le> x)"
        using "1.prems"(5) by (force simp: in_set_conv_nth not_le)
      ultimately show ?thesis by (subst NoDBColVectorBinarySearch_loop.simps) (auto simp: arr_get_def)
    next
      case iL: True
      obtain k where k: "i = int k" "k < length xs" using iL i "1.prems"(2) by (metis int_nat_eq of_nat_less_iff order_trans)
      have srt: "\<And>a b. a < b \<Longrightarrow> b < length xs \<Longrightarrow> xs ! a < xs ! b"
        using "1.prems"(1) by (simp add: sorted_wrt_iff_nth_less)
      have step: "NoDBColVectorBinarySearch_loop (map Some xs) c mn mx =
          (if xs ! k < c then NoDBColVectorBinarySearch_loop (map Some xs) c (i + 1) mx
           else if xs ! k > c then NoDBColVectorBinarySearch_loop (map Some xs) c mn (i - 1) else Some i)"
        using True k by (subst NoDBColVectorBinarySearch_loop.simps) (simp add: i_def[symmetric])
      consider "xs ! k < c" | "xs ! k > c" | "xs ! k = c" by linarith
      then show ?thesis
      proof cases
        case 1
        have "\<forall>j < length xs. int j < i + 1 \<longrightarrow> xs ! j < c"
          using srt k 1 by (metis le_less_trans less_imp_of_nat_less linorder_not_less nat_less_le of_nat_less_iff zle_add1_eq_le order.strict_trans)
        then show ?thesis
          using "1.hyps"(1)[of i "xs ! k"] True k 1 step "1.prems" i i_def by auto
      next
        case 2
        have "\<forall>j < length xs. i - 1 < int j \<longrightarrow> c < xs ! j"
          using srt k 2 by (metis diff_less_eq le_less_trans nat_less_le of_nat_less_iff zle_add1_eq_le order.strict_trans of_nat_le_iff)
        then show ?thesis
          using "1.hyps"(2)[of i "xs ! k"] True k 2 step "1.prems" i i_def by auto
      next
        case 3
        then show ?thesis
          using step k NoDBColVectorIndex_nth[of xs k] "1.prems"(1) nth_mem[of k xs]
          by (auto simp: sorted_wrt_less_distinct)
      qed
    qed
  qed
qed

section \<open>Sorting a vector\<close>

lemma comp_insert_insort:
  assumes "\<And>b. b \<in> set ys \<Longrightarrow> the (compar x b) \<le> 0 \<longleftrightarrow> x \<le> b"
  shows "comp_insert compar x ys = insort x ys"
  using assms by (induction ys) auto

lemma foldr_comp_insert:
  assumes "\<And>a b. a \<in> set xs \<Longrightarrow> b \<in> set xs \<Longrightarrow> the (compar a b) \<le> 0 \<longleftrightarrow> a \<le> b"
  shows "foldr (comp_insert compar) xs [] = sort xs"
  using assms
proof (induction xs)
  case (Cons x xs)
  then have "foldr (comp_insert compar) xs [] = sort xs" by simp
  moreover have "comp_insert compar x (sort xs) = insort x (sort xs)"
    using Cons.prems by (intro comp_insert_insort) auto
  ultimately show ?case by simp
qed simp

lemma NoDBQuickSort_sort:
  fixes xs :: "'a::linorder list"
  assumes defd: "\<And>a b. a \<in> set xs \<Longrightarrow> b \<in> set xs \<Longrightarrow> compar a b \<noteq> None"
    and le: "\<And>a b. a \<in> set xs \<Longrightarrow> b \<in> set xs \<Longrightarrow> the (compar a b) \<le> 0 \<longleftrightarrow> a \<le> b"
    and eq: "\<And>a b. a \<in> set xs \<Longrightarrow> b \<in> set xs \<Longrightarrow> the (compar a b) = 0 \<longleftrightarrow> a = b"
  shows "NoDBQuickSort xs compar = Some (sort xs)"
proof -
  have "sgn (the (compar a b)) = - sgn (the (compar b a))" if "a \<in> set xs" "b \<in> set xs" for a b
    using le[OF that] le[OF that(2,1)] eq[OF that] eq[OF that(2,1)]
    by (cases a b rule: linorder_cases) (auto simp: sgn_if)
  moreover have "the (compar a c) \<le> 0"
    if "a \<in> set xs" "b \<in> set xs" "c \<in> set xs" "the (compar a b) \<le> 0" "the (compar b c) \<le> 0" for a b c
    using that le[of a b] le[of b c] le[of a c] by auto
  ultimately have "comp_total xs compar"
    unfolding comp_total_def using defd by blast
  then show ?thesis by (simp add: NoDBQuickSort_def foldr_comp_insert le)
qed

lemma NoDBColVectorSort_vec:
  assumes "\<forall>c \<in> set cs. 0 \<le> c \<and> c < 2 ^ 31"
  shows "NoDBColVectorSort (map Some cs) = Some (map Some (sort cs))"
proof -
  have rng: "- 2147483648 \<le> a - b \<and> a - b < 2147483648" if "a \<in> set cs" "b \<in> set cs" for a b
  proof -
    have "0 \<le> a" "a < 2 ^ 31" "0 \<le> b" "b < 2 ^ 31" using assms that by blast+
    then show ?thesis by simp
  qed
  have "NoDBQuickSort cs NoDBCol_comp = Some (sort cs)"
    by (rule NoDBQuickSort_sort) (simp_all add: NoDBCol_comp_def rng)
  then show ?thesis by (simp add: NoDBColVectorSort_def)
qed

lemma NoDBRow_comp_small:
  assumes "a < 2 ^ 31" "b < 2 ^ 31"
  shows "NoDBRow_comp a b = Some (uint a - uint b)"
proof -
  have ab: "0 \<le> uint a" "uint a < 2 ^ 31" "0 \<le> uint b" "uint b < 2 ^ 31"
    using assms by (simp_all add: word_less_def)
  have d: "uint (a - b) = take_bit 64 (uint a - uint b)"
    by (simp add: uint_word_ariths take_bit_eq_mod)
  have "sint (ucast (a - b) :: 32 word) = signed_take_bit 31 (take_bit 32 (take_bit 64 (uint a - uint b)))"
    by (simp only: sint_uint unsigned_ucast_eq d) simp
  also have "\<dots> = signed_take_bit 31 (uint a - uint b)"
    by (simp add: signed_take_bit_take_bit)
  also have "\<dots> = uint a - uint b"
    using ab by (intro signed_take_bit_int_eq_self) linarith+
  finally show ?thesis by (simp add: NoDBRow_comp_def)
qed

lemma NoDBRowVectorSort_vec:
  assumes "\<forall>r \<in> set rs. r < 2 ^ 31"
  shows "NoDBRowVectorSort (map Some rs) = Some (map Some (sort rs))"
proof -
  have cmp: "NoDBRow_comp a b = Some (uint a - uint b)" if "a \<in> set rs" "b \<in> set rs" for a b
    using assms that by (intro NoDBRow_comp_small) auto
  have "NoDBQuickSort rs NoDBRow_comp = Some (sort rs)"
    by (rule NoDBQuickSort_sort) (simp_all add: cmp word_le_def word_uint_eq_iff)
  then show ?thesis by (simp add: NoDBRowVectorSort_def)
qed

section \<open>Properties\<close>

text \<open>
  C28: On a strictly ascending vector \<open>NoDBColVectorBinarySearch\<close> agrees with the linear search
  \<open>NoDBColVectorIndex\<close> for every column that is not above the largest element. For a column above
  every element (and for an empty vector) it reads one element past the end of the array, because
  the search interval starts with \<open>max = v.size\<close>.
\<close>

theorem col_binary_search:
  assumes "sorted_wrt (<) cs"
  shows "NoDBColVectorBinarySearch (map Some cs) col =
    (if \<exists>c \<in> set cs. col \<le> c then NoDBColVectorIndex (map Some cs) col else None)"
  unfolding NoDBColVectorBinarySearch_def
  using assms by (intro NoDBColVectorBinarySearch_loop_eq) auto

theorem col_binary_search_witness:
  "sorted_wrt (<) [1, 4, 9 :: int] \<and>
   NoDBColVectorBinarySearch [Some 1, Some 4, Some 9] 4 = Some 1 \<and>
   NoDBColVectorBinarySearch [Some 1, Some 4, Some 9] 3 = Some (- 1) \<and>
   NoDBColVectorBinarySearch [Some 1, Some 4, Some 9] 10 = None"
  using col_binary_search[of "[1, 4, 9]" 4] col_binary_search[of "[1, 4, 9]" 3]
    col_binary_search[of "[1, 4, 9]" 10]
    NoDBColVectorIndex_nth[of "[1, 4, 9]" 1] NoDBColVectorIndex_absent[of 3 "[1, 4, 9]"]
  by simp

text \<open>
  The way the strategy iterator uses its column vector: after \<open>NoDBColVectorSort\<close>, every column
  of a duplicate-free vector is found by \<open>NoDBColVectorBinarySearch\<close>, at an index that holds it,
  without a read outside the array.
\<close>

theorem col_sort_then_search:
  assumes "distinct cs" "\<forall>c \<in> set cs. 0 \<le> c \<and> c < 2 ^ 31"
  shows "\<exists>v. NoDBColVectorSort (map Some cs) = Some v \<and> length v = length cs \<and>
    (\<forall>c \<in> set cs. \<exists>i. NoDBColVectorBinarySearch v c = Some i \<and> NoDBColVectorGet v i = Some c)"
proof (rule exI[of _ "map Some (sort cs)"], intro conjI ballI)
  show "NoDBColVectorSort (map Some cs) = Some (map Some (sort cs))"
    by (rule NoDBColVectorSort_vec[OF assms(2)])
  show "length (map Some (sort cs)) = length cs" by simp
  fix c assume c: "c \<in> set cs"
  then have "NoDBColVectorBinarySearch (map Some (sort cs)) c = NoDBColVectorIndex (map Some (sort cs)) c"
    unfolding NoDBColVectorBinarySearch_def
    using assms(1) by (subst NoDBColVectorBinarySearch_loop_eq) (auto simp: strict_sorted_iff)
  moreover obtain k where "k < length (sort cs)" "sort cs ! k = c"
    using c by (metis in_set_conv_nth set_sort)
  ultimately show "\<exists>i. NoDBColVectorBinarySearch (map Some (sort cs)) c = Some i \<and>
      NoDBColVectorGet (map Some (sort cs)) i = Some c"
    using NoDBColVectorIndex_nth[of "sort cs" k] assms(1) by auto
qed

theorem col_sort_then_search_witness:
  "distinct [7, 2, 5 :: int] \<and>
   (\<exists>v. NoDBColVectorSort (map Some [7, 2, 5]) = Some v \<and> length v = 3 \<and>
     (\<exists>i. NoDBColVectorBinarySearch v 7 = Some i \<and> NoDBColVectorGet v i = Some 7))"
  using col_sort_then_search[of "[7, 2, 5]"] by auto

end
