(* ===== verification/NoDB_Relation.thy ===== *)
theory NoDB_Relation
  imports NoDB_Prelude
begin

text \<open>
  The column descriptors of a relation, from
  \<open>src/postgresql-9.6.5/src/backend/noDB/auxiliary/NoDBRelation.c\<close>: an attribute array that grows by
  20 entries when it is full. Entries that were not filled yet are \<open>None\<close>.
\<close>

record NoDBRelationAttr_t =
  attr_size :: int
  byValue :: int

record NoDBRelation_t =
  rel_name :: string
  rel_used :: int
  rel_max :: int
  rel_attrs :: "NoDBRelationAttr_t option list"

definition NODB_RELATION_DEFAULT_NCOLUMNS :: int where
  "NODB_RELATION_DEFAULT_NCOLUMNS = 20"

definition NoDBRelationInit :: "string \<Rightarrow> NoDBRelation_t" where
  "NoDBRelationInit name =
     \<lparr>rel_name = name, rel_used = 0, rel_max = NODB_RELATION_DEFAULT_NCOLUMNS,
      rel_attrs = replicate (nat NODB_RELATION_DEFAULT_NCOLUMNS) None\<rparr>"

text \<open>\<open>NoDBRealloc\<close>: the old contents up to the new size, then indeterminate entries.\<close>

definition realloc_array :: "'a option list \<Rightarrow> nat \<Rightarrow> 'a option list" where
  "realloc_array xs n = take n xs @ replicate (n - length xs) None"

definition NoDBRelationAddColumn :: "NoDBRelation_t \<Rightarrow> int \<Rightarrow> int \<Rightarrow> NoDBRelation_t option" where
  "NoDBRelationAddColumn rel sz bv =
     (let rel = (if rel_used rel = rel_max rel
                 then rel\<lparr>rel_max := rel_max rel + NODB_RELATION_DEFAULT_NCOLUMNS,
                          rel_attrs := realloc_array (rel_attrs rel) (nat (rel_max rel + NODB_RELATION_DEFAULT_NCOLUMNS))\<rparr>
                 else rel) in
      case arr_set (rel_attrs rel) (rel_used rel) (Some \<lparr>attr_size = sz, byValue = bv\<rparr>) of
        None \<Rightarrow> None
      | Some as \<Rightarrow> Some (rel\<lparr>rel_attrs := as, rel_used := rel_used rel + 1\<rparr>))"

definition rel_attr :: "NoDBRelation_t \<Rightarrow> NoDBCol_t \<Rightarrow> NoDBRelationAttr_t option" where
  "rel_attr rel col = (case arr_get (rel_attrs rel) col of None \<Rightarrow> None | Some a \<Rightarrow> a)"

definition NoDBRelationGetColumnSize :: "NoDBRelation_t \<Rightarrow> NoDBCol_t \<Rightarrow> int option" where
  "NoDBRelationGetColumnSize rel col = map_option attr_size (rel_attr rel col)"

definition NoDBRelationIsColumnByValue :: "NoDBRelation_t \<Rightarrow> NoDBCol_t \<Rightarrow> int option" where
  "NoDBRelationIsColumnByValue rel col = map_option byValue (rel_attr rel col)"

definition NoDBRelationGetNumberColumns :: "NoDBRelation_t \<Rightarrow> int" where
  "NoDBRelationGetNumberColumns rel = rel_used rel"

section \<open>The descriptor as the list of its columns\<close>

definition rel_ok :: "NoDBRelation_t \<Rightarrow> (int \<times> int) list \<Rightarrow> bool" where
  "rel_ok rel cols \<longleftrightarrow> rel_used rel = int (length cols) \<and> rel_max rel = int (length (rel_attrs rel)) \<and>
     length cols \<le> length (rel_attrs rel) \<and>
     (\<forall>i < length cols. rel_attrs rel ! i = Some \<lparr>attr_size = fst (cols ! i), byValue = snd (cols ! i)\<rparr>)"

lemma rel_ok_Init: "rel_ok (NoDBRelationInit name) []"
  by (simp add: rel_ok_def NoDBRelationInit_def NODB_RELATION_DEFAULT_NCOLUMNS_def)

lemma realloc_array_grow: "length xs \<le> n \<Longrightarrow> realloc_array xs n = xs @ replicate (n - length xs) None"
  by (simp add: realloc_array_def)

lemma rel_ok_AddColumn:
  assumes "rel_ok rel cols"
  shows "\<exists>rel'. NoDBRelationAddColumn rel sz bv = Some rel' \<and> rel_ok rel' (cols @ [(sz, bv)])"
proof -
  define r where "r = (if rel_used rel = rel_max rel
      then rel\<lparr>rel_max := rel_max rel + NODB_RELATION_DEFAULT_NCOLUMNS,
        rel_attrs := realloc_array (rel_attrs rel) (nat (rel_max rel + NODB_RELATION_DEFAULT_NCOLUMNS))\<rparr>
      else rel)"
  have r: "rel_ok r cols" "length cols < length (rel_attrs r)"
    using assms by (auto simp: r_def rel_ok_def realloc_array_grow NODB_RELATION_DEFAULT_NCOLUMNS_def nth_append nat_add_distrib)
  then have "NoDBRelationAddColumn rel sz bv = Some (r\<lparr>rel_attrs := (rel_attrs r)[length cols := Some \<lparr>attr_size = sz, byValue = bv\<rparr>],
      rel_used := rel_used r + 1\<rparr>)"
    unfolding NoDBRelationAddColumn_def r_def[symmetric] by (simp add: rel_ok_def)
  moreover have "rel_ok (r\<lparr>rel_attrs := (rel_attrs r)[length cols := Some \<lparr>attr_size = sz, byValue = bv\<rparr>],
      rel_used := rel_used r + 1\<rparr>) (cols @ [(sz, bv)])"
    using r by (auto simp: rel_ok_def nth_append nth_list_update less_Suc_eq)
  ultimately show ?thesis by blast
qed

lemma rel_ok_reads:
  assumes "rel_ok rel cols" "i < length cols"
  shows "NoDBRelationGetColumnSize rel (int i) = Some (fst (cols ! i))"
    "NoDBRelationIsColumnByValue rel (int i) = Some (snd (cols ! i))"
  using assms by (simp_all add: rel_ok_def NoDBRelationGetColumnSize_def NoDBRelationIsColumnByValue_def rel_attr_def)

section \<open>Properties\<close>

text \<open>
  A relation descriptor built by any sequence of \<open>NoDBRelationAddColumn\<close> calls, however long,
  never writes outside its attribute array, and afterwards the number of columns and the size and
  by-value flag of every column are the ones added.
\<close>

theorem relation_columns:
  "\<exists>rel. foldM (\<lambda>rel (sz, bv). NoDBRelationAddColumn rel sz bv) (NoDBRelationInit name) cols = Some rel \<and>
     NoDBRelationGetNumberColumns rel = int (length cols) \<and>
     map (\<lambda>i. (NoDBRelationGetColumnSize rel (int i), NoDBRelationIsColumnByValue rel (int i))) [0..<length cols] =
       map (\<lambda>(sz, bv). (Some sz, Some bv)) cols"
proof -
  have "rel_ok rel pre \<Longrightarrow> \<exists>rel'. foldM (\<lambda>rel (sz, bv). NoDBRelationAddColumn rel sz bv) rel cols = Some rel' \<and>
      rel_ok rel' (pre @ cols)" for rel pre
  proof (induction cols arbitrary: rel pre)
    case (Cons c cols)
    obtain rel1 where "NoDBRelationAddColumn rel (fst c) (snd c) = Some rel1" "rel_ok rel1 (pre @ [c])"
      using rel_ok_AddColumn[OF Cons.prems, of "fst c" "snd c"] by auto
    then show ?case using Cons.IH[of rel1 "pre @ [c]"] by (auto simp: case_prod_beta)
  qed simp
  from this[OF rel_ok_Init, of name] obtain rel where rel:
    "foldM (\<lambda>rel (sz, bv). NoDBRelationAddColumn rel sz bv) (NoDBRelationInit name) cols = Some rel" "rel_ok rel cols"
    by auto
  then show ?thesis
    by (intro exI[of _ rel] conjI nth_equalityI)
       (auto simp: rel_ok_reads case_prod_beta NoDBRelationGetNumberColumns_def rel_ok_def[of rel cols])
qed

end
