(* ===== verification/NoDB_Arena.thy ===== *)
theory NoDB_Arena
  imports NoDB_Prelude "HOL-Library.Multiset"
begin

text \<open>
  The arena allocator of \<open>src/postgresql-9.6.5/src/backend/noDB/auxiliary/NoDBArena.c\<close>.

  An address is a natural number and NULL is 0. A block is a region \<open>[base, limit)\<close> that starts with
  its header; \<open>avail\<close> is the next free address in it. The blocks an arena owns form the chain from
  \<open>first[a].next\<close> to \<open>arena[a]\<close>, kept here in that order; the empty chain is the initial state
  \<open>arena[a] = &first[a]\<close>, whose static block has \<open>limit = avail = NULL\<close>. The chain \<open>freeBlocks\<close> is
  shared by the arenas. Sizes are 64-bit words as in C; \<open>sizeof(Align_t)\<close> is 8 and
  \<open>sizeof(Header_t)\<close> is 24.

  \<open>malloc\<close> is a parameter: given a size and the regions the allocator already owns, it returns an
  address. What the allocator relies on is \<open>malloc_fresh\<close>: the region is aligned, not at NULL and
  disjoint from the regions in use.
\<close>

unbundle bit_operations_syntax

datatype NoDBArena_t = NODB_ARENA_STRATEGY | NODB_ARENA_ITERATOR | NODB_ARENA_QUERY | NODB_ARENA_CACHE

record ArenaBlock_t =
  base :: nat
  limit :: nat
  avail :: nat

record arena_state =
  chain :: "NoDBArena_t \<Rightarrow> ArenaBlock_t list"
  freeBlocks :: "ArenaBlock_t list"

definition arena_init :: arena_state where
  "arena_init = \<lparr>chain = (\<lambda>_. []), freeBlocks = []\<rparr>"

fun arenaBlockSize :: "NoDBArena_t \<Rightarrow> 64 word" where
  "arenaBlockSize NODB_ARENA_STRATEGY = 1024 * 1024"
| "arenaBlockSize NODB_ARENA_ITERATOR = 1024 * 1024"
| "arenaBlockSize NODB_ARENA_QUERY = 1024 * 1024"
| "arenaBlockSize NODB_ARENA_CACHE = 16 * 1024 * 1024"

definition sizeof_Align :: "64 word" where "sizeof_Align = 8"

definition sizeof_Header :: "64 word" where "sizeof_Header = 24"

definition RoundUp :: "64 word \<Rightarrow> 64 word \<Rightarrow> 64 word" where
  "RoundUp x n = (x + (n - 1)) AND NOT (n - 1)"

type_synonym region = "nat \<times> nat"

definition block_region :: "ArenaBlock_t \<Rightarrow> region" where
  "block_region b = (base b, limit b)"

definition all_blocks :: "arena_state \<Rightarrow> ArenaBlock_t list" where
  "all_blocks s = chain s NODB_ARENA_STRATEGY @ chain s NODB_ARENA_ITERATOR @
     chain s NODB_ARENA_QUERY @ chain s NODB_ARENA_CACHE @ freeBlocks s"

text \<open>\<open>blk\<close>, the current block: the last of the chain or the static first block.\<close>

definition cur_avail :: "ArenaBlock_t list \<Rightarrow> nat" where
  "cur_avail c = (if c = [] then 0 else avail (last c))"

definition cur_limit :: "ArenaBlock_t list \<Rightarrow> nat" where
  "cur_limit c = (if c = [] then 0 else limit (last c))"

text \<open>
  One round of the while loop of \<open>NoDBArenaAlloc\<close>: the next block comes from \<open>freeBlocks\<close> or from
  \<open>malloc\<close>, its \<open>avail\<close> is reset to the byte behind the header, and it becomes \<open>arena[a]\<close>.
\<close>

definition arena_next_block ::
    "(64 word \<Rightarrow> region list \<Rightarrow> nat) \<Rightarrow> NoDBArena_t \<Rightarrow> 64 word \<Rightarrow> arena_state \<Rightarrow> arena_state" where
  "arena_next_block malloc a sz s =
     (case freeBlocks s of
        b # fs \<Rightarrow>
          s\<lparr>freeBlocks := fs,
            chain := (chain s)(a := chain s a @ [b\<lparr>avail := base b + unat sizeof_Header\<rparr>])\<rparr>
      | [] \<Rightarrow>
          (let m = sizeof_Header + sz + arenaBlockSize a;
               p = malloc m (map block_region (all_blocks s));
               b = \<lparr>base = p, limit = p + unat m, avail = p + unat sizeof_Header\<rparr>
           in s\<lparr>chain := (chain s)(a := chain s a @ [b])\<rparr>))"

partial_function (option) ArenaAlloc_loop ::
    "(64 word \<Rightarrow> region list \<Rightarrow> nat) \<Rightarrow> NoDBArena_t \<Rightarrow> 64 word \<Rightarrow> arena_state \<Rightarrow> arena_state option" where
  "ArenaAlloc_loop malloc a sz s =
     (if cur_avail (chain s a) + unat sz > cur_limit (chain s a)
      then ArenaAlloc_loop malloc a sz (arena_next_block malloc a sz s)
      else Some s)"

definition NoDBArenaAlloc ::
    "(64 word \<Rightarrow> region list \<Rightarrow> nat) \<Rightarrow> arena_state \<Rightarrow> NoDBArena_t \<Rightarrow> 64 word \<Rightarrow> (arena_state \<times> nat) option" where
  "NoDBArenaAlloc malloc s a size0 =
     (let sz = RoundUp size0 sizeof_Align in
      case ArenaAlloc_loop malloc a sz s of
        None \<Rightarrow> None
      | Some s' \<Rightarrow>
          (let c = chain s' a in
           if c = [] then Some (s', cur_avail c)
           else (let blk = last c; blk' = blk\<lparr>avail := avail blk + unat sz\<rparr>
                 in Some (s'\<lparr>chain := (chain s')(a := butlast c @ [blk'])\<rparr>, avail blk' - unat sz))))"

text \<open>
  \<open>NoDBArenaFree\<close> links the last block of the chain to \<open>freeBlocks\<close> and makes the first one its
  head.
\<close>

definition NoDBArenaFree :: "arena_state \<Rightarrow> NoDBArena_t \<Rightarrow> arena_state" where
  "NoDBArenaFree s a =
     s\<lparr>freeBlocks := chain s a @ freeBlocks s, chain := (chain s)(a := [])\<rparr>"

section \<open>What malloc promises, and the invariant of the allocator\<close>

definition apart :: "region \<Rightarrow> region \<Rightarrow> bool" where
  "apart r q \<longleftrightarrow> snd r \<le> fst q \<or> snd q \<le> fst r"

definition malloc_fresh :: "(64 word \<Rightarrow> region list \<Rightarrow> nat) \<Rightarrow> bool" where
  "malloc_fresh malloc \<longleftrightarrow>
     (\<forall>m rs. 0 < malloc m rs \<and> 16 dvd malloc m rs \<and>
        (\<forall>r \<in> set rs. apart (malloc m rs, malloc m rs + unat m) r))"

definition block_ok :: "ArenaBlock_t \<Rightarrow> bool" where
  "block_ok b \<longleftrightarrow> 0 < base b \<and> 8 dvd base b \<and> 8 dvd avail b \<and> base b + 24 \<le> avail b \<and> avail b \<le> limit b"

definition arena_ok :: "arena_state \<Rightarrow> bool" where
  "arena_ok s \<longleftrightarrow> (\<forall>b \<in> set (all_blocks s). block_ok b) \<and> sorted_wrt apart (map block_region (all_blocks s))"

text \<open>The bytes handed out by an arena and not freed since: those between the header and \<open>avail\<close>.\<close>

definition live :: "arena_state \<Rightarrow> NoDBArena_t \<Rightarrow> nat set" where
  "live s a = (\<Union>b \<in> set (chain s a). {base b + 24 ..< avail b})"

datatype arena_op = AllocOp NoDBArena_t "64 word" | FreeOp NoDBArena_t

fun arena_step :: "(64 word \<Rightarrow> region list \<Rightarrow> nat) \<Rightarrow> arena_state \<Rightarrow> arena_op \<Rightarrow> arena_state option" where
  "arena_step malloc s (AllocOp a sz) = map_option fst (NoDBArenaAlloc malloc s a sz)"
| "arena_step malloc s (FreeOp a) = Some (NoDBArenaFree s a)"

text \<open>A concrete \<open>malloc\<close>: the next multiple of 16 behind every region in use.\<close>

definition bump_malloc :: "64 word \<Rightarrow> region list \<Rightarrow> nat" where
  "bump_malloc m rs = (foldr max (map snd rs) 0 div 16 + 1) * 16"

section \<open>Rounding\<close>

lemma and_not_mask: "w AND NOT (mask n) = push_bit n (drop_bit n (w :: 'a::len word))"
  by (rule bit_word_eqI) (auto simp: bit_simps)

lemma RoundUp_Align:
  assumes "unat x + 7 < 2 ^ 64"
  shows "unat (RoundUp x sizeof_Align) = (unat x + 7) div 8 * 8"
proof -
  have "(8 - 1 :: 64 word) = mask 3" by (simp add: mask_eq_exp_minus_1)
  then have r: "RoundUp x sizeof_Align = push_bit 3 (drop_bit 3 (x + 7))"
    by (simp add: RoundUp_def sizeof_Align_def and_not_mask[symmetric])
  have u: "unat (x + 7) = unat x + 7"
    using assms by (subst unat_add_lem[THEN iffD1]) simp_all
  have "take_bit 64 (unat w) = unat w" for w :: "64 word"
    using unsigned_less[of w] by (intro take_bit_nat_eq_self) simp
  then have "unat (push_bit 3 (drop_bit 3 w)) = take_bit 64 (push_bit 3 (drop_bit 3 (unat w)))" for w :: "64 word"
    by (simp add: unsigned_push_bit_eq unsigned_drop_bit_eq)
  then have "unat (RoundUp x sizeof_Align) = take_bit 64 (push_bit 3 (drop_bit 3 (unat x + 7)))"
    using r u by metis
  also have "\<dots> = (unat x + 7) div 8 * 8"
    using assms by (simp add: push_bit_eq_mult drop_bit_eq_div take_bit_nat_eq_self_iff)
  finally show ?thesis .
qed

lemma RoundUp_bounds:
  assumes "unat x \<le> 2 ^ 62"
  shows "unat x \<le> unat (RoundUp x sizeof_Align)" "unat (RoundUp x sizeof_Align) \<le> 2 ^ 62 + 7"
    "8 dvd unat (RoundUp x sizeof_Align)"
proof -
  have "unat x + 7 < 2 ^ 64" using assms by simp
  then have e: "unat (RoundUp x sizeof_Align) = (unat x + 7) div 8 * 8" by (rule RoundUp_Align)
  show "unat x \<le> unat (RoundUp x sizeof_Align)" unfolding e by presburger
  have "(unat x + 7) div 8 * 8 \<le> unat x + 7" by presburger
  then show "unat (RoundUp x sizeof_Align) \<le> 2 ^ 62 + 7" unfolding e using assms by linarith
  show "8 dvd unat (RoundUp x sizeof_Align)" unfolding e by simp
qed

section \<open>Regions\<close>

lemma apart_sym: "apart r q \<Longrightarrow> apart q r"
  by (auto simp: apart_def)

lemma apart_move: "sorted_wrt apart (xs @ x # ys) \<longleftrightarrow> sorted_wrt apart (x # xs @ ys)"
  by (auto simp: sorted_wrt_append apart_sym)

lemma apart_mset: "mset xs = mset ys \<Longrightarrow> sorted_wrt apart xs = sorted_wrt apart ys"
proof (induction xs arbitrary: ys)
  case (Cons x xs)
  then obtain ys1 ys2 where ys: "ys = ys1 @ x # ys2"
    by (metis list.set_intros(1) mset_eq_setD split_list)
  then have "mset xs = mset (ys1 @ ys2)" using Cons.prems by simp
  then have "sorted_wrt apart xs = sorted_wrt apart (ys1 @ ys2)" "set xs = set (ys1 @ ys2)"
    using Cons.IH mset_eq_setD by blast+
  then show ?case unfolding ys apart_move by simp
qed simp

lemma apart_map_mset:
  "mset xs = mset ys \<Longrightarrow> sorted_wrt apart (map f xs) = sorted_wrt apart (map f ys)"
  by (rule apart_mset) simp

lemma apart_disjoint: "apart (a, b) (c, d) \<Longrightarrow> {a..<b} \<inter> {c..<d} = {}"
  by (auto simp: apart_def)

lemma mset_all_blocks_upd:
  "mset (all_blocks (s\<lparr>chain := (chain s)(a := c)\<rparr>)) + mset (chain s a) = mset (all_blocks s) + mset c"
  by (cases a) (simp_all add: all_blocks_def ac_simps)

lemma chain_sub_all_blocks: "set (chain s a) \<subseteq> set (all_blocks s)"
  by (cases a) (auto simp: all_blocks_def)

section \<open>One round of the loop\<close>

lemma arena_next_block_free:
  assumes "freeBlocks s = b # fs"
  shows "mset (map block_region (all_blocks (arena_next_block malloc a sz s))) =
      mset (map block_region (all_blocks s))"
    and "set (all_blocks (arena_next_block malloc a sz s)) \<subseteq>
      insert (b\<lparr>avail := base b + 24\<rparr>) (set (all_blocks s))"
  using assms
  by (cases a; simp add: arena_next_block_def all_blocks_def block_region_def sizeof_Header_def; blast)+

lemma arena_next_block_malloc:
  assumes "freeBlocks s = []" "m = sizeof_Header + sz + arenaBlockSize a"
    "p = malloc m (map block_region (all_blocks s))"
  shows "mset (all_blocks (arena_next_block malloc a sz s)) =
     add_mset \<lparr>base = p, limit = p + unat m, avail = p + 24\<rparr> (mset (all_blocks s))"
proof -
  let ?b = "\<lparr>base = p, limit = p + unat m, avail = p + 24\<rparr>"
  have "arena_next_block malloc a sz s = s\<lparr>chain := (chain s)(a := chain s a @ [?b])\<rparr>"
    using assms by (simp add: arena_next_block_def Let_def) (simp add: sizeof_Header_def)
  then show ?thesis using mset_all_blocks_upd[of s a "chain s a @ [?b]"] by simp
qed

lemma live_next_block: "live (arena_next_block malloc a sz s) x = live s x"
  by (auto simp: live_def arena_next_block_def Let_def sizeof_Header_def split: list.splits)

lemma malloc_size:
  assumes "unat sz \<le> 2 ^ 62 + 7"
  shows "unat (sizeof_Header + sz + arenaBlockSize a) = 24 + unat sz + unat (arenaBlockSize a)"
proof -
  have "unat (sizeof_Header + sz) = 24 + unat sz"
    using assms by (subst unat_add_lem[THEN iffD1]) (simp_all add: sizeof_Header_def)
  moreover have "unat (arenaBlockSize a) \<le> 16777216" by (cases a) simp_all
  ultimately show ?thesis
    using assms by (subst unat_add_lem[THEN iffD1]) simp_all
qed

lemma arena_ok_mset:
  assumes "arena_ok s" "mset (map block_region (all_blocks s')) = mset (map block_region (all_blocks s))"
    "\<forall>b \<in> set (all_blocks s'). block_ok b"
  shows "arena_ok s'"
  using assms apart_mset[OF assms(2)] by (simp add: arena_ok_def)

lemma arena_ok_next_block:
  assumes "arena_ok s" "malloc_fresh malloc" "unat sz \<le> 2 ^ 62 + 7"
  shows "arena_ok (arena_next_block malloc a sz s)"
proof (cases "freeBlocks s")
  case Nil
  define m where "m = sizeof_Header + sz + arenaBlockSize a"
  define p where "p = malloc m (map block_region (all_blocks s))"
  let ?b = "\<lparr>base = p, limit = p + unat m, avail = p + 24\<rparr>"
  have ms: "mset (all_blocks (arena_next_block malloc a sz s)) = mset (?b # all_blocks s)"
    using arena_next_block_malloc[of s m sz a p malloc] Nil m_def p_def by simp
  have "sorted_wrt apart (map block_region (?b # all_blocks s))"
    using assms(1,2) by (simp add: arena_ok_def malloc_fresh_def p_def block_region_def)
  then have "sorted_wrt apart (map block_region (all_blocks (arena_next_block malloc a sz s)))"
    using apart_map_mset[OF ms] by blast
  moreover have "block_ok ?b"
  proof -
    have "16 dvd p" "0 < p" using assms(2) by (simp_all add: malloc_fresh_def p_def)
    then have "8 dvd p" using dvd_trans[of 8 16 p] by simp
    then show ?thesis
      using \<open>0 < p\<close> malloc_size[OF assms(3), of a] by (simp add: block_ok_def m_def)
  qed
  ultimately show ?thesis
    using assms(1) mset_eq_setD[OF ms] by (simp add: arena_ok_def)
next
  case (Cons b fs)
  have "b \<in> set (all_blocks s)" using Cons by (simp add: all_blocks_def)
  then have b: "block_ok b" using assms(1) by (simp add: arena_ok_def)
  show ?thesis
  proof (rule arena_ok_mset[OF assms(1) arena_next_block_free(1)[OF Cons]])
    have "block_ok (b\<lparr>avail := base b + 24\<rparr>)" using b by (auto simp: block_ok_def)
    then show "\<forall>b \<in> set (all_blocks (arena_next_block malloc a sz s)). block_ok b"
      using arena_next_block_free(2)[OF Cons, of malloc a sz] assms(1) unfolding arena_ok_def by blast
  qed
qed

lemma cur_next_block:
  assumes "freeBlocks s = []" "unat sz \<le> 2 ^ 62 + 7"
  shows "cur_avail (chain (arena_next_block malloc a sz s) a) + unat sz \<le>
    cur_limit (chain (arena_next_block malloc a sz s) a)"
  using assms malloc_size[OF assms(2), of a]
  by (simp add: arena_next_block_def Let_def cur_avail_def cur_limit_def) (simp add: sizeof_Header_def)

lemma freeBlocks_next_block: "freeBlocks (arena_next_block malloc a sz s) = tl (freeBlocks s)"
  by (simp add: arena_next_block_def Let_def split: list.split)

section \<open>The loop terminates and keeps the invariant\<close>

lemma ArenaAlloc_loop_ok:
  assumes "arena_ok s" "malloc_fresh malloc" "unat sz \<le> 2 ^ 62 + 7"
  shows "\<exists>s'. ArenaAlloc_loop malloc a sz s = Some s' \<and> arena_ok s' \<and> live s' = live s \<and>
    cur_avail (chain s' a) + unat sz \<le> cur_limit (chain s' a)"
  using assms(1)
proof (induction "length (freeBlocks s)" arbitrary: s)
  case 0
  let ?n = "arena_next_block malloc a sz s"
  have "freeBlocks s = []" using 0 by simp
  then have "ArenaAlloc_loop malloc a sz ?n = Some ?n"
    using cur_next_block[of s sz malloc a] assms(3) by (subst ArenaAlloc_loop.simps) simp
  moreover have "live ?n = live s" by (rule ext) (rule live_next_block)
  ultimately show ?case
    using 0 arena_ok_next_block[OF 0(2) assms(2,3), of a] cur_next_block[of s sz malloc a] assms(3)
    by (subst ArenaAlloc_loop.simps) (auto simp: not_less)
next
  case (Suc n)
  let ?n = "arena_next_block malloc a sz s"
  have "n = length (freeBlocks ?n)" using Suc.hyps(2) by (simp add: freeBlocks_next_block)
  from Suc.hyps(1)[OF this arena_ok_next_block[OF Suc.prems assms(2,3)]]
  obtain s' where "ArenaAlloc_loop malloc a sz ?n = Some s'" "arena_ok s'" "live s' = live ?n"
    "cur_avail (chain s' a) + unat sz \<le> cur_limit (chain s' a)" by blast
  moreover have "live ?n = live s" by (rule ext) (rule live_next_block)
  ultimately show ?case
    using Suc.prems by (subst ArenaAlloc_loop.simps) (auto simp: not_less)
qed

section \<open>The allocated range\<close>

lemma mset_split_last:
  assumes "chain s a = c @ [b]"
  shows "mset (all_blocks s) = mset (b # all_blocks (s\<lparr>chain := (chain s)(a := c)\<rparr>))"
  using mset_all_blocks_upd[of s a c] assms by simp

lemma last_block_free:
  assumes ok: "arena_ok s" and c: "chain s a = c @ [b]"
  shows "{avail b..<limit b} \<inter> live s x = {}"
proof -
  let ?r = "s\<lparr>chain := (chain s)(a := c)\<rparr>"
  have "sorted_wrt apart (map block_region (b # all_blocks ?r))"
    using ok apart_map_mset[OF mset_split_last[OF c], of block_region] by (simp add: arena_ok_def)
  then have ap: "\<forall>b' \<in> set (all_blocks ?r). apart (base b, limit b) (base b', limit b')"
    by (simp add: block_region_def)
  have b: "block_ok b" using ok c chain_sub_all_blocks[of s a] by (auto simp: arena_ok_def)
  have "live s x \<subseteq> (\<Union>b' \<in> set (chain ?r x). {base b' + 24..<avail b'}) \<union> {base b + 24..<avail b}"
    using c by (simp add: live_def)
  moreover have "{avail b..<limit b} \<inter> {base b' + 24..<avail b'} = {}" if "b' \<in> set (chain ?r x)" for b'
  proof -
    have "b' \<in> set (all_blocks ?r)" using that chain_sub_all_blocks by blast
    moreover have "set (all_blocks ?r) \<subseteq> set (all_blocks s)"
      using mset_eq_setD[OF mset_split_last[OF c]] by auto
    ultimately have "apart (base b, limit b) (base b', limit b')" "block_ok b'"
      using ap ok by (auto simp: arena_ok_def)
    then show ?thesis using b by (auto simp: apart_def block_ok_def)
  qed
  then have "{avail b..<limit b} \<inter> (\<Union>b' \<in> set (chain ?r x). {base b' + 24..<avail b'}) = {}" by blast
  moreover have "{avail b..<limit b} \<inter> {base b + 24..<avail b} = {}" by (simp add: disjoint_iff)
  ultimately show ?thesis by blast
qed

lemma arena_ok_bump:
  assumes ok: "arena_ok s" and c: "chain s a = c @ [b]" and k: "8 dvd k" "avail b + k \<le> limit b"
  shows "arena_ok (s\<lparr>chain := (chain s)(a := c @ [b\<lparr>avail := avail b + k\<rparr>])\<rparr>)" (is "arena_ok ?s")
proof (rule arena_ok_mset[OF ok])
  let ?r = "s\<lparr>chain := (chain s)(a := c)\<rparr>"
  have ms: "mset (all_blocks ?s) = mset (b\<lparr>avail := avail b + k\<rparr> # all_blocks ?r)"
    using mset_split_last[of ?s a c] by simp
  show "mset (map block_region (all_blocks ?s)) = mset (map block_region (all_blocks s))"
    using ms mset_split_last[OF c] by (simp add: block_region_def)
  have "set (all_blocks ?s) = insert (b\<lparr>avail := avail b + k\<rparr>) (set (all_blocks ?r))"
    "set (all_blocks s) = insert b (set (all_blocks ?r))"
    using mset_eq_setD[OF ms] mset_eq_setD[OF mset_split_last[OF c]] by simp_all
  then show "\<forall>b \<in> set (all_blocks ?s). block_ok b"
    using ok k by (auto simp: arena_ok_def block_ok_def)
qed

lemma malloc_fresh_bump: "malloc_fresh bump_malloc"
proof -
  have "r \<in> set rs \<Longrightarrow> snd r \<le> foldr max (map snd rs) 0" for r and rs :: "region list"
    by (induction rs) auto
  moreover have "n \<le> (n div 16 + 1) * 16" for n :: nat by presburger
  ultimately show ?thesis
    unfolding malloc_fresh_def bump_malloc_def apart_def by (fastforce intro: order_trans)
qed

lemma NoDBArenaAlloc_ok:
  assumes ok: "arena_ok s" and fresh: "malloc_fresh malloc" and sz: "unat size0 \<le> 2 ^ 62"
  shows "\<exists>s' p. NoDBArenaAlloc malloc s a size0 = Some (s', p) \<and> arena_ok s' \<and> 8 dvd p \<and>
    (0 < unat size0 \<longrightarrow> 0 < p) \<and>
    {p ..< p + unat (RoundUp size0 sizeof_Align)} \<inter> (\<Union>x. live s x) = {} \<and>
    live s' = (live s)(a := live s a \<union> {p ..< p + unat (RoundUp size0 sizeof_Align)})"
proof -
  let ?sz = "RoundUp size0 sizeof_Align"
  note rb = RoundUp_bounds[OF sz]
  obtain s1 where s1: "ArenaAlloc_loop malloc a ?sz s = Some s1" "arena_ok s1" "live s1 = live s"
    "cur_avail (chain s1 a) + unat ?sz \<le> cur_limit (chain s1 a)"
    using ArenaAlloc_loop_ok[OF ok fresh rb(2)] by blast
  show ?thesis
  proof (cases "chain s1 a" rule: rev_cases)
    case Nil
    then have z: "unat ?sz = 0" using s1(4) by (simp add: cur_avail_def cur_limit_def)
    then have "unat size0 = 0" using rb(1) by simp
    then show ?thesis
      using s1 Nil z by (auto simp: NoDBArenaAlloc_def cur_avail_def)
  next
    case (snoc c b)
    let ?s = "s1\<lparr>chain := (chain s1)(a := c @ [b\<lparr>avail := avail b + unat ?sz\<rparr>])\<rparr>"
    have b: "block_ok b" using s1(2) snoc chain_sub_all_blocks[of s1 a] by (auto simp: arena_ok_def)
    have lim: "avail b + unat ?sz \<le> limit b" using s1(4) snoc by (simp add: cur_avail_def cur_limit_def)
    have "NoDBArenaAlloc malloc s a size0 = Some (?s, avail b)"
      using s1(1) snoc by (simp add: NoDBArenaAlloc_def Let_def)
    moreover have "arena_ok ?s" by (rule arena_ok_bump[OF s1(2) snoc rb(3) lim])
    moreover have "{avail b ..< avail b + unat ?sz} \<inter> (\<Union>x. live s x) = {}"
      using last_block_free[OF s1(2) snoc] lim s1(3) by fastforce
    moreover have "live ?s = (live s)(a := live s a \<union> {avail b ..< avail b + unat ?sz})"
    proof
      fix x
      have "{base b + 24..<avail b + unat ?sz} = {base b + 24..<avail b} \<union> {avail b..<avail b + unat ?sz}"
        using b by (auto simp: block_ok_def)
      then show "live ?s x = ((live s)(a := live s a \<union> {avail b ..< avail b + unat ?sz})) x"
        using snoc s1(3)[symmetric] by (simp add: live_def Un_ac)
    qed
    ultimately show ?thesis using b by (auto simp: block_ok_def)
  qed
qed

lemma NoDBArenaFree_ok:
  assumes "arena_ok s"
  shows "arena_ok (NoDBArenaFree s a)"
    and "mset (all_blocks (NoDBArenaFree s a)) = mset (all_blocks s)"
    and "live (NoDBArenaFree s a) = (live s)(a := {})"
proof -
  show ms: "mset (all_blocks (NoDBArenaFree s a)) = mset (all_blocks s)"
    by (cases a) (simp_all add: NoDBArenaFree_def all_blocks_def ac_simps)
  show "arena_ok (NoDBArenaFree s a)"
    using assms apart_map_mset[OF ms, of block_region] mset_eq_setD[OF ms] by (simp add: arena_ok_def)
  show "live (NoDBArenaFree s a) = (live s)(a := {})"
    by (rule ext) (simp add: live_def NoDBArenaFree_def)
qed

section \<open>Properties\<close>



text \<open>
  C27: Every sequence of allocations and frees, on any of the four arenas and starting from the
  initial state, runs to completion, and afterwards all blocks are well-formed and pairwise
  disjoint; freeing an arena gives back exactly its blocks (none is lost or duplicated), leaves
  nothing of it handed out, and does not touch the others.
\<close>

theorem arena_run_ok:
  assumes "malloc_fresh malloc" "\<forall>a size0. AllocOp a size0 \<in> set ops \<longrightarrow> unat size0 \<le> 2 ^ 62"
  shows "\<exists>s. foldM (arena_step malloc) arena_init ops = Some s \<and> arena_ok s \<and>
    (\<forall>a. arena_step malloc s (FreeOp a) = Some (NoDBArenaFree s a) \<and>
       mset (all_blocks (NoDBArenaFree s a)) = mset (all_blocks s) \<and>
       live (NoDBArenaFree s a) = (live s)(a := {}))"
proof -
  have "arena_ok s \<Longrightarrow> \<forall>a size0. AllocOp a size0 \<in> set ops \<longrightarrow> unat size0 \<le> 2 ^ 62 \<Longrightarrow>
      \<exists>s'. foldM (arena_step malloc) s ops = Some s' \<and> arena_ok s'" for s ops
  proof (induction ops arbitrary: s)
    case (Cons op ops)
    have "\<exists>s1. arena_step malloc s op = Some s1 \<and> arena_ok s1"
      using NoDBArenaAlloc_ok[OF Cons.prems(1) assms(1)] NoDBArenaFree_ok(1)[OF Cons.prems(1)] Cons.prems(2)
      by (cases op) fastforce+
    then show ?case using Cons.IH Cons.prems(2) by fastforce
  qed simp
  moreover have "arena_ok arena_init" by (simp add: arena_ok_def arena_init_def all_blocks_def)
  ultimately obtain s where "foldM (arena_step malloc) arena_init ops = Some s" "arena_ok s"
    using assms(2) by blast
  then show ?thesis using NoDBArenaFree_ok(2,3) by simp
qed

theorem arena_run_ok_witness:
  "\<exists>s. foldM (arena_step bump_malloc) arena_init
       [AllocOp NODB_ARENA_QUERY 100, AllocOp NODB_ARENA_CACHE 8, FreeOp NODB_ARENA_QUERY, AllocOp NODB_ARENA_STRATEGY 3] = Some s \<and>
     arena_ok s \<and> live (NoDBArenaFree s NODB_ARENA_CACHE) NODB_ARENA_CACHE = {}"
  using arena_run_ok[OF malloc_fresh_bump, of "[AllocOp NODB_ARENA_QUERY 100, AllocOp NODB_ARENA_CACHE 8,
      FreeOp NODB_ARENA_QUERY, AllocOp NODB_ARENA_STRATEGY 3]"]
  by (auto simp del: foldM.simps arena_step.simps)

end
