(* ===== verification/NoDB_Cache.thy ===== *)
theory NoDB_Cache
  imports NoDB_Lists NoDB_Relation NoDB_Arena
begin

text \<open>
  The caches of \<open>src/postgresql-9.6.5/src/backend/noDB/NoDBCache.c\<close>: a buffer of fixed-size rows, each
  row divided into partitions that columns are placed in (first fit). Data caches hold datums,
  position caches hold positions in the raw file.

  The model keeps the C fields. \<open>c_cols\<close>, \<open>c_offset\<close> and \<open>c_map\<close> are the three arrays (the length of
  \<open>c_cols\<close> is \<open>nCols\<close>, that of \<open>c_map\<close> is \<open>nMap\<close>, and a NULL map is the empty one), \<open>c_list\<close> is the
  partition chain, \<open>c_buf\<close> is \<open>None\<close> for NULL and else the bytes, each \<open>None\<close> until written.
  \<open>c_nRows\<close> and \<open>c_sizeOfHeader\<close> are \<open>None\<close> until their setter runs, because \<open>NoDBCacheInit\<close> leaves
  them unset. Row counts and offsets are 64-bit words; \<open>rowSize\<close>, \<open>rowFree\<close> and the partition sizes
  (C \<open>unsigned int\<close>) are natural numbers, as only guarded subtractions occur on them.
\<close>

section \<open>Types\<close>

datatype NoDBCacheType_t = NODB_DATA_CACHE | NODB_POSITIONS_CACHE

record NoDBRowPartition_t =
  used :: bool
  psize :: nat

record NoDBCache_t =
  c_rel :: nat                             \<comment> \<open>the relation, by its address\<close>
  c_type :: NoDBCacheType_t
  c_startRow :: NoDBRow_t
  c_usedRows :: NoDBRow_t
  c_nRows :: "NoDBRow_t option"
  c_startOffset :: NoDBRow_t
  c_rowSize :: nat
  c_rowFree :: nat
  c_cols :: "NoDBCol_t option list"
  c_usedCols :: nat
  c_offset :: "int list"
  c_map :: "int list"
  c_list :: "NoDBRowPartition_t list"
  c_buf :: "byte option list option"
  c_sizeOfHeader :: "32 word option"

record NoDBDatum_t =
  datum :: "64 word"
  null :: bool

record NoDBPMPair_t =
  pointer :: "16 word"
  width :: "16 word"

section \<open>Life cycle, partitions and columns\<close>

definition NODB_CACHE_DEFAULT_NCOLUMNS :: nat where
  "NODB_CACHE_DEFAULT_NCOLUMNS = 1"

definition NoDBCacheInit ::
    "nat \<Rightarrow> NoDBRelation_t \<Rightarrow> NoDBCacheType_t \<Rightarrow> NoDBRow_t \<Rightarrow> nat \<Rightarrow> NoDBCache_t" where
  "NoDBCacheInit relp rel typ startRow rowSize =
     \<lparr>c_rel = relp, c_type = typ, c_startRow = startRow, c_usedRows = 0, c_nRows = None,
      c_startOffset = of_nat rowSize * startRow, c_rowSize = rowSize, c_rowFree = rowSize,
      c_cols = replicate NODB_CACHE_DEFAULT_NCOLUMNS (Some (-1)), c_usedCols = 0,
      c_offset = replicate (nat (NoDBRelationGetNumberColumns rel)) (-1), c_map = [],
      c_list = [\<lparr>used = False, psize = rowSize\<rparr>], c_buf = None, c_sizeOfHeader = None\<rparr>"

definition NoDBCacheGetType :: "NoDBCache_t \<Rightarrow> NoDBCacheType_t" where
  "NoDBCacheGetType cache = c_type cache"

definition NoDBCacheGetFreeSize :: "NoDBCache_t \<Rightarrow> nat" where
  "NoDBCacheGetFreeSize cache = c_rowFree cache"

definition NoDBCacheCanGrow :: "NoDBCache_t \<Rightarrow> NoDBRow_t \<Rightarrow> bool" where
  "NoDBCacheCanGrow cache row = (c_startRow cache \<le> row)"

text \<open>The partition found is returned by its index in the chain, with its offset in the row.\<close>

fun FindFirstPartitionFit_loop ::
    "NoDBRowPartition_t list \<Rightarrow> nat \<Rightarrow> nat \<Rightarrow> int \<Rightarrow> (nat \<times> int) option" where
  "FindFirstPartitionFit_loop [] sz i offset = None"
| "FindFirstPartitionFit_loop (cur # next) sz i offset =
     (if psize cur \<ge> sz \<and> \<not> used cur then Some (i, offset)
      else FindFirstPartitionFit_loop next sz (i + 1) (offset + int (psize cur)))"

definition FindFirstPartitionFit :: "NoDBRowPartition_t list \<Rightarrow> nat \<Rightarrow> (nat \<times> int) option" where
  "FindFirstPartitionFit l sz = FindFirstPartitionFit_loop l sz 0 0"

definition SplitPartition :: "NoDBRowPartition_t list \<Rightarrow> nat \<Rightarrow> nat \<Rightarrow> NoDBRowPartition_t list" where
  "SplitPartition l i sz =
     take i l @ [(l ! i)\<lparr>psize := sz\<rparr>, \<lparr>used = False, psize = psize (l ! i) - sz\<rparr>] @ drop (i + 1) l"

definition mark_used :: "NoDBRowPartition_t list \<Rightarrow> nat \<Rightarrow> NoDBRowPartition_t list" where
  "mark_used l i = l[i := (l ! i)\<lparr>used := True\<rparr>]"

definition NoDBCacheAddColumn :: "NoDBCache_t \<Rightarrow> NoDBCol_t \<Rightarrow> nat \<Rightarrow> (NoDBCache_t \<times> int) option" where
  "NoDBCacheAddColumn cache col sz =
     (if c_rowFree cache < sz then Some (cache, 0)
      else
        (let cache = (if col \<ge> int (length (c_map cache))
                      then cache\<lparr>c_map := c_map cache @ replicate (nat (col + 1) - length (c_map cache)) (-1)\<rparr>
                      else cache) in
         case arr_get (c_map cache) col of
           None \<Rightarrow> None
         | Some m \<Rightarrow>
             if m \<noteq> -1 then Some (cache, 0)
             else
               (case FindFirstPartitionFit (c_list cache) sz of
                  None \<Rightarrow> Some (cache, 0)
                | Some (i, offset) \<Rightarrow>
                    (let l = (if psize (c_list cache ! i) = sz then mark_used (c_list cache) i
                              else mark_used (SplitPartition (c_list cache) i sz) i);
                         cs = (if c_usedCols cache = length (c_cols cache)
                               then c_cols cache @ replicate NODB_CACHE_DEFAULT_NCOLUMNS None
                               else c_cols cache) in
                     do {
                       cs' \<leftarrow> arr_set cs (int (c_usedCols cache)) (Some col);
                       offs \<leftarrow> arr_set (c_offset cache) col offset;
                       m' \<leftarrow> arr_set (c_map cache) col (int (c_usedCols cache + 1));
                       Some (cache\<lparr>c_list := l, c_cols := cs', c_usedCols := c_usedCols cache + 1,
                                   c_offset := offs, c_map := m', c_rowFree := c_rowFree cache - sz\<rparr>, 1)
                     }))))"

function FindPartition_loop :: "NoDBRowPartition_t list \<Rightarrow> nat \<Rightarrow> int \<Rightarrow> nat option" where
  "FindPartition_loop l i offset =
     (if offset > 0 then
        (if i < length l then FindPartition_loop l (i + 1) (offset - int (psize (l ! i))) else None)
      else Some i)"
  by pat_completeness auto
termination
  by (relation "measure (\<lambda>(l, i, offset). length l - i)") auto

declare FindPartition_loop.simps [simp del]

definition FindPartition :: "NoDBRowPartition_t list \<Rightarrow> int \<Rightarrow> nat option" where
  "FindPartition l offset = FindPartition_loop l 0 offset"

definition DeletePartition :: "NoDBRowPartition_t list \<Rightarrow> nat \<Rightarrow> NoDBRowPartition_t list" where
  "DeletePartition l i =
     (if i + 1 < length l \<and> \<not> used (l ! (i + 1))
      then take i l @ [(l ! i)\<lparr>psize := psize (l ! i) + psize (l ! (i + 1))\<rparr>] @ drop (i + 2) l
      else l)"

definition NoDBCacheDeleteColumn :: "NoDBCache_t \<Rightarrow> NoDBCol_t \<Rightarrow> nat \<Rightarrow> NoDBCache_t option" where
  "NoDBCacheDeleteColumn cache col sz =
     do {
       pos \<leftarrow> arr_get (c_map cache) col;
       offset \<leftarrow> arr_get (c_offset cache) col;
       cs \<leftarrow> foldM (\<lambda>cs i. do { v \<leftarrow> arr_get cs (i + 1); arr_set cs i v }) (c_cols cache)
               [pos..int (c_usedCols cache) - 1];
       cs \<leftarrow> arr_set cs (int (c_usedCols cache) - 1) (Some (-1));
       offs \<leftarrow> arr_set (c_offset cache) col (-1);
       m \<leftarrow> foldM (\<lambda>m i. do { oc \<leftarrow> arr_get cs (int i); c \<leftarrow> oc; arr_set m c (int i) })
              (replicate (length (c_map cache)) (-1)) [0..<c_usedCols cache - 1];
       i \<leftarrow> FindPartition (c_list cache) offset;
       (if i < length (c_list cache) then
          (let l = (c_list cache)[i := (c_list cache ! i)\<lparr>used := False\<rparr>] in
           Some (cache\<lparr>c_cols := cs, c_usedCols := c_usedCols cache - 1, c_offset := offs, c_map := m,
                       c_list := DeletePartition l i, c_rowFree := c_rowFree cache + sz\<rparr>))
        else None)
     }"

definition NoDBCacheHasColumn :: "NoDBCache_t \<Rightarrow> NoDBCol_t \<Rightarrow> bool option" where
  "NoDBCacheHasColumn cache col =
     (if int (length (c_map cache)) > col then map_option (\<lambda>m. m \<noteq> -1) (arr_get (c_map cache) col)
      else Some False)"

definition NoDBCacheHasRow :: "NoDBCache_t \<Rightarrow> NoDBRow_t \<Rightarrow> bool" where
  "NoDBCacheHasRow cache row = (row \<ge> c_startRow cache \<and> row < c_startRow cache + c_usedRows cache)"

definition NoDBCacheGetRelation :: "NoDBCache_t \<Rightarrow> nat" where
  "NoDBCacheGetRelation cache = c_rel cache"

definition NoDBCacheGetBegin :: "NoDBCache_t \<Rightarrow> NoDBRow_t" where
  "NoDBCacheGetBegin cache = c_startRow cache"

definition NoDBCacheGetUsedRows :: "NoDBCache_t \<Rightarrow> NoDBRow_t" where
  "NoDBCacheGetUsedRows cache = c_usedRows cache"

definition NoDBCacheSetUsedRows :: "NoDBCache_t \<Rightarrow> NoDBRow_t \<Rightarrow> NoDBCache_t" where
  "NoDBCacheSetUsedRows cache usedRows = cache\<lparr>c_usedRows := usedRows\<rparr>"

definition NoDBCacheGetHeaderSize :: "NoDBCache_t \<Rightarrow> NoDBRow_t option" where
  "NoDBCacheGetHeaderSize cache = map_option ucast (c_sizeOfHeader cache)"

definition NoDBCacheSetHeaderSize :: "NoDBCache_t \<Rightarrow> NoDBRow_t \<Rightarrow> NoDBCache_t" where
  "NoDBCacheSetHeaderSize cache headerSize = cache\<lparr>c_sizeOfHeader := Some (ucast headerSize)\<rparr>"

definition NoDBCacheGetMaxRows :: "NoDBCache_t \<Rightarrow> NoDBRow_t option" where
  "NoDBCacheGetMaxRows cache = c_nRows cache"

definition buf_bytes :: "NoDBCache_t \<Rightarrow> NoDBRow_t \<Rightarrow> nat" where
  "buf_bytes cache rows = unat (rows * of_nat (c_rowSize cache) :: 64 word)"

definition NoDBCacheSetMaxRows :: "NoDBCache_t \<Rightarrow> NoDBRow_t \<Rightarrow> NoDBCache_t option" where
  "NoDBCacheSetMaxRows cache maxRows =
     (case c_buf cache of
        None \<Rightarrow> Some (cache\<lparr>c_nRows := Some maxRows, c_buf := Some (replicate (buf_bytes cache maxRows) None)\<rparr>)
      | Some b \<Rightarrow>
          do {
            n \<leftarrow> c_nRows cache;
            (if maxRows \<le> n then Some cache
             else Some (cache\<lparr>c_nRows := Some maxRows, c_buf := Some (realloc_array b (buf_bytes cache maxRows))\<rparr>))
          })"

definition NoDBCacheGrow :: "NoDBCache_t \<Rightarrow> NoDBRow_t \<Rightarrow> NoDBCache_t option" where
  "NoDBCacheGrow cache row = NoDBCacheSetMaxRows cache (row - c_startRow cache + 1)"

definition NoDBCacheHit :: "NoDBCache_t \<Rightarrow> nat \<Rightarrow> NoDBCol_t \<Rightarrow> NoDBRow_t \<Rightarrow> bool option" where
  "NoDBCacheHit cache relp col row =
     (if c_rel cache = relp then
        map_option (\<lambda>h. h \<and> row \<ge> c_startRow cache \<and> row < c_startRow cache + c_usedRows cache)
          (NoDBCacheHasColumn cache col)
      else Some False)"

section \<open>Cells\<close>

definition ComputeOffset :: "NoDBCache_t \<Rightarrow> NoDBCol_t \<Rightarrow> NoDBRow_t \<Rightarrow> 64 word option" where
  "ComputeOffset cache col row =
     map_option (\<lambda>off. row * of_nat (c_rowSize cache) - c_startOffset cache + of_int off) (arr_get (c_offset cache) col)"

text \<open>The address \<open>buf + offset\<close>, given by the offset; NULL plus an offset is undefined.\<close>

definition NoDBCacheGetOffset :: "NoDBCache_t \<Rightarrow> NoDBCol_t \<Rightarrow> NoDBRow_t \<Rightarrow> 64 word option" where
  "NoDBCacheGetOffset cache col row =
     (case c_buf cache of None \<Rightarrow> None | Some b \<Rightarrow> ComputeOffset cache col row)"

definition bytes_write :: "byte option list \<Rightarrow> nat \<Rightarrow> byte list \<Rightarrow> byte option list option" where
  "bytes_write b off bs =
     (if off + length bs \<le> length b then Some (take off b @ map Some bs @ drop (off + length bs) b) else None)"

definition bytes_read :: "byte option list \<Rightarrow> nat \<Rightarrow> nat \<Rightarrow> byte list option" where
  "bytes_read b off n = (if off + n \<le> length b then those (take n (drop off b)) else None)"

definition cell_set :: "('v \<Rightarrow> byte list) \<Rightarrow> NoDBCache_t \<Rightarrow> NoDBCol_t \<Rightarrow> NoDBRow_t \<Rightarrow> 'v \<Rightarrow> NoDBCache_t option" where
  "cell_set enc cache col row val =
     do {
       off \<leftarrow> NoDBCacheGetOffset cache col row;
       b \<leftarrow> c_buf cache;
       b' \<leftarrow> bytes_write b (unat off) (enc val);
       Some (cache\<lparr>c_buf := Some b'\<rparr>)
     }"

definition cell_get :: "(byte list \<Rightarrow> 'v) \<Rightarrow> nat \<Rightarrow> NoDBCache_t \<Rightarrow> NoDBCol_t \<Rightarrow> NoDBRow_t \<Rightarrow> 'v option" where
  "cell_get dec n cache col row =
     do {
       off \<leftarrow> NoDBCacheGetOffset cache col row;
       b \<leftarrow> c_buf cache;
       map_option dec (bytes_read b (unat off) n)
     }"

text \<open>Little-endian representation of a word in memory.\<close>

fun enc_word :: "nat \<Rightarrow> 'a::len word \<Rightarrow> byte list" where
  "enc_word 0 w = []"
| "enc_word (Suc n) w = ucast w # enc_word n (drop_bit 8 w)"

fun dec_word :: "byte list \<Rightarrow> 'a::len word" where
  "dec_word [] = 0"
| "dec_word (b # bs) = ucast b OR push_bit 8 (dec_word bs)"

definition NoDBCacheSetChar :: "NoDBCache_t \<Rightarrow> NoDBCol_t \<Rightarrow> NoDBRow_t \<Rightarrow> 8 word \<Rightarrow> NoDBCache_t option" where
  "NoDBCacheSetChar = cell_set (enc_word 1)"

definition NoDBCacheGetChar :: "NoDBCache_t \<Rightarrow> NoDBCol_t \<Rightarrow> NoDBRow_t \<Rightarrow> 8 word option" where
  "NoDBCacheGetChar = cell_get dec_word 1"

definition NoDBCacheSetShortInt :: "NoDBCache_t \<Rightarrow> NoDBCol_t \<Rightarrow> NoDBRow_t \<Rightarrow> 16 word \<Rightarrow> NoDBCache_t option" where
  "NoDBCacheSetShortInt = cell_set (enc_word 2)"

definition NoDBCacheGetShortInt :: "NoDBCache_t \<Rightarrow> NoDBCol_t \<Rightarrow> NoDBRow_t \<Rightarrow> 16 word option" where
  "NoDBCacheGetShortInt = cell_get dec_word 2"

definition NoDBCacheSetInt :: "NoDBCache_t \<Rightarrow> NoDBCol_t \<Rightarrow> NoDBRow_t \<Rightarrow> 32 word \<Rightarrow> NoDBCache_t option" where
  "NoDBCacheSetInt = cell_set (enc_word 4)"

definition NoDBCacheGetInt :: "NoDBCache_t \<Rightarrow> NoDBCol_t \<Rightarrow> NoDBRow_t \<Rightarrow> 32 word option" where
  "NoDBCacheGetInt = cell_get dec_word 4"

text \<open>A double is its 64-bit pattern; a C bool is one byte.\<close>

definition NoDBCacheSetDouble :: "NoDBCache_t \<Rightarrow> NoDBCol_t \<Rightarrow> NoDBRow_t \<Rightarrow> 64 word \<Rightarrow> NoDBCache_t option" where
  "NoDBCacheSetDouble = cell_set (enc_word 8)"

definition NoDBCacheGetDouble :: "NoDBCache_t \<Rightarrow> NoDBCol_t \<Rightarrow> NoDBRow_t \<Rightarrow> 64 word option" where
  "NoDBCacheGetDouble = cell_get dec_word 8"

definition enc_bool :: "bool \<Rightarrow> byte list" where "enc_bool b = [if b then 1 else 0]"

definition dec_bool :: "byte list \<Rightarrow> bool" where "dec_bool bs = (bs \<noteq> [0])"

definition NoDBCacheSetBool :: "NoDBCache_t \<Rightarrow> NoDBCol_t \<Rightarrow> NoDBRow_t \<Rightarrow> bool \<Rightarrow> NoDBCache_t option" where
  "NoDBCacheSetBool = cell_set enc_bool"

definition NoDBCacheGetBool :: "NoDBCache_t \<Rightarrow> NoDBCol_t \<Rightarrow> NoDBRow_t \<Rightarrow> bool option" where
  "NoDBCacheGetBool = cell_get dec_bool 1"

definition NoDBCacheSetStringVal ::
    "NoDBCache_t \<Rightarrow> NoDBCol_t \<Rightarrow> NoDBRow_t \<Rightarrow> byte list \<Rightarrow> nat \<Rightarrow> NoDBCache_t option" where
  "NoDBCacheSetStringVal cache col row val len =
     (if len \<le> length val then cell_set id cache col row (take len val) else None)"

definition NoDBCacheGetStringVal :: "NoDBCache_t \<Rightarrow> NoDBCol_t \<Rightarrow> NoDBRow_t \<Rightarrow> 64 word option" where
  "NoDBCacheGetStringVal cache col row = NoDBCacheGetOffset cache col row"

definition NoDBCacheSetDatum :: "NoDBCache_t \<Rightarrow> NoDBCol_t \<Rightarrow> NoDBRow_t \<Rightarrow> 64 word \<Rightarrow> NoDBCache_t option" where
  "NoDBCacheSetDatum = cell_set (enc_word 8)"

definition NoDBCacheGetDatum :: "NoDBCache_t \<Rightarrow> NoDBCol_t \<Rightarrow> NoDBRow_t \<Rightarrow> 64 word option" where
  "NoDBCacheGetDatum = cell_get dec_word 8"

text \<open>A \<open>NoDBDatum_t\<close> in memory: the datum in bytes 0 to 7, the null flag in byte 8.\<close>

definition enc_datum :: "NoDBDatum_t \<Rightarrow> byte list" where
  "enc_datum d = enc_word 8 (datum d) @ enc_bool (null d)"

definition dec_datum :: "byte list \<Rightarrow> NoDBDatum_t" where
  "dec_datum bs = \<lparr>datum = dec_word (take 8 bs), null = dec_bool (drop 8 bs)\<rparr>"

definition enc_pair :: "NoDBPMPair_t \<Rightarrow> byte list" where
  "enc_pair p = enc_word 2 (pointer p) @ enc_word 2 (width p)"

definition dec_pair :: "byte list \<Rightarrow> NoDBPMPair_t" where
  "dec_pair bs = \<lparr>pointer = dec_word (take 2 bs), width = dec_word (drop 2 bs)\<rparr>"

definition NoDBCacheSetDatumVector ::
    "NoDBCache_t \<Rightarrow> 64 word option list \<Rightarrow> bool option list \<Rightarrow> NoDBColVector_t \<Rightarrow> NoDBRow_t \<Rightarrow> NoDBCache_t option" where
  "NoDBCacheSetDatumVector cache datumVector nulls cols row =
     foldM (\<lambda>cache i. do {
         col \<leftarrow> NoDBColVectorGet cols (int i);
         od \<leftarrow> arr_get datumVector col; d \<leftarrow> od;
         on \<leftarrow> arr_get nulls col; n \<leftarrow> on;
         cell_set enc_datum cache col row \<lparr>datum = d, null = n\<rparr>
       }) cache [0..<nat (NoDBColVectorSize cols)]"

definition NoDBCacheGetDatumVector ::
    "NoDBCache_t \<Rightarrow> 64 word option list \<Rightarrow> bool option list \<Rightarrow> NoDBColVector_t \<Rightarrow> NoDBRow_t \<Rightarrow>
     (64 word option list \<times> bool option list) option" where
  "NoDBCacheGetDatumVector cache datumVector nulls cols row =
     foldM (\<lambda>(dv, nv) i. do {
         col \<leftarrow> NoDBColVectorGet cols (int i);
         d \<leftarrow> cell_get dec_datum 9 cache col row;
         dv' \<leftarrow> arr_set dv col (Some (datum d));
         nv' \<leftarrow> arr_set nv col (Some (null d));
         Some (dv', nv')
       }) (datumVector, nulls) [0..<nat (NoDBColVectorSize cols)]"

text \<open>
  Values by reference: the object behind a pointer is its byte list in the store \<open>mem\<close>; the copy is
  placed in memory from the cache arena. \<open>datumGetSize\<close> (of PostgreSQL's \<open>datum.c\<close>) is a parameter: the
  size of the object behind a datum for an attribute length.
\<close>

definition NoDBCacheSetDatumRefVector ::
    "(64 word \<Rightarrow> region list \<Rightarrow> nat) \<Rightarrow> (byte list \<Rightarrow> int \<Rightarrow> nat) \<Rightarrow>
     NoDBCache_t \<times> arena_state \<times> (64 word \<rightharpoonup> byte list) \<Rightarrow>
     64 word option list \<Rightarrow> bool option list \<Rightarrow> int list \<Rightarrow> NoDBColVector_t \<Rightarrow> NoDBRow_t \<Rightarrow>
     (NoDBCache_t \<times> arena_state \<times> (64 word \<rightharpoonup> byte list)) option" where
  "NoDBCacheSetDatumRefVector malloc datumGetSize st datumVector nulls attlen cols row =
     foldM (\<lambda>(cache, ar, mem) i. do {
         col \<leftarrow> NoDBColVectorGet cols (int i);
         od \<leftarrow> arr_get datumVector col; d \<leftarrow> od;
         (if d = 0 then do {
            cache' \<leftarrow> cell_set enc_datum cache col row \<lparr>datum = 0, null = True\<rparr>;
            Some (cache', ar, mem)
          } else do {
            typLen \<leftarrow> arr_get attlen col;
            obj \<leftarrow> mem d;
            let realSize = datumGetSize obj typLen;
            (if realSize \<le> length obj then do {
               (ar', p) \<leftarrow> NoDBArenaAlloc malloc ar NODB_ARENA_CACHE (of_nat realSize);
               cache' \<leftarrow> cell_set enc_datum cache col row \<lparr>datum = of_nat p, null = False\<rparr>;
               Some (cache', ar', mem(of_nat p \<mapsto> take realSize obj))
             } else None)
          })
       }) st [0..<nat (NoDBColVectorSize cols)]"

text \<open>
  \<open>NoDBCacheSetStringRef\<close> stores a pointer \<open>p\<close> that malloc returned and a zero-terminated copy of the
  string behind it.
\<close>

definition NoDBCacheSetStringRef ::
    "64 word \<Rightarrow> NoDBCache_t \<times> (64 word \<rightharpoonup> byte list) \<Rightarrow> NoDBCol_t \<Rightarrow> NoDBRow_t \<Rightarrow> byte list \<Rightarrow> nat \<Rightarrow>
     (NoDBCache_t \<times> (64 word \<rightharpoonup> byte list)) option" where
  "NoDBCacheSetStringRef p st col row val len =
     (case st of (cache, mem) \<Rightarrow>
        if len \<le> length val then do {
          cache' \<leftarrow> cell_set (enc_word 8) cache col row p;
          Some (cache', mem(p \<mapsto> take len val @ [0]))
        } else None)"

definition NoDBCacheGetStringRef :: "NoDBCache_t \<Rightarrow> NoDBCol_t \<Rightarrow> NoDBRow_t \<Rightarrow> 64 word option" where
  "NoDBCacheGetStringRef = cell_get dec_word 8"

definition NoDBCacheSetPMPair :: "NoDBCache_t \<Rightarrow> NoDBCol_t \<Rightarrow> NoDBRow_t \<Rightarrow> NoDBPMPair_t \<Rightarrow> NoDBCache_t option" where
  "NoDBCacheSetPMPair = cell_set enc_pair"

definition NoDBCacheGetPMPair :: "NoDBCache_t \<Rightarrow> NoDBCol_t \<Rightarrow> NoDBRow_t \<Rightarrow> NoDBPMPair_t option" where
  "NoDBCacheGetPMPair = cell_get dec_pair 4"

definition NoDBCacheSetPMPairVector ::
    "NoDBCache_t \<Rightarrow> NoDBPMPair_t option list \<Rightarrow> NoDBColVector_t \<Rightarrow> NoDBRow_t \<Rightarrow> NoDBCache_t option" where
  "NoDBCacheSetPMPairVector cache pairVector cols row =
     foldM (\<lambda>cache i. do {
         col \<leftarrow> NoDBColVectorGet cols (int i);
         op \<leftarrow> arr_get pairVector col; p \<leftarrow> op;
         cell_set enc_pair cache col row p
       }) cache [0..<nat (NoDBColVectorSize cols)]"

definition NoDBCacheGetPMPairVector ::
    "NoDBCache_t \<Rightarrow> NoDBPMPair_t option list \<Rightarrow> NoDBColVector_t \<Rightarrow> NoDBRow_t \<Rightarrow> NoDBPMPair_t option list option" where
  "NoDBCacheGetPMPairVector cache pairVector cols row =
     foldM (\<lambda>pv i. do {
         col \<leftarrow> NoDBColVectorGet cols (int i);
         p \<leftarrow> cell_get dec_pair 4 cache col row;
         arr_set pv col (Some p)
       }) pairVector [0..<nat (NoDBColVectorSize cols)]"

section \<open>The layout of a row\<close>

text \<open>The used partitions of a row, as pairs of offset and size; the total and the free space.\<close>

fun layout :: "nat \<Rightarrow> NoDBRowPartition_t list \<Rightarrow> (nat \<times> nat) list" where
  "layout o0 [] = []"
| "layout o0 (p # ps) = (if used p then [(o0, psize p)] else []) @ layout (o0 + psize p) ps"

definition total_size :: "NoDBRowPartition_t list \<Rightarrow> nat" where
  "total_size ps = sum_list (map psize ps)"

definition free_size :: "NoDBRowPartition_t list \<Rightarrow> nat" where
  "free_size ps = sum_list (map (\<lambda>p. if used p then 0 else psize p) ps)"

definition used_cols :: "NoDBCache_t \<Rightarrow> NoDBCol_t list" where
  "used_cols c = map the (take (c_usedCols c) (c_cols c))"

definition col_off :: "NoDBCache_t \<Rightarrow> NoDBCol_t \<Rightarrow> nat" where
  "col_off c col = nat (c_offset c ! nat col)"

definition col_size :: "NoDBCache_t \<Rightarrow> NoDBCol_t \<Rightarrow> nat option" where
  "col_size c col = (if col \<in> set (used_cols c) then map_of (layout 0 (c_list c)) (col_off c col) else None)"

text \<open>
  The invariant of the column directory: the partitions tile the row and account for the free
  space; the first \<open>usedCols\<close> entries of \<open>cols\<close> are distinct columns of the relation, exactly those
  with an entry in \<open>map\<close>; and \<open>offset\<close> is a bijection between them and the used partitions.
\<close>

definition cache_ok :: "NoDBCache_t \<Rightarrow> bool" where
  "cache_ok c \<longleftrightarrow>
     total_size (c_list c) = c_rowSize c \<and> free_size (c_list c) = c_rowFree c \<and>
     (\<forall>p \<in> set (c_list c). 0 < psize p) \<and>
     c_usedCols c \<le> length (c_cols c) \<and> None \<notin> set (take (c_usedCols c) (c_cols c)) \<and>
     distinct (used_cols c) \<and>
     (\<forall>col \<in> set (used_cols c). 0 \<le> col \<and> nat col < length (c_offset c) \<and> 0 \<le> c_offset c ! nat col \<and>
        nat col < length (c_map c) \<and> c_map c ! nat col \<noteq> -1) \<and>
     (\<forall>i < length (c_map c). c_map c ! i \<noteq> -1 \<longrightarrow> int i \<in> set (used_cols c)) \<and>
     inj_on (col_off c) (set (used_cols c)) \<and>
     col_off c ` set (used_cols c) = fst ` set (layout 0 (c_list c)) \<and>
     c_startOffset c = of_nat (c_rowSize c) * c_startRow c"

lemma layout_append: "layout o0 (xs @ ys) = layout o0 xs @ layout (o0 + total_size xs) ys"
  by (induction xs arbitrary: o0) (auto simp: total_size_def add.assoc)

lemma total_size_append [simp]: "total_size (xs @ ys) = total_size xs + total_size ys"
  "total_size (p # ps) = psize p + total_size ps" "total_size [] = 0"
  by (simp_all add: total_size_def)

lemma free_size_append [simp]: "free_size (xs @ ys) = free_size xs + free_size ys"
  "free_size (p # ps) = (if used p then 0 else psize p) + free_size ps" "free_size [] = 0"
  by (simp_all add: free_size_def)

lemma layout_range: "(a, s) \<in> set (layout o0 ps) \<Longrightarrow> o0 \<le> a \<and> a + s \<le> o0 + total_size ps"
  by (induction ps arbitrary: o0) (fastforce split: if_splits)+

lemma layout_sorted: "sorted_wrt (\<lambda>(a, s) (b, t). a + s \<le> b) (layout o0 ps)"
  by (induction ps arbitrary: o0) (auto dest: layout_range)

lemma layout_pos: "\<forall>p \<in> set ps. 0 < psize p \<Longrightarrow> (a, s) \<in> set (layout o0 ps) \<Longrightarrow> 0 < s"
  by (induction ps arbitrary: o0) (auto split: if_splits)

lemma layout_disjoint:
  "(a, s) \<in> set (layout o0 ps) \<Longrightarrow> (b, t) \<in> set (layout o0 ps) \<Longrightarrow> (a, s) \<noteq> (b, t) \<Longrightarrow> a + s \<le> b \<or> b + t \<le> a"
proof (induction ps arbitrary: o0)
  case (Cons p ps)
  then show ?case by (auto split: if_splits dest: layout_range)
qed simp

lemma layout_distinct:
  assumes "\<forall>p \<in> set ps. 0 < psize p"
  shows "distinct (map fst (layout o0 ps))"
  using assms
proof (induction ps arbitrary: o0)
  case (Cons p ps)
  then show ?case using layout_range by fastforce
qed simp

lemma FindFirstPartitionFit_loop_Some:
  "FindFirstPartitionFit_loop l sz k off = Some (i, o') \<Longrightarrow>
     \<exists>j < length l. i = k + j \<and> sz \<le> psize (l ! j) \<and> \<not> used (l ! j) \<and> o' = off + int (total_size (take j l))"
proof (induction l sz k off rule: FindFirstPartitionFit_loop.induct)
  case (2 cur nxt sz k off)
  show ?case
  proof (cases "sz \<le> psize cur \<and> \<not> used cur")
    case True
    then show ?thesis using 2 by (intro exI[of _ 0]) auto
  next
    case False
    then obtain j where "j < length nxt" "i = k + 1 + j" "sz \<le> psize (nxt ! j)" "\<not> used (nxt ! j)"
      "o' = off + int (psize cur) + int (total_size (take j nxt))"
      using 2 by (auto split: if_splits)
    then show ?thesis by (intro exI[of _ "Suc j"]) auto
  qed
qed simp

lemma FindFirstPartitionFit_loop_None:
  "FindFirstPartitionFit_loop l sz k off = None \<longleftrightarrow> (\<forall>p \<in> set l. used p \<or> psize p < sz)"
  by (induction l sz k off rule: FindFirstPartitionFit_loop.induct) auto

lemma FindFirstPartitionFit_Some:
  assumes "FindFirstPartitionFit l sz = Some (i, off)"
  obtains xs p ys where "l = xs @ p # ys" "i = length xs" "off = int (total_size xs)" "sz \<le> psize p" "\<not> used p"
proof -
  obtain j where "j < length l" "i = j" "sz \<le> psize (l ! j)" "\<not> used (l ! j)" "off = int (total_size (take j l))"
    using FindFirstPartitionFit_loop_Some[of l sz 0 0 i off] assms by (auto simp: FindFirstPartitionFit_def)
  then show ?thesis using that[of "take j l" "l ! j" "drop (Suc j) l"] by (simp add: id_take_nth_drop)
qed

lemma place_partition:
  assumes l: "l = xs @ p # ys" and fit: "sz \<le> psize p" "\<not> used p"
    and l': "l' = (if psize (l ! length xs) = sz then mark_used l (length xs)
                   else mark_used (SplitPartition l (length xs) sz) (length xs))"
  shows "layout 0 l' = layout 0 xs @ (total_size xs, sz) # layout (total_size xs + psize p) ys"
    and "layout 0 l = layout 0 xs @ layout (total_size xs + psize p) ys"
    and "total_size l' = total_size l" and "free_size l' + sz = free_size l"
    and "\<forall>p \<in> set l. 0 < psize p \<Longrightarrow> 0 < sz \<Longrightarrow> \<forall>p \<in> set l'. 0 < psize p"
proof -
  have l'': "l' = xs @ p\<lparr>used := True, psize := sz\<rparr> #
      (if psize p = sz then [] else [\<lparr>used = False, psize = psize p - sz\<rparr>]) @ ys"
    unfolding l' l by (auto simp: mark_used_def SplitPartition_def)
  show "layout 0 l' = layout 0 xs @ (total_size xs, sz) # layout (total_size xs + psize p) ys"
    unfolding l'' using fit by (simp add: layout_append)
  show "layout 0 l = layout 0 xs @ layout (total_size xs + psize p) ys"
    unfolding l using fit by (simp add: layout_append)
  show "total_size l' = total_size l" "free_size l' + sz = free_size l"
    unfolding l'' l using fit by simp_all
  show "\<forall>p \<in> set l'. 0 < psize p" if "\<forall>p \<in> set l. 0 < psize p" "0 < sz"
    using that fit unfolding l'' l by auto
qed

lemma free_size_ge: "p \<in> set l \<Longrightarrow> \<not> used p \<Longrightarrow> psize p \<le> free_size l"
  by (induction l) auto

section \<open>Adding columns\<close>

lemma cache_ok_Init:
  assumes "0 < rowSize"
  shows "cache_ok (NoDBCacheInit relp rel typ startRow rowSize)"
    and "used_cols (NoDBCacheInit relp rel typ startRow rowSize) = []"
  using assms by (simp_all add: cache_ok_def NoDBCacheInit_def used_cols_def)

lemma NoDBCacheHasColumn_ok:
  assumes "cache_ok c" "0 \<le> col"
  shows "NoDBCacheHasColumn c col = Some (col \<in> set (used_cols c))"
proof (cases "col < int (length (c_map c))")
  case True
  then have "arr_get (c_map c) col = Some (c_map c ! nat col)" using assms(2) by (simp add: arr_get_def)
  moreover have "c_map c ! nat col \<noteq> -1 \<longleftrightarrow> col \<in> set (used_cols c)"
    using assms True unfolding cache_ok_def by (metis int_nat_eq nat_less_iff)
  ultimately show ?thesis using True by (simp add: NoDBCacheHasColumn_def)
next
  case False
  then show ?thesis
    using assms unfolding cache_ok_def NoDBCacheHasColumn_def by (auto simp: nat_less_iff)
qed

definition pad_map :: "NoDBCache_t \<Rightarrow> NoDBCol_t \<Rightarrow> NoDBCache_t" where
  "pad_map cache col =
     (if col \<ge> int (length (c_map cache))
      then cache\<lparr>c_map := c_map cache @ replicate (nat (col + 1) - length (c_map cache)) (-1)\<rparr> else cache)"

lemma pad_map_fields [simp]:
  "c_list (pad_map c col) = c_list c" "c_rowSize (pad_map c col) = c_rowSize c"
  "c_rowFree (pad_map c col) = c_rowFree c" "c_usedCols (pad_map c col) = c_usedCols c"
  "c_cols (pad_map c col) = c_cols c" "c_offset (pad_map c col) = c_offset c"
  "c_startOffset (pad_map c col) = c_startOffset c" "c_startRow (pad_map c col) = c_startRow c"
  "c_buf (pad_map c col) = c_buf c" "c_nRows (pad_map c col) = c_nRows c"
  "c_usedRows (pad_map c col) = c_usedRows c" "c_rel (pad_map c col) = c_rel c" "c_type (pad_map c col) = c_type c"
  "used_cols (pad_map c col) = used_cols c" "col_off (pad_map c col) = col_off c" "col_size (pad_map c col) = col_size c"
  by (auto simp: pad_map_def used_cols_def col_off_def col_size_def fun_eq_iff)

lemma pad_map_map:
  assumes "0 \<le> col"
  shows "nat col < length (c_map (pad_map c col))"
    and "i < length (c_map c) \<Longrightarrow> c_map (pad_map c col) ! i = c_map c ! i"
    and "length (c_map c) \<le> i \<Longrightarrow> i < length (c_map (pad_map c col)) \<Longrightarrow> c_map (pad_map c col) ! i = -1"
    and "length (c_map c) \<le> length (c_map (pad_map c col))"
  using assms by (auto simp: pad_map_def nth_append)

lemma cache_ok_pad_map:
  assumes "cache_ok c" "0 \<le> col"
  shows "cache_ok (pad_map c col)"
proof -
  note pm = pad_map_map[OF assms(2), where c = c]
  have "\<forall>i < length (c_map (pad_map c col)). c_map (pad_map c col) ! i \<noteq> -1 \<longrightarrow> int i \<in> set (used_cols c)"
    using assms(1) pm(2,3) unfolding cache_ok_def by (metis linorder_not_le)
  moreover have "\<forall>k \<in> set (used_cols c). nat k < length (c_map (pad_map c col)) \<and> c_map (pad_map c col) ! nat k \<noteq> -1"
    using assms(1) pm(2,4) unfolding cache_ok_def by (metis order_less_le_trans)
  ultimately show ?thesis using assms(1) unfolding cache_ok_def by simp
qed

text \<open>The cache after a successful placement of a column.\<close>

definition placed :: "NoDBCache_t \<Rightarrow> NoDBCol_t \<Rightarrow> nat \<Rightarrow> nat \<Rightarrow> nat \<Rightarrow> NoDBCache_t" where
  "placed c col sz i off =
     c\<lparr>c_list := (if psize (c_list c ! i) = sz then mark_used (c_list c) i
                  else mark_used (SplitPartition (c_list c) i sz) i),
       c_cols := (if c_usedCols c = length (c_cols c) then c_cols c @ [Some col]
                  else (c_cols c)[c_usedCols c := Some col]),
       c_usedCols := c_usedCols c + 1, c_offset := (c_offset c)[nat col := int off],
       c_map := (c_map c)[nat col := int (c_usedCols c + 1)], c_rowFree := c_rowFree c - sz\<rparr>"

lemma NoDBCacheAddColumn_cases:
  assumes ok: "cache_ok c" and col: "0 \<le> col" "nat col < length (c_offset c)" and sz: "0 < sz"
  shows "NoDBCacheAddColumn c col sz =
    (if c_rowFree c < sz then Some (c, 0)
     else if col \<in> set (used_cols c) then Some (pad_map c col, 0)
     else case FindFirstPartitionFit (c_list c) sz of
        None \<Rightarrow> Some (pad_map c col, 0)
      | Some (i, off) \<Rightarrow> Some (placed (pad_map c col) col sz i (nat off), 1))"
proof -
  let ?p = "pad_map c col"
  have okp: "cache_ok ?p" using ok col(1) by (rule cache_ok_pad_map)
  have inmap: "nat col < length (c_map ?p)" by (rule pad_map_map(1)[OF col(1)])
  have get: "arr_get (c_map ?p) col = Some (c_map ?p ! nat col)"
    using inmap col(1) by (simp add: arr_get_def nat_less_iff)
  have mem: "c_map ?p ! nat col \<noteq> -1 \<longleftrightarrow> col \<in> set (used_cols c)"
    using okp inmap col(1) unfolding cache_ok_def by (metis int_nat_eq pad_map_fields(14))
  have sets: "arr_set (c_map ?p) col v = Some ((c_map ?p)[nat col := v])"
    "arr_set (c_offset c) col w = Some ((c_offset c)[nat col := w])" for v w
    using inmap col by (simp_all add: arr_set_def nat_less_iff)
  have used: "c_usedCols c \<le> length (c_cols c)" using ok by (simp add: cache_ok_def)
  have pos: "0 \<le> off" if "FindFirstPartitionFit (c_list c) sz = Some (i, off)" for i off
    by (rule FindFirstPartitionFit_Some[OF that]) simp
  have cs: "arr_set (if c_usedCols c = length (c_cols c) then c_cols c @ replicate NODB_CACHE_DEFAULT_NCOLUMNS None
        else c_cols c) (int (c_usedCols c)) (Some col) =
      Some (if c_usedCols c = length (c_cols c) then c_cols c @ [Some col]
        else (c_cols c)[c_usedCols c := Some col])"
    using used by (simp add: NODB_CACHE_DEFAULT_NCOLUMNS_def)
  have step: "NoDBCacheAddColumn c col sz =
    (if c_rowFree c < sz then Some (c, 0)
     else if col \<in> set (used_cols c) then Some (?p, 0)
     else case FindFirstPartitionFit (c_list ?p) sz of
        None \<Rightarrow> Some (?p, 0)
      | Some (i, off) \<Rightarrow> Some (?p\<lparr>c_list := (if psize (c_list ?p ! i) = sz then mark_used (c_list ?p) i
                  else mark_used (SplitPartition (c_list ?p) i sz) i),
          c_cols := (if c_usedCols c = length (c_cols c) then c_cols c @ [Some col]
            else (c_cols c)[c_usedCols c := Some col]), c_usedCols := c_usedCols ?p + 1,
          c_offset := (c_offset c)[nat col := off], c_map := (c_map ?p)[nat col := int (c_usedCols ?p + 1)],
          c_rowFree := c_rowFree ?p - sz\<rparr>, 1))"
    unfolding NoDBCacheAddColumn_def pad_map_def[symmetric] Let_def get option.case mem[symmetric]
    by (simp only: pad_map_fields cs sets Option.bind.bind_lunit)
  show ?thesis
    unfolding step pad_map_fields using pos
    by (simp add: placed_def split: option.split)
qed

lemma placed_used_cols:
  assumes "c_usedCols c \<le> length (c_cols c)"
  shows "used_cols (placed c col sz i off) = used_cols c @ [col]"
    and "set (take (c_usedCols (placed c col sz i off)) (c_cols (placed c col sz i off))) =
       insert (Some col) (set (take (c_usedCols c) (c_cols c)))"
    and "c_usedCols (placed c col sz i off) \<le> length (c_cols (placed c col sz i off))"
  using assms by (auto simp: used_cols_def placed_def take_Suc_conv_app_nth)

lemma placed_col_off:
  assumes "nat col < length (c_offset c)" "0 \<le> col" "0 \<le> k"
  shows "col_off (placed c col sz i off) k = (if k = col then off else col_off c k)"
  using assms by (auto simp: col_off_def placed_def nth_list_update nat_eq_iff)

lemma placed_ok:
  assumes ok: "cache_ok c" and col: "0 \<le> col" "nat col < length (c_offset c)" "nat col < length (c_map c)"
    and new: "col \<notin> set (used_cols c)" and sz: "0 < sz"
    and fit: "FindFirstPartitionFit (c_list c) sz = Some (i, off)"
  defines "c' \<equiv> placed c col sz i (nat off)"
  shows "cache_ok c'" "c_rowFree c' + sz = c_rowFree c" "col_size c' col = Some sz"
    "k \<in> set (used_cols c) \<Longrightarrow> col_off c' k = col_off c k \<and> col_size c' k = col_size c k"
proof -
  obtain xs p ys where l: "c_list c = xs @ p # ys" and i: "i = length xs" and off: "off = int (total_size xs)"
    and p: "sz \<le> psize p" "\<not> used p" by (rule FindFirstPartitionFit_Some[OF fit])
  have l': "c_list c' = (if psize (c_list c ! length xs) = sz then mark_used (c_list c) (length xs)
      else mark_used (SplitPartition (c_list c) (length xs) sz) (length xs))"
    by (simp add: c'_def placed_def i)
  note pp = place_partition[OF l p l']
  note u = ok[unfolded cache_ok_def]
  have pos: "\<forall>p \<in> set (c_list c). 0 < psize p" using u by blast
  have pos': "\<forall>p \<in> set (c_list c'). 0 < psize p" using pp(5) pos sz by blast
  have ucols: "used_cols c' = used_cols c @ [col]"
    unfolding c'_def using u by (intro placed_used_cols) blast
  have nonneg: "0 \<le> k" if "k \<in> set (used_cols c)" for k using u that by blast
  have o: "col_off c' k = (if k = col then nat off else col_off c k)" if "0 \<le> k" for k
    unfolding c'_def by (rule placed_col_off[OF col(2,1) that])
  have lay: "set (layout 0 (c_list c')) = insert (nat off, sz) (set (layout 0 (c_list c)))"
    using pp(1,2) off by auto
  have dist: "distinct (map fst (layout 0 (c_list c')))" by (rule layout_distinct[OF pos'])
  have fresh: "nat off \<notin> fst ` set (layout 0 (c_list c))"
    using dist pp(1,2) off by auto
  have offs: "col_off c k \<in> fst ` set (layout 0 (c_list c))" if "k \<in> set (used_cols c)" for k
    using u that by (metis imageI)
  have old: "col_off c' k = col_off c k" if "k \<in> set (used_cols c)" for k
    using o[OF nonneg[OF that]] that new by auto
  have inj: "inj_on (col_off c) (set (used_cols c))"
    and img0: "col_off c ` set (used_cols c) = fst ` set (layout 0 (c_list c))" using u by blast+
  have img: "col_off c' ` set (used_cols c) = fst ` set (layout 0 (c_list c))"
    unfolding img0[symmetric] using old by (intro image_cong) simp_all
  have "inj_on (col_off c') (set (used_cols c))"
    using inj inj_on_cong[of "set (used_cols c)" "col_off c'" "col_off c"] old by blast
  then have "inj_on (col_off c') (set (used_cols c'))"
    using img fresh o[OF col(1)] new by (simp add: ucols)
  moreover have "col_off c' ` set (used_cols c') = fst ` set (layout 0 (c_list c'))"
    using img lay o[OF col(1)] by (simp add: ucols)
  moreover have "\<forall>k \<in> set (used_cols c'). 0 \<le> k \<and> nat k < length (c_offset c') \<and> 0 \<le> c_offset c' ! nat k \<and>
      nat k < length (c_map c') \<and> c_map c' ! nat k \<noteq> -1"
    using u col off unfolding ucols by (auto simp: c'_def placed_def nth_list_update)
  moreover have "\<forall>j < length (c_map c'). c_map c' ! j \<noteq> -1 \<longrightarrow> int j \<in> set (used_cols c')"
    using u col unfolding ucols by (auto simp: c'_def placed_def nth_list_update split: if_splits)
  moreover have "None \<notin> set (take (c_usedCols c') (c_cols c'))" "c_usedCols c' \<le> length (c_cols c')"
    unfolding c'_def using u placed_used_cols(2,3)[of c col sz i "nat off"] by auto
  moreover have "distinct (used_cols c')" using u new ucols by simp
  moreover have "total_size (c_list c') = c_rowSize c'" "free_size (c_list c') = c_rowFree c'"
    "c_startOffset c' = of_nat (c_rowSize c') * c_startRow c'"
    using u pp(3,4) by (auto simp: c'_def placed_def)
  ultimately show "cache_ok c'" using pos' unfolding cache_ok_def by blast
  show "c_rowFree c' + sz = c_rowFree c" using u pp(4) by (simp add: c'_def placed_def)
  show "col_size c' col = Some sz"
    using lay dist o[OF col(1)] ucols by (simp add: col_size_def)
  show "col_off c' k = col_off c k \<and> col_size c' k = col_size c k" if k: "k \<in> set (used_cols c)"
  proof -
    have e: "col_off c' k = col_off c k" by (rule old[OF k])
    obtain s where s: "(col_off c k, s) \<in> set (layout 0 (c_list c))" using offs[OF k] by auto
    then have "map_of (layout 0 (c_list c)) (col_off c k) = Some s" "map_of (layout 0 (c_list c')) (col_off c k) = Some s"
      using lay dist layout_distinct[OF pos] by auto
    then show ?thesis using e k ucols by (simp add: col_size_def)
  qed
qed

lemma col_size_Some:
  assumes "cache_ok c" "col \<in> set (used_cols c)"
  obtains s where "col_size c col = Some s" "(col_off c col, s) \<in> set (layout 0 (c_list c))" "0 < s"
    "col_off c col + s \<le> c_rowSize c"
proof -
  note u = assms(1)[unfolded cache_ok_def]
  have pos: "\<forall>p \<in> set (c_list c). 0 < psize p" using u by blast
  have "col_off c col \<in> fst ` set (layout 0 (c_list c))" using u assms(2) by (metis imageI)
  then obtain s where s: "(col_off c col, s) \<in> set (layout 0 (c_list c))" by auto
  then have "col_size c col = Some s" using layout_distinct[OF pos] assms(2) by (simp add: col_size_def)
  moreover have "0 < s" "col_off c col + s \<le> c_rowSize c"
    using layout_pos[OF pos s] layout_range[OF s] u by auto
  ultimately show ?thesis using that s by blast
qed

lemma cols_disjoint:
  assumes ok: "cache_ok c" and k: "k \<in> set (used_cols c)" "j \<in> set (used_cols c)" "k \<noteq> j"
    and s: "col_size c k = Some s" "col_size c j = Some t"
  shows "col_off c k + s \<le> col_off c j \<or> col_off c j + t \<le> col_off c k"
proof -
  have "col_off c k \<noteq> col_off c j" using ok k unfolding cache_ok_def inj_on_def by blast
  moreover have "(col_off c k, s) \<in> set (layout 0 (c_list c))" "(col_off c j, t) \<in> set (layout 0 (c_list c))"
    using col_size_Some[OF ok k(1)] col_size_Some[OF ok k(2)] s by (metis option.inject)+
  ultimately show ?thesis using layout_disjoint by (metis fst_conv)
qed

section \<open>The representation of values in memory\<close>

lemma dec_enc_word: "dec_word (enc_word n w) = take_bit (8 * n) (w :: 'a::len word)"
proof (induction n arbitrary: w)
  case (Suc n)
  have "ucast (ucast w :: byte) OR push_bit 8 (take_bit (8 * n) (drop_bit 8 w)) = take_bit (8 * Suc n) w"
    by (rule bit_word_eqI) (auto simp: bit_simps)
  then show ?case using Suc by simp
qed simp

lemma length_enc_word [simp]: "length (enc_word n w) = n"
  by (induction n arbitrary: w) auto

text \<open>
  The contract of a value representation: its size is fixed and decoding inverts encoding.
\<close>

locale byte_codec =
  fixes enc :: "'v \<Rightarrow> byte list" and dec :: "byte list \<Rightarrow> 'v" and n :: nat
  assumes length_enc: "length (enc v) = n"
    and dec_enc: "dec (enc v) = v"

text \<open>
  A cell that can be accessed: the row lies in the buffer and the column has a partition of at
  least the accessed size.
\<close>

definition buf_ok :: "NoDBCache_t \<Rightarrow> bool" where
  "buf_ok c \<longleftrightarrow> (\<exists>b r. c_buf c = Some b \<and> c_nRows c = Some r \<and> length b = unat r * c_rowSize c \<and>
     unat r * c_rowSize c < 2 ^ 64)"

definition row_in_buf :: "NoDBCache_t \<Rightarrow> NoDBRow_t \<Rightarrow> bool" where
  "row_in_buf c row \<longleftrightarrow> c_startRow c \<le> row \<and>
     (\<exists>r. c_nRows c = Some r \<and> unat row - unat (c_startRow c) < unat r)"

definition cell_ok :: "NoDBCache_t \<Rightarrow> NoDBCol_t \<Rightarrow> NoDBRow_t \<Rightarrow> nat \<Rightarrow> bool" where
  "cell_ok c col row n \<longleftrightarrow> cache_ok c \<and> buf_ok c \<and> row_in_buf c row \<and>
     (\<exists>s. col_size c col = Some s \<and> n \<le> s)"

definition cell_pos :: "NoDBCache_t \<Rightarrow> NoDBCol_t \<Rightarrow> NoDBRow_t \<Rightarrow> nat" where
  "cell_pos c col row = (unat row - unat (c_startRow c)) * c_rowSize c + col_off c col"

lemma bytes_write_read_same:
  "off + length bs \<le> length b \<Longrightarrow>
   \<exists>b'. bytes_write b off bs = Some b' \<and> length b' = length b \<and> bytes_read b' off (length bs) = Some bs"
  by (simp add: bytes_write_def bytes_read_def)

lemma bytes_write_read_other:
  assumes "bytes_write b off bs = Some b'" "off + length bs \<le> j \<or> j + m \<le> off"
  shows "bytes_read b' j m = bytes_read b j m"
proof -
  have b': "b' = take off b @ map Some bs @ drop (off + length bs) b" and le: "off + length bs \<le> length b"
    using assms(1) by (auto simp: bytes_write_def split: if_splits)
  have len: "length b' = length b" using b' le by simp
  have "take m (drop j b') = take m (drop j b)" if "j + m \<le> length b"
  proof (rule nth_equalityI)
    show "length (take m (drop j b')) = length (take m (drop j b))" using len by simp
    fix k assume "k < length (take m (drop j b'))"
    then have k: "k < m" "j + k < length b" using that len by auto
    have "b' ! (j + k) = b ! (j + k)"
      using assms(2) k le unfolding b' by (auto simp: nth_append)
    then show "take m (drop j b') ! k = take m (drop j b) ! k" using k len by simp
  qed
  then show ?thesis using len by (simp add: bytes_read_def)
qed

lemma col_size_used: "col_size c col = Some s \<Longrightarrow> col \<in> set (used_cols c)"
  by (simp add: col_size_def split: if_splits)

lemma cell_pos_bounds:
  assumes "cell_ok c col row n" "c_buf c = Some b"
  shows "cell_pos c col row + n \<le> length b" "cell_pos c col row < 2 ^ 64"
proof -
  obtain s r where sr: "col_size c col = Some s" "n \<le> s" "c_nRows c = Some r" "unat row - unat (c_startRow c) < unat r"
    and b: "length b = unat r * c_rowSize c" "unat r * c_rowSize c < 2 ^ 64" and ok: "cache_ok c"
    using assms by (auto simp: cell_ok_def row_in_buf_def buf_ok_def)
  obtain s' where "col_size c col = Some s'" "col_off c col + s' \<le> c_rowSize c" "0 < s'"
    by (rule col_size_Some[OF ok col_size_used[OF sr(1)]])
  then have s: "col_off c col + s \<le> c_rowSize c" "0 < s" using sr(1) by auto
  have "(unat row - unat (c_startRow c) + 1) * c_rowSize c \<le> unat r * c_rowSize c"
    using sr(4) by (intro mult_le_mono1) simp
  then show "cell_pos c col row + n \<le> length b" "cell_pos c col row < 2 ^ 64"
    using s sr(2) b unfolding cell_pos_def by auto
qed

lemma ComputeOffset_exact:
  assumes "cell_ok c col row n"
  shows "\<exists>w. ComputeOffset c col row = Some w \<and> unat w = cell_pos c col row"
proof -
  obtain b where b: "c_buf c = Some b" using assms by (auto simp: cell_ok_def buf_ok_def)
  have ok: "cache_ok c" and used: "col \<in> set (used_cols c)" and row: "c_startRow c \<le> row"
    using assms by (auto simp: cell_ok_def row_in_buf_def dest: col_size_used)
  have off: "arr_get (c_offset c) col = Some (int (col_off c col))"
    using ok used unfolding cache_ok_def by (auto simp: arr_get_def col_off_def nat_less_iff)
  let ?us = "unat (c_startRow c)" and ?ur = "unat row"
  have "?us \<le> ?ur" using row by (simp add: word_le_nat_alt)
  then have "(of_nat (cell_pos c col row) :: 64 word) =
      (of_nat ?ur - of_nat ?us) * of_nat (c_rowSize c) + of_nat (col_off c col)"
    by (simp add: cell_pos_def of_nat_diff)
  also have "\<dots> = row * of_nat (c_rowSize c) - c_startOffset c + of_int (int (col_off c col))"
    using ok by (simp add: cache_ok_def algebra_simps)
  finally have "ComputeOffset c col row = Some (of_nat (cell_pos c col row))"
    by (simp add: ComputeOffset_def off)
  then show ?thesis
    using cell_pos_bounds(2)[OF assms b] by (auto simp: unat_of_nat_lt)
qed

lemma cells_disjoint:
  assumes a: "cell_ok c col row n" and b: "cell_ok c col' row' m" and ne: "(col, row) \<noteq> (col', row')"
  shows "cell_pos c col row + n \<le> cell_pos c col' row' \<or> cell_pos c col' row' + m \<le> cell_pos c col row"
proof -
  have ok: "cache_ok c" using a by (simp add: cell_ok_def)
  obtain s t where s: "col_size c col = Some s" "n \<le> s" and t: "col_size c col' = Some t" "m \<le> t"
    using a b by (auto simp: cell_ok_def)
  have rs: "col_off c col + s \<le> c_rowSize c" "col_off c col' + t \<le> c_rowSize c"
    using col_size_Some[OF ok col_size_used[OF s(1)]] col_size_Some[OF ok col_size_used[OF t(1)]] s(1) t(1)
    by (metis option.inject)+
  define i where "i = unat row - unat (c_startRow c)"
  define j where "j = unat row' - unat (c_startRow c)"
  have step: "x * c_rowSize c + c_rowSize c \<le> y * c_rowSize c" if "x < y" for x y
    using mult_le_mono1[of "Suc x" y "c_rowSize c"] that by simp
  consider "i < j" | "j < i" | "i = j" by linarith
  then show ?thesis
  proof cases
    case 1
    then show ?thesis using step[OF 1] rs s(2) by (simp add: cell_pos_def i_def j_def)
  next
    case 2
    then show ?thesis using step[OF 2] rs t(2) by (simp add: cell_pos_def i_def j_def)
  next
    case 3
    have "c_startRow c \<le> row" "c_startRow c \<le> row'" using a b by (simp_all add: cell_ok_def row_in_buf_def)
    then have "unat row = unat row'" using 3 by (simp add: i_def j_def word_le_nat_alt)
    then have "row = row'" by (simp add: word_unat_eq_iff)
    then have "col \<noteq> col'" using ne by simp
    then show ?thesis
      using cols_disjoint[OF ok col_size_used[OF s(1)] col_size_used[OF t(1)] _ s(1) t(1)] 3 s(2) t(2)
      by (simp add: cell_pos_def i_def j_def \<open>row = row'\<close>) linarith
  qed
qed

text \<open>Two caches that differ in the contents of the buffer only.\<close>

definition same_dir :: "NoDBCache_t \<Rightarrow> NoDBCache_t \<Rightarrow> bool" where
  "same_dir c c' \<longleftrightarrow> c' = c\<lparr>c_buf := c_buf c'\<rparr> \<and> map_option length (c_buf c') = map_option length (c_buf c)"

lemma used_cols_buf [simp]: "used_cols (c\<lparr>c_buf := x\<rparr>) = used_cols c"
  by (simp add: used_cols_def)

lemma col_off_buf [simp]: "col_off (c\<lparr>c_buf := x\<rparr>) = col_off c"
  by (simp add: col_off_def fun_eq_iff)

lemma col_size_buf [simp]: "col_size (c\<lparr>c_buf := x\<rparr>) = col_size c"
  by (simp add: col_size_def fun_eq_iff)

lemma cache_ok_buf [simp]: "cache_ok (c\<lparr>c_buf := x\<rparr>) = cache_ok c"
  by (simp add: cache_ok_def)

lemma dir_nRows [simp]:
  "used_cols (c\<lparr>c_nRows := x\<rparr>) = used_cols c" "col_off (c\<lparr>c_nRows := x\<rparr>) = col_off c"
  "col_size (c\<lparr>c_nRows := x\<rparr>) = col_size c" "cache_ok (c\<lparr>c_nRows := x\<rparr>) = cache_ok c"
proof -
  show u: "used_cols (c\<lparr>c_nRows := x\<rparr>) = used_cols c" by (simp add: used_cols_def)
  show o: "col_off (c\<lparr>c_nRows := x\<rparr>) = col_off c" by (simp add: col_off_def fun_eq_iff)
  show "col_size (c\<lparr>c_nRows := x\<rparr>) = col_size c" by (simp add: col_size_def fun_eq_iff u o)
  show "cache_ok (c\<lparr>c_nRows := x\<rparr>) = cache_ok c" by (simp add: cache_ok_def u o)
qed

lemma ComputeOffset_buf [simp]: "ComputeOffset (c\<lparr>c_buf := x\<rparr>) col row = ComputeOffset c col row"
  by (simp add: ComputeOffset_def)

lemma same_dir_refl [simp]: "same_dir c c"
  by (simp add: same_dir_def)

lemma same_dirD:
  assumes "same_dir c c'"
  obtains x where "c' = c\<lparr>c_buf := x\<rparr>" "map_option length x = map_option length (c_buf c)"
  using assms by (auto simp: same_dir_def)

lemma same_dirI: "map_option length x = map_option length (c_buf c) \<Longrightarrow> same_dir c (c\<lparr>c_buf := x\<rparr>)"
  by (simp add: same_dir_def)

lemma same_dir_cell_ok: "same_dir c c' \<Longrightarrow> cell_ok c col row n \<Longrightarrow> cell_ok c' col row n"
  by (erule same_dirD) (auto simp: cell_ok_def buf_ok_def row_in_buf_def)

lemma same_dir_trans: "same_dir c c' \<Longrightarrow> same_dir c' c'' \<Longrightarrow> same_dir c c''"
  by (elim same_dirD) (auto intro!: same_dirI)

context byte_codec
begin

lemma set_get_same:
  assumes "cell_ok c col row n"
  shows "\<exists>c'. cell_set enc c col row v = Some c' \<and> same_dir c c' \<and> cell_get dec n c' col row = Some v"
proof -
  obtain b where b: "c_buf c = Some b" using assms by (auto simp: cell_ok_def buf_ok_def)
  obtain w where w: "ComputeOffset c col row = Some w" "unat w = cell_pos c col row"
    using ComputeOffset_exact[OF assms] by blast
  obtain b' where b': "bytes_write b (unat w) (enc v) = Some b'" "length b' = length b"
    "bytes_read b' (unat w) n = Some (enc v)"
    using bytes_write_read_same[of "unat w" "enc v" b] cell_pos_bounds(1)[OF assms b] w(2) length_enc[of v] by auto
  show ?thesis
    using b w b' by (auto simp: cell_set_def cell_get_def NoDBCacheGetOffset_def dec_enc intro!: same_dirI)
qed

lemma set_get_other:
  assumes a: "cell_ok c col row n" and o: "cell_ok c col' row' m" and ne: "(col, row) \<noteq> (col', row')"
    and set: "cell_set enc c col row v = Some c'"
  shows "cell_get dec' m c' col' row' = cell_get dec' m c col' row'"
proof -
  obtain b where b: "c_buf c = Some b" using a by (auto simp: cell_ok_def buf_ok_def)
  obtain w where w: "ComputeOffset c col row = Some w" "unat w = cell_pos c col row"
    using ComputeOffset_exact[OF a] by blast
  obtain x where x: "ComputeOffset c col' row' = Some x" "unat x = cell_pos c col' row'"
    using ComputeOffset_exact[OF o] by blast
  obtain b' where b': "bytes_write b (unat w) (enc v) = Some b'" "c' = c\<lparr>c_buf := Some b'\<rparr>"
    using set b w by (auto simp: cell_set_def NoDBCacheGetOffset_def split: Option.bind_splits)
  have "bytes_read b' (unat x) m = bytes_read b (unat x) m"
    using bytes_write_read_other[OF b'(1)] cells_disjoint[OF a o ne] w(2) x(2) length_enc[of v] by simp
  then show ?thesis using b b'(2) x by (simp add: cell_get_def NoDBCacheGetOffset_def)
qed

end

interpretation char_codec: byte_codec "enc_word 1 :: 8 word \<Rightarrow> byte list" dec_word 1
  by unfold_locales (simp_all only: dec_enc_word length_enc_word, simp add: take_bit_word_eq_self)

interpretation short_codec: byte_codec "enc_word 2 :: 16 word \<Rightarrow> byte list" dec_word 2
  by unfold_locales (simp_all only: dec_enc_word length_enc_word, simp add: take_bit_word_eq_self)

interpretation int_codec: byte_codec "enc_word 4 :: 32 word \<Rightarrow> byte list" dec_word 4
  by unfold_locales (simp_all only: dec_enc_word length_enc_word, simp add: take_bit_word_eq_self)

interpretation word_codec: byte_codec "enc_word 8 :: 64 word \<Rightarrow> byte list" dec_word 8
  by unfold_locales (simp_all only: dec_enc_word length_enc_word, simp add: take_bit_word_eq_self)

interpretation bool_codec: byte_codec enc_bool dec_bool 1
  by unfold_locales (simp_all add: enc_bool_def dec_bool_def)

interpretation datum_codec: byte_codec enc_datum dec_datum 9
proof
  fix v :: NoDBDatum_t
  show "length (enc_datum v) = 9" by (simp only: enc_datum_def length_append length_enc_word enc_bool_def) simp
  have "take 8 (enc_datum v) = enc_word 8 (datum v)" "drop 8 (enc_datum v) = enc_bool (null v)"
    by (simp_all only: enc_datum_def take_append drop_append length_enc_word) simp_all
  then show "dec_datum (enc_datum v) = v"
    using word_codec.dec_enc[of "datum v"] bool_codec.dec_enc[of "null v"] by (simp only: dec_datum_def) simp
qed

interpretation pair_codec: byte_codec enc_pair dec_pair 4
proof
  fix v :: NoDBPMPair_t
  show "length (enc_pair v) = 4" by (simp add: enc_pair_def)
  have "take 2 (enc_pair v) = enc_word 2 (pointer v)" "drop 2 (enc_pair v) = enc_word 2 (width v)"
    by (simp_all only: enc_pair_def take_append drop_append length_enc_word) simp_all
  then show "dec_pair (enc_pair v) = v"
    using short_codec.dec_enc[of "pointer v"] short_codec.dec_enc[of "width v"] by (simp only: dec_pair_def) simp
qed

section \<open>Vectors of cells\<close>

context byte_codec
begin

lemma set_vector:
  assumes "distinct cs" "\<forall>col \<in> set cs. cell_ok c col row n"
  shows "\<exists>c'. foldM (\<lambda>c col. cell_set enc c col row (V col)) c cs = Some c' \<and> same_dir c c' \<and>
     (\<forall>col \<in> set cs. cell_get dec n c' col row = Some (V col)) \<and>
     (\<forall>col' row' m. cell_ok c col' row' m \<longrightarrow> row' \<noteq> row \<or> col' \<notin> set cs \<longrightarrow>
        cell_get dec' m c' col' row' = cell_get dec' m c col' row')"
  using assms
proof (induction cs rule: rev_induct)
  case Nil
  then show ?case by simp
next
  case (snoc x xs)
  then obtain c1 where c1: "foldM (\<lambda>c col. cell_set enc c col row (V col)) c xs = Some c1" "same_dir c c1"
    "\<forall>col \<in> set xs. cell_get dec n c1 col row = Some (V col)"
    "\<forall>col' row' m. cell_ok c col' row' m \<longrightarrow> row' \<noteq> row \<or> col' \<notin> set xs \<longrightarrow>
        cell_get dec' m c1 col' row' = cell_get dec' m c col' row'"
    by auto
  have okx: "cell_ok c1 x row n" using snoc.prems(2) same_dir_cell_ok[OF c1(2)] by simp
  obtain c2 where c2: "cell_set enc c1 x row (V x) = Some c2" "same_dir c1 c2" "cell_get dec n c2 x row = Some (V x)"
    using set_get_same[OF okx] by blast
  have "cell_get dec n c2 col row = Some (V col)" if "col \<in> set xs" for col
    using set_get_other[OF okx same_dir_cell_ok[OF c1(2)] _ c2(1), of col row n dec] snoc.prems that c1(3) by auto
  moreover have "cell_get dec' m c2 col' row' = cell_get dec' m c col' row'"
    if "cell_ok c col' row' m" "row' \<noteq> row \<or> col' \<notin> set (xs @ [x])" for col' row' m
    using set_get_other[OF okx same_dir_cell_ok[OF c1(2) that(1)] _ c2(1), of dec'] that c1(4) by auto
  ultimately show ?case
    using c1 c2 same_dir_trans[OF c1(2) c2(2)] by (intro exI[of _ c2]) (auto simp: foldM_snoc)
qed

end

lemma datum_record: "\<lparr>datum = datum v, null = null v\<rparr> = v"
  by (cases v) simp

lemma NoDBCacheSetDatumVector_eq:
  assumes "\<forall>col \<in> set cs. arr_get dv col = Some (Some (datum (V col))) \<and> arr_get nv col = Some (Some (null (V col)))"
  shows "NoDBCacheSetDatumVector c dv nv (map Some cs) row = foldM (\<lambda>c col. cell_set enc_datum c col row (V col)) c cs"
proof -
  have "foldM (\<lambda>cache i. do {
         col \<leftarrow> NoDBColVectorGet (map Some cs) (int i);
         od \<leftarrow> arr_get dv col; d \<leftarrow> od;
         on \<leftarrow> arr_get nv col; n \<leftarrow> on;
         cell_set enc_datum cache col row \<lparr>datum = d, null = n\<rparr>
       }) c [0..<length cs] = foldM (\<lambda>c col. cell_set enc_datum c col row (V col)) c cs"
    using assms by (intro foldM_index) (simp add: datum_record)
  then show ?thesis by (simp add: NoDBCacheSetDatumVector_def)
qed

lemma NoDBCacheSetPMPairVector_eq:
  assumes "\<forall>col \<in> set cs. arr_get pv col = Some (Some (V col))"
  shows "NoDBCacheSetPMPairVector c pv (map Some cs) row = foldM (\<lambda>c col. cell_set enc_pair c col row (V col)) c cs"
proof -
  have "foldM (\<lambda>cache i. do {
         col \<leftarrow> NoDBColVectorGet (map Some cs) (int i);
         op \<leftarrow> arr_get pv col; p \<leftarrow> op;
         cell_set enc_pair cache col row p
       }) c [0..<length cs] = foldM (\<lambda>c col. cell_set enc_pair c col row (V col)) c cs"
    using assms by (intro foldM_index) simp
  then show ?thesis by (simp add: NoDBCacheSetPMPairVector_def)
qed

text \<open>The array after storing \<open>Some (f col)\<close> for every column of a list.\<close>

definition store_cols :: "'a option list \<Rightarrow> int list \<Rightarrow> (int \<Rightarrow> 'a) \<Rightarrow> 'a option list" where
  "store_cols xs cs f = map (\<lambda>i. if int i \<in> set cs then Some (f (int i)) else xs ! i) [0..<length xs]"

lemma length_store_cols [simp]: "length (store_cols xs cs f) = length xs"
  by (simp add: store_cols_def)

lemma store_cols_Nil [simp]: "store_cols xs [] f = xs"
  by (simp add: store_cols_def map_nth)

lemma store_cols_snoc:
  "0 \<le> x \<Longrightarrow> nat x < length xs \<Longrightarrow> arr_set (store_cols xs cs f) x (Some (f x)) = Some (store_cols xs (cs @ [x]) f)"
  by (auto simp: arr_set_def store_cols_def nth_list_update intro!: nth_equalityI)

lemma NoDBCacheGetDatumVector_eq:
  assumes "\<forall>col \<in> set cs. cell_get dec_datum 9 c col row = Some (V col) \<and> 0 \<le> col \<and> nat col < length dv \<and> nat col < length nv"
  shows "NoDBCacheGetDatumVector c dv nv (map Some cs) row =
    Some (store_cols dv cs (\<lambda>col. datum (V col)), store_cols nv cs (\<lambda>col. null (V col)))"
proof -
  let ?f = "\<lambda>(dv, nv) col. do {
         d \<leftarrow> cell_get dec_datum 9 c col row;
         dv' \<leftarrow> arr_set dv col (Some (datum d));
         nv' \<leftarrow> arr_set nv col (Some (null d));
         Some (dv', nv')
       }"
  have "NoDBCacheGetDatumVector c dv nv (map Some cs) row = foldM ?f (dv, nv) cs"
    unfolding NoDBCacheGetDatumVector_def vector_size length_map nat_int
    by (rule foldM_index) (simp split: prod.splits)
  also have "\<dots> = Some (store_cols dv cs (\<lambda>col. datum (V col)), store_cols nv cs (\<lambda>col. null (V col)))"
    using assms
  proof (induction cs rule: rev_induct)
    case (snoc x xs)
    have "arr_set (store_cols dv xs (\<lambda>col. datum (V col))) x (Some (datum (V x))) = Some (store_cols dv (xs @ [x]) (\<lambda>col. datum (V col)))"
      "arr_set (store_cols nv xs (\<lambda>col. null (V col))) x (Some (null (V x))) = Some (store_cols nv (xs @ [x]) (\<lambda>col. null (V col)))"
      using snoc.prems store_cols_snoc[of x dv xs "\<lambda>col. datum (V col)"] store_cols_snoc[of x nv xs "\<lambda>col. null (V col)"]
      by simp_all
    then show ?case using snoc by (simp add: foldM_snoc)
  qed simp
  finally show ?thesis .
qed

lemma NoDBCacheGetPMPairVector_eq:
  assumes "\<forall>col \<in> set cs. cell_get dec_pair 4 c col row = Some (V col) \<and> 0 \<le> col \<and> nat col < length pv"
  shows "NoDBCacheGetPMPairVector c pv (map Some cs) row = Some (store_cols pv cs V)"
proof -
  let ?f = "\<lambda>pv col. do { p \<leftarrow> cell_get dec_pair 4 c col row; arr_set pv col (Some p) }"
  have "NoDBCacheGetPMPairVector c pv (map Some cs) row = foldM ?f pv cs"
    unfolding NoDBCacheGetPMPairVector_def vector_size length_map nat_int
    by (rule foldM_index) simp
  also have "\<dots> = Some (store_cols pv cs V)"
    using assms by (induction cs rule: rev_induct) (auto simp: foldM_snoc store_cols_snoc)
  finally show ?thesis .
qed

section \<open>Growing\<close>

lemma buf_bytes_exact:
  assumes "c_rowSize c < 2 ^ 32" "unat r * c_rowSize c < 2 ^ 64"
  shows "buf_bytes c r = unat r * c_rowSize c"
proof -
  have "r * of_nat (c_rowSize c) = (of_nat (unat r * c_rowSize c) :: 64 word)" by simp
  moreover have "unat (of_nat (unat r * c_rowSize c) :: 64 word) = unat r * c_rowSize c"
    using assms(2) by (intro unat_of_nat_lt) simp
  ultimately show ?thesis unfolding buf_bytes_def by metis
qed

lemma bytes_read_realloc:
  "j + m \<le> length b \<Longrightarrow> length b \<le> n \<Longrightarrow> bytes_read (realloc_array b n) j m = bytes_read b j m"
  by (simp add: bytes_read_def realloc_array_def)

definition rows_keep :: "NoDBCache_t \<Rightarrow> NoDBCache_t \<Rightarrow> bool" where
  "rows_keep c c' \<longleftrightarrow> (\<forall>col row m. cell_ok c col row m \<longrightarrow> cell_ok c' col row m \<and>
     NoDBCacheGetOffset c' col row = NoDBCacheGetOffset c col row \<and>
     (\<forall>b b'. c_buf c = Some b \<longrightarrow> c_buf c' = Some b' \<longrightarrow>
        bytes_read b' (cell_pos c col row) m = bytes_read b (cell_pos c col row) m))"

lemma rows_keep_get:
  assumes "rows_keep c c'" "cell_ok c col row m"
  shows "cell_get dec m c' col row = cell_get dec m c col row"
proof -
  obtain w where w: "ComputeOffset c col row = Some w" "unat w = cell_pos c col row"
    using ComputeOffset_exact[OF assms(2)] by blast
  obtain b where b: "c_buf c = Some b" using assms(2) by (auto simp: cell_ok_def buf_ok_def)
  have "cell_ok c' col row m" using assms by (simp add: rows_keep_def)
  then obtain b' where b': "c_buf c' = Some b'" by (auto simp: cell_ok_def buf_ok_def)
  have off: "NoDBCacheGetOffset c col row = Some w" using w b by (simp add: NoDBCacheGetOffset_def)
  moreover have "NoDBCacheGetOffset c' col row = NoDBCacheGetOffset c col row"
    "bytes_read b' (cell_pos c col row) m = bytes_read b (cell_pos c col row) m"
    using assms b b' unfolding rows_keep_def by blast+
  ultimately show ?thesis
    using w b b' by (simp add: cell_get_def)
qed

lemma NoDBCacheSetMaxRows_ok:
  assumes ok: "cache_ok c" "c_buf c = None \<or> buf_ok c" and rs: "c_rowSize c < 2 ^ 32" "unat r * c_rowSize c < 2 ^ 64"
  shows "\<exists>c'. NoDBCacheSetMaxRows c r = Some c' \<and> buf_ok c' \<and> cache_ok c' \<and> rows_keep c c' \<and>
    (\<exists>n. c_nRows c' = Some n \<and> r \<le> n) \<and>
    used_cols c' = used_cols c \<and> col_size c' = col_size c \<and> c_startRow c' = c_startRow c"
proof (cases "c_buf c")
  case None
  then have "NoDBCacheSetMaxRows c r = Some (c\<lparr>c_nRows := Some r, c_buf := Some (replicate (buf_bytes c r) None)\<rparr>)"
    by (simp add: NoDBCacheSetMaxRows_def)
  then show ?thesis
    using None ok rs buf_bytes_exact[OF rs]
    by (auto simp: buf_ok_def rows_keep_def cell_ok_def)
next
  case (Some b)
  then obtain n where n: "c_nRows c = Some n" "length b = unat n * c_rowSize c" "unat n * c_rowSize c < 2 ^ 64"
    using ok by (auto simp: buf_ok_def)
  show ?thesis
  proof (cases "r \<le> n")
    case True
    then show ?thesis using Some n ok by (auto simp: NoDBCacheSetMaxRows_def rows_keep_def)
  next
    case False
    let ?c = "c\<lparr>c_nRows := Some r, c_buf := Some (realloc_array b (buf_bytes c r))\<rparr>"
    have eq: "NoDBCacheSetMaxRows c r = Some ?c" using Some n False by (simp add: NoDBCacheSetMaxRows_def)
    have lt: "unat n < unat r" using False by (simp add: word_less_iff_unat[symmetric])
    then have le: "length b \<le> buf_bytes c r"
      unfolding buf_bytes_exact[OF rs] n(2) by (intro mult_le_mono1) simp
    have len: "length (realloc_array b (buf_bytes c r)) = unat r * c_rowSize c"
      using le by (simp add: realloc_array_def buf_bytes_exact[OF rs])
    have buf: "buf_ok ?c" using len rs by (simp add: buf_ok_def)
    have dir: "cache_ok ?c" "used_cols ?c = used_cols c" "col_size ?c = col_size c"
      using ok(1) by simp_all
    have "cell_ok ?c col row m" if "cell_ok c col row m" for col row m
      using that buf dir n lt by (auto simp: cell_ok_def row_in_buf_def)
    moreover have "bytes_read (realloc_array b (buf_bytes c r)) (cell_pos c col row) m = bytes_read b (cell_pos c col row) m"
      if "cell_ok c col row m" for col row m
      using bytes_read_realloc[OF cell_pos_bounds(1)[OF that Some] le] .
    ultimately have "rows_keep c ?c"
      using Some by (auto simp: rows_keep_def NoDBCacheGetOffset_def ComputeOffset_def)
    then show ?thesis using eq buf dir by simp
  qed
qed

section \<open>Deleting the column added last\<close>

lemma FindPartition_loop_prefix:
  assumes "\<forall>p \<in> set l. 0 < psize p" "l = xs @ ys @ zs"
  shows "FindPartition_loop l (length xs) (int (total_size ys)) = Some (length xs + length ys)"
  using assms(2)
proof (induction ys arbitrary: xs)
  case Nil
  then show ?case by (subst FindPartition_loop.simps) simp
next
  case (Cons p ys)
  then have "0 < psize p" using assms(1) by simp
  moreover have "FindPartition_loop l (length (xs @ [p])) (int (total_size ys)) = Some (length (xs @ [p]) + length ys)"
    using Cons by simp
  ultimately show ?case
    using Cons.prems by (subst FindPartition_loop.simps) (simp add: add.commute)
qed

lemma DeletePartition_layout:
  assumes "\<not> used p"
  shows "layout 0 (DeletePartition (xs @ p # ys) (length xs)) = layout 0 (xs @ p # ys)"
    "total_size (DeletePartition (xs @ p # ys) (length xs)) = total_size (xs @ p # ys)"
    "free_size (DeletePartition (xs @ p # ys) (length xs)) = free_size (xs @ p # ys)"
    "\<forall>q \<in> set (xs @ p # ys). 0 < psize q \<Longrightarrow> \<forall>q \<in> set (DeletePartition (xs @ p # ys) (length xs)). 0 < psize q"
  using assms
  by (cases ys; auto simp: DeletePartition_def layout_append nth_append add.assoc)+

lemma rebuild_map:
  assumes "cs = map Some us @ rest" "distinct us" "\<forall>c \<in> set us. 0 \<le> c \<and> nat c < n"
  shows "\<exists>m. foldM (\<lambda>m i. do { oc \<leftarrow> arr_get cs (int i); c \<leftarrow> oc; arr_set m c (int i) }) (replicate n (-1)) [0..<length us] = Some m \<and>
    length m = n \<and> (\<forall>j < n. m ! j \<noteq> -1 \<longleftrightarrow> int j \<in> set us)"
proof -
  let ?P = "\<lambda>i (m :: int list). length m = n \<and> (\<forall>j < n. m ! j \<noteq> -1 \<longleftrightarrow> int j \<in> set (take i us))"
  have "\<exists>m. foldM (\<lambda>m i. do { oc \<leftarrow> arr_get cs (int i); c \<leftarrow> oc; arr_set m c (int i) }) (replicate n (-1)) [0..<length us] = Some m \<and>
      ?P (length [0..<length us]) m"
  proof (rule foldM_rule)
    fix i m assume i: "i < length [0..<length us]" and P: "?P i m"
    have u: "0 \<le> us ! i" "nat (us ! i) < n" using assms(3) i by simp_all
    have "arr_get cs (int i) = Some (Some (us ! i))" using assms(1) i by (simp add: nth_append)
    moreover have "arr_set m (us ! i) (int i) = Some (m[nat (us ! i) := int i])" using u P by (simp add: arr_set_def nat_less_iff)
    moreover have "?P (Suc i) (m[nat (us ! i) := int i])"
      using P i u by (auto simp: take_Suc_conv_app_nth nth_list_update)
    ultimately show "\<exists>m'. (do { oc \<leftarrow> arr_get cs (int ([0..<length us] ! i)); c \<leftarrow> oc; arr_set m c (int ([0..<length us] ! i)) }) = Some m' \<and> ?P (Suc i) m'"
      using i by simp
  qed simp
  then show ?thesis by simp
qed

lemma placed_list:
  assumes "c_list c = xs @ p # ys" "sz \<le> psize p"
  shows "c_list (placed c col sz (length xs) off) = xs @ p\<lparr>used := True, psize := sz\<rparr> #
      (if psize p = sz then [] else [\<lparr>used = False, psize = psize p - sz\<rparr>]) @ ys"
  using assms by (auto simp: placed_def mark_used_def SplitPartition_def)

lemma used_cols_prefix: "cache_ok c \<Longrightarrow> take (c_usedCols c) (c_cols c) = map Some (used_cols c)"
  unfolding cache_ok_def used_cols_def by (auto simp: list_eq_iff_nth_eq in_set_conv_nth)

lemma NoDBCacheDeleteColumn_placed:
  assumes ok: "cache_ok c" and col: "0 \<le> col" "nat col < length (c_offset c)" "nat col < length (c_map c)"
    and new: "col \<notin> set (used_cols c)" and sz: "0 < sz"
    and fit: "FindFirstPartitionFit (c_list c) sz = Some (i, off)"
  shows "\<exists>c'. NoDBCacheDeleteColumn (placed c col sz i (nat off)) col sz = Some c' \<and> cache_ok c' \<and>
    used_cols c' = used_cols c \<and> c_rowFree c' = c_rowFree c \<and>
    (\<forall>k \<in> set (used_cols c). col_off c' k = col_off c k \<and> col_size c' k = col_size c k)"
proof -
  obtain xs p ys where l: "c_list c = xs @ p # ys" and i: "i = length xs" and off: "off = int (total_size xs)"
    and p: "sz \<le> psize p" "\<not> used p" by (rule FindFirstPartitionFit_Some[OF fit])
  note u = ok[unfolded cache_ok_def]
  define c1 where "c1 = placed c col sz i (nat off)"
  define rest where "rest = (if psize p = sz then [] else [\<lparr>used = False, psize = psize p - sz\<rparr>]) @ ys"
  define us where "us = used_cols c"
  define k where "k = c_usedCols c"
  have lenus: "length us = k" using u by (simp add: us_def k_def used_cols_def)
  have l1: "c_list c1 = xs @ p\<lparr>used := True, psize := sz\<rparr> # rest"
    unfolding c1_def i rest_def by (rule placed_list[OF l p(1)])
  define cs where "cs = (c_cols c1)[k := Some (-1)]"
  have k1: "k < length (c_cols c1)" using u by (auto simp: c1_def placed_def k_def)
  have "take k (c_cols c1) = take k (c_cols c)" using u by (auto simp: c1_def placed_def k_def)
  then have cs: "cs = map Some us @ drop k cs"
    using used_cols_prefix[OF ok] by (simp add: cs_def us_def k_def) (metis append_take_drop_id order_refl take_update_cancel)
  have takecs: "take k cs = map Some us" by (subst cs) (simp add: lenus)
  obtain m where m: "foldM (\<lambda>m i. do { oc \<leftarrow> arr_get cs (int i); c \<leftarrow> oc; arr_set m c (int i) })
      (replicate (length (c_map c)) (-1)) [0..<k] = Some m" "length m = length (c_map c)"
    "\<forall>j < length (c_map c). m ! j \<noteq> -1 \<longleftrightarrow> int j \<in> set us"
    using rebuild_map[OF cs, of "length (c_map c)"] u lenus by (auto simp: us_def)
  have pos1: "\<forall>p \<in> set (c_list c1). 0 < psize p"
    using placed_ok(1)[OF ok col new sz fit] by (simp add: c1_def cache_ok_def)
  have find: "FindPartition (c_list c1) (int (total_size xs)) = Some (length xs)"
    using FindPartition_loop_prefix[of "c_list c1" "[]" xs "p\<lparr>used := True, psize := sz\<rparr> # rest"] pos1 l1
    by (simp add: FindPartition_def)
  let ?l = "xs @ p\<lparr>psize := sz, used := False\<rparr> # rest"
  define c2 where "c2 = c1\<lparr>c_cols := cs, c_usedCols := k, c_offset := (c_offset c)[nat col := -1], c_map := m,
      c_list := DeletePartition ?l (length xs), c_rowFree := c_rowFree c\<rparr>"
  have "arr_get (c_map c1) col = Some (int (Suc k))" "arr_get (c_offset c1) col = Some (int (total_size xs))"
    "arr_set (c_offset c1) col (-1) = Some ((c_offset c)[nat col := -1])" "c_usedCols c1 = Suc k"
    "length (c_map c1) = length (c_map c)" "arr_set (c_cols c1) (int k) (Some (-1)) = Some cs"
    using col off k1 by (auto simp: c1_def placed_def arr_get_def arr_set_def nat_less_iff k_def cs_def)
  moreover have "c_rowFree c1 + sz = c_rowFree c" using placed_ok(2)[OF ok col new sz fit] by (simp add: c1_def)
  ultimately have "NoDBCacheDeleteColumn c1 col sz = Some c2"
    using m(1) find l1 by (simp add: NoDBCacheDeleteColumn_def c2_def)
  moreover have used2: "used_cols c2 = us"
    using takecs by (simp add: used_cols_def c2_def comp_def)
  moreover have off2: "col_off c2 j = col_off c j" if "j \<in> set us" for j
    using that new u col by (auto simp: col_off_def c2_def us_def nth_list_update nat_eq_iff)
  moreover have pu: "\<not> used (p\<lparr>psize := sz, used := False\<rparr>)" by simp
  note dl = DeletePartition_layout[OF pu, of xs rest]
  have l2: "c_list c2 = DeletePartition ?l (length xs)" by (simp add: c2_def)
  have l3: "layout 0 ?l = layout 0 (c_list c)" "total_size ?l = total_size (c_list c)" "free_size ?l = free_size (c_list c)"
    using p by (auto simp: l rest_def layout_append)
  have lay: "layout 0 (c_list c2) = layout 0 (c_list c)" "total_size (c_list c2) = total_size (c_list c)"
    "free_size (c_list c2) = free_size (c_list c)"
    unfolding l2 l3[symmetric] by (rule dl)+
  moreover have pos2: "\<forall>q \<in> set (c_list c2). 0 < psize q"
    unfolding l2 using dl(4) pos1 l1 by simp
  moreover have "col_size c2 j = col_size c j" if "j \<in> set us" for j
    using that used2 off2 lay by (simp add: col_size_def us_def)
  moreover have "cache_ok c2"
  proof -
    have "inj_on (col_off c2) (set us)"
      using u off2 inj_on_cong[of "set us" "col_off c2" "col_off c"] by (simp add: us_def)
    moreover have "col_off c2 ` set us = fst ` set (layout 0 (c_list c2))"
      using u off2 lay by (simp add: us_def)
    moreover have "None \<notin> set (take (c_usedCols c2) (c_cols c2))" "c_usedCols c2 \<le> length (c_cols c2)"
      using takecs k1 by (auto simp: c2_def cs_def)
    moreover have "\<forall>j \<in> set us. 0 \<le> j \<and> nat j < length (c_offset c2) \<and> 0 \<le> c_offset c2 ! nat j \<and>
        nat j < length (c_map c2) \<and> c_map c2 ! nat j \<noteq> -1"
      using u m(2,3) new col by (auto simp: c2_def us_def nth_list_update nat_eq_iff)
    moreover have "\<forall>j < length (c_map c2). c_map c2 ! j \<noteq> -1 \<longrightarrow> int j \<in> set us"
      using m(2,3) by (simp add: c2_def)
    moreover have "distinct us" "c_startOffset c2 = of_nat (c_rowSize c2) * c_startRow c2"
      "total_size (c_list c2) = c_rowSize c2" "free_size (c_list c2) = c_rowFree c2"
      using u lay by (auto simp: us_def c2_def c1_def placed_def)
    ultimately show ?thesis using pos2 unfolding cache_ok_def used2 by blast
  qed
  ultimately show ?thesis unfolding c1_def us_def by (intro exI[of _ c2]) (simp add: c2_def)
qed

section \<open>Properties\<close>

lemma AddColumn_ok:
  assumes ok: "cache_ok c" and col: "0 \<le> col" "nat col < length (c_offset c)" and sz: "0 < sz"
  shows "\<exists>c' r. NoDBCacheAddColumn c col sz = Some (c', r) \<and> cache_ok c' \<and> c_offset c' = (if r = 1 then (c_offset c)[nat col := int (col_off c' col)] else c_offset c) \<and>
    r = (if col \<notin> set (used_cols c) \<and> (\<exists>p \<in> set (c_list c). \<not> used p \<and> sz \<le> psize p) then 1 else 0) \<and>
    (r = 0 \<longrightarrow> used_cols c' = used_cols c \<and> col_size c' = col_size c \<and> c_rowFree c' = c_rowFree c) \<and>
    (r = 1 \<longrightarrow> used_cols c' = used_cols c @ [col] \<and> col_size c' col = Some sz \<and> c_rowFree c' + sz = c_rowFree c \<and>
       (\<forall>k \<in> set (used_cols c). col_off c' k = col_off c k \<and> col_size c' k = col_size c k))"
proof -
  note cases = NoDBCacheAddColumn_cases[OF ok col sz]
  let ?p = "pad_map c col"
  have okp: "cache_ok ?p" by (rule cache_ok_pad_map[OF ok col(1)])
  show ?thesis
  proof (cases "c_rowFree c < sz")
    case True
    then have "\<not> (\<exists>p \<in> set (c_list c). \<not> used p \<and> sz \<le> psize p)"
      using free_size_ge ok unfolding cache_ok_def by (metis leD le_trans)
    then show ?thesis using True cases ok by simp
  next
    case free: False
    show ?thesis
    proof (cases "col \<in> set (used_cols c)")
      case True
      then show ?thesis using free cases okp by simp
    next
      case new: False
      show ?thesis
      proof (cases "FindFirstPartitionFit (c_list c) sz")
        case None
        then have "\<not> (\<exists>p \<in> set (c_list c). \<not> used p \<and> sz \<le> psize p)"
          by (auto simp: FindFirstPartitionFit_def FindFirstPartitionFit_loop_None)
        then show ?thesis using None free new cases okp by simp
      next
        case (Some r)
        obtain i off where r: "r = (i, off)" by (cases r)
        have fit: "FindFirstPartitionFit (c_list ?p) sz = Some (i, off)" using Some r by simp
        have colp: "nat col < length (c_offset ?p)" "col \<notin> set (used_cols ?p)" using col new by simp_all
        note po = placed_ok[OF okp col(1) colp(1) pad_map_map(1)[OF col(1)] colp(2) sz fit]
        have ex: "\<exists>p \<in> set (c_list c). \<not> used p \<and> sz \<le> psize p"
          by (rule FindFirstPartitionFit_Some[OF Some[unfolded r]]) auto
        have us: "used_cols (placed ?p col sz i (nat off)) = used_cols ?p @ [col]"
          using okp by (intro placed_used_cols) (simp add: cache_ok_def)
        have "c_offset (placed ?p col sz i (nat off)) = (c_offset c)[nat col := int (col_off (placed ?p col sz i (nat off)) col)]"
          using col by (simp add: placed_def col_off_def)
        moreover have "NoDBCacheAddColumn c col sz = Some (placed ?p col sz i (nat off), 1)"
          using cases Some free new r by simp
        ultimately show ?thesis using po us ex new by simp
      qed
    qed
  qed
qed

lemma AddColumn_frame:
  assumes "cache_ok c" "0 \<le> col" "nat col < length (c_offset c)" "0 < sz"
  shows "\<exists>c' r. NoDBCacheAddColumn c col sz = Some (c', r) \<and> cache_ok c' \<and> length (c_offset c') = length (c_offset c) \<and>
    set (used_cols c') \<subseteq> insert col (set (used_cols c))"
proof -
  obtain c' r where c': "NoDBCacheAddColumn c col sz = Some (c', r)" "cache_ok c'"
    "c_offset c' = (if r = 1 then (c_offset c)[nat col := int (col_off c' col)] else c_offset c)"
    "r = 0 \<or> r = 1" "r = 0 \<longrightarrow> used_cols c' = used_cols c" "r = 1 \<longrightarrow> used_cols c' = used_cols c @ [col]"
    using AddColumn_ok[OF assms] by metis
  then have "length (c_offset c') = length (c_offset c)" by simp
  moreover have "set (used_cols c') \<subseteq> insert col (set (used_cols c))" using c'(4-6) by auto
  ultimately show ?thesis using c'(1,2) by blast
qed

text \<open>
  \<open>NoDBCacheAddColumn\<close> keeps the invariant of the column directory. It returns 1 exactly when the
  column is new and some free partition is large enough; then the column gets a partition of its
  size, the free space shrinks by it, and every other column stays where it was. When it returns 0
  the set of columns, their places and the free space are unchanged.
\<close>

theorem cache_add_column:
  assumes "cache_ok c" "0 \<le> col" "nat col < length (c_offset c)" "0 < sz"
  shows "\<exists>c' r. NoDBCacheAddColumn c col sz = Some (c', r) \<and> cache_ok c' \<and>
    r = (if col \<notin> set (used_cols c) \<and> (\<exists>p \<in> set (c_list c). \<not> used p \<and> sz \<le> psize p) then 1 else 0) \<and>
    (r = 0 \<longrightarrow> used_cols c' = used_cols c \<and> col_size c' = col_size c \<and> c_rowFree c' = c_rowFree c) \<and>
    (r = 1 \<longrightarrow> used_cols c' = used_cols c @ [col] \<and> col_size c' col = Some sz \<and> c_rowFree c' + sz = c_rowFree c \<and>
       (\<forall>k \<in> set (used_cols c). col_off c' k = col_off c k \<and> col_size c' k = col_size c k))"
  using AddColumn_ok[OF assms] by blast

definition demo_rel :: NoDBRelation_t where
  "demo_rel = \<lparr>rel_name = ''t'', rel_used = 3, rel_max = 20, rel_attrs = replicate 20 None\<rparr>"

definition demo_cache :: NoDBCache_t where
  "demo_cache = NoDBCacheInit 1 demo_rel NODB_DATA_CACHE 10 64"

lemma demo_cache_ok: "cache_ok demo_cache" "used_cols demo_cache = []" "length (c_offset demo_cache) = 3"
  "c_list demo_cache = [\<lparr>used = False, psize = 64\<rparr>]" "c_buf demo_cache = None" "c_rowSize demo_cache = 64"
  "c_startRow demo_cache = 10"
  using cache_ok_Init[of 64 1 demo_rel NODB_DATA_CACHE 10]
  by (simp_all add: demo_cache_def demo_rel_def NoDBCacheInit_def NoDBRelationGetNumberColumns_def)

theorem cache_add_column_witness:
  "cache_ok demo_cache \<and> (\<exists>c' r. NoDBCacheAddColumn demo_cache 1 16 = Some (c', r) \<and> cache_ok c' \<and> r = 1 \<and>
     used_cols c' = [1] \<and> col_size c' 1 = Some 16)"
  using cache_add_column[of demo_cache 1 16] demo_cache_ok by (simp split: if_splits) blast



lemma NoDBCacheGetDatumVector_cong:
  assumes "\<forall>col \<in> set cs. cell_get dec_datum 9 c' col row = cell_get dec_datum 9 c col row"
  shows "NoDBCacheGetDatumVector c' dv nv (map Some cs) row = NoDBCacheGetDatumVector c dv nv (map Some cs) row"
  unfolding NoDBCacheGetDatumVector_def
  by (rule foldM_cong) (use assms in \<open>simp split: prod.splits\<close>)

lemma NoDBCacheGetPMPairVector_cong:
  assumes "\<forall>col \<in> set cs. cell_get dec_pair 4 c' col row = cell_get dec_pair 4 c col row"
  shows "NoDBCacheGetPMPairVector c' pv (map Some cs) row = NoDBCacheGetPMPairVector c pv (map Some cs) row"
  unfolding NoDBCacheGetPMPairVector_def
  by (rule foldM_cong) (use assms in simp)

lemma cell_ok_col: "cell_ok c col row m \<Longrightarrow> 0 \<le> col"
  by (auto simp: cell_ok_def cache_ok_def dest: col_size_used)

text \<open>
  C8: What \<open>NoDBCacheSetDatumVector\<close> writes for a row, \<open>NoDBCacheGetDatumVector\<close> reads back: the
  datums and null flags of exactly the given columns arrive in the output arrays, the other entries
  of the arrays are untouched. Reading any other row, or other columns of the same row, gives what
  it gave before the write.
\<close>

theorem cache_datum_roundtrip:
  fixes V :: "int \<Rightarrow> NoDBDatum_t"
  assumes "distinct cs" "\<forall>col \<in> set cs. cell_ok c col row 9"
    "\<forall>col \<in> set cs. arr_get dv col = Some (Some (datum (V col))) \<and> arr_get nv col = Some (Some (null (V col)))"
    "length dv0 = length dv" "length nv0 = length nv"
  shows "\<exists>c'. NoDBCacheSetDatumVector c dv nv (map Some cs) row = Some c' \<and>
    NoDBCacheGetDatumVector c' dv0 nv0 (map Some cs) row =
      Some (store_cols dv0 cs (\<lambda>col. datum (V col)), store_cols nv0 cs (\<lambda>col. null (V col))) \<and>
    (\<forall>cs' row' dv1 nv1. (\<forall>col \<in> set cs'. cell_ok c col row' 9) \<longrightarrow> row' \<noteq> row \<or> set cs' \<inter> set cs = {} \<longrightarrow>
       NoDBCacheGetDatumVector c' dv1 nv1 (map Some cs') row' = NoDBCacheGetDatumVector c dv1 nv1 (map Some cs') row')"
proof -
  obtain c' where c': "foldM (\<lambda>c col. cell_set enc_datum c col row (V col)) c cs = Some c'"
    "\<forall>col \<in> set cs. cell_get dec_datum 9 c' col row = Some (V col)"
    "\<forall>col' row' m. cell_ok c col' row' m \<longrightarrow> row' \<noteq> row \<or> col' \<notin> set cs \<longrightarrow>
        cell_get dec_datum m c' col' row' = cell_get dec_datum m c col' row'"
    using datum_codec.set_vector[OF assms(1,2), of V dec_datum] by blast
  have "\<forall>col \<in> set cs. cell_get dec_datum 9 c' col row = Some (V col) \<and> 0 \<le> col \<and> nat col < length dv0 \<and> nat col < length nv0"
    using c'(2) assms(2-5) by (auto simp: arr_get_Some_iff dest: cell_ok_col)
  moreover have "NoDBCacheGetDatumVector c' dv1 nv1 (map Some cs') row' = NoDBCacheGetDatumVector c dv1 nv1 (map Some cs') row'"
    if "\<forall>col \<in> set cs'. cell_ok c col row' 9" "row' \<noteq> row \<or> set cs' \<inter> set cs = {}" for cs' row' dv1 nv1
    by (rule NoDBCacheGetDatumVector_cong) (use that c'(3) in blast)
  ultimately show ?thesis
    using c'(1) NoDBCacheSetDatumVector_eq[OF assms(3), of c row]
    by (intro exI[of _ c']) (simp add: NoDBCacheGetDatumVector_eq)
qed

text \<open>A cache with two columns of 16 bytes and space for two rows.\<close>

definition demo_store :: NoDBCache_t where
  "demo_store =
     \<lparr>c_rel = 1, c_type = NODB_DATA_CACHE, c_startRow = 10, c_usedRows = 0, c_nRows = Some 2,
      c_startOffset = 640, c_rowSize = 64, c_rowFree = 32, c_cols = [Some 1, Some 2], c_usedCols = 2,
      c_offset = [-1, 0, 16], c_map = [-1, 1, 2],
      c_list = [\<lparr>used = True, psize = 16\<rparr>, \<lparr>used = True, psize = 16\<rparr>, \<lparr>used = False, psize = 32\<rparr>],
      c_buf = Some (replicate 128 None), c_sizeOfHeader = None\<rparr>"

lemma demo_store_cells: "cell_ok demo_store 1 row 9 \<longleftrightarrow> row = 10 \<or> row = 11"
  "cell_ok demo_store 2 row 9 \<longleftrightarrow> row = 10 \<or> row = 11"
proof -
  have u: "used_cols demo_store = [1, 2]" by (simp add: used_cols_def demo_store_def)
  have o: "col_off demo_store 1 = 0" "col_off demo_store 2 = 16" by (simp_all add: col_off_def demo_store_def)
  have "cache_ok demo_store"
    unfolding cache_ok_def u using o
    by (simp add: demo_store_def inj_on_def) (auto simp: nth_Cons' split: if_splits)
  moreover have "buf_ok demo_store" by (simp add: buf_ok_def demo_store_def)
  moreover have "row_in_buf demo_store row \<longleftrightarrow> row = 10 \<or> row = 11"
  proof -
    have "unat row = 10 \<longleftrightarrow> row = 10" "unat row = 11 \<longleftrightarrow> row = 11" by (auto simp: word_unat_eq_iff)
    then show ?thesis by (auto simp: row_in_buf_def demo_store_def word_le_iff_unat)
  qed
  moreover have "col_size demo_store 1 = Some 16" "col_size demo_store 2 = Some 16"
    using u o by (simp_all add: col_size_def) (simp_all add: demo_store_def)
  ultimately show "cell_ok demo_store 1 row 9 \<longleftrightarrow> row = 10 \<or> row = 11" "cell_ok demo_store 2 row 9 \<longleftrightarrow> row = 10 \<or> row = 11"
    by (simp_all add: cell_ok_def)
qed

theorem cache_datum_roundtrip_witness:
  "\<exists>c'. NoDBCacheSetDatumVector demo_store [None, Some 7, Some 9] [None, Some False, Some True] [Some 2, Some 1] 11 = Some c' \<and>
     NoDBCacheGetDatumVector c' [None, None, None] [None, None, None] [Some 2, Some 1] 11 =
       Some ([None, Some 7, Some 9], [None, Some False, Some True])"
proof -
  let ?V = "\<lambda>col :: int. if col = 1 then \<lparr>datum = 7, null = False\<rparr> else \<lparr>datum = 9, null = True\<rparr>"
  obtain c' where c': "NoDBCacheSetDatumVector demo_store [None, Some 7, Some 9] [None, Some False, Some True] (map Some [2, 1]) 11 = Some c'"
    "NoDBCacheGetDatumVector c' [None, None, None] [None, None, None] (map Some [2, 1]) 11 =
      Some (store_cols [None, None, None] [2, 1] (\<lambda>col. datum (?V col)), store_cols [None, None, None] [2, 1] (\<lambda>col. null (?V col)))"
    using cache_datum_roundtrip[of "[2, 1]" demo_store 11 "[None, Some 7, Some 9]" ?V "[None, Some False, Some True]" "[None, None, None]" "[None, None, None]"]
    by (auto simp: demo_store_cells arr_get_def simp del: list.map)
  have "store_cols [None, None, None] [2, 1] (\<lambda>col. datum (?V col)) = [None, Some 7, Some 9]"
    "store_cols [None, None, None] [2, 1] (\<lambda>col. null (?V col)) = [None, Some False, Some True]"
    by (simp_all add: store_cols_def upt_rec)
  then show ?thesis using c' by simp
qed

text \<open>
  The same for positional-map caches: the pointer/width pairs that \<open>NoDBCacheSetPMPairVector\<close>
  writes for a row are the ones \<open>NoDBCacheGetPMPairVector\<close> reads back, and reads of other rows or
  other columns are not affected.
\<close>

theorem cache_pm_roundtrip:
  fixes V :: "int \<Rightarrow> NoDBPMPair_t"
  assumes "distinct cs" "\<forall>col \<in> set cs. cell_ok c col row 4"
    "\<forall>col \<in> set cs. arr_get pv col = Some (Some (V col))" "length pv0 = length pv"
  shows "\<exists>c'. NoDBCacheSetPMPairVector c pv (map Some cs) row = Some c' \<and>
    NoDBCacheGetPMPairVector c' pv0 (map Some cs) row = Some (store_cols pv0 cs V) \<and>
    (\<forall>cs' row' pv1. (\<forall>col \<in> set cs'. cell_ok c col row' 4) \<longrightarrow> row' \<noteq> row \<or> set cs' \<inter> set cs = {} \<longrightarrow>
       NoDBCacheGetPMPairVector c' pv1 (map Some cs') row' = NoDBCacheGetPMPairVector c pv1 (map Some cs') row')"
proof -
  obtain c' where c': "foldM (\<lambda>c col. cell_set enc_pair c col row (V col)) c cs = Some c'"
    "\<forall>col \<in> set cs. cell_get dec_pair 4 c' col row = Some (V col)"
    "\<forall>col' row' m. cell_ok c col' row' m \<longrightarrow> row' \<noteq> row \<or> col' \<notin> set cs \<longrightarrow>
        cell_get dec_pair m c' col' row' = cell_get dec_pair m c col' row'"
    using pair_codec.set_vector[OF assms(1,2), of V dec_pair] by blast
  have "\<forall>col \<in> set cs. cell_get dec_pair 4 c' col row = Some (V col) \<and> 0 \<le> col \<and> nat col < length pv0"
    using c'(2) assms(2-4) by (auto simp: arr_get_Some_iff dest: cell_ok_col)
  moreover have "NoDBCacheGetPMPairVector c' pv1 (map Some cs') row' = NoDBCacheGetPMPairVector c pv1 (map Some cs') row'"
    if "\<forall>col \<in> set cs'. cell_ok c col row' 4" "row' \<noteq> row \<or> set cs' \<inter> set cs = {}" for cs' row' pv1
    by (rule NoDBCacheGetPMPairVector_cong) (use that c'(3) in blast)
  ultimately show ?thesis
    using c'(1) NoDBCacheSetPMPairVector_eq[OF assms(3), of c row]
    by (intro exI[of _ c']) (simp add: NoDBCacheGetPMPairVector_eq)
qed

lemma cell_ok_smaller: "cell_ok c col row n \<Longrightarrow> m \<le> n \<Longrightarrow> cell_ok c col row m"
  by (auto simp: cell_ok_def)

theorem cache_pm_roundtrip_witness:
  "\<exists>c'. NoDBCacheSetPMPairVector demo_store [None, None, Some \<lparr>pointer = 513, width = 2\<rparr>] [Some 2] 10 = Some c' \<and>
     NoDBCacheGetPMPairVector c' [None, None, None] [Some 2] 10 = Some [None, None, Some \<lparr>pointer = 513, width = 2\<rparr>]"
proof -
  have "cell_ok demo_store 2 10 4" by (rule cell_ok_smaller[of _ _ _ 9]) (simp_all add: demo_store_cells)
  then obtain c' where c': "NoDBCacheSetPMPairVector demo_store [None, None, Some \<lparr>pointer = 513, width = 2\<rparr>] (map Some [2]) 10 = Some c'"
    "NoDBCacheGetPMPairVector c' [None, None, None] (map Some [2]) 10 = Some (store_cols [None, None, None] [2] (\<lambda>_. \<lparr>pointer = 513, width = 2\<rparr>))"
    using cache_pm_roundtrip[of "[2]" demo_store 10 "[None, None, Some \<lparr>pointer = 513, width = 2\<rparr>]" "\<lambda>_. \<lparr>pointer = 513, width = 2\<rparr>" "[None, None, None]"]
    by (auto simp: arr_get_def simp del: list.map)
  have "store_cols [None, None, None] [2] (\<lambda>_. \<lparr>pointer = 513, width = 2\<rparr> :: NoDBPMPair_t) = [None, None, Some \<lparr>pointer = 513, width = 2\<rparr>]"
    by (simp add: store_cols_def upt_rec)
  then show ?thesis using c' by simp
qed

text \<open>
  C9: \<open>NoDBCacheGrow\<close> makes a row at or behind the first one accessible: afterwards every cell of that
  row can be written and read, whether the buffer existed or not, and every cell that was accessible
  before still is and holds the same value. The buffer size does not wrap as long as it is below
  \<open>2 ^ 64\<close> bytes.
\<close>

theorem cache_grow_keeps:
  assumes "cache_ok c" "c_buf c = None \<or> buf_ok c" "c_rowSize c < 2 ^ 32" "c_startRow c \<le> row"
    "(unat row - unat (c_startRow c) + 1) * c_rowSize c < 2 ^ 64" "unat row - unat (c_startRow c) + 1 < 2 ^ 64"
  shows "\<exists>c'. NoDBCacheGrow c row = Some c' \<and> cache_ok c' \<and> used_cols c' = used_cols c \<and>
    (\<forall>col \<in> set (used_cols c). \<forall>s. col_size c col = Some s \<longrightarrow> cell_ok c' col row s) \<and>
    (\<forall>col row' m. cell_ok c col row' m \<longrightarrow> cell_ok c' col row' m \<and> cell_get dec m c' col row' = cell_get dec m c col row')"
proof -
  let ?r = "row - c_startRow c + 1"
  have "unat (row - c_startRow c) = unat row - unat (c_startRow c)"
    using assms(4) by (simp add: unat_sub word_le_nat_alt)
  then have r: "unat ?r = unat row - unat (c_startRow c) + 1"
    using assms(6) unat_add_lt[of "row - c_startRow c" 1] by simp
  then obtain c' n where c': "NoDBCacheSetMaxRows c ?r = Some c'" "buf_ok c'" "cache_ok c'" "rows_keep c c'"
    "c_nRows c' = Some n" "?r \<le> n" "used_cols c' = used_cols c" "col_size c' = col_size c" "c_startRow c' = c_startRow c"
    using NoDBCacheSetMaxRows_ok[OF assms(1-3), of ?r] assms(5) by auto
  have "unat ?r \<le> unat n" using c'(6) by (simp add: word_le_nat_alt)
  then have "row_in_buf c' row" using r c'(5,9) assms(4) by (simp add: row_in_buf_def)
  then show ?thesis
    using c' rows_keep_get[OF c'(4), of _ _ _ dec]
    by (intro exI[of _ c']) (auto simp: NoDBCacheGrow_def cell_ok_def[of c'] rows_keep_def[of c c'])
qed

theorem cache_grow_keeps_witness:
  "\<exists>c'. NoDBCacheGrow demo_store 20 = Some c' \<and> cell_ok c' 1 20 16"
proof -
  have ok: "cell_ok demo_store 1 10 9" by (simp add: demo_store_cells)
  have s: "col_size demo_store 1 = Some 16" "used_cols demo_store = [1, 2]"
    by (simp_all add: col_size_def used_cols_def col_off_def demo_store_def)
  have r: "c_rowSize demo_store = 64" "c_startRow demo_store = 10" by (simp_all add: demo_store_def)
  have "(10 :: 64 word) \<le> 20" by (simp add: word_le_nat_alt)
  then show ?thesis
    using cache_grow_keeps[of demo_store 20] ok s r by (simp add: cell_ok_def) blast
qed

text \<open>
  Deleting the column that was added last undoes the addition: the delete is defined, and the set
  of columns, the place and size of every other column and the free space are those from before.
\<close>

theorem cache_add_delete:
  assumes "cache_ok c" "0 \<le> col" "nat col < length (c_offset c)" "0 < sz" "NoDBCacheAddColumn c col sz = Some (c1, 1)"
  shows "\<exists>c2. NoDBCacheDeleteColumn c1 col sz = Some c2 \<and> cache_ok c2 \<and> used_cols c2 = used_cols c \<and>
    c_rowFree c2 = c_rowFree c \<and>
    (\<forall>k \<in> set (used_cols c). col_off c2 k = col_off c k \<and> col_size c2 k = col_size c k)"
proof -
  let ?p = "pad_map c col"
  obtain i off where new: "col \<notin> set (used_cols c)" and fit: "FindFirstPartitionFit (c_list c) sz = Some (i, off)"
    and c1: "c1 = placed ?p col sz i (nat off)"
    using NoDBCacheAddColumn_cases[OF assms(1-4)] assms(5) by (auto split: if_splits option.splits)
  have "nat col < length (c_offset ?p)" "col \<notin> set (used_cols ?p)" "FindFirstPartitionFit (c_list ?p) sz = Some (i, off)"
    using assms(3) new fit by simp_all
  then show ?thesis
    using NoDBCacheDeleteColumn_placed[OF cache_ok_pad_map[OF assms(1,2)] assms(2) _ pad_map_map(1)[OF assms(2)] _ assms(4)]
    unfolding c1 by simp
qed

theorem cache_add_delete_witness:
  "\<exists>c1 c2. NoDBCacheAddColumn demo_cache 1 16 = Some (c1, 1) \<and> NoDBCacheDeleteColumn c1 1 16 = Some c2 \<and>
     used_cols c2 = [] \<and> c_rowFree c2 = 64"
proof -
  have "\<exists>c1. NoDBCacheAddColumn demo_cache 1 16 = Some (c1, 1)"
    by (simp add: demo_cache_def demo_rel_def NoDBCacheInit_def NoDBRelationGetNumberColumns_def NoDBCacheAddColumn_def
        FindFirstPartitionFit_def NODB_CACHE_DEFAULT_NCOLUMNS_def arr_get_def arr_set_def)
  then obtain c1 where c1: "NoDBCacheAddColumn demo_cache 1 16 = Some (c1, 1)" by blast
  have "c_rowFree demo_cache = 64" by (simp add: demo_cache_def NoDBCacheInit_def)
  then show ?thesis
    using cache_add_delete[of demo_cache 1 16 c1] c1 demo_cache_ok by auto
qed


end
