(* ===== verification/NoDB_EOLCache.thy ===== *)
theory NoDB_EOLCache
  imports NoDB_Cache
begin

text \<open>
  The registry of end-of-line caches of \<open>src/postgresql-9.6.5/src/backend/noDB/NoDBEOLCacheWorld.c\<close>: one
  positions cache per relation that holds the length of every line of its raw file.

  Caches and relation descriptors are shared between the parts of NoDB by pointer, so they live in a
  heap: a store of cache objects and of relation objects by address, with the next free address.
  The global \<open>EOLCaches\<close> is \<open>None\<close> for NULL and else the vector of its entries; an empty relation
  name marks a free entry, whose cache pointer was never set.
\<close>

section \<open>The heap of shared objects\<close>

record nodb_heap =
  h_caches :: "nat \<Rightarrow> NoDBCache_t option"
  h_rels :: "nat \<Rightarrow> NoDBRelation_t option"
  h_next :: nat

definition new_cache :: "nodb_heap \<Rightarrow> NoDBCache_t \<Rightarrow> nodb_heap \<times> nat" where
  "new_cache h c = (h\<lparr>h_caches := (h_caches h)(h_next h := Some c), h_next := h_next h + 1\<rparr>, h_next h)"

definition new_rel :: "nodb_heap \<Rightarrow> NoDBRelation_t \<Rightarrow> nodb_heap \<times> nat" where
  "new_rel h r = (h\<lparr>h_rels := (h_rels h)(h_next h := Some r), h_next := h_next h + 1\<rparr>, h_next h)"

definition upd_cache :: "nodb_heap \<Rightarrow> nat \<Rightarrow> NoDBCache_t \<Rightarrow> nodb_heap" where
  "upd_cache h p c = h\<lparr>h_caches := (h_caches h)(p := Some c)\<rparr>"

section \<open>The registry\<close>

record NoDBEOLCache_t =
  relation :: string
  EOLCache :: "nat option"

record eol_state =
  EOLCaches :: "NoDBEOLCache_t list option"
  eol_heap :: nodb_heap

definition NELLEM_ALLOC :: nat where "NELLEM_ALLOC = 5"

definition MAX_RELATION_NAME :: nat where "MAX_RELATION_NAME = 64"

definition NODB_CACHE_DEFAULT_ROWS :: NoDBRow_t where "NODB_CACHE_DEFAULT_ROWS = 5"

definition free_entry :: NoDBEOLCache_t where
  "free_entry = \<lparr>relation = [], EOLCache = None\<rparr>"

text \<open>The index of the first entry with a given relation name, or the size of the vector.\<close>

fun find_entry :: "NoDBEOLCache_t list \<Rightarrow> string \<Rightarrow> nat" where
  "find_entry [] name = 0"
| "find_entry (e # es) name = (if relation e = name then 0 else Suc (find_entry es name))"

definition NoDBInitEOLCache :: "eol_state \<Rightarrow> string \<Rightarrow> NoDBRow_t \<Rightarrow> (eol_state \<times> nat) option" where
  "NoDBInitEOLCache st name rows =
     (let v = (case EOLCaches st of None \<Rightarrow> replicate NELLEM_ALLOC free_entry | Some v \<Rightarrow> v);
          i = find_entry v name in
      if i < length v then
        do { p \<leftarrow> EOLCache (v ! i); Some (st\<lparr>EOLCaches := Some v\<rparr>, p) }
      else
        (let i = find_entry v [];
             v = (if i = length v then v @ replicate NELLEM_ALLOC free_entry else v) in
         if length name < MAX_RELATION_NAME then
           do {
             rel \<leftarrow> NoDBRelationAddColumn (NoDBRelationInit name) 2 1;
             let (h, relp) = new_rel (eol_heap st) rel;
             let rows = (if rows \<le> 0 then NODB_CACHE_DEFAULT_ROWS else rows);
             let cache = NoDBCacheInit relp rel NODB_POSITIONS_CACHE 0 2;
             (cache, r) \<leftarrow> NoDBCacheAddColumn cache 0 2;
             cache \<leftarrow> NoDBCacheSetMaxRows cache rows;
             let (h, p) = new_cache h cache;
             Some (\<lparr>EOLCaches = Some (v[i := \<lparr>relation = name, EOLCache = Some p\<rparr>]), eol_heap = h\<rparr>, p)
           }
         else None))"

text \<open>The inner option is the returned pointer, \<open>None\<close> for NULL.\<close>

definition NoDBGetEOLCache :: "eol_state \<Rightarrow> string \<Rightarrow> nat option option" where
  "NoDBGetEOLCache st name =
     (case EOLCaches st of
        None \<Rightarrow> None
      | Some v \<Rightarrow>
          (let i = find_entry v name in
           if i < length v then map_option Some (EOLCache (v ! i)) else Some None))"

text \<open>
  \<open>NoDBCacheDestroy\<close> releases the cache object, after which its pointer is passed to \<open>free\<close> again.
\<close>

definition NoDBCacheDestroy :: "nodb_heap \<Rightarrow> nat \<Rightarrow> nodb_heap option" where
  "NoDBCacheDestroy h p =
     (case h_caches h p of None \<Rightarrow> None | Some c \<Rightarrow> Some (h\<lparr>h_caches := (h_caches h)(p := None)\<rparr>))"

definition NoDBFreeEOLCache :: "eol_state \<Rightarrow> string \<Rightarrow> eol_state option" where
  "NoDBFreeEOLCache st name =
     (case EOLCaches st of
        None \<Rightarrow> Some st
      | Some v \<Rightarrow>
          (let i = find_entry v name in
           if i < length v then
             do {
               p \<leftarrow> EOLCache (v ! i);
               h \<leftarrow> NoDBCacheDestroy (eol_heap st) p;
               c \<leftarrow> h_caches h p;
               Some \<lparr>EOLCaches = Some (v[i := (v ! i)\<lparr>relation := []\<rparr>]),
                     eol_heap = h\<lparr>h_caches := (h_caches h)(p := None)\<rparr>\<rparr>
             }
           else Some st))"

section \<open>The registry as a map from relation names to caches\<close>

definition eol_entries :: "eol_state \<Rightarrow> NoDBEOLCache_t list" where
  "eol_entries st = (case EOLCaches st of None \<Rightarrow> [] | Some v \<Rightarrow> v)"

definition named :: "NoDBEOLCache_t list \<Rightarrow> NoDBEOLCache_t list" where
  "named v = filter (\<lambda>e. relation e \<noteq> []) v"

definition eol_lookup :: "eol_state \<Rightarrow> string \<Rightarrow> nat option" where
  "eol_lookup st = map_of (map (\<lambda>e. (relation e, the (EOLCache e))) (named (eol_entries st)))"

text \<open>A line-length cache: column 0 is placed and accessible with two bytes.\<close>

definition eol_cache :: "NoDBCache_t \<Rightarrow> bool" where
  "eol_cache c \<longleftrightarrow> cache_ok c \<and> buf_ok c \<and> c_startRow c = 0 \<and> c_rowSize c = 2 \<and> col_size c 0 = Some 2"

definition eol_ok :: "eol_state \<Rightarrow> bool" where
  "eol_ok st \<longleftrightarrow>
     (\<forall>e \<in> set (named (eol_entries st)).
        \<exists>p c. EOLCache e = Some p \<and> p < h_next (eol_heap st) \<and> h_caches (eol_heap st) p = Some c \<and> eol_cache c) \<and>
     distinct (map relation (named (eol_entries st))) \<and> distinct (map EOLCache (named (eol_entries st)))"

definition eol_empty :: eol_state where
  "eol_empty = \<lparr>EOLCaches = None, eol_heap = \<lparr>h_caches = (\<lambda>_. None), h_rels = (\<lambda>_. None), h_next = 1\<rparr>\<rparr>"

lemma find_entry_le: "find_entry v name \<le> length v"
  by (induction v) auto

lemma find_entry_hit: "find_entry v name < length v \<Longrightarrow> relation (v ! find_entry v name) = name"
  by (induction v) (auto split: if_splits)

lemma find_entry_miss: "\<not> find_entry v name < length v \<longleftrightarrow> (\<forall>e \<in> set v. relation e \<noteq> name)"
  by (induction v) auto

lemma new_eol_cache:
  assumes "unat rows * 2 < 2 ^ 64" "rows \<noteq> 0"
  shows "\<exists>rel c1 c2 r. NoDBRelationAddColumn (NoDBRelationInit name) 2 1 = Some rel \<and>
    NoDBCacheAddColumn (NoDBCacheInit relp rel NODB_POSITIONS_CACHE 0 2) 0 2 = Some (c1, r) \<and>
    NoDBCacheSetMaxRows c1 rows = Some c2 \<and> eol_cache c2 \<and> c_nRows c2 = Some rows \<and> c_usedRows c2 = 0"
proof -
  obtain rel where rel: "NoDBRelationAddColumn (NoDBRelationInit name) 2 1 = Some rel" "rel_ok rel [(2, 1)]"
    using rel_ok_AddColumn[OF rel_ok_Init, of name 2 1] by auto
  define c0 where "c0 = NoDBCacheInit relp rel NODB_POSITIONS_CACHE 0 2"
  have "NoDBRelationGetNumberColumns rel = 1" using rel(2) by (simp add: rel_ok_def NoDBRelationGetNumberColumns_def)
  then have c0: "cache_ok c0" "used_cols c0 = []" "c_offset c0 = [-1]" "c_list c0 = [\<lparr>used = False, psize = 2\<rparr>]"
    "c_buf c0 = None" "c_rowSize c0 = 2" "c_startRow c0 = 0" "c_usedRows c0 = 0" "c_rowFree c0 = 2"
    using cache_ok_Init[of 2 relp rel NODB_POSITIONS_CACHE 0] by (simp_all add: c0_def NoDBCacheInit_def)
  have fit: "FindFirstPartitionFit (c_list c0) 2 = Some (0, 0)" using c0 by (simp add: FindFirstPartitionFit_def)
  have add: "NoDBCacheAddColumn c0 0 2 = Some (placed (pad_map c0 0) 0 2 0 0, 1)"
    using NoDBCacheAddColumn_cases[of c0 0 2] c0 fit by simp
  define c1 where "c1 = placed (pad_map c0 0) 0 2 0 0"
  have c1: "cache_ok c1" "col_size c1 0 = Some 2" "c_buf c1 = None" "c_rowSize c1 = 2" "c_startRow c1 = 0" "c_usedRows c1 = 0"
    using AddColumn_ok[of c0 0 2] add c0 by (auto simp: c1_def placed_def)
  obtain c2 where c2: "NoDBCacheSetMaxRows c1 rows = Some c2" "buf_ok c2" "cache_ok c2" "col_size c2 = col_size c1"
    "c_startRow c2 = c_startRow c1"
    using NoDBCacheSetMaxRows_ok[of c1 rows] c1 assms by auto
  have "c2 = c1\<lparr>c_nRows := Some rows, c_buf := Some (replicate (buf_bytes c1 rows) None)\<rparr>"
    using c2(1) c1(3) by (simp add: NoDBCacheSetMaxRows_def)
  then have "eol_cache c2" "c_nRows c2 = Some rows" "c_usedRows c2 = 0" using c1 c2 by (simp_all add: eol_cache_def)
  then show ?thesis using rel(1) add c2(1) unfolding c0_def c1_def by blast
qed

lemma named_simps [simp]:
  "named [] = []" "named (v @ w) = named v @ named w"
  "named (e # v) = (if relation e \<noteq> [] then e # named v else named v)"
  "named (replicate k free_entry) = []"
  by (simp_all add: named_def free_entry_def)

lemma lookup_find:
  "name \<noteq> [] \<Longrightarrow> map_of (map (\<lambda>e. (relation e, f e)) (named v)) name =
     (if find_entry v name < length v then Some (f (v ! find_entry v name)) else None)"
  by (induction v) auto

lemma eol_lookup_Get:
  assumes "EOLCaches st = Some v" "name \<noteq> []" "eol_ok st"
  shows "NoDBGetEOLCache st name = Some (eol_lookup st name)"
proof -
  have "EOLCache (v ! find_entry v name) = Some (the (EOLCache (v ! find_entry v name)))" if "find_entry v name < length v"
  proof -
    have "v ! find_entry v name \<in> set (named v)"
      using find_entry_hit[OF that] that assms(2) by (simp add: named_def)
    then show ?thesis using assms(1,3) by (auto simp: eol_ok_def eol_entries_def)
  qed
  then show ?thesis
    using assms lookup_find[OF assms(2), of "\<lambda>e. the (EOLCache e)" v]
    by (auto simp: NoDBGetEOLCache_def eol_lookup_def eol_entries_def Let_def)
qed

lemma named_update_free:
  assumes "i < length v" "relation (v ! i) = []" "relation e \<noteq> []"
  shows "named v = named (take i v) @ named (drop (Suc i) v)"
    and "named (v[i := e]) = named (take i v) @ e # named (drop (Suc i) v)"
proof -
  show "named v = named (take i v) @ named (drop (Suc i) v)"
    by (subst id_take_nth_drop[OF assms(1)]) (simp add: assms(2))
  show "named (v[i := e]) = named (take i v) @ e # named (drop (Suc i) v)"
    using assms by (simp add: upd_conv_take_nth_drop)
qed

lemma map_of_insert_fresh: "k \<notin> fst ` set xs \<Longrightarrow> map_of (xs @ (k, v) # ys) = (map_of (xs @ ys))(k \<mapsto> v)"
  by (induction xs) (auto simp: fun_upd_twist)

lemma eol_init_hit:
  assumes "eol_ok st" "name \<noteq> []" "eol_lookup st name = Some p"
  shows "NoDBInitEOLCache st name rows = Some (st, p)"
proof -
  obtain v where v: "EOLCaches st = Some v"
    using assms(3) by (auto simp: eol_lookup_def eol_entries_def split: option.splits)
  have "find_entry v name < length v" "the (EOLCache (v ! find_entry v name)) = p"
    using assms(3) lookup_find[OF assms(2), of "\<lambda>e. the (EOLCache e)" v]
    by (auto simp: eol_lookup_def eol_entries_def v split: if_splits)
  moreover have "v ! find_entry v name \<in> set (named v)"
    using find_entry_hit[OF calculation(1)] calculation(1) assms(2) by (simp add: named_def)
  then have "EOLCache (v ! find_entry v name) = Some p"
    using assms(1) v calculation(2) by (auto simp: eol_ok_def eol_entries_def)
  ultimately show ?thesis by (simp add: NoDBInitEOLCache_def v)
qed

lemma eol_init_miss:
  assumes ok: "eol_ok st" and name: "name \<noteq> []" "length name < 64" and new: "eol_lookup st name = None"
    and rows: "unat rows * 2 < 2 ^ 64"
  shows "\<exists>st' p c. NoDBInitEOLCache st name rows = Some (st', p) \<and> eol_ok st' \<and>
    eol_lookup st' = (eol_lookup st)(name \<mapsto> p) \<and> h_next (eol_heap st) \<le> p \<and>
    h_caches (eol_heap st') = (h_caches (eol_heap st))(p \<mapsto> c) \<and> eol_cache c \<and>
    c_nRows c = Some (if rows = 0 then 5 else rows) \<and> c_usedRows c = 0"
proof -
  define v where "v = (case EOLCaches st of None \<Rightarrow> replicate NELLEM_ALLOC free_entry | Some v \<Rightarrow> v)"
  have nv: "named v = named (eol_entries st)"
    by (cases "EOLCaches st") (simp_all add: v_def eol_entries_def)
  have miss: "\<not> find_entry v name < length v"
    using new lookup_find[OF name(1), of "\<lambda>e. the (EOLCache e)" v]
    by (auto simp: eol_lookup_def nv[symmetric] split: if_splits)
  define i where "i = find_entry v []"
  define w where "w = (if i = length v then v @ replicate NELLEM_ALLOC free_entry else v)"
  have nw: "named w = named (eol_entries st)" by (simp add: w_def nv)
  have i: "i < length w" "relation (w ! i) = []"
    using find_entry_le[of v "[]"] find_entry_hit[of v "[]"]
    by (auto simp: w_def i_def NELLEM_ALLOC_def free_entry_def nth_append)
  let ?rows = "if rows = 0 then 5 else rows :: 64 word"
  have rr: "unat ?rows * 2 < 2 ^ 64" "?rows \<noteq> 0" using rows by simp_all
  obtain rel c1 c2 r where c: "NoDBRelationAddColumn (NoDBRelationInit name) 2 1 = Some rel"
    "NoDBCacheAddColumn (NoDBCacheInit (h_next (eol_heap st)) rel NODB_POSITIONS_CACHE 0 2) 0 2 = Some (c1, r)"
    "NoDBCacheSetMaxRows c1 ?rows = Some c2" "eol_cache c2" "c_nRows c2 = Some ?rows" "c_usedRows c2 = 0"
    using new_eol_cache[OF rr, of name "h_next (eol_heap st)"] by blast
  define p where "p = h_next (eol_heap st) + 1"
  define e where "e = \<lparr>relation = name, EOLCache = Some p\<rparr>"
  define h where "h = \<lparr>h_caches = (h_caches (eol_heap st))(p \<mapsto> c2),
      h_rels = (h_rels (eol_heap st))(h_next (eol_heap st) \<mapsto> rel), h_next = p + 1\<rparr>"
  define st' where "st' = \<lparr>EOLCaches = Some (w[i := e]), eol_heap = h\<rparr>"
  have rz: "(if rows \<le> 0 then NODB_CACHE_DEFAULT_ROWS else rows) = ?rows"
    by (simp add: NODB_CACHE_DEFAULT_ROWS_def)
  have init: "NoDBInitEOLCache st name rows = Some (st', p)"
    unfolding NoDBInitEOLCache_def v_def[symmetric]
    using miss name(2) c(1,2,3) rz
    by (simp add: i_def[symmetric] w_def[symmetric] new_rel_def new_cache_def MAX_RELATION_NAME_def
        st'_def h_def e_def p_def)
  have en: "relation e \<noteq> []" using name by (simp add: e_def)
  note nu = named_update_free[OF i en]
  have st'_n: "named (eol_entries st') = named (take i w) @ e # named (drop (Suc i) w)"
    using nu(2) by (simp add: st'_def eol_entries_def)
  have st_n: "named (eol_entries st) = named (take i w) @ named (drop (Suc i) w)"
    using nu(1) nw by simp
  have nin: "name \<notin> relation ` set (named (eol_entries st))"
    using new by (simp add: eol_lookup_def map_of_eq_None_iff image_image)
  have pin: "Some p \<notin> EOLCache ` set (named (eol_entries st))"
    using ok by (force simp: eol_ok_def p_def)
  have "eol_ok st'"
  proof -
    have "\<exists>q c. EOLCache x = Some q \<and> q < h_next (eol_heap st') \<and> h_caches (eol_heap st') q = Some c \<and> eol_cache c"
      if "x \<in> set (named (eol_entries st'))" for x
    proof (cases "x = e")
      case True
      then show ?thesis using c(4) by (simp add: e_def st'_def h_def)
    next
      case False
      then have "x \<in> set (named (eol_entries st))" using that by (simp add: st'_n st_n)
      then obtain q d where "EOLCache x = Some q" "q < h_next (eol_heap st)" "h_caches (eol_heap st) q = Some d" "eol_cache d"
        using ok by (auto simp: eol_ok_def)
      then show ?thesis by (auto simp: st'_def h_def p_def)
    qed
    moreover have "distinct (map relation (named (eol_entries st')))" "distinct (map EOLCache (named (eol_entries st')))"
      using ok nin pin unfolding eol_ok_def st'_n st_n by (auto simp: e_def)
    ultimately show ?thesis by (simp add: eol_ok_def)
  qed
  moreover have "eol_lookup st' = (eol_lookup st)(name \<mapsto> p)"
  proof -
    have "name \<notin> fst ` set (map (\<lambda>e. (relation e, the (EOLCache e))) (named (take i w)))"
      using nin by (auto simp: st_n)
    then show ?thesis
      using map_of_insert_fresh[of name "map (\<lambda>e. (relation e, the (EOLCache e))) (named (take i w))" p
          "map (\<lambda>e. (relation e, the (EOLCache e))) (named (drop (Suc i) w))"]
      unfolding eol_lookup_def st'_n st_n by (simp add: e_def)
  qed
  ultimately show ?thesis
    using init c by (intro exI[of _ st'] exI[of _ p] exI[of _ c2]) (simp add: st'_def h_def p_def)
qed

section \<open>Properties\<close>

text \<open>
  The registry is a map from relation names to caches. The first \<open>NoDBInitEOLCache\<close> for a relation
  creates a new cache, disjoint from every existing one, whose column 0 can hold a line length in
  each of the requested rows (5 when none are requested); every later call with that name, and
  \<open>NoDBGetEOLCache\<close>, returns the same cache and changes nothing. The caches of other relations are
  untouched, whether or not the vector had to grow.
\<close>

theorem eol_cache_registry:
  assumes "eol_ok st" "name \<noteq> []" "length name < 64" "unat rows * 2 < 2 ^ 64"
  shows "\<exists>st' p. NoDBInitEOLCache st name rows = Some (st', p) \<and> eol_ok st' \<and>
    NoDBGetEOLCache st' name = Some (Some p) \<and> NoDBInitEOLCache st' name rows' = Some (st', p) \<and>
    (eol_lookup st name = Some p \<and> st' = st \<or>
     eol_lookup st name = None \<and> h_next (eol_heap st) \<le> p \<and>
     (\<forall>q. q \<noteq> p \<longrightarrow> h_caches (eol_heap st') q = h_caches (eol_heap st) q) \<and>
     (\<exists>c. h_caches (eol_heap st') p = Some c \<and>
        (\<forall>row. unat row < (if rows = 0 then 5 else unat rows) \<longrightarrow> cell_ok c 0 row 2))) \<and>
    (\<forall>n. n \<noteq> name \<longrightarrow> n \<noteq> [] \<longrightarrow> NoDBGetEOLCache st' n = Some (eol_lookup st n))"
proof (cases "eol_lookup st name")
  case (Some p)
  then obtain v where v: "EOLCaches st = Some v"
    by (auto simp: eol_lookup_def eol_entries_def split: option.splits)
  show ?thesis
    using Some eol_init_hit[OF assms(1,2) Some] assms(1) eol_lookup_Get[OF v _ assms(1)] assms(2)
    by (intro exI[of _ st] exI[of _ p]) simp
next
  case None
  obtain st' p c where r: "NoDBInitEOLCache st name rows = Some (st', p)" "eol_ok st'"
    "eol_lookup st' = (eol_lookup st)(name \<mapsto> p)" "h_next (eol_heap st) \<le> p"
    "h_caches (eol_heap st') = (h_caches (eol_heap st))(p \<mapsto> c)" "eol_cache c"
    "c_nRows c = Some (if rows = 0 then 5 else rows)"
    using eol_init_miss[OF assms(1-3) None assms(4)] by blast
  have "eol_lookup st' name = Some p" using r(3) by simp
  then obtain v where v: "EOLCaches st' = Some v"
    by (auto simp: eol_lookup_def eol_entries_def split: option.splits)
  have hit: "NoDBInitEOLCache st' name rows' = Some (st', p)"
    using eol_init_hit[OF r(2) assms(2)] r(3) by simp
  have cells: "cell_ok c 0 row 2" if "unat row < (if rows = 0 then 5 else unat rows)" for row
    using that r(6,7) by (auto simp: eol_cache_def cell_ok_def row_in_buf_def split: if_splits)
  show ?thesis
    using r None hit cells eol_lookup_Get[OF v _ r(2)] assms(2)
    by (intro exI[of _ st'] exI[of _ p]) simp
qed

lemma eol_ok_empty: "eol_ok eol_empty" "eol_lookup eol_empty n = None"
  by (simp_all add: eol_ok_def eol_empty_def eol_entries_def eol_lookup_def)

theorem eol_cache_registry_witness:
  "\<exists>st' p. NoDBInitEOLCache eol_empty ''lineitem'' 100 = Some (st', p) \<and>
     NoDBGetEOLCache st' ''lineitem'' = Some (Some p) \<and> NoDBGetEOLCache st' ''orders'' = Some None"
  using eol_cache_registry[OF eol_ok_empty(1), of "''lineitem''" 100 0] by (auto simp: eol_ok_empty)

text \<open>
  C39: \<open>NoDBFreeEOLCache\<close> is undefined for every relation that has a cache: it destroys the cache, which
  frees the cache object, and then frees the same object again.
\<close>

theorem eol_free_double:
  assumes "eol_ok st" "name \<noteq> []" "eol_lookup st name = Some p"
  shows "NoDBFreeEOLCache st name = None"
proof -
  obtain v where v: "EOLCaches st = Some v"
    using assms(3) by (auto simp: eol_lookup_def eol_entries_def split: option.splits)
  have "find_entry v name < length v"
    using assms(3) lookup_find[OF assms(2), of "\<lambda>e. the (EOLCache e)" v]
    by (auto simp: eol_lookup_def eol_entries_def v split: if_splits)
  then show ?thesis
    by (auto simp: NoDBFreeEOLCache_def v Let_def NoDBCacheDestroy_def split: option.splits Option.bind_splits)
qed

theorem eol_free_double_witness:
  "\<exists>st p. NoDBInitEOLCache eol_empty ''lineitem'' 100 = Some (st, p) \<and> eol_lookup st ''lineitem'' = Some p \<and>
     NoDBFreeEOLCache st ''lineitem'' = None"
proof -
  obtain st p where st: "NoDBInitEOLCache eol_empty ''lineitem'' 100 = Some (st, p)" "eol_ok st"
    "eol_lookup st = (eol_lookup eol_empty)(''lineitem'' \<mapsto> p)"
    using eol_init_miss[OF eol_ok_empty(1), of "''lineitem''" 100] eol_ok_empty(2) by auto
  then show ?thesis using eol_free_double[OF st(2), of "''lineitem''" p] by auto
qed

end
