(* ===== verification/NoDB_Map.thy ===== *)
theory NoDB_Map
  imports NoDB_Prelude
begin

text \<open>
  The maps of \<open>src/postgresql-9.6.5/src/backend/noDB/auxiliary/NoDBMap.c\<close>: a chain of key/value
  nodes in insertion order, and its length. The C union \<open>NoDBMapData_t\<close> holds pointers as keys and
  ints or pointers as values; here the key and value types are the parameters of the record, and
  each C variant (\<open>PtrInt\<close>, \<open>PtrPtr\<close>, from malloc or from an arena) is a definition of its own.
  A getter returns \<open>None\<close> where the C function returns 0 and leaves \<open>*value\<close> untouched.
\<close>

record ('k, 'v) NoDBMap_t =
  head :: "('k \<times> 'v) list"
  len :: int

definition NoDBMapInit :: "('k, 'v) NoDBMap_t" where
  "NoDBMapInit = \<lparr>head = [], len = 0\<rparr>"

definition NoDBMapArenaInit :: "('k, 'v) NoDBMap_t" where
  "NoDBMapArenaInit = \<lparr>head = [], len = 0\<rparr>"

fun HasPtr_loop :: "('k \<times> 'v) list \<Rightarrow> 'k \<Rightarrow> bool" where
  "HasPtr_loop [] key = False"
| "HasPtr_loop ((k, v) # node) key = (if k = key then True else HasPtr_loop node key)"

definition NoDBMapHasPtr :: "('k, 'v) NoDBMap_t \<Rightarrow> 'k \<Rightarrow> bool" where
  "NoDBMapHasPtr m key = HasPtr_loop (head m) key"

definition NoDBMapSize :: "('k, 'v) NoDBMap_t \<Rightarrow> int" where
  "NoDBMapSize m = len m"

text \<open>
  The loop of the add functions on a non-empty chain: \<open>None\<close> when a node has the key, otherwise the
  chain with the new node behind the last one.
\<close>

fun Add_loop :: "('k \<times> 'v) list \<Rightarrow> 'k \<Rightarrow> 'v \<Rightarrow> ('k \<times> 'v) list option" where
  "Add_loop [] key value = Some [(key, value)]"
| "Add_loop ((k, v) # next) key value =
     (if k = key then None
      else if next = [] then Some [(k, v), (key, value)]
      else map_option (\<lambda>next'. (k, v) # next') (Add_loop next key value))"

definition MapAdd :: "('k, 'v) NoDBMap_t \<Rightarrow> 'k \<Rightarrow> 'v \<Rightarrow> ('k, 'v) NoDBMap_t \<times> int" where
  "MapAdd m key value =
     (if head m = [] then (m\<lparr>head := [(key, value)], len := 1\<rparr>, 1)
      else (case Add_loop (head m) key value of
              None \<Rightarrow> (m, 0)
            | Some l \<Rightarrow> (m\<lparr>head := l, len := len m + 1\<rparr>, 1)))"

definition NoDBMapAddPtrInt :: "('k, int) NoDBMap_t \<Rightarrow> 'k \<Rightarrow> int \<Rightarrow> ('k, int) NoDBMap_t \<times> int" where
  "NoDBMapAddPtrInt m key value = MapAdd m key value"

definition NoDBMapArenaAddPtrInt :: "('k, int) NoDBMap_t \<Rightarrow> 'k \<Rightarrow> int \<Rightarrow> ('k, int) NoDBMap_t \<times> int" where
  "NoDBMapArenaAddPtrInt m key value = MapAdd m key value"

definition NoDBMapAddPtrPtr :: "('k, 'v) NoDBMap_t \<Rightarrow> 'k \<Rightarrow> 'v \<Rightarrow> ('k, 'v) NoDBMap_t \<times> int" where
  "NoDBMapAddPtrPtr m key value = MapAdd m key value"

definition NoDBMapArenaAddPtrPtr :: "('k, 'v) NoDBMap_t \<Rightarrow> 'k \<Rightarrow> 'v \<Rightarrow> ('k, 'v) NoDBMap_t \<times> int" where
  "NoDBMapArenaAddPtrPtr m key value = MapAdd m key value"

fun Get_loop :: "('k \<times> 'v) list \<Rightarrow> 'k \<Rightarrow> 'v option" where
  "Get_loop [] key = None"
| "Get_loop ((k, v) # node) key = (if k = key then Some v else Get_loop node key)"

definition NoDBMapGetPtrInt :: "('k, int) NoDBMap_t \<Rightarrow> 'k \<Rightarrow> int option" where
  "NoDBMapGetPtrInt m key = Get_loop (head m) key"

definition NoDBMapGetPtrPtr :: "('k, 'v) NoDBMap_t \<Rightarrow> 'k \<Rightarrow> 'v option" where
  "NoDBMapGetPtrPtr m key = Get_loop (head m) key"

fun Set_loop :: "('k \<times> 'v) list \<Rightarrow> 'k \<Rightarrow> 'v \<Rightarrow> ('k \<times> 'v) list option" where
  "Set_loop [] key value = None"
| "Set_loop ((k, v) # node) key value =
     (if k = key then Some ((k, value) # node)
      else map_option (\<lambda>node'. (k, v) # node') (Set_loop node key value))"

definition MapSet :: "('k, 'v) NoDBMap_t \<Rightarrow> 'k \<Rightarrow> 'v \<Rightarrow> ('k, 'v) NoDBMap_t \<times> int" where
  "MapSet m key value =
     (case Set_loop (head m) key value of None \<Rightarrow> (m, 0) | Some l \<Rightarrow> (m\<lparr>head := l\<rparr>, 1))"

definition NoDBMapSetPtrInt :: "('k, int) NoDBMap_t \<Rightarrow> 'k \<Rightarrow> int \<Rightarrow> ('k, int) NoDBMap_t \<times> int" where
  "NoDBMapSetPtrInt m key value = MapSet m key value"

definition NoDBMapSetPtrPtr :: "('k, 'v) NoDBMap_t \<Rightarrow> 'k \<Rightarrow> 'v \<Rightarrow> ('k, 'v) NoDBMap_t \<times> int" where
  "NoDBMapSetPtrPtr m key value = MapSet m key value"

text \<open>
  An iterator is the rest of the chain: \<open>NoDBMapIterator\<close> starts at the head, \<open>NoDBMapIteratorNext\<close>
  follows the link, and reading through the NULL iterator is undefined.
\<close>

type_synonym ('k, 'v) NoDBMapIterator_t = "('k \<times> 'v) list"

definition NoDBMapIterator :: "('k, 'v) NoDBMap_t \<Rightarrow> ('k, 'v) NoDBMapIterator_t" where
  "NoDBMapIterator m = head m"

fun NoDBMapIteratorNext :: "('k, 'v) NoDBMapIterator_t \<Rightarrow> ('k, 'v) NoDBMapIterator_t option" where
  "NoDBMapIteratorNext [] = None"
| "NoDBMapIteratorNext (n # next) = Some next"

fun NoDBMapIteratorKeyPtr :: "('k, 'v) NoDBMapIterator_t \<Rightarrow> 'k option" where
  "NoDBMapIteratorKeyPtr [] = None"
| "NoDBMapIteratorKeyPtr ((k, v) # next) = Some k"

fun NoDBMapIteratorValueInt :: "('k, int) NoDBMapIterator_t \<Rightarrow> int option" where
  "NoDBMapIteratorValueInt [] = None"
| "NoDBMapIteratorValueInt ((k, v) # next) = Some v"

fun NoDBMapIteratorValuePtr :: "('k, 'v) NoDBMapIterator_t \<Rightarrow> 'v option" where
  "NoDBMapIteratorValuePtr [] = None"
| "NoDBMapIteratorValuePtr ((k, v) # next) = Some v"

section \<open>The map as a partial function with an insertion order\<close>

definition nmap_ok :: "('k, 'v) NoDBMap_t \<Rightarrow> bool" where
  "nmap_ok m \<longleftrightarrow> distinct (map fst (head m)) \<and> len m = int (length (head m))"

definition nmap_keys :: "('k, 'v) NoDBMap_t \<Rightarrow> 'k list" where
  "nmap_keys m = map fst (head m)"

lemma HasPtr_loop_iff [simp]: "HasPtr_loop l k \<longleftrightarrow> k \<in> fst ` set l"
  by (induction l k rule: HasPtr_loop.induct) auto

lemma Get_loop_map_of [simp]: "Get_loop l k = map_of l k"
  by (induction l k rule: Get_loop.induct) auto

lemma Add_loop_eq: "Add_loop l k v = (if k \<in> fst ` set l then None else Some (l @ [(k, v)]))"
  by (induction l k v rule: Add_loop.induct) auto

lemma Set_loop_eq:
  "distinct (map fst l) \<Longrightarrow> Set_loop l k v =
     (if k \<in> fst ` set l then Some (map (\<lambda>(k', v'). (k', if k' = k then v else v')) l) else None)"
proof (induction l k v rule: Set_loop.induct)
  case (2 k v node key0 val)
  show ?case
  proof (cases "k = key0")
    case True
    then have "map (\<lambda>(k', v'). (k', if k' = key0 then val else v')) node = node"
      using "2.prems" by (intro map_idI) (force simp: image_iff)
    then show ?thesis using True by simp
  next
    case False
    then show ?thesis using 2 by auto
  qed
qed simp

lemma MapAdd_eq:
  "nmap_ok m \<Longrightarrow> MapAdd m k v =
     (if k \<in> set (nmap_keys m) then (m, 0)
      else (m\<lparr>head := head m @ [(k, v)], len := len m + 1\<rparr>, 1))"
  by (cases "head m") (auto simp: MapAdd_def nmap_ok_def nmap_keys_def Add_loop_eq)

lemma map_of_keys: "map_of l k = None \<longleftrightarrow> k \<notin> set (map fst l)"
  by (simp add: map_of_eq_None_iff)

lemma map_of_map_keyed: "map_of (map (\<lambda>(k', v'). (k', f k' v')) l) j = map_option (f j) (map_of l j)"
  by (induction l) auto

lemma map_of_update_value:
  "map_of (map (\<lambda>(k', v'). (k', if k' = k then v else v')) l) j =
     (if j = k \<and> j \<in> fst ` set l then Some v else map_of l j)"
  using map_of_eq_None_iff[of l j]
  by (cases "map_of l j") (auto simp: map_of_map_keyed[where f = "\<lambda>k' v'. if k' = k then v else v'"])

text \<open>
  The contract of the map operations, and the update pattern its clients in the scan strategy use:
  look the key up, add it with a first value if it is absent, else set it to a new value.
\<close>

locale keyed_map =
  fixes add :: "'m \<Rightarrow> 'k \<Rightarrow> 'v \<Rightarrow> 'm \<times> int"
    and get :: "'m \<Rightarrow> 'k \<Rightarrow> 'v option"
    and upd :: "'m \<Rightarrow> 'k \<Rightarrow> 'v \<Rightarrow> 'm \<times> int"
    and keys :: "'m \<Rightarrow> 'k list"
    and ok :: "'m \<Rightarrow> bool"
  assumes ok_add: "ok m \<Longrightarrow> ok (fst (add m k v))"
    and ok_upd: "ok m \<Longrightarrow> ok (fst (upd m k v))"
    and keys_distinct: "ok m \<Longrightarrow> distinct (keys m)"
    and get_None: "ok m \<Longrightarrow> get m k = None \<longleftrightarrow> k \<notin> set (keys m)"
    and get_add: "ok m \<Longrightarrow> get (fst (add m k v)) j = (if j = k \<and> k \<notin> set (keys m) then Some v else get m j)"
    and get_upd: "ok m \<Longrightarrow> get (fst (upd m k v)) j = (if j = k \<and> k \<in> set (keys m) then Some v else get m j)"
    and keys_add: "ok m \<Longrightarrow> keys (fst (add m k v)) = (if k \<in> set (keys m) then keys m else keys m @ [k])"
    and keys_upd: "ok m \<Longrightarrow> keys (fst (upd m k v)) = keys m"
    and ret_add: "ok m \<Longrightarrow> snd (add m k v) = (if k \<in> set (keys m) then 0 else 1)"
    and ret_upd: "ok m \<Longrightarrow> snd (upd m k v) = (if k \<in> set (keys m) then 1 else 0)"
begin

definition upsert :: "'m \<Rightarrow> 'k \<Rightarrow> ('v option \<Rightarrow> 'v) \<Rightarrow> 'm" where
  "upsert m k f = (case get m k of None \<Rightarrow> fst (add m k (f None)) | Some v \<Rightarrow> fst (upd m k (f (Some v))))"

lemma get_Some_keys: "ok m \<Longrightarrow> get m k = Some v \<Longrightarrow> k \<in> set (keys m)"
  using get_None[of m k] by auto

lemma ok_upsert: "ok m \<Longrightarrow> ok (upsert m k f)"
  by (simp add: upsert_def ok_add ok_upd split: option.splits)

lemma get_upsert: "ok m \<Longrightarrow> get (upsert m k f) j = (if j = k then Some (f (get m k)) else get m j)"
  using get_None[of m k]
  by (auto simp: upsert_def get_add get_upd dest: get_Some_keys split: option.splits)

lemma keys_upsert: "ok m \<Longrightarrow> keys (upsert m k f) = (if k \<in> set (keys m) then keys m else keys m @ [k])"
  by (auto simp: upsert_def keys_add keys_upd get_None dest: get_Some_keys split: option.splits)

lemma get_fold_upsert:
  "ok m \<Longrightarrow> ok (foldl (\<lambda>m x. upsert m (kf x) (f x)) m xs) \<and>
   get (foldl (\<lambda>m x. upsert m (kf x) (f x)) m xs) j =
     foldl (\<lambda>v x. if kf x = j then Some (f x v) else v) (get m j) xs"
proof (induction xs arbitrary: m)
  case (Cons x xs)
  then show ?case
    using Cons.IH[of "upsert m (kf x) (f x)"] ok_upsert[OF Cons.prems, of "kf x" "f x"]
    by (auto simp: get_upsert)
qed simp

end

lemmas nmap_defs = nmap_ok_def nmap_keys_def NoDBMapAddPtrInt_def NoDBMapArenaAddPtrInt_def
  NoDBMapAddPtrPtr_def NoDBMapArenaAddPtrPtr_def NoDBMapGetPtrInt_def NoDBMapGetPtrPtr_def
  NoDBMapSetPtrInt_def NoDBMapSetPtrPtr_def

lemma map_fst_update_value:
  "map fst (map (\<lambda>(k', v'). (k', if k' = k then v else v')) l) = map fst l"
  by (induction l) auto

lemma MapSet_eq:
  assumes "nmap_ok m"
  shows "MapSet m k v =
    (if k \<in> set (nmap_keys m)
     then (m\<lparr>head := map (\<lambda>(k', v'). (k', if k' = k then v else v')) (head m)\<rparr>, 1) else (m, 0))"
  using assms by (auto simp: MapSet_def nmap_ok_def nmap_keys_def Set_loop_eq)

lemma nmap_keyed: "keyed_map MapAdd (\<lambda>m k. map_of (head m) k) MapSet nmap_keys nmap_ok"
proof unfold_locales
  fix m :: "('k, 'v) NoDBMap_t" and k j v
  assume ok: "nmap_ok m"
  note eqs = MapAdd_eq[OF ok] MapSet_eq[OF ok]
  show "nmap_ok (fst (MapAdd m k v))"
    using ok by (auto simp: eqs) (auto simp: nmap_ok_def nmap_keys_def)
  show "distinct (nmap_keys m)" using ok by (simp add: nmap_ok_def nmap_keys_def)
  show "map_of (head m) k = None \<longleftrightarrow> k \<notin> set (nmap_keys m)"
    by (simp add: nmap_keys_def map_of_eq_None_iff)
  show "map_of (head (fst (MapAdd m k v))) j = (if j = k \<and> k \<notin> set (nmap_keys m) then Some v else map_of (head m) j)"
    by (auto simp: eqs) (auto simp: nmap_keys_def Map.map_add_def map_of_eq_None_iff[symmetric] split: option.splits)
  show "nmap_keys (fst (MapAdd m k v)) = (if k \<in> set (nmap_keys m) then nmap_keys m else nmap_keys m @ [k])"
    by (auto simp: eqs) (simp add: nmap_keys_def)
  show "snd (MapAdd m k v) = (if k \<in> set (nmap_keys m) then 0 else 1)" by (simp add: eqs)
  show "nmap_ok (fst (MapSet m k v))"
    using ok by (auto simp: eqs) (auto simp: nmap_ok_def map_fst_update_value simp del: map_map)
  show "map_of (head (fst (MapSet m k v))) j =
      (if j = k \<and> k \<in> set (nmap_keys m) then Some v else map_of (head m) j)"
    by (simp add: eqs map_of_update_value) (simp add: nmap_keys_def)
  show "nmap_keys (fst (MapSet m k v)) = nmap_keys m"
    by (simp add: eqs) (simp add: nmap_keys_def map_fst_update_value del: map_map)
  show "snd (MapSet m k v) = (if k \<in> set (nmap_keys m) then 1 else 0)"
    by (simp add: eqs)
qed

interpretation pi: keyed_map NoDBMapAddPtrInt NoDBMapGetPtrInt NoDBMapSetPtrInt nmap_keys nmap_ok
  using nmap_keyed by (simp add: NoDBMapAddPtrInt_def[abs_def] NoDBMapGetPtrInt_def[abs_def] NoDBMapSetPtrInt_def[abs_def])

interpretation api: keyed_map NoDBMapArenaAddPtrInt NoDBMapGetPtrInt NoDBMapSetPtrInt nmap_keys nmap_ok
  using nmap_keyed by (simp add: NoDBMapArenaAddPtrInt_def[abs_def] NoDBMapGetPtrInt_def[abs_def] NoDBMapSetPtrInt_def[abs_def])

interpretation pp: keyed_map NoDBMapAddPtrPtr NoDBMapGetPtrPtr NoDBMapSetPtrPtr nmap_keys nmap_ok
  using nmap_keyed by (simp add: NoDBMapAddPtrPtr_def[abs_def] NoDBMapGetPtrPtr_def[abs_def] NoDBMapSetPtrPtr_def[abs_def])

interpretation app: keyed_map NoDBMapArenaAddPtrPtr NoDBMapGetPtrPtr NoDBMapSetPtrPtr nmap_keys nmap_ok
  using nmap_keyed by (simp add: NoDBMapArenaAddPtrPtr_def[abs_def] NoDBMapGetPtrPtr_def[abs_def] NoDBMapSetPtrPtr_def[abs_def])

lemma nmap_ok_Init [simp]: "nmap_ok NoDBMapInit" "nmap_ok NoDBMapArenaInit"
  by (simp_all add: nmap_ok_def NoDBMapInit_def NoDBMapArenaInit_def)

lemma nmap_keys_Init [simp]: "nmap_keys NoDBMapInit = []" "nmap_keys NoDBMapArenaInit = []"
  by (simp_all add: nmap_keys_def NoDBMapInit_def NoDBMapArenaInit_def)

lemma nmap_get_Init [simp]: "NoDBMapGetPtrPtr NoDBMapInit k = None" "NoDBMapGetPtrPtr NoDBMapArenaInit k = None"
  "NoDBMapGetPtrInt NoDBMapInit k = None" "NoDBMapGetPtrInt NoDBMapArenaInit k = None"
  by (simp_all add: NoDBMapGetPtrPtr_def NoDBMapGetPtrInt_def NoDBMapInit_def NoDBMapArenaInit_def)

lemma NoDBMapSize_keys: "nmap_ok m \<Longrightarrow> NoDBMapSize m = int (length (nmap_keys m))"
  by (simp add: NoDBMapSize_def nmap_ok_def nmap_keys_def)

lemma NoDBMapIterator_eq:
  "nmap_ok m \<Longrightarrow> NoDBMapIterator m = map (\<lambda>k. (k, the (NoDBMapGetPtrPtr m k))) (nmap_keys m)"
  by (simp add: NoDBMapIterator_def nmap_keys_def NoDBMapGetPtrPtr_def nmap_ok_def)
     (rule map_idI[symmetric], auto)

text \<open>The chain of keys after a sequence of additions is the keys in the order of their first addition.\<close>

lemma keys_adds:
  "nmap_ok m \<Longrightarrow> nmap_ok (foldl (\<lambda>m (k, v). fst (NoDBMapAddPtrPtr m k v)) m kvs) \<and>
   nmap_keys (foldl (\<lambda>m (k, v). fst (NoDBMapAddPtrPtr m k v)) m kvs) =
     foldl (\<lambda>ks k. if k \<in> set ks then ks else ks @ [k]) (nmap_keys m) (map fst kvs) \<and>
   NoDBMapGetPtrPtr (foldl (\<lambda>m (k, v). fst (NoDBMapAddPtrPtr m k v)) m kvs) j =
     (case NoDBMapGetPtrPtr m j of None \<Rightarrow> map_of kvs j | Some v \<Rightarrow> Some v)"
proof (induction kvs arbitrary: m)
  case (Cons kv kvs)
  obtain k v where [simp]: "kv = (k, v)" by (cases kv)
  show ?case
    using Cons.IH[OF pp.ok_add[OF Cons.prems, of k v]] Cons.prems pp.get_None[OF Cons.prems, of k]
    by (auto simp: pp.keys_add pp.get_add split: option.splits)
qed (simp split: option.splits)

section \<open>Properties\<close>

text \<open>
  A map built by a sequence of \<open>NoDBMapAddPtrPtr\<close> calls returns for a key the value of the first
  call with that key and reports absence for the other keys; \<open>NoDBMapHasPtr\<close> agrees with the getter;
  \<open>NoDBMapSize\<close> is the number of distinct keys; and the iterator visits every key once, each with
  the value the getter returns.
\<close>

theorem map_adds_lookup:
  fixes kvs :: "('k \<times> 'v) list"
  defines "m \<equiv> foldl (\<lambda>m (k, v). fst (NoDBMapAddPtrPtr m k v)) NoDBMapInit kvs"
  shows "NoDBMapGetPtrPtr m j = map_of kvs j \<and>
    NoDBMapHasPtr m j = (j \<in> fst ` set kvs) \<and>
    NoDBMapSize m = int (card (fst ` set kvs)) \<and>
    distinct (map fst (NoDBMapIterator m)) \<and>
    set (NoDBMapIterator m) = {(k, v). map_of kvs k = Some v}"
proof -
  have m: "nmap_ok m" "\<And>j. NoDBMapGetPtrPtr m j = map_of kvs j"
    using keys_adds[of NoDBMapInit kvs] by (simp_all add: m_def)
  have ks: "set (nmap_keys m) = fst ` set kvs"
    using pp.get_None[OF m(1)] m(2) by (metis map_of_eq_None_iff subsetI subset_antisym)
  have "distinct (nmap_keys m)" using m(1) by (rule pp.keys_distinct)
  moreover have "set (NoDBMapIterator m) = {(k, v). map_of kvs k = Some v}"
    using m by (auto simp: NoDBMapIterator_def nmap_ok_def NoDBMapGetPtrPtr_def simp flip: m(2))
  ultimately show ?thesis
    using m ks distinct_card[of "nmap_keys m"]
    by (simp add: NoDBMapHasPtr_def NoDBMapSize_keys NoDBMapIterator_def nmap_keys_def)
qed

end
