(* ===== verification/NoDB_Bitmap.thy ===== *)
theory NoDB_Bitmap
  imports NoDB_Prelude
begin

text \<open>
  The bitmaps of \<open>src/postgresql-9.6.5/src/backend/noDB/auxiliary/NoDBBitmap.c\<close>: an array of C
  ints, one per position, that the operations keep at 0 or 1. An element of a freshly allocated
  array is \<open>None\<close> until it is stored. A read or a write outside the array is undefined (\<open>None\<close>).
\<close>

record NoDBBitmap_t =
  bits :: "int option list"
  size_bm :: int

definition bit_read :: "NoDBBitmap_t \<Rightarrow> int \<Rightarrow> int option" where
  "bit_read bitmap p = (case arr_get (bits bitmap) p of None \<Rightarrow> None | Some v \<Rightarrow> v)"

definition bit_write :: "NoDBBitmap_t \<Rightarrow> int \<Rightarrow> int \<Rightarrow> NoDBBitmap_t option" where
  "bit_write bitmap p v =
     (case arr_set (bits bitmap) p (Some v) of None \<Rightarrow> None | Some bs \<Rightarrow> Some (bitmap\<lparr>bits := bs\<rparr>))"

definition NoDBBitmapSet :: "NoDBBitmap_t \<Rightarrow> int \<Rightarrow> NoDBBitmap_t option" where
  "NoDBBitmapSet bitmap p = bit_write bitmap p 1"

definition NoDBBitmapClear :: "NoDBBitmap_t \<Rightarrow> int \<Rightarrow> NoDBBitmap_t option" where
  "NoDBBitmapClear bitmap p = bit_write bitmap p 0"

definition NoDBBitmapIsSet :: "NoDBBitmap_t \<Rightarrow> int \<Rightarrow> bool option" where
  "NoDBBitmapIsSet bitmap p = map_option (\<lambda>v. v = 1) (bit_read bitmap p)"

definition NoDBBitmapIsClear :: "NoDBBitmap_t \<Rightarrow> int \<Rightarrow> bool option" where
  "NoDBBitmapIsClear bitmap p = map_option (\<lambda>v. v = 0) (bit_read bitmap p)"

definition NoDBBitmapSetAll :: "NoDBBitmap_t \<Rightarrow> NoDBBitmap_t option" where
  "NoDBBitmapSetAll bitmap = foldM (\<lambda>b i. bit_write b (int i) 1) bitmap [0..<nat (size_bm bitmap)]"

definition NoDBBitmapClearAll :: "NoDBBitmap_t \<Rightarrow> NoDBBitmap_t option" where
  "NoDBBitmapClearAll bitmap = foldM (\<lambda>b i. bit_write b (int i) 0) bitmap [0..<nat (size_bm bitmap)]"

definition NoDBBitmapInit :: "int \<Rightarrow> NoDBBitmap_t option" where
  "NoDBBitmapInit sz = NoDBBitmapClearAll \<lparr>bits = replicate (nat sz) None, size_bm = sz\<rparr>"

definition NoDBBitmapArenaInit :: "int \<Rightarrow> NoDBBitmap_t option" where
  "NoDBBitmapArenaInit sz = NoDBBitmapClearAll \<lparr>bits = replicate (nat sz) None, size_bm = sz\<rparr>"

fun NoDBBitmapIsAllSet_loop :: "NoDBBitmap_t \<Rightarrow> nat list \<Rightarrow> bool option" where
  "NoDBBitmapIsAllSet_loop b [] = Some True"
| "NoDBBitmapIsAllSet_loop b (i # is) =
     (case bit_read b (int i) of
        None \<Rightarrow> None
      | Some v \<Rightarrow> if v = 0 then Some False else NoDBBitmapIsAllSet_loop b is)"

definition NoDBBitmapIsAllSet :: "NoDBBitmap_t \<Rightarrow> bool option" where
  "NoDBBitmapIsAllSet b = NoDBBitmapIsAllSet_loop b [0..<nat (size_bm b)]"

fun NoDBBitmapIsAllClear_loop :: "NoDBBitmap_t \<Rightarrow> nat list \<Rightarrow> bool option" where
  "NoDBBitmapIsAllClear_loop b [] = Some True"
| "NoDBBitmapIsAllClear_loop b (i # is) =
     (case bit_read b (int i) of
        None \<Rightarrow> None
      | Some v \<Rightarrow> if v \<noteq> 0 then Some False else NoDBBitmapIsAllClear_loop b is)"

definition NoDBBitmapIsAllClear :: "NoDBBitmap_t \<Rightarrow> bool option" where
  "NoDBBitmapIsAllClear b = NoDBBitmapIsAllClear_loop b [0..<nat (size_bm b)]"

definition NoDBBitmapOR :: "NoDBBitmap_t \<Rightarrow> NoDBBitmap_t \<Rightarrow> NoDBBitmap_t option" where
  "NoDBBitmapOR orig toMerge =
     foldM (\<lambda>b i. case NoDBBitmapIsSet toMerge (int i) of
         None \<Rightarrow> None
       | Some s \<Rightarrow> if s then NoDBBitmapSet b (int i) else Some b) orig [0..<nat (size_bm orig)]"

section \<open>The bitmap as a set of positions\<close>

text \<open>
  The representation invariant and the abstraction: a well-formed bitmap of size \<open>n\<close> represents a
  subset of \<open>{0..<n}\<close>.
\<close>

definition bm_ok :: "nat \<Rightarrow> NoDBBitmap_t \<Rightarrow> bool" where
  "bm_ok n b \<longleftrightarrow> size_bm b = int n \<and> length (bits b) = n \<and> set (bits b) \<subseteq> {Some 0, Some 1}"

definition bm_set :: "NoDBBitmap_t \<Rightarrow> nat set" where
  "bm_set b = {i. i < length (bits b) \<and> bits b ! i = Some 1}"

fun bitmap_op :: "NoDBBitmap_t \<Rightarrow> bool \<times> nat \<Rightarrow> NoDBBitmap_t option" where
  "bitmap_op b (True, i) = NoDBBitmapSet b (int i)"
| "bitmap_op b (False, i) = NoDBBitmapClear b (int i)"

fun set_op :: "nat set \<Rightarrow> bool \<times> nat \<Rightarrow> nat set" where
  "set_op S (True, i) = insert i S"
| "set_op S (False, i) = S - {i}"

lemma bm_ok_nth: "bm_ok n b \<Longrightarrow> i < n \<Longrightarrow> bits b ! i = (if i \<in> bm_set b then Some 1 else Some 0)"
  using nth_mem[of i "bits b"] by (force simp: bm_ok_def bm_set_def)

lemma bm_set_sub: "bm_ok n b \<Longrightarrow> bm_set b \<subseteq> {0..<n}"
  by (auto simp: bm_ok_def bm_set_def)

lemma bit_read_ok: "bm_ok n b \<Longrightarrow> i < n \<Longrightarrow> bit_read b (int i) = Some (if i \<in> bm_set b then 1 else 0)"
  by (simp add: bit_read_def bm_ok_nth) (simp add: bm_ok_def)

lemma bit_write_ok:
  assumes "bm_ok n b" "i < n" "v = 0 \<or> v = 1"
  obtains b' where "bit_write b (int i) v = Some b'" "bm_ok n b'"
    "bm_set b' = (if v = 1 then insert i (bm_set b) else bm_set b - {i})"
proof
  show "bit_write b (int i) v = Some (b\<lparr>bits := (bits b)[i := Some v]\<rparr>)"
    using assms by (simp add: bit_write_def bm_ok_def)
  show "bm_ok n (b\<lparr>bits := (bits b)[i := Some v]\<rparr>)"
    using assms set_update_subset_insert[of "bits b" i "Some v"] by (auto simp: bm_ok_def)
  show "bm_set (b\<lparr>bits := (bits b)[i := Some v]\<rparr>) = (if v = 1 then insert i (bm_set b) else bm_set b - {i})"
    using assms by (auto simp: bm_set_def bm_ok_def nth_list_update)
qed

lemma NoDBBitmapSet_ok:
  assumes "bm_ok n b" "i < n"
  shows "\<exists>b'. NoDBBitmapSet b (int i) = Some b' \<and> bm_ok n b' \<and> bm_set b' = insert i (bm_set b)"
  using bit_write_ok[OF assms, of 1] by (metis NoDBBitmapSet_def)

lemma NoDBBitmapClear_ok:
  assumes "bm_ok n b" "i < n"
  shows "\<exists>b'. NoDBBitmapClear b (int i) = Some b' \<and> bm_ok n b' \<and> bm_set b' = bm_set b - {i}"
  using bit_write_ok[OF assms, of 0] by (metis NoDBBitmapClear_def zero_neq_one)

lemma NoDBBitmapIsSet_ok: "bm_ok n b \<Longrightarrow> i < n \<Longrightarrow> NoDBBitmapIsSet b (int i) = Some (i \<in> bm_set b)"
  by (simp add: NoDBBitmapIsSet_def bit_read_ok)

lemma NoDBBitmapIsClear_ok: "bm_ok n b \<Longrightarrow> i < n \<Longrightarrow> NoDBBitmapIsClear b (int i) = Some (i \<notin> bm_set b)"
  by (simp add: NoDBBitmapIsClear_def bit_read_ok)

lemma write_all:
  assumes "length (bits b) = n" "k \<le> n"
  shows "\<exists>b'. foldM (\<lambda>b i. bit_write b (int i) v) b [0..<k] = Some b' \<and> size_bm b' = size_bm b \<and>
    bits b' = replicate k (Some v) @ drop k (bits b)"
  using assms(2)
proof (induction k)
  case (Suc k)
  then obtain b' where b': "foldM (\<lambda>b i. bit_write b (int i) v) b [0..<k] = Some b'"
    "size_bm b' = size_bm b" "bits b' = replicate k (Some v) @ drop k (bits b)" by auto
  have "(replicate k (Some v) @ drop k (bits b))[k := Some v] = replicate (Suc k) (Some v) @ drop (Suc k) (bits b)"
    using Suc.prems assms(1)
    by (simp add: list_update_append replicate_append_same[symmetric] Cons_nth_drop_Suc[symmetric])
  then show ?case
    using b' Suc.prems assms(1) by (auto simp: foldM_snoc bit_write_def)
qed simp

lemma NoDBBitmapSetAll_ok:
  assumes "size_bm b = int n" "length (bits b) = n"
  shows "\<exists>b'. NoDBBitmapSetAll b = Some b' \<and> bm_ok n b' \<and> bm_set b' = {0..<n}"
  using write_all[OF assms(2) order_refl, of 1] assms
  by (auto simp: NoDBBitmapSetAll_def bm_ok_def bm_set_def)

lemma NoDBBitmapClearAll_ok:
  assumes "size_bm b = int n" "length (bits b) = n"
  shows "\<exists>b'. NoDBBitmapClearAll b = Some b' \<and> bm_ok n b' \<and> bm_set b' = {}"
  using write_all[OF assms(2) order_refl, of 0] assms
  by (auto simp: NoDBBitmapClearAll_def bm_ok_def bm_set_def)

lemma NoDBBitmapInit_ok:
  "\<exists>b. NoDBBitmapInit (int n) = Some b \<and> bm_ok n b \<and> bm_set b = {}"
  "\<exists>b. NoDBBitmapArenaInit (int n) = Some b \<and> bm_ok n b \<and> bm_set b = {}"
  by (auto simp: NoDBBitmapInit_def NoDBBitmapArenaInit_def intro!: NoDBBitmapClearAll_ok)

lemma NoDBBitmapIsAllSet_ok: "bm_ok n b \<Longrightarrow> NoDBBitmapIsAllSet b = Some (bm_set b = {0..<n})"
proof -
  assume ok: "bm_ok n b"
  have "set is \<subseteq> {0..<n} \<Longrightarrow> NoDBBitmapIsAllSet_loop b is = Some (set is \<subseteq> bm_set b)" for "is"
    using ok by (induction "is") (auto simp: bit_read_ok)
  from this[of "[0..<n]"] show ?thesis
    using ok bm_set_sub[OF ok] by (auto simp: NoDBBitmapIsAllSet_def bm_ok_def)
qed

lemma NoDBBitmapIsAllClear_ok: "bm_ok n b \<Longrightarrow> NoDBBitmapIsAllClear b = Some (bm_set b = {})"
proof -
  assume ok: "bm_ok n b"
  have "set is \<subseteq> {0..<n} \<Longrightarrow> NoDBBitmapIsAllClear_loop b is = Some (set is \<inter> bm_set b = {})" for "is"
    using ok by (induction "is") (auto simp: bit_read_ok)
  from this[of "[0..<n]"] show ?thesis
    using ok bm_set_sub[OF ok] by (auto simp: NoDBBitmapIsAllClear_def bm_ok_def)
qed

lemma bitmap_or_loop:
  assumes "bm_ok n b" "bm_ok n c" "k \<le> n"
  shows "\<exists>b'. foldM (\<lambda>b i. case NoDBBitmapIsSet c (int i) of None \<Rightarrow> None
       | Some s \<Rightarrow> if s then NoDBBitmapSet b (int i) else Some b) b [0..<k] = Some b' \<and>
     bm_ok n b' \<and> bm_set b' = bm_set b \<union> (bm_set c \<inter> {0..<k})"
  using assms(3)
proof (induction k)
  case (Suc k)
  then obtain b' where b': "foldM (\<lambda>b i. case NoDBBitmapIsSet c (int i) of None \<Rightarrow> None
       | Some s \<Rightarrow> if s then NoDBBitmapSet b (int i) else Some b) b [0..<k] = Some b'"
    "bm_ok n b'" "bm_set b' = bm_set b \<union> (bm_set c \<inter> {0..<k})"
    by auto
  have k: "NoDBBitmapIsSet c (int k) = Some (k \<in> bm_set c)"
    using assms(2) Suc.prems by (simp add: NoDBBitmapIsSet_ok)
  have split: "bm_set c \<inter> {0..<Suc k} = bm_set c \<inter> {0..<k} \<union> (if k \<in> bm_set c then {k} else {})"
    by (auto simp: less_Suc_eq)
  obtain b'' where "NoDBBitmapSet b' (int k) = Some b''" "bm_ok n b''" "bm_set b'' = insert k (bm_set b')"
    using NoDBBitmapSet_ok[OF b'(2), of k] Suc.prems by auto
  then show ?case
    using b' unfolding split by (cases "k \<in> bm_set c") (simp_all add: foldM_snoc k)
qed (use assms in simp)

lemma NoDBBitmapOR_ok:
  assumes "bm_ok n b" "bm_ok n c"
  shows "\<exists>b'. NoDBBitmapOR b c = Some b' \<and> bm_ok n b' \<and> bm_set b' = bm_set b \<union> bm_set c"
proof -
  have "nat (size_bm b) = n" "bm_set c \<inter> {0..<n} = bm_set c"
    using assms(1) bm_set_sub[OF assms(2)] by (auto simp: bm_ok_def)
  then show ?thesis
    using bitmap_or_loop[OF assms order_refl] by (simp add: NoDBBitmapOR_def)
qed

lemma bitmap_ops:
  assumes "bm_ok n b" "\<forall>(s, i) \<in> set ops. i < n"
  shows "\<exists>b'. foldM bitmap_op b ops = Some b' \<and> bm_ok n b' \<and> bm_set b' = foldl set_op (bm_set b) ops"
  using assms
proof (induction ops arbitrary: b)
  case (Cons op ops)
  obtain s i where [simp]: "op = (s, i)" by (cases op)
  obtain b1 where "bitmap_op b op = Some b1" "bm_ok n b1" "bm_set b1 = set_op (bm_set b) op"
    using NoDBBitmapSet_ok[OF Cons.prems(1), of i] NoDBBitmapClear_ok[OF Cons.prems(1), of i] Cons.prems(2)
    by (cases s) auto
  then show ?case using Cons.IH[of b1] Cons.prems(2) by simp
qed simp

section \<open>Properties\<close>

text \<open>
  C31: Bitmaps implement sets of positions below their size. After any sequence of sets and clears
  at positions inside the bitmap, starting from a fresh one, no operation is undefined,
  \<open>NoDBBitmapIsSet\<close> answers membership in the set the sequence builds, and \<open>NoDBBitmapIsAllSet\<close> and
  \<open>NoDBBitmapIsAllClear\<close> decide whether the set is full or empty.
\<close>

theorem bitmap_refines_set:
  assumes "\<forall>(s, i) \<in> set ops. i < n"
  shows "\<exists>b b'. NoDBBitmapArenaInit (int n) = Some b \<and> foldM bitmap_op b ops = Some b' \<and>
    (\<forall>i < n. NoDBBitmapIsSet b' (int i) = Some (i \<in> foldl set_op {} ops)) \<and>
    NoDBBitmapIsAllSet b' = Some (foldl set_op {} ops = {0..<n}) \<and>
    NoDBBitmapIsAllClear b' = Some (foldl set_op {} ops = {})"
proof -
  obtain b where b: "NoDBBitmapArenaInit (int n) = Some b" "bm_ok n b" "bm_set b = {}"
    using NoDBBitmapInit_ok(2) by blast
  obtain b' where b': "foldM bitmap_op b ops = Some b'" "bm_ok n b'" "bm_set b' = foldl set_op {} ops"
    using bitmap_ops[OF b(2) assms] b(3) by auto
  show ?thesis
    using b(1) b' by (intro exI[of _ b] exI[of _ b'])
      (auto simp: NoDBBitmapIsSet_ok NoDBBitmapIsAllSet_ok NoDBBitmapIsAllClear_ok)
qed

theorem bitmap_refines_set_witness:
  "\<exists>b b'. NoDBBitmapArenaInit (int 2) = Some b \<and>
    foldM bitmap_op b [(True, 0), (True, 1), (False, 0)] = Some b' \<and>
    NoDBBitmapIsSet b' 1 = Some True \<and> NoDBBitmapIsAllSet b' = Some False"
proof -
  have S: "foldl set_op {} [(True, 0), (True, 1), (False, 0)] = {1}" by (simp add: insert_Diff_if)
  have "\<forall>(s, i) \<in> set [(True, 0), (True, 1), (False, 0)]. i < (2 :: nat)" by simp
  from bitmap_refines_set[OF this, unfolded S] obtain b b' where
    b: "NoDBBitmapArenaInit (int 2) = Some b" "foldM bitmap_op b [(True, 0), (True, 1), (False, 0)] = Some b'"
    and all: "\<forall>i < 2. NoDBBitmapIsSet b' (int i) = Some (i \<in> {1})"
    and full: "NoDBBitmapIsAllSet b' = Some ({1} = {0..<2 :: nat})"
    by (elim exE conjE)
  have "{1} \<noteq> {0..<2 :: nat}" by (simp add: set_eq_iff) (intro exI[of _ 0], simp)
  then have "NoDBBitmapIsAllSet b' = Some False" using full by simp
  moreover have "NoDBBitmapIsSet b' 1 = Some True" using all[rule_format, of 1] by simp
  ultimately show ?thesis using b by blast
qed

end
