(* ===== verification/NoDB_CacheSelect.thy ===== *)
theory NoDB_CacheSelect
  imports NoDB_EOLCache NoDB_Map NoDB_Bitmap
begin

text \<open>
  The first half of \<open>src/postgresql-9.6.5/src/backend/noDB/NoDBScanStrategy.c\<close>: the maps from caches to
  columns that a strategy is assembled in, and the searches over the global list of caches that
  choose which cache a column is read from, grown in, or added to.

  The global list \<open>NoDBCaches\<close> and the heap of caches form a \<open>cache_world\<close>. A pointer to a cache is
  its address; where the code lets the pointer be NULL it is an option. The result of a search with
  an out-parameter \<open>bestCacheCols\<close> is a pair, whose second part is \<open>None\<close> while the parameter has not
  been assigned.
\<close>

record cache_world =
  cw_heap :: nodb_heap
  NoDBCaches :: "nat NoDBList_t"

definition get_cache :: "cache_world \<Rightarrow> nat \<Rightarrow> NoDBCache_t option" where
  "get_cache w p = h_caches (cw_heap w) p"

definition put_cache :: "cache_world \<Rightarrow> nat \<Rightarrow> NoDBCache_t \<Rightarrow> cache_world" where
  "put_cache w p c = w\<lparr>cw_heap := upd_cache (cw_heap w) p c\<rparr>"

type_synonym cache_ptr = "nat option"

type_synonym col_map = "(cache_ptr, NoDBColList_t) NoDBMap_t"

record NoDBColumnsPerCache_t =
  cpc_cache :: cache_ptr
  cpc_cols :: NoDBColVector_t

section \<open>Maps from caches to columns\<close>

definition AddColToMap :: "col_map \<Rightarrow> cache_ptr \<Rightarrow> NoDBCol_t \<Rightarrow> col_map" where
  "AddColToMap m cache col =
     (case NoDBMapGetPtrPtr m cache of
        Some colList \<Rightarrow> fst (NoDBMapSetPtrPtr m cache (NoDBColListArenaAdd colList col))
      | None \<Rightarrow> fst (NoDBMapArenaAddPtrPtr m cache (NoDBColListArenaAdd [] col)))"

text \<open>
  The code compares the old and the new list pointer; \<open>NoDBColListArenaAddUnique\<close> returns a new node
  exactly when it returns a longer list.
\<close>

definition AddUniqueColToMap :: "col_map \<Rightarrow> cache_ptr \<Rightarrow> NoDBCol_t \<Rightarrow> col_map \<times> int" where
  "AddUniqueColToMap m cache col =
     (case NoDBMapGetPtrPtr m cache of
        Some colList \<Rightarrow>
          (let ncolList = NoDBColListArenaAddUnique colList col in
           (fst (NoDBMapSetPtrPtr m cache ncolList), if colList \<noteq> ncolList then 1 else 0))
      | None \<Rightarrow> (fst (NoDBMapArenaAddPtrPtr m cache (NoDBColListArenaAdd [] col)), 1))"

fun MapContainsColumn_loop :: "(cache_ptr, NoDBColList_t) NoDBMapIterator_t \<Rightarrow> NoDBCol_t \<Rightarrow> int" where
  "MapContainsColumn_loop [] col = 0"
| "MapContainsColumn_loop ((k, colList) # it) col =
     (if NoDBColListContains colList col then 1 else MapContainsColumn_loop it col)"

definition MapContainsColumn :: "col_map \<Rightarrow> NoDBCol_t \<Rightarrow> int" where
  "MapContainsColumn m col = MapContainsColumn_loop (NoDBMapIterator m) col"

definition AddIntToMap :: "(cache_ptr, NoDBIntList_t) NoDBMap_t \<Rightarrow> cache_ptr \<Rightarrow> int \<Rightarrow> (cache_ptr, NoDBIntList_t) NoDBMap_t" where
  "AddIntToMap m cache v =
     (case NoDBMapGetPtrPtr m cache of
        Some intList \<Rightarrow> fst (NoDBMapSetPtrPtr m cache (NoDBIntListArenaAdd intList v))
      | None \<Rightarrow> fst (NoDBMapArenaAddPtrPtr m cache (NoDBIntListArenaAdd [] v)))"

fun SetColsPerCache_loop ::
    "(cache_ptr, NoDBColList_t) NoDBMapIterator_t \<Rightarrow> int \<Rightarrow> NoDBColumnsPerCache_t option list \<Rightarrow>
     NoDBColumnsPerCache_t option list option" where
  "SetColsPerCache_loop [] i cacheCols = Some cacheCols"
| "SetColsPerCache_loop ((cache, colList) # it) i cacheCols =
     do {
       cols \<leftarrow> NoDBColVectorArenaFromList colList;
       cacheCols' \<leftarrow> arr_set cacheCols i (Some \<lparr>cpc_cache = cache, cpc_cols = cols\<rparr>);
       SetColsPerCache_loop it (i + 1) cacheCols'
     }"

text \<open>The result has \<open>*n\<close> elements; when the map is empty the array pointer is left unset.\<close>

definition SetColsPerCache :: "col_map \<Rightarrow> NoDBColumnsPerCache_t option list option" where
  "SetColsPerCache m =
     (if NoDBMapSize m \<noteq> 0
      then SetColsPerCache_loop (NoDBMapIterator m) 0 (replicate (nat (NoDBMapSize m)) None)
      else Some [])"

definition GetColListFromBitmap :: "NoDBColVector_t \<Rightarrow> NoDBBitmap_t \<Rightarrow> NoDBColList_t option" where
  "GetColListFromBitmap cols bitmap =
     foldM (\<lambda>colList i. do {
         s \<leftarrow> NoDBBitmapIsSet bitmap (int i);
         (if s then do { c \<leftarrow> NoDBColVectorGet cols (int i); Some (NoDBColListArenaAddUnique colList c) }
          else Some colList)
       }) [] [0..<nat (NoDBColVectorSize cols)]"

section \<open>Searching the caches\<close>

definition GetCachesWithRow :: "cache_world \<Rightarrow> nat \<Rightarrow> NoDBCacheType_t \<Rightarrow> NoDBRow_t \<Rightarrow> nat NoDBList_t option" where
  "GetCachesWithRow w rel cacheType row =
     foldM (\<lambda>caches p. do {
         cache \<leftarrow> get_cache w p;
         Some (if NoDBCacheGetRelation cache = rel \<and> NoDBCacheGetType cache = cacheType \<and> NoDBCacheHasRow cache row
               then NoDBListArenaAdd caches p else caches)
       }) [] (NoDBCaches w)"

text \<open>The columns of \<open>colList\<close> that a cache holds, collected behind \<open>hitCol\<close>, and how many they are.\<close>

definition CacheHitCols :: "NoDBCache_t \<Rightarrow> NoDBCol_t \<Rightarrow> NoDBColList_t \<Rightarrow> (NoDBColList_t \<times> int) option" where
  "CacheHitCols cache hitCol colList =
     foldM (\<lambda>(cacheCols, n) col. do {
         b \<leftarrow> NoDBCacheHasColumn cache col;
         Some (if b then (NoDBColListArenaAddUnique cacheCols col, n + 1) else (cacheCols, n))
       }) (NoDBColListArenaAdd [] hitCol, 1) colList"

definition GetBestCacheHit ::
    "cache_world \<Rightarrow> nat NoDBList_t \<Rightarrow> NoDBCol_t \<Rightarrow> NoDBColList_t \<Rightarrow> (cache_ptr \<times> NoDBColList_t option) option" where
  "GetBestCacheHit w caches hitCol colList =
     map_option (\<lambda>(bestCache, bestN, bestCacheCols). (bestCache, bestCacheCols))
       (foldM (\<lambda>(bestCache, bestN, bestCacheCols) p. do {
            cache \<leftarrow> get_cache w p;
            b \<leftarrow> NoDBCacheHasColumn cache hitCol;
            (if \<not> b then Some (bestCache, bestN, bestCacheCols)
             else do {
               (cacheCols, n) \<leftarrow> CacheHitCols cache hitCol colList;
               Some (if n > bestN then (Some p, n, Some cacheCols) else (bestCache, bestN, bestCacheCols))
             })
          }) (None, 0, None) caches)"

fun CacheContainsSubset_loop :: "NoDBCache_t \<Rightarrow> NoDBColList_t \<Rightarrow> nat list \<Rightarrow> bool option" where
  "CacheContainsSubset_loop cache cols [] = Some True"
| "CacheContainsSubset_loop cache cols (i # is) =
     do {
       oc \<leftarrow> arr_get (c_cols cache) (int i);
       col \<leftarrow> oc;
       (if \<not> NoDBColListContains cols col then Some False else CacheContainsSubset_loop cache cols is)
     }"

definition CacheContainsSubset :: "NoDBCache_t \<Rightarrow> NoDBColList_t \<Rightarrow> bool option" where
  "CacheContainsSubset cache cols = CacheContainsSubset_loop cache cols [0..<c_usedCols cache]"

fun CacheHasAnyColumn :: "NoDBCache_t \<Rightarrow> NoDBColList_t \<Rightarrow> bool option" where
  "CacheHasAnyColumn cache [] = Some False"
| "CacheHasAnyColumn cache (col # l) =
     do { b \<leftarrow> NoDBCacheHasColumn cache col; (if b then Some True else CacheHasAnyColumn cache l) }"

fun CacheStartsBelow_loop ::
    "cache_world \<Rightarrow> nat \<Rightarrow> NoDBCacheType_t \<Rightarrow> NoDBColList_t \<Rightarrow> NoDBRow_t \<Rightarrow> nat list \<Rightarrow> bool option" where
  "CacheStartsBelow_loop w rel cacheType cols row [] = Some False"
| "CacheStartsBelow_loop w rel cacheType cols row (p # ps) =
     do {
       cache \<leftarrow> get_cache w p;
       b \<leftarrow> (if NoDBCacheGetRelation cache = rel \<and> NoDBCacheGetType cache = cacheType \<and> NoDBCacheGetBegin cache \<ge> row
             then CacheHasAnyColumn cache cols else Some False);
       (if b then Some True else CacheStartsBelow_loop w rel cacheType cols row ps)
     }"

definition CacheStartsBelow ::
    "cache_world \<Rightarrow> nat \<Rightarrow> NoDBCacheType_t \<Rightarrow> NoDBColList_t \<Rightarrow> NoDBRow_t \<Rightarrow> bool option" where
  "CacheStartsBelow w rel cacheType cols row = CacheStartsBelow_loop w rel cacheType cols row (NoDBCaches w)"

text \<open>The condition of \<open>GetCachesCanGrow\<close>, with the short-circuit evaluation of C.\<close>

definition CacheMayGrow ::
    "cache_world \<Rightarrow> nat \<Rightarrow> NoDBCacheType_t \<Rightarrow> NoDBCol_t \<Rightarrow> NoDBRow_t \<Rightarrow> NoDBColList_t \<Rightarrow> NoDBCache_t \<Rightarrow> bool option" where
  "CacheMayGrow w rel cacheType col row cols cache =
     (if NoDBCacheGetRelation cache = rel \<and> NoDBCacheGetType cache = cacheType \<and> NoDBCacheCanGrow cache row then
        do {
          b \<leftarrow> NoDBCacheHasColumn cache col;
          (if \<not> b then Some False
           else do {
             s \<leftarrow> CacheContainsSubset cache cols;
             (if \<not> s then Some False
              else map_option Not (CacheStartsBelow w rel cacheType cols (NoDBCacheGetBegin cache + NoDBCacheGetUsedRows cache)))
           })
        }
      else Some False)"

definition GetCachesCanGrow ::
    "cache_world \<Rightarrow> nat \<Rightarrow> NoDBCacheType_t \<Rightarrow> NoDBCol_t \<Rightarrow> NoDBRow_t \<Rightarrow> NoDBColList_t \<Rightarrow> nat NoDBList_t option" where
  "GetCachesCanGrow w rel cacheType col row cols =
     (if row = 0 then Some []
      else foldM (\<lambda>caches p. do {
          cache \<leftarrow> get_cache w p;
          b \<leftarrow> CacheMayGrow w rel cacheType col row cols cache;
          Some (if b then NoDBListArenaAdd caches p else caches)
        }) [] (NoDBCaches w))"

definition CacheGrowCols :: "NoDBCache_t \<Rightarrow> NoDBColList_t \<Rightarrow> (NoDBColList_t \<times> int) option" where
  "CacheGrowCols cache colList =
     foldM (\<lambda>(cacheCols, n) col. do {
         b \<leftarrow> NoDBCacheHasColumn cache col;
         Some (if b then (NoDBColListArenaAdd cacheCols col, n + 1) else (cacheCols, n))
       }) ([], 0) colList"

definition GetBestCacheToGrow ::
    "cache_world \<Rightarrow> nat NoDBList_t \<Rightarrow> NoDBColList_t \<Rightarrow> (cache_ptr \<times> NoDBColList_t option) option" where
  "GetBestCacheToGrow w caches colList =
     map_option (\<lambda>(bestCache, bestN, bestCacheCols). (bestCache, bestCacheCols))
       (foldM (\<lambda>(bestCache, bestN, bestCacheCols) p. do {
            cache \<leftarrow> get_cache w p;
            (cacheCols, n) \<leftarrow> CacheGrowCols cache colList;
            Some (if n > bestN then (Some p, n, Some cacheCols) else (bestCache, bestN, bestCacheCols))
          }) (None, 0, None) caches)"

definition GetCachesFreeColumns ::
    "cache_world \<Rightarrow> nat \<Rightarrow> NoDBCacheType_t \<Rightarrow> NoDBRow_t \<Rightarrow> NoDBRow_t \<Rightarrow> nat \<Rightarrow> nat NoDBList_t option" where
  "GetCachesFreeColumns w rel cacheType lim row sz =
     foldM (\<lambda>caches p. do {
         cache \<leftarrow> get_cache w p;
         Some (if NoDBCacheGetRelation cache = rel \<and> NoDBCacheGetType cache = cacheType \<and>
                  NoDBCacheGetBegin cache = row \<and> NoDBCacheGetFreeSize cache \<ge> sz \<and>
                  (lim = 0 \<or> NoDBCacheGetBegin cache + NoDBCacheGetUsedRows cache \<le> lim)
               then NoDBListArenaAdd caches p else caches)
       }) [] (NoDBCaches w)"

definition GetBestCacheToAddColumn :: "cache_world \<Rightarrow> nat NoDBList_t \<Rightarrow> cache_ptr option" where
  "GetBestCacheToAddColumn w caches =
     map_option fst
       (foldM (\<lambda>(bestCache, bestFreeSpace) p. do {
            cache \<leftarrow> get_cache w p;
            Some (if NoDBCacheGetFreeSize cache > bestFreeSpace then (Some p, NoDBCacheGetFreeSize cache)
                  else (bestCache, bestFreeSpace))
          }) (None, 0) caches)"

end
