(* ===== verification/NoDB_Strategy.thy ===== *)
theory NoDB_Strategy
  imports NoDB_CacheSelect
begin

text \<open>
  The second half of \<open>src/postgresql-9.6.5/src/backend/noDB/NoDBScanStrategy.c\<close>: the matrix that decides,
  for every range of rows and every column of a query, whether the value and the position come from
  a cache, go into a cache, or neither; the translation of a matrix row into a scan strategy; and
  the iterator over the strategies of a scan.

  Fields of \<open>Node_t\<close> that \<open>BuildMatrix\<close> does not initialise are \<open>None\<close> until they are assigned;
  \<open>closestPMCache\<close> is initialised to NULL, so its \<open>None\<close> is a value. The arrays of a strategy have
  the length that the C struct stores beside them.
\<close>

section \<open>Types\<close>

datatype Type_t = UNKNOWN | CACHE_HIT | CACHE_MISS | CACHE_ADD

record Node_t =
  dataHit :: Type_t
  dataCache :: "nat option"
  pmHit :: Type_t
  pmCache :: "nat option"
  closestPMCache :: cache_ptr
  closestColumn :: "NoDBCol_t option"
  distance :: "int option"

record ColDistance_t =
  forwardDistance :: int
  backwardDistance :: int
  cd_cache :: cache_ptr

record NoDBReadViaPM_t =
  via_col :: NoDBCol_t
  forward :: int
  backward :: int

record NoDBScanStrategy_t =
  startRow :: NoDBRow_t
  nrows :: NoDBRow_t
  readPreFilterWithCache :: "NoDBColumnsPerCache_t option list"
  readPreFilterWithPM :: "NoDBColumnsPerCache_t option list"
  readPreFilterViaPM :: "NoDBReadViaPM_t option list"
  readPreFilterWithFile :: NoDBColVector_t
  convertPreFilter :: NoDBColVector_t
  readPostFilterWithCache :: "NoDBColumnsPerCache_t option list"
  readPostFilterWithPM :: "NoDBColumnsPerCache_t option list"
  readPostFilterViaPM :: "NoDBReadViaPM_t option list"
  readPostFilterWithFile :: NoDBColVector_t
  convertPostFilter :: NoDBColVector_t
  writeToCacheByValue :: "NoDBColumnsPerCache_t option list"
  writeToCacheByRef :: "NoDBColumnsPerCache_t option list"
  writeToPM :: "NoDBColumnsPerCache_t option list"

record NoDBQueryInfo_t =
  qi_rel :: nat
  qi_limit :: NoDBRow_t
  qi_cols :: NoDBColVector_t
  qi_rows :: NoDBRowVector_t
  readBitmap :: NoDBBitmap_t
  readFilterBitmap :: NoDBBitmap_t
  readRestBitmap :: NoDBBitmap_t
  writeDataBitmap :: NoDBBitmap_t
  writePositionsBitmap :: NoDBBitmap_t
  readCols :: NoDBColList_t

record NoDBScanStrategyIterator_t =
  queryInfo :: NoDBQueryInfo_t
  strategy :: "NoDBScanStrategy_t list"
  it_len :: int
  it_cur :: int

definition STRATEGY_DEFAULT_ROWS :: NoDBRow_t where "STRATEGY_DEFAULT_ROWS = 10000"

definition NODB_DATA_CACHE_DEFAULT_SIZE :: nat where "NODB_DATA_CACHE_DEFAULT_SIZE = 256"

definition sizeof_PMPair :: nat where "sizeof_PMPair = 4"

definition NODB_POS_CACHE_DEFAULT_SIZE :: nat where "NODB_POS_CACHE_DEFAULT_SIZE = sizeof_PMPair * 16"

section \<open>The matrix\<close>

type_synonym matrix = "Node_t list list"

definition node_get :: "matrix \<Rightarrow> int \<Rightarrow> int \<Rightarrow> Node_t option" where
  "node_get mx r c = do { row \<leftarrow> arr_get mx r; arr_get row c }"

definition node_upd :: "matrix \<Rightarrow> int \<Rightarrow> int \<Rightarrow> (Node_t \<Rightarrow> Node_t) \<Rightarrow> matrix option" where
  "node_upd mx r c f =
     do { row \<leftarrow> arr_get mx r; n \<leftarrow> arr_get row c; row' \<leftarrow> arr_set row c (f n); arr_set mx r row' }"

definition init_node :: Node_t where
  "init_node = \<lparr>dataHit = UNKNOWN, dataCache = None, pmHit = UNKNOWN, pmCache = None,
     closestPMCache = None, closestColumn = None, distance = None\<rparr>"

definition init_matrix :: "int \<Rightarrow> int \<Rightarrow> matrix" where
  "init_matrix nr nc = replicate (nat nr) (replicate (nat nc) init_node)"

definition set_data_hit :: "nat \<Rightarrow> NoDBCol_t \<Rightarrow> Node_t \<Rightarrow> Node_t" where
  "set_data_hit cache ncol n = n\<lparr>dataHit := CACHE_HIT, dataCache := Some cache\<rparr>"

definition set_pm_hit :: "nat \<Rightarrow> NoDBCol_t \<Rightarrow> Node_t \<Rightarrow> Node_t" where
  "set_pm_hit cache ncol n =
     n\<lparr>pmHit := CACHE_HIT, closestPMCache := Some cache, closestColumn := Some ncol, distance := Some 0\<rparr>"

definition set_data_add :: "nat \<Rightarrow> NoDBCol_t \<Rightarrow> Node_t \<Rightarrow> Node_t" where
  "set_data_add cache ncol n = n\<lparr>dataHit := CACHE_ADD, dataCache := Some cache\<rparr>"

definition set_pm_add :: "nat \<Rightarrow> NoDBCol_t \<Rightarrow> Node_t \<Rightarrow> Node_t" where
  "set_pm_add cache ncol n = n\<lparr>pmHit := CACHE_ADD, pmCache := Some cache\<rparr>"

text \<open>Mark the columns of a list in one row of the matrix; the columns are found by binary search.\<close>

definition mark_cols ::
    "NoDBQueryInfo_t \<Rightarrow> (NoDBCol_t \<Rightarrow> Node_t \<Rightarrow> Node_t) \<Rightarrow> int \<Rightarrow> matrix \<Rightarrow> NoDBColList_t \<Rightarrow> matrix option" where
  "mark_cols q upd nrowIdx mx hitCols =
     foldM (\<lambda>mx ncol. do {
         ncolIdx \<leftarrow> NoDBColVectorBinarySearch (qi_cols q) ncol;
         node_upd mx nrowIdx ncolIdx (upd ncol)
       }) mx hitCols"

text \<open>
  The loop that marks a hit. The list of columns is consumed on the first row it visits, so the
  later rows of the loop mark nothing.
\<close>

function mark_hits ::
    "NoDBQueryInfo_t \<Rightarrow> (NoDBCol_t \<Rightarrow> Node_t \<Rightarrow> Node_t) \<Rightarrow> NoDBCache_t \<Rightarrow> nat \<Rightarrow> NoDBColList_t \<Rightarrow> matrix \<Rightarrow> matrix option" where
  "mark_hits q upd cacheHit nrowIdx hitCols mx =
     (if nrowIdx < length (qi_rows q) then
        do {
          r \<leftarrow> NoDBRowVectorGet (qi_rows q) (int nrowIdx);
          (if NoDBCacheHasRow cacheHit r then
             do { mx' \<leftarrow> mark_cols q upd (int nrowIdx) mx hitCols; mark_hits q upd cacheHit (nrowIdx + 1) [] mx' }
           else Some mx)
        }
      else None)"
  by pat_completeness auto
termination
  by (relation "measure (\<lambda>(q, upd, c, n, l, m). length (qi_rows q) - n)") auto

declare mark_hits.simps [simp del]

definition BuildMatrix_hit_col ::
    "cache_world \<Rightarrow> NoDBQueryInfo_t \<Rightarrow> nat NoDBList_t \<Rightarrow> nat NoDBList_t \<Rightarrow> nat \<Rightarrow> matrix \<Rightarrow> nat \<Rightarrow> matrix option" where
  "BuildMatrix_hit_col w q dataCachesWithRow pmCachesWithRow rowIdx mx colIdx =
     do {
       n \<leftarrow> node_get mx (int rowIdx) (int colIdx);
       mx \<leftarrow> (if dataHit n = UNKNOWN then
                do {
                  col \<leftarrow> NoDBColVectorGet (qi_cols q) (int colIdx);
                  (cacheHit, cacheHitCols) \<leftarrow> GetBestCacheHit w dataCachesWithRow col (readCols q);
                  (case cacheHit of
                     None \<Rightarrow> Some mx
                   | Some p \<Rightarrow> do { hc \<leftarrow> cacheHitCols; c \<leftarrow> get_cache w p; mark_hits q (set_data_hit p) c rowIdx hc mx })
                }
              else Some mx);
       n \<leftarrow> node_get mx (int rowIdx) (int colIdx);
       b \<leftarrow> (if pmHit n = UNKNOWN
             then if dataHit n \<noteq> CACHE_HIT then Some True else NoDBBitmapIsSet (writePositionsBitmap q) (int colIdx)
             else Some False);
       (if b then
          do {
            col \<leftarrow> NoDBColVectorGet (qi_cols q) (int colIdx);
            (cacheHit, cacheHitCols) \<leftarrow> GetBestCacheHit w pmCachesWithRow col (readCols q);
            (case cacheHit of
               None \<Rightarrow> Some mx
             | Some p \<Rightarrow> do { hc \<leftarrow> cacheHitCols; c \<leftarrow> get_cache w p; mark_hits q (set_pm_hit p) c rowIdx hc mx })
          }
        else Some mx)
     }"

definition BuildMatrix_hits :: "cache_world \<Rightarrow> NoDBQueryInfo_t \<Rightarrow> matrix \<Rightarrow> matrix option" where
  "BuildMatrix_hits w q mx =
     foldM (\<lambda>mx rowIdx. do {
         row \<leftarrow> NoDBRowVectorGet (qi_rows q) (int rowIdx);
         dc \<leftarrow> GetCachesWithRow w (qi_rel q) NODB_DATA_CACHE row;
         pc \<leftarrow> GetCachesWithRow w (qi_rel q) NODB_POSITIONS_CACHE row;
         foldM (BuildMatrix_hit_col w q dc pc rowIdx) mx [0..<nat (NoDBColVectorSize (qi_cols q))]
       }) mx [0..<nat (NoDBRowVectorSize (qi_rows q) - 1)]"

text \<open>The columns of a write set that are not hits in this row, in the order the code collects them.\<close>

definition grow_candidates ::
    "NoDBQueryInfo_t \<Rightarrow> NoDBBitmap_t \<Rightarrow> (Node_t \<Rightarrow> Type_t) \<Rightarrow> matrix \<Rightarrow> nat \<Rightarrow> NoDBColList_t option" where
  "grow_candidates q bm hit mx rowIdx =
     foldM (\<lambda>l colIdx. do {
         s \<leftarrow> NoDBBitmapIsSet bm (int colIdx);
         (if s then
            do {
              n \<leftarrow> node_get mx (int rowIdx) (int colIdx);
              (if hit n \<noteq> CACHE_HIT
               then do { c \<leftarrow> NoDBColVectorGet (qi_cols q) (int colIdx); Some (NoDBColListArenaAdd l c) }
               else Some l)
            }
          else Some l)
       }) [] [0..<nat (NoDBColVectorSize (qi_cols q))]"

text \<open>The do-while loop that marks the rows a column is added for.\<close>

function mark_added ::
    "NoDBQueryInfo_t \<Rightarrow> (Node_t \<Rightarrow> Node_t) \<Rightarrow> NoDBCache_t \<Rightarrow> nat \<Rightarrow> nat \<Rightarrow> matrix \<Rightarrow> matrix option" where
  "mark_added q upd cache nrowIdx colIdx mx =
     (if nrowIdx + 1 < length (qi_rows q) then
        do {
          mx' \<leftarrow> node_upd mx (int nrowIdx) (int colIdx) upd;
          r \<leftarrow> NoDBRowVectorGet (qi_rows q) (int (nrowIdx + 1));
          (if NoDBCacheHasRow cache r then mark_added q upd cache (nrowIdx + 1) colIdx mx' else Some mx')
        }
      else None)"
  by pat_completeness auto
termination
  by (relation "measure (\<lambda>(q, upd, c, n, k, m). length (qi_rows q) - n)") auto

declare mark_added.simps [simp del]

text \<open>
  One miss, for a cache type: grow the best cache that can grow to the row, else add the column to
  the best cache that begins at the row and has space, else create a cache and put it in the list.
  The data and the positions half of the loop body differ in the cache type, the column size, the
  width of a new cache and the fields that are set.
\<close>

definition handle_miss ::
    "NoDBQueryInfo_t \<Rightarrow> NoDBCacheType_t \<Rightarrow> (nat \<Rightarrow> NoDBCol_t \<Rightarrow> Node_t \<Rightarrow> Node_t) \<Rightarrow> nat option \<Rightarrow> nat \<Rightarrow> NoDBColList_t \<Rightarrow>
     NoDBRow_t \<Rightarrow> nat \<Rightarrow> nat \<Rightarrow> NoDBCol_t \<Rightarrow> cache_world \<times> matrix \<Rightarrow> (cache_world \<times> matrix) option" where
  "handle_miss q ty upd osz rowSize candidates row rowIdx colIdx col = (\<lambda>(w, mx).
     do {
       cachesToGrow \<leftarrow> GetCachesCanGrow w (qi_rel q) ty col row candidates;
       (cacheToGrow, cacheGrowCols) \<leftarrow> GetBestCacheToGrow w cachesToGrow candidates;
       (case cacheToGrow of
          Some p \<Rightarrow>
            do {
              c \<leftarrow> get_cache w p;
              c' \<leftarrow> NoDBCacheGrow c row;
              gc \<leftarrow> cacheGrowCols;
              mx' \<leftarrow> mark_cols q (upd p) (int rowIdx) mx gc;
              Some (put_cache w p c', mx')
            }
        | None \<Rightarrow>
            do {
              sz \<leftarrow> osz;
              cachesFreeCols \<leftarrow> GetCachesFreeColumns w (qi_rel q) ty (qi_limit q) row sz;
              cacheToAddCol \<leftarrow> GetBestCacheToAddColumn w cachesFreeCols;
              (case cacheToAddCol of
                 Some p \<Rightarrow>
                   do {
                     c \<leftarrow> get_cache w p;
                     (c', ret) \<leftarrow> NoDBCacheAddColumn c col sz;
                     mx' \<leftarrow> mark_added q (upd p col) c' rowIdx colIdx mx;
                     Some (put_cache w p c', mx')
                   }
               | None \<Rightarrow>
                   do {
                     rel \<leftarrow> h_rels (cw_heap w) (qi_rel q);
                     (c', ret) \<leftarrow> NoDBCacheAddColumn (NoDBCacheInit (qi_rel q) rel ty row rowSize) col sz;
                     let (h, p) = new_cache (cw_heap w) c';
                     mx' \<leftarrow> node_upd mx (int rowIdx) (int colIdx) (upd p col);
                     Some (w\<lparr>cw_heap := h, NoDBCaches := NoDBListAdd (NoDBCaches w) p\<rparr>, mx')
                   })
            })
     })"

text \<open>The declared size of a column, as the \<open>unsigned int\<close> it is assigned to.\<close>

definition data_size :: "NoDBRelation_t \<Rightarrow> NoDBCol_t \<Rightarrow> nat option" where
  "data_size rel col = map_option (\<lambda>s. nat (s mod 2 ^ 32)) (NoDBRelationGetColumnSize rel col)"

definition BuildMatrix_miss_col ::
    "NoDBQueryInfo_t \<Rightarrow> NoDBColList_t \<Rightarrow> NoDBColList_t \<Rightarrow> NoDBRow_t \<Rightarrow> nat \<Rightarrow> cache_world \<times> matrix \<Rightarrow> nat \<Rightarrow>
     (cache_world \<times> matrix) option" where
  "BuildMatrix_miss_col q growData growPM row rowIdx = (\<lambda>(w, mx) colIdx.
     do {
       n \<leftarrow> node_get mx (int rowIdx) (int colIdx);
       (w, mx) \<leftarrow>
         (if dataHit n = UNKNOWN then
            do {
              col \<leftarrow> NoDBColVectorGet (qi_cols q) (int colIdx);
              s \<leftarrow> NoDBBitmapIsSet (writeDataBitmap q) (int colIdx);
              (if s then
                 do {
                   rel \<leftarrow> h_rels (cw_heap w) (qi_rel q);
                   handle_miss q NODB_DATA_CACHE set_data_add (data_size rel col) NODB_DATA_CACHE_DEFAULT_SIZE growData row rowIdx colIdx col (w, mx)
                 }
               else do { mx' \<leftarrow> node_upd mx (int rowIdx) (int colIdx) (\<lambda>n. n\<lparr>dataHit := CACHE_MISS\<rparr>); Some (w, mx') })
            }
          else Some (w, mx));
       n \<leftarrow> node_get mx (int rowIdx) (int colIdx);
       b \<leftarrow> (if pmHit n = UNKNOWN
             then if dataHit n \<noteq> CACHE_HIT then Some True else NoDBBitmapIsSet (writePositionsBitmap q) (int colIdx)
             else Some False);
       (if b then
          do {
            col \<leftarrow> NoDBColVectorGet (qi_cols q) (int colIdx);
            s \<leftarrow> NoDBBitmapIsSet (writePositionsBitmap q) (int colIdx);
            (if s
             then handle_miss q NODB_POSITIONS_CACHE set_pm_add (Some sizeof_PMPair) NODB_POS_CACHE_DEFAULT_SIZE growPM row rowIdx colIdx col (w, mx)
             else do { mx' \<leftarrow> node_upd mx (int rowIdx) (int colIdx) (\<lambda>n. n\<lparr>pmHit := CACHE_MISS\<rparr>); Some (w, mx') })
          }
        else Some (w, mx))
     })"

definition BuildMatrix_misses :: "NoDBQueryInfo_t \<Rightarrow> cache_world \<times> matrix \<Rightarrow> (cache_world \<times> matrix) option" where
  "BuildMatrix_misses q wmx =
     foldM (\<lambda>(w, mx) rowIdx. do {
         row \<leftarrow> NoDBRowVectorGet (qi_rows q) (int rowIdx);
         growData \<leftarrow> grow_candidates q (writeDataBitmap q) dataHit mx rowIdx;
         growPM \<leftarrow> grow_candidates q (writePositionsBitmap q) pmHit mx rowIdx;
         foldM (BuildMatrix_miss_col q growData growPM row rowIdx) (w, mx) [0..<nat (NoDBColVectorSize (qi_cols q))]
       }) wmx [0..<nat (NoDBRowVectorSize (qi_rows q) - 1)]"

text \<open>The columns marked as additions of positions in this row: their positions are not written yet.\<close>

definition exclude_cols :: "NoDBQueryInfo_t \<Rightarrow> matrix \<Rightarrow> nat \<Rightarrow> NoDBColList_t option" where
  "exclude_cols q mx rowIdx =
     foldM (\<lambda>l colIdx. do {
         n \<leftarrow> node_get mx (int rowIdx) (int colIdx);
         (if pmHit n = CACHE_ADD
          then do { c \<leftarrow> NoDBColVectorGet (qi_cols q) (int colIdx); Some (NoDBColListArenaAdd l c) }
          else Some l)
       }) [] [0..<nat (NoDBColVectorSize (qi_cols q))]"

text \<open>
  The search for the closest column with a known position. The state is \<open>None\<close> while \<open>first\<close> is set,
  then the best cache, the distance and the column.
\<close>

definition closest_in_cache ::
    "NoDBColList_t \<Rightarrow> NoDBCol_t \<Rightarrow> nat \<Rightarrow> NoDBCache_t \<Rightarrow> (nat \<times> int \<times> NoDBCol_t) option \<Rightarrow>
     (nat \<times> int \<times> NoDBCol_t) option option" where
  "closest_in_cache excludeCols col p cache best =
     foldM (\<lambda>best i. do {
         oc \<leftarrow> arr_get (c_cols cache) (int i);
         c \<leftarrow> oc;
         (if NoDBColListContains excludeCols c then Some best
          else
            (let d = col - c in
             Some (case best of
                None \<Rightarrow> Some (p, d, c)
              | Some (b, bestDistance, bc) \<Rightarrow> if \<bar>d\<bar> < \<bar>bestDistance\<bar> then Some (p, d, c) else best)))
       }) best [0..<c_usedCols cache]"

definition find_closest ::
    "cache_world \<Rightarrow> nat \<Rightarrow> NoDBRow_t \<Rightarrow> NoDBColList_t \<Rightarrow> NoDBCol_t \<Rightarrow> (nat \<times> int \<times> NoDBCol_t) option option" where
  "find_closest w rel row excludeCols col =
     foldM (\<lambda>best p. do {
         cache \<leftarrow> get_cache w p;
         (if NoDBCacheGetRelation cache = rel \<and> NoDBCacheGetType cache = NODB_POSITIONS_CACHE \<and> NoDBCacheHasRow cache row
          then closest_in_cache excludeCols col p cache best
          else Some best)
       }) None (NoDBCaches w)"

definition set_closest :: "nat \<Rightarrow> int \<Rightarrow> NoDBCol_t \<Rightarrow> Node_t \<Rightarrow> Node_t" where
  "set_closest bestCache bestDistance closestCol n =
     n\<lparr>closestPMCache := Some bestCache, closestColumn := Some closestCol, distance := Some bestDistance\<rparr>"

definition BuildMatrix_closest_col ::
    "cache_world \<Rightarrow> NoDBQueryInfo_t \<Rightarrow> NoDBRow_t \<Rightarrow> NoDBColList_t \<Rightarrow> nat \<Rightarrow> matrix \<Rightarrow> nat \<Rightarrow> matrix option" where
  "BuildMatrix_closest_col w q row excludeCols rowIdx mx colIdx =
     do {
       col \<leftarrow> NoDBColVectorGet (qi_cols q) (int colIdx);
       n \<leftarrow> node_get mx (int rowIdx) (int colIdx);
       (if pmHit n \<noteq> CACHE_HIT then
          do {
            best \<leftarrow> find_closest w (qi_rel q) row excludeCols col;
            (case best of
               None \<Rightarrow> Some mx
             | Some (p, d, c) \<Rightarrow> node_upd mx (int rowIdx) (int colIdx) (set_closest p d c))
          }
        else Some mx)
     }"

definition BuildMatrix_closest :: "cache_world \<Rightarrow> NoDBQueryInfo_t \<Rightarrow> matrix \<Rightarrow> matrix option" where
  "BuildMatrix_closest w q mx =
     foldM (\<lambda>mx rowIdx. do {
         row \<leftarrow> NoDBRowVectorGet (qi_rows q) (int rowIdx);
         excludeCols \<leftarrow> exclude_cols q mx rowIdx;
         foldM (BuildMatrix_closest_col w q row excludeCols rowIdx) mx [0..<nat (NoDBColVectorSize (qi_cols q))]
       }) mx [0..<nat (NoDBRowVectorSize (qi_rows q) - 1)]"

definition GrowToLastRow :: "matrix \<Rightarrow> int \<Rightarrow> NoDBRow_t \<Rightarrow> int \<Rightarrow> cache_world \<Rightarrow> cache_world option" where
  "GrowToLastRow mx lastRowIdx lastRow ncols w =
     foldM (\<lambda>w colIdx. do {
         n \<leftarrow> node_get mx lastRowIdx (int colIdx);
         w \<leftarrow> (if dataHit n = CACHE_ADD
              then do { p \<leftarrow> dataCache n; c \<leftarrow> get_cache w p; c' \<leftarrow> NoDBCacheGrow c lastRow; Some (put_cache w p c') }
              else Some w);
         (if pmHit n = CACHE_ADD
          then do { p \<leftarrow> pmCache n; c \<leftarrow> get_cache w p; c' \<leftarrow> NoDBCacheGrow c lastRow; Some (put_cache w p c') }
          else Some w)
       }) w [0..<nat ncols]"

definition BuildMatrix :: "cache_world \<Rightarrow> NoDBQueryInfo_t \<Rightarrow> (cache_world \<times> matrix) option" where
  "BuildMatrix w q =
     (let nrows = NoDBRowVectorSize (qi_rows q); ncols = NoDBColVectorSize (qi_cols q) in
      do {
        mx \<leftarrow> BuildMatrix_hits w q (init_matrix nrows ncols);
        (w, mx) \<leftarrow> BuildMatrix_misses q (w, mx);
        mx \<leftarrow> BuildMatrix_closest w q mx;
        r \<leftarrow> NoDBRowVectorGet (qi_rows q) (nrows - 1);
        w \<leftarrow> GrowToLastRow mx (nrows - 2) (r - 1) ncols w;
        Some (w, mx)
      })"

section \<open>From a matrix row to a strategy\<close>

record FillRowReply_t =
  mapDataHit :: col_map
  mapDataAddByValue :: col_map
  mapDataAddByRef :: col_map
  convert :: NoDBColList_t
  collectFromFile :: NoDBColList_t
  mapPositionsAdd :: col_map
  mapReadFromPM :: col_map
  readViaPM :: "NoDBReadViaPM_t option list"

definition init_reply :: FillRowReply_t where
  "init_reply = \<lparr>mapDataHit = NoDBMapArenaInit, mapDataAddByValue = NoDBMapArenaInit,
     mapDataAddByRef = NoDBMapArenaInit, convert = [], collectFromFile = [], mapPositionsAdd = NoDBMapArenaInit,
     mapReadFromPM = NoDBMapArenaInit, readViaPM = []\<rparr>"

fun pm_available :: "matrix \<Rightarrow> nat \<Rightarrow> nat list \<Rightarrow> bool option" where
  "pm_available mx rowIdx [] = Some False"
| "pm_available mx rowIdx (colIdx # is) =
     do {
       n \<leftarrow> node_get mx (int rowIdx) (int colIdx);
       (if closestPMCache n \<noteq> None then Some True else pm_available mx rowIdx is)
     }"

text \<open>
  The two column loops of \<open>FillRow\<close> do the same except for where a position is collected from: the
  column goes to \<open>collectFromFile\<close>, or its index to \<open>collectFromPMIdx\<close>. \<open>collect\<close> is that step on the
  pair of the reply and the index list.
\<close>

type_synonym fill_state = "FillRowReply_t \<times> NoDBIntList_t"

definition collect_file :: "NoDBCol_t \<Rightarrow> nat \<Rightarrow> fill_state \<Rightarrow> fill_state" where
  "collect_file col colIdx = (\<lambda>(r, idx). (r\<lparr>collectFromFile := NoDBColListArenaAddUnique (collectFromFile r) col\<rparr>, idx))"

definition collect_pm :: "NoDBCol_t \<Rightarrow> nat \<Rightarrow> fill_state \<Rightarrow> fill_state" where
  "collect_pm col colIdx = (\<lambda>(r, idx). (r, NoDBIntListArenaAddUnique idx (int colIdx)))"

definition add_convert :: "NoDBCol_t \<Rightarrow> fill_state \<Rightarrow> fill_state" where
  "add_convert col = (\<lambda>(r, idx). (r\<lparr>convert := NoDBColListArenaAddUnique (convert r) col\<rparr>, idx))"

definition FillRow_read ::
    "(NoDBCol_t \<Rightarrow> nat \<Rightarrow> fill_state \<Rightarrow> fill_state) \<Rightarrow> Node_t \<Rightarrow> NoDBCol_t \<Rightarrow> nat \<Rightarrow> fill_state \<Rightarrow> fill_state option" where
  "FillRow_read collect n col colIdx s =
     (if dataHit n = CACHE_HIT
      then do { p \<leftarrow> dataCache n; Some (apfst (\<lambda>r. r\<lparr>mapDataHit := AddColToMap (mapDataHit r) (Some p) col\<rparr>) s) }
      else Some (add_convert col (collect col colIdx s)))"

definition FillRow_writeData ::
    "(NoDBCol_t \<Rightarrow> nat \<Rightarrow> fill_state \<Rightarrow> fill_state) \<Rightarrow> NoDBRelation_t \<Rightarrow> Node_t \<Rightarrow> NoDBCol_t \<Rightarrow> nat \<Rightarrow> fill_state \<Rightarrow> fill_state option" where
  "FillRow_writeData collect rel n col colIdx s =
     (if dataHit n = CACHE_ADD then
        do {
          bv \<leftarrow> NoDBRelationIsColumnByValue rel col;
          p \<leftarrow> dataCache n;
          let s = add_convert col (collect col colIdx s);
          Some (if bv \<noteq> 0
                then apfst (\<lambda>r. r\<lparr>mapDataAddByValue := AddColToMap (mapDataAddByValue r) (Some p) col\<rparr>) s
                else apfst (\<lambda>r. r\<lparr>mapDataAddByRef := AddColToMap (mapDataAddByRef r) (Some p) col\<rparr>) s)
        }
      else Some s)"

definition FillRow_writePositions ::
    "(NoDBCol_t \<Rightarrow> nat \<Rightarrow> fill_state \<Rightarrow> fill_state) \<Rightarrow> Node_t \<Rightarrow> NoDBCol_t \<Rightarrow> nat \<Rightarrow> fill_state \<Rightarrow> fill_state option" where
  "FillRow_writePositions collect n col colIdx s =
     (if pmHit n = CACHE_ADD then
        do {
          p \<leftarrow> pmCache n;
          Some (apfst (\<lambda>r. r\<lparr>mapPositionsAdd := AddColToMap (mapPositionsAdd r) (Some p) col\<rparr>) (collect col colIdx s))
        }
      else Some s)"

definition FillRow_col ::
    "(NoDBCol_t \<Rightarrow> nat \<Rightarrow> fill_state \<Rightarrow> fill_state) \<Rightarrow> matrix \<Rightarrow> nat \<Rightarrow> NoDBRelation_t \<Rightarrow> NoDBColVector_t \<Rightarrow>
     NoDBBitmap_t \<Rightarrow> NoDBBitmap_t \<Rightarrow> NoDBBitmap_t \<Rightarrow> fill_state \<Rightarrow> nat \<Rightarrow> fill_state option" where
  "FillRow_col collect mx rowIdx rel cols readB writeData writePositions s colIdx =
     do {
       col \<leftarrow> NoDBColVectorGet cols (int colIdx);
       n \<leftarrow> node_get mx (int rowIdx) (int colIdx);
       rd \<leftarrow> NoDBBitmapIsSet readB (int colIdx);
       s \<leftarrow> (if rd then FillRow_read collect n col colIdx s else Some s);
       wd \<leftarrow> NoDBBitmapIsSet writeData (int colIdx);
       s \<leftarrow> (if wd then FillRow_writeData collect rel n col colIdx s else Some s);
       wp \<leftarrow> NoDBBitmapIsSet writePositions (int colIdx);
       (if wp then FillRow_writePositions collect n col colIdx s else Some s)
     }"

text \<open>Step 1: the distances to parse from each closest column, and how many such columns there are.\<close>

definition FillRow_distance ::
    "Node_t \<Rightarrow> ColDistance_t list \<times> int \<Rightarrow> (ColDistance_t list \<times> int) option" where
  "FillRow_distance n = (\<lambda>(cds, nvia).
     do {
       cc \<leftarrow> closestColumn n;
       cd \<leftarrow> arr_get cds cc;
       let nvia = (if cd_cache cd = None then nvia + 1 else nvia);
       d \<leftarrow> distance n;
       cds' \<leftarrow> (if d \<ge> 0 then
                  (if cd_cache cd = None \<or> d > forwardDistance cd
                   then arr_set cds cc (cd\<lparr>cd_cache := closestPMCache n, forwardDistance := d\<rparr>) else Some cds)
                else
                  (if d < backwardDistance cd
                   then arr_set cds cc (cd\<lparr>cd_cache := closestPMCache n, backwardDistance := d\<rparr>) else Some cds));
       Some (cds', nvia)
     })"

definition FillRow_step1 ::
    "matrix \<Rightarrow> nat \<Rightarrow> NoDBIntList_t \<Rightarrow> int \<Rightarrow> (ColDistance_t list \<times> int) option" where
  "FillRow_step1 mx rowIdx idx natts =
     foldM (\<lambda>s colIdx. do { n \<leftarrow> node_get mx (int rowIdx) colIdx; FillRow_distance n s })
       (replicate (nat natts) \<lparr>forwardDistance = 0, backwardDistance = 0, cd_cache = None\<rparr>, 0) idx"

text \<open>Step 2: read each closest column once, with its parsing information.\<close>

definition FillRow_via ::
    "ColDistance_t list \<Rightarrow> Node_t \<Rightarrow> col_map \<times> NoDBReadViaPM_t option list \<times> int \<Rightarrow>
     (col_map \<times> NoDBReadViaPM_t option list \<times> int) option" where
  "FillRow_via cds n = (\<lambda>(m, via, k).
     do {
       cc \<leftarrow> closestColumn n;
       cd \<leftarrow> arr_get cds cc;
       let (m', added) = AddUniqueColToMap m (cd_cache cd) cc;
       (if added \<noteq> 0 then
          do {
            via' \<leftarrow> arr_set via k (Some \<lparr>via_col = cc, forward = forwardDistance cd, backward = backwardDistance cd\<rparr>);
            Some (m', via', k + 1)
          }
        else Some (m', via, k))
     })"

definition FillRow_step2 ::
    "matrix \<Rightarrow> nat \<Rightarrow> NoDBIntList_t \<Rightarrow> ColDistance_t list \<Rightarrow> int \<Rightarrow> (col_map \<times> NoDBReadViaPM_t option list \<times> int) option" where
  "FillRow_step2 mx rowIdx idx cds nvia =
     foldM (\<lambda>s colIdx. do { n \<leftarrow> node_get mx (int rowIdx) colIdx; FillRow_via cds n s })
       (NoDBMapArenaInit, replicate (nat nvia) None, 0) idx"

definition FillRow ::
    "matrix \<Rightarrow> nat \<Rightarrow> NoDBRelation_t \<Rightarrow> NoDBColVector_t \<Rightarrow> NoDBBitmap_t \<Rightarrow> NoDBBitmap_t \<Rightarrow> NoDBBitmap_t \<Rightarrow> FillRowReply_t option" where
  "FillRow mx rowIdx rel cols readB writeData writePositions =
     (let colIdxs = [0..<nat (NoDBColVectorSize cols)] in
      do {
        pmAvailable \<leftarrow> pm_available mx rowIdx colIdxs;
        (if \<not> pmAvailable then
           map_option fst (foldM (FillRow_col collect_file mx rowIdx rel cols readB writeData writePositions) (init_reply, []) colIdxs)
         else
           do {
             (r, idx) \<leftarrow> foldM (FillRow_col collect_pm mx rowIdx rel cols readB writeData writePositions) (init_reply, []) colIdxs;
             (cds, nvia) \<leftarrow> FillRow_step1 mx rowIdx idx (NoDBRelationGetNumberColumns rel);
             (m, via, k) \<leftarrow> FillRow_step2 mx rowIdx idx cds nvia;
             Some (r\<lparr>mapReadFromPM := m, readViaPM := via\<rparr>)
           })
      })"

section \<open>The strategies of a scan\<close>

definition strategy_rows :: "NoDBQueryInfo_t \<Rightarrow> nat \<Rightarrow> (NoDBRow_t \<times> NoDBRow_t) option" where
  "strategy_rows q rowIdx =
     do {
       start \<leftarrow> NoDBRowVectorGet (qi_rows q) (int rowIdx);
       nxt \<leftarrow> NoDBRowVectorGet (qi_rows q) (int rowIdx + 1);
       Some (start, nxt - start)
     }"

text \<open>A strategy without pre-filter: everything is read after the filter.\<close>

definition strategy_without_filter ::
    "NoDBQueryInfo_t \<Rightarrow> NoDBRelation_t \<Rightarrow> matrix \<Rightarrow> nat \<Rightarrow> NoDBScanStrategy_t option" where
  "strategy_without_filter q rel mx rowIdx =
     do {
       (start, n) \<leftarrow> strategy_rows q rowIdx;
       r \<leftarrow> FillRow mx rowIdx rel (qi_cols q) (readRestBitmap q) (writeDataBitmap q) (writePositionsBitmap q);
       hit \<leftarrow> SetColsPerCache (mapDataHit r);
       fromFile \<leftarrow> NoDBColVectorArenaFromList (collectFromFile r);
       conv \<leftarrow> NoDBColVectorArenaFromList (convert r);
       byVal \<leftarrow> SetColsPerCache (mapDataAddByValue r);
       byRef \<leftarrow> SetColsPerCache (mapDataAddByRef r);
       toPM \<leftarrow> SetColsPerCache (mapPositionsAdd r);
       withPM \<leftarrow> SetColsPerCache (mapReadFromPM r);
       Some \<lparr>startRow = start, nrows = n,
         readPreFilterWithCache = [], readPreFilterWithPM = [], readPreFilterViaPM = [],
         readPreFilterWithFile = NoDBColVectorArenaInit 0, convertPreFilter = NoDBColVectorArenaInit 0,
         readPostFilterWithCache = hit, readPostFilterWithPM = withPM, readPostFilterViaPM = readViaPM r,
         readPostFilterWithFile = fromFile, convertPostFilter = conv,
         writeToCacheByValue = byVal, writeToCacheByRef = byRef, writeToPM = toPM\<rparr>
     }"

text \<open>The columns that remain to be read once the filter columns are there.\<close>

definition remaining_bitmap :: "NoDBQueryInfo_t \<Rightarrow> NoDBColVector_t \<Rightarrow> NoDBBitmap_t option" where
  "remaining_bitmap q convertPre =
     do {
       b \<leftarrow> NoDBBitmapArenaInit (NoDBColVectorSize (qi_cols q));
       foldM (\<lambda>b colIdx. do {
           col \<leftarrow> NoDBColVectorGet (qi_cols q) (int colIdx);
           rest \<leftarrow> NoDBBitmapIsSet (readRestBitmap q) (int colIdx);
           (if rest then
              do {
                flt \<leftarrow> NoDBBitmapIsSet (readFilterBitmap q) (int colIdx);
                (if flt then Some b
                 else do {
                   done \<leftarrow> NoDBColVectorContains convertPre col;
                   (if done then Some b else NoDBBitmapSet b (int colIdx))
                 })
              }
            else Some b)
         }) b [0..<nat (NoDBColVectorSize (qi_cols q))]
     }"

definition strategy_with_filter ::
    "NoDBQueryInfo_t \<Rightarrow> NoDBRelation_t \<Rightarrow> matrix \<Rightarrow> nat \<Rightarrow> NoDBScanStrategy_t option" where
  "strategy_with_filter q rel mx rowIdx =
     do {
       (start, n) \<leftarrow> strategy_rows q rowIdx;
       r \<leftarrow> FillRow mx rowIdx rel (qi_cols q) (readFilterBitmap q) (writeDataBitmap q) (writePositionsBitmap q);
       preHit \<leftarrow> SetColsPerCache (mapDataHit r);
       preFile \<leftarrow> NoDBColVectorArenaFromList (collectFromFile r);
       preConv \<leftarrow> NoDBColVectorArenaFromList (convert r);
       byVal \<leftarrow> SetColsPerCache (mapDataAddByValue r);
       byRef \<leftarrow> SetColsPerCache (mapDataAddByRef r);
       toPM \<leftarrow> SetColsPerCache (mapPositionsAdd r);
       prePM \<leftarrow> SetColsPerCache (mapReadFromPM r);
       rest \<leftarrow> remaining_bitmap q preConv;
       emptyBitmap \<leftarrow> NoDBBitmapArenaInit (NoDBColVectorSize (qi_cols q));
       r' \<leftarrow> FillRow mx rowIdx rel (qi_cols q) rest emptyBitmap emptyBitmap;
       postHit \<leftarrow> SetColsPerCache (mapDataHit r');
       postFile \<leftarrow> NoDBColVectorArenaFromList (collectFromFile r');
       postConv \<leftarrow> NoDBColVectorArenaFromList (convert r');
       postPM \<leftarrow> SetColsPerCache (mapReadFromPM r');
       Some \<lparr>startRow = start, nrows = n,
         readPreFilterWithCache = preHit, readPreFilterWithPM = prePM, readPreFilterViaPM = readViaPM r,
         readPreFilterWithFile = preFile, convertPreFilter = preConv,
         readPostFilterWithCache = postHit, readPostFilterWithPM = postPM, readPostFilterViaPM = readViaPM r',
         readPostFilterWithFile = postFile, convertPostFilter = postConv,
         writeToCacheByValue = byVal, writeToCacheByRef = byRef, writeToPM = toPM\<rparr>
     }"

definition BuildStrategy ::
    "cache_world \<Rightarrow> NoDBScanStrategyIterator_t \<Rightarrow> (cache_world \<times> NoDBScanStrategyIterator_t) option" where
  "BuildStrategy w it =
     (let q = queryInfo it; l = NoDBRowVectorSize (qi_rows q) - 1 in
      do {
        (w, mx) \<leftarrow> BuildMatrix w q;
        rel \<leftarrow> h_rels (cw_heap w) (qi_rel q);
        noFilter \<leftarrow> NoDBBitmapIsAllClear (readFilterBitmap q);
        ss \<leftarrow> foldM (\<lambda>ss rowIdx. do {
                  s \<leftarrow> (if noFilter then strategy_without_filter q rel mx rowIdx else strategy_with_filter q rel mx rowIdx);
                  Some (ss @ [s])
                }) [] [0..<nat l];
        Some (w, it\<lparr>it_cur := 0, it_len := l, strategy := ss\<rparr>)
      })"

text \<open>Where the caches of a relation begin and end, in order, with row 0.\<close>

definition GetInterestingRows :: "cache_world \<Rightarrow> nat \<Rightarrow> NoDBRowVector_t option" where
  "GetInterestingRows w rel =
     do {
       rows \<leftarrow> foldM (\<lambda>rows p. do {
           cache \<leftarrow> get_cache w p;
           Some (if NoDBCacheGetRelation cache = rel \<and> NoDBCacheGetUsedRows cache > 0
                 then
                   (let begin = NoDBCacheGetBegin cache;
                        rows = NoDBRowListArenaAddSortUnique rows begin in
                    NoDBRowListArenaAddSortUnique rows (begin + NoDBCacheGetUsedRows cache))
                 else rows)
         }) [] (NoDBCaches w);
       (if rows = [] then Some (NoDBRowVectorArenaInit 0)
        else NoDBRowVectorArenaFromList (NoDBRowListArenaAddSortUnique rows 0))
     }"

text \<open>The columns of a vector added to a list, without duplicates.\<close>

definition add_columns :: "NoDBColVector_t \<Rightarrow> NoDBColList_t \<Rightarrow> NoDBColList_t option" where
  "add_columns v l =
     foldM (\<lambda>l i. do { c \<leftarrow> NoDBColVectorGet v (int i); Some (NoDBColListArenaAddUnique l c) }) l
       [0..<nat (NoDBColVectorSize v)]"

definition query_bitmap :: "NoDBColVector_t \<Rightarrow> NoDBColVector_t \<Rightarrow> NoDBBitmap_t \<Rightarrow> NoDBBitmap_t option" where
  "query_bitmap cols v b =
     foldM (\<lambda>b i. do {
         c \<leftarrow> NoDBColVectorGet cols (int i);
         s \<leftarrow> NoDBColVectorContains v c;
         (if s then NoDBBitmapSet b (int i) else Some b)
       }) b [0..<nat (NoDBColVectorSize cols)]"

text \<open>
  The iterator of a query. The five bitmaps are filled in one loop by the code; each of them only
  depends on its own column vector, so here each has its own loop.
\<close>

definition NoDBScanStrategyIterator ::
    "cache_world \<Rightarrow> nat \<Rightarrow> NoDBRow_t \<Rightarrow> NoDBColVector_t \<Rightarrow> NoDBColVector_t \<Rightarrow> NoDBColVector_t \<Rightarrow> NoDBColVector_t \<Rightarrow>
     (cache_world \<times> NoDBScanStrategyIterator_t) option" where
  "NoDBScanStrategyIterator w rel lim flt rest writeData writePositions =
     do {
       rc \<leftarrow> add_columns flt [];
       rc \<leftarrow> add_columns rest rc;
       colList \<leftarrow> add_columns flt [];
       colList \<leftarrow> add_columns rest colList;
       colList \<leftarrow> add_columns writeData colList;
       colList \<leftarrow> add_columns writePositions colList;
       cols \<leftarrow> NoDBColVectorArenaFromList colList;
       cols \<leftarrow> NoDBColVectorSort cols;
       b0 \<leftarrow> NoDBBitmapArenaInit (NoDBColVectorSize cols);
       rdb \<leftarrow> query_bitmap cols flt b0;
       rdb \<leftarrow> query_bitmap cols rest rdb;
       rfb \<leftarrow> query_bitmap cols flt b0;
       rrb \<leftarrow> query_bitmap cols rest b0;
       wdb \<leftarrow> query_bitmap cols writeData b0;
       wpb \<leftarrow> query_bitmap cols writePositions b0;
       rows \<leftarrow> GetInterestingRows w rel;
       let it = \<lparr>queryInfo = \<lparr>qi_rel = rel, qi_limit = lim, qi_cols = cols, qi_rows = rows, readBitmap = rdb,
                   readFilterBitmap = rfb, readRestBitmap = rrb, writeDataBitmap = wdb,
                   writePositionsBitmap = wpb, readCols = rc\<rparr>,
                 strategy = [], it_len = 0, it_cur = 0\<rparr>;
       (if NoDBRowVectorSize rows = 0 then Some (w, it) else BuildStrategy w it)
     }"

definition NoDBScanStrategyIteratorNext :: "NoDBScanStrategyIterator_t \<Rightarrow> NoDBScanStrategyIterator_t" where
  "NoDBScanStrategyIteratorNext it = it\<lparr>it_cur := it_cur it + 1\<rparr>"

definition NoDBScanStrategyIteratorGet ::
    "cache_world \<Rightarrow> NoDBScanStrategyIterator_t \<Rightarrow> (cache_world \<times> NoDBScanStrategyIterator_t \<times> NoDBScanStrategy_t) option" where
  "NoDBScanStrategyIteratorGet w it =
     do {
       (w, it) \<leftarrow>
         (if it_cur it = it_len it then
            do {
              row \<leftarrow> (if it_len it = 0 then Some 0
                     else map_option (\<lambda>s. startRow s + nrows s) (arr_get (strategy it) (it_cur it - 1)));
              rows \<leftarrow> NoDBRowVectorSet (NoDBRowVectorArenaInit 2) 0 row;
              rows \<leftarrow> NoDBRowVectorSet rows 1 (row + STRATEGY_DEFAULT_ROWS);
              BuildStrategy w (it\<lparr>queryInfo := (queryInfo it)\<lparr>qi_rows := rows\<rparr>\<rparr>)
            }
          else Some (w, it));
       s \<leftarrow> arr_get (strategy it) (it_cur it);
       Some (w, it, s)
     }"

section \<open>Where the strategy may change\<close>

definition cache_rows :: "NoDBCache_t \<Rightarrow> NoDBRow_t set" where
  "cache_rows c = (if 0 < c_usedRows c then {c_startRow c, c_startRow c + c_usedRows c} else {})"

definition rel_caches :: "cache_world \<Rightarrow> nat \<Rightarrow> NoDBCache_t list" where
  "rel_caches w rel = filter (\<lambda>c. c_rel c = rel) (map (the \<circ> get_cache w) (NoDBCaches w))"

definition caches_alive :: "cache_world \<Rightarrow> bool" where
  "caches_alive w \<longleftrightarrow> (\<forall>p \<in> set (NoDBCaches w). get_cache w p \<noteq> None)"

lemma interesting_loop:
  assumes "\<forall>p \<in> set ps. get_cache w p \<noteq> None"
  shows "\<exists>rows. foldM (\<lambda>rows p. do {
           cache \<leftarrow> get_cache w p;
           Some (if NoDBCacheGetRelation cache = rel \<and> NoDBCacheGetUsedRows cache > 0
                 then
                   (let begin = NoDBCacheGetBegin cache;
                        rows = NoDBRowListArenaAddSortUnique rows begin in
                    NoDBRowListArenaAddSortUnique rows (begin + NoDBCacheGetUsedRows cache))
                 else rows)
         }) [] ps = Some rows \<and> sorted_wrt (<) rows \<and>
    set rows = \<Union> (cache_rows ` set (filter (\<lambda>c. c_rel c = rel) (map (the \<circ> get_cache w) ps)))"
  using assms
proof (induction ps rule: rev_induct)
  case (snoc p ps)
  then obtain rows where r: "foldM (\<lambda>rows p. do {
           cache \<leftarrow> get_cache w p;
           Some (if NoDBCacheGetRelation cache = rel \<and> NoDBCacheGetUsedRows cache > 0
                 then
                   (let begin = NoDBCacheGetBegin cache;
                        rows = NoDBRowListArenaAddSortUnique rows begin in
                    NoDBRowListArenaAddSortUnique rows (begin + NoDBCacheGetUsedRows cache))
                 else rows)
         }) [] ps = Some rows" "sorted_wrt (<) rows"
    "set rows = \<Union> (cache_rows ` set (filter (\<lambda>c. c_rel c = rel) (map (the \<circ> get_cache w) ps)))"
    by auto
  obtain c where c: "get_cache w p = Some c" using snoc.prems by auto
  show ?case
  proof (cases "c_rel c = rel \<and> 0 < c_usedRows c")
    case True
    let ?l = "NoDBRowListArenaAddSortUnique (NoDBRowListArenaAddSortUnique rows (c_startRow c)) (c_startRow c + c_usedRows c)"
    have "sorted_wrt (<) ?l" "set ?l = {c_startRow c, c_startRow c + c_usedRows c} \<union> set rows"
      using r(2) by (auto simp: rasu.ok_add rasu.set_add)
    then show ?thesis
      using True r c by (intro exI[of _ ?l])
        (simp add: foldM_snoc Let_def NoDBCacheGetRelation_def NoDBCacheGetUsedRows_def NoDBCacheGetBegin_def cache_rows_def)
  next
    case False
    then show ?thesis
      using r c by (intro exI[of _ rows])
        (auto simp: foldM_snoc NoDBCacheGetRelation_def NoDBCacheGetUsedRows_def cache_rows_def)
  qed
qed simp

lemma GetInterestingRows_ok:
  assumes "caches_alive w"
  shows "\<exists>rs. GetInterestingRows w rel = Some (map Some rs) \<and> sorted_wrt (<) rs \<and>
    set rs = (if \<exists>c \<in> set (rel_caches w rel). 0 < c_usedRows c
              then insert 0 (\<Union> (cache_rows ` set (rel_caches w rel))) else {})"
proof -
  obtain rows where r: "foldM (\<lambda>rows p. do {
           cache \<leftarrow> get_cache w p;
           Some (if NoDBCacheGetRelation cache = rel \<and> NoDBCacheGetUsedRows cache > 0
                 then
                   (let begin = NoDBCacheGetBegin cache;
                        rows = NoDBRowListArenaAddSortUnique rows begin in
                    NoDBRowListArenaAddSortUnique rows (begin + NoDBCacheGetUsedRows cache))
                 else rows)
         }) [] (NoDBCaches w) = Some rows" "sorted_wrt (<) rows"
    "set rows = \<Union> (cache_rows ` set (rel_caches w rel))"
    using interesting_loop[of "NoDBCaches w" w rel] assms unfolding caches_alive_def rel_caches_def by blast
  have ne: "rows = [] \<longleftrightarrow> \<not> (\<exists>c \<in> set (rel_caches w rel). 0 < c_usedRows c)"
    using r(3) by (auto simp: cache_rows_def simp flip: set_empty split: if_splits)
  show ?thesis
  proof (cases "rows = []")
    case True
    then show ?thesis using r(1) ne by (intro exI[of _ "[]"]) (simp add: GetInterestingRows_def NoDBRowVectorArenaInit_def)
  next
    case False
    then show ?thesis
      using r ne by (intro exI[of _ "NoDBRowListArenaAddSortUnique rows 0"])
        (simp add: GetInterestingRows_def rasu.ok_add rasu.set_add)
  qed
qed

text \<open>Between two consecutive interesting rows no cache of the relation begins or ends.\<close>

lemma no_row_between:
  assumes "sorted_wrt (<) rs" "Suc i < length rs" "x \<in> set rs" "rs ! i < x"
  shows "rs ! Suc i \<le> (x :: 'a :: linorder)"
proof -
  obtain k where k: "k < length rs" "rs ! k = x" using assms(3) by (auto simp: in_set_conv_nth)
  have "i < k"
    using assms k by (metis linorder_neqE_nat order.asym order_less_irrefl sorted_wrt_nth_less Suc_lessD)
  then show ?thesis
    using assms(1) k by (metis Suc_leI le_neq_implies_less less_imp_le order_refl sorted_wrt_nth_less)
qed

lemma cache_constant_between:
  assumes "sorted_wrt (<) rs" "Suc i < length rs" "cache_rows c \<subseteq> set rs"
    "unat (c_startRow c) + unat (c_usedRows c) < 2 ^ 64" "rs ! i \<le> r" "r < rs ! Suc i"
  shows "NoDBCacheHasRow c r = NoDBCacheHasRow c (rs ! i)"
proof (cases "0 < c_usedRows c")
  case True
  then have s: "c_startRow c \<in> set rs" "c_startRow c + c_usedRows c \<in> set rs"
    using assms(3) by (auto simp: cache_rows_def)
  have "c_startRow c \<le> r \<longleftrightarrow> c_startRow c \<le> rs ! i"
    using no_row_between[OF assms(1,2) s(1)] assms(5,6) unfolding word_le_nat_alt word_less_nat_alt by arith
  moreover have "r < c_startRow c + c_usedRows c \<longleftrightarrow> rs ! i < c_startRow c + c_usedRows c"
    using no_row_between[OF assms(1,2) s(2)] assms(5,6) unfolding word_le_nat_alt word_less_nat_alt by arith
  ultimately show ?thesis by (simp add: NoDBCacheHasRow_def)
next
  case False
  then have "c_usedRows c = 0" by (simp add: word_neq_0_conv[symmetric])
  then show ?thesis by (auto simp: NoDBCacheHasRow_def)
qed

text \<open>
  C24: The ranges a scan is divided into are right: the interesting rows are strictly ascending,
  start at row 0, are exactly the rows where a used cache of the relation begins or ends, and
  between two consecutive ones every cache of the relation either holds all rows or none, so one
  strategy fits the whole range.
\<close>

theorem interesting_rows:
  assumes "caches_alive w" "\<forall>c \<in> set (rel_caches w rel). unat (c_startRow c) + unat (c_usedRows c) < 2 ^ 64"
    "\<exists>c \<in> set (rel_caches w rel). 0 < c_usedRows c"
  shows "\<exists>rs. GetInterestingRows w rel = Some (map Some rs) \<and> sorted_wrt (<) rs \<and> 2 \<le> length rs \<and> rs ! 0 = 0 \<and>
    set rs = insert 0 (\<Union> (cache_rows ` set (rel_caches w rel))) \<and>
    (\<forall>i r. Suc i < length rs \<longrightarrow> rs ! i \<le> r \<longrightarrow> r < rs ! Suc i \<longrightarrow>
       (\<forall>c \<in> set (rel_caches w rel). NoDBCacheHasRow c r = NoDBCacheHasRow c (rs ! i)))"
proof -
  obtain rs where rs: "GetInterestingRows w rel = Some (map Some rs)" "sorted_wrt (<) rs"
    "set rs = insert 0 (\<Union> (cache_rows ` set (rel_caches w rel)))"
    using GetInterestingRows_ok[OF assms(1), of rel] assms(3) by auto
  obtain c where c: "c \<in> set (rel_caches w rel)" "0 < c_usedRows c" using assms(3) by blast
  have e: "c_startRow c + c_usedRows c \<in> set rs" using rs(3) c by (auto simp: cache_rows_def)
  have "unat (c_startRow c + c_usedRows c) = unat (c_startRow c) + unat (c_usedRows c)"
    by (rule unat_add_lt) (use assms(2) c(1) in simp)
  moreover have "0 < unat (c_usedRows c)" using c(2) by (simp add: word_less_nat_alt)
  ultimately have nz: "c_startRow c + c_usedRows c \<noteq> 0" by force
  have len: "2 \<le> length rs"
  proof (rule ccontr)
    assume "\<not> 2 \<le> length rs"
    then have "length rs = 0 \<or> length rs = 1" by linarith
    then show False
    proof
      assume "length rs = 0" then show False using e by simp
    next
      assume "length rs = 1"
      then obtain x where "rs = [x]" by (cases rs) auto
      moreover have "0 \<in> set rs" using rs(3) by simp
      ultimately show False using e nz by simp
    qed
  qed
  have zero: "rs ! 0 = 0"
  proof -
    obtain k where k: "k < length rs" "rs ! k = 0" using rs(3) by (metis in_set_conv_nth insertI1)
    have "k = 0" using sorted_wrt_nth_less[OF rs(2), of 0 k] k by (cases k) auto
    then show ?thesis using k by simp
  qed
  have "NoDBCacheHasRow c r = NoDBCacheHasRow c (rs ! i)"
    if "Suc i < length rs" "rs ! i \<le> r" "r < rs ! Suc i" "c \<in> set (rel_caches w rel)" for i r c
    using cache_constant_between[OF rs(2) that(1) _ _ that(2,3)] rs(3) that(4) assms(2) by blast
  then show ?thesis using rs len zero by blast
qed

definition demo_world :: cache_world where
  "demo_world = \<lparr>cw_heap = \<lparr>h_caches = [5 \<mapsto> demo_cache\<lparr>c_usedRows := 20\<rparr>], h_rels = [1 \<mapsto> demo_rel], h_next = 6\<rparr>,
     NoDBCaches = [5]\<rparr>"

lemma demo_world_caches: "caches_alive demo_world" "rel_caches demo_world 1 = [demo_cache\<lparr>c_usedRows := 20\<rparr>]"
  by (simp_all add: caches_alive_def rel_caches_def get_cache_def demo_world_def demo_cache_def NoDBCacheInit_def)

theorem interesting_rows_witness:
  "\<exists>rs. GetInterestingRows demo_world 1 = Some (map Some rs) \<and> set rs = {0, 10, 30}"
  using interesting_rows[OF demo_world_caches(1), of 1, unfolded demo_world_caches(2)]
  by (auto simp: demo_cache_ok cache_rows_def)

end
