(* ===== verification/NoDB_FillRow.thy ===== *)
theory NoDB_FillRow
  imports NoDB_Strategy
begin

text \<open>
  What \<open>FillRow\<close> (\<open>src/postgresql-9.6.5/src/backend/noDB/NoDBScanStrategy.c\<close>) makes of one row of the
  matrix: every requested column is read from a data cache or converted, and the position of every
  converted or recorded column is collected from the file or reached from a known position.
\<close>

section \<open>Maps from caches to columns as relations\<close>

definition cm_cols :: "col_map \<Rightarrow> cache_ptr \<Rightarrow> NoDBCol_t set" where
  "cm_cols m k = (case NoDBMapGetPtrPtr m k of None \<Rightarrow> {} | Some l \<Rightarrow> set l)"

definition cm_ok :: "col_map \<Rightarrow> bool" where
  "cm_ok m \<longleftrightarrow> nmap_ok m \<and> (\<forall>l \<in> snd ` set (head m). l \<noteq> [] \<and> distinct l)"

lemma cm_init [simp]: "cm_ok NoDBMapArenaInit" "cm_cols NoDBMapArenaInit k = {}"
  by (simp_all add: cm_ok_def cm_cols_def NoDBMapGetPtrPtr_def)
     (simp_all add: NoDBMapArenaInit_def)

lemma cm_get: "cm_ok m \<Longrightarrow> NoDBMapGetPtrPtr m k = Some l \<Longrightarrow> l \<noteq> [] \<and> distinct l"
  by (force simp: cm_ok_def NoDBMapGetPtrPtr_def dest: map_of_SomeD)

text \<open>Both add functions are updates of the list stored under a key.\<close>

lemma AddColToMap_upsert:
  "AddColToMap m k c = app.upsert m k (\<lambda>v. c # (case v of None \<Rightarrow> [] | Some l \<Rightarrow> l))"
  by (simp add: AddColToMap_def app.upsert_def NoDBColListArenaAdd_def split: option.split)

lemma AddUniqueColToMap_upsert:
  "fst (AddUniqueColToMap m k c) =
     app.upsert m k (\<lambda>v. case v of None \<Rightarrow> [c] | Some l \<Rightarrow> NoDBColListArenaAddUnique l c)"
  by (simp add: AddUniqueColToMap_def app.upsert_def NoDBColListArenaAdd_def Let_def split: option.split)

lemma cm_ok_iff: "cm_ok m \<longleftrightarrow> nmap_ok m \<and> (\<forall>k l. NoDBMapGetPtrPtr m k = Some l \<longrightarrow> l \<noteq> [] \<and> distinct l)"
proof
  assume ok: "cm_ok m"
  show "nmap_ok m \<and> (\<forall>k l. NoDBMapGetPtrPtr m k = Some l \<longrightarrow> l \<noteq> [] \<and> distinct l)"
    using cm_get[OF ok] ok by (simp add: cm_ok_def)
next
  assume *: "nmap_ok m \<and> (\<forall>k l. NoDBMapGetPtrPtr m k = Some l \<longrightarrow> l \<noteq> [] \<and> distinct l)"
  then have "NoDBMapGetPtrPtr m k = Some l" if "(k, l) \<in> set (head m)" for k l
    using that by (simp add: NoDBMapGetPtrPtr_def nmap_ok_def)
  then have "l \<noteq> [] \<and> distinct l" if "(k, l) \<in> set (head m)" for k l
    using * that by blast
  then show "cm_ok m" using * by (auto simp: cm_ok_def)
qed

lemma AddColToMap_ok:
  assumes "cm_ok m" "c \<notin> cm_cols m k"
  shows "cm_ok (AddColToMap m k c)"
    and "cm_cols (AddColToMap m k c) j = (if j = k then insert c (cm_cols m k) else cm_cols m j)"
proof -
  have ok: "nmap_ok m" using assms(1) by (simp add: cm_ok_def)
  note get = app.get_upsert[OF ok]
  show "cm_ok (AddColToMap m k c)"
    using assms app.ok_upsert[OF ok] cm_get[OF assms(1)] unfolding cm_ok_iff AddColToMap_upsert
    by (auto simp: get cm_cols_def split: option.splits if_splits)
  show "cm_cols (AddColToMap m k c) j = (if j = k then insert c (cm_cols m k) else cm_cols m j)"
    by (simp add: cm_cols_def AddColToMap_upsert get split: option.splits)
qed

lemma AddUniqueColToMap_ok:
  assumes "cm_ok m"
  shows "cm_ok (fst (AddUniqueColToMap m k c))"
    and "cm_cols (fst (AddUniqueColToMap m k c)) j = (if j = k then insert c (cm_cols m k) else cm_cols m j)"
    and "snd (AddUniqueColToMap m k c) = (if c \<in> cm_cols m k then 0 else 1)"
proof -
  have ok: "nmap_ok m" using assms(1) by (simp add: cm_ok_def)
  note get = app.get_upsert[OF ok]
  have u: "set (NoDBColListArenaAddUnique l c) = insert c (set l)"
    "distinct l \<Longrightarrow> distinct (NoDBColListArenaAddUnique l c)" "NoDBColListArenaAddUnique l c \<noteq> []" for l
    by (auto simp: NoDBColListArenaAddUnique_def NoDBColListArenaAdd_def)
  show "cm_ok (fst (AddUniqueColToMap m k c))"
    using assms app.ok_upsert[OF ok] cm_get[OF assms(1)] u unfolding cm_ok_iff AddUniqueColToMap_upsert
    by (auto simp: get split: option.splits if_splits)
  show "cm_cols (fst (AddUniqueColToMap m k c)) j = (if j = k then insert c (cm_cols m k) else cm_cols m j)"
    by (simp add: cm_cols_def AddUniqueColToMap_upsert get u split: option.splits)
  show "snd (AddUniqueColToMap m k c) = (if c \<in> cm_cols m k then 0 else 1)"
    by (auto simp: AddUniqueColToMap_def cm_cols_def Let_def NoDBColListArenaAddUnique_def
        NoDBColListArenaAdd_def split: option.splits)
qed

lemma SetColsPerCache_loop_eq:
  "SetColsPerCache_loop l (int (length pre)) (pre @ replicate (length l) None) =
     Some (pre @ map (\<lambda>(k, cs). Some \<lparr>cpc_cache = k, cpc_cols = map Some cs\<rparr>) l)"
proof (induction l arbitrary: pre)
  case (Cons kc l)
  obtain k cs where [simp]: "kc = (k, cs)" by (cases kc)
  have "arr_set (pre @ replicate (length (kc # l)) None) (int (length pre)) (Some \<lparr>cpc_cache = k, cpc_cols = map Some cs\<rparr>) =
      Some ((pre @ [Some \<lparr>cpc_cache = k, cpc_cols = map Some cs\<rparr>]) @ replicate (length l) None)"
    by (simp add: list_update_append)
  then show ?case using Cons.IH[of "pre @ [Some \<lparr>cpc_cache = k, cpc_cols = map Some cs\<rparr>]"]
    by (simp add: add.commute)
qed simp

lemma SetColsPerCache_eq:
  assumes "cm_ok m"
  shows "SetColsPerCache m = Some (map (\<lambda>(k, cs). Some \<lparr>cpc_cache = k, cpc_cols = map Some cs\<rparr>) (head m))"
  using assms SetColsPerCache_loop_eq[of "head m" "[]"]
  by (auto simp: SetColsPerCache_def NoDBMapSize_def NoDBMapIterator_def cm_ok_def nmap_ok_def)

text \<open>The array that \<open>SetColsPerCache\<close> builds, read as a relation between caches and columns.\<close>

definition cpc_rel :: "NoDBColumnsPerCache_t option list \<Rightarrow> cache_ptr \<Rightarrow> NoDBCol_t set" where
  "cpc_rel v k = {c. \<exists>e. Some e \<in> set v \<and> cpc_cache e = k \<and> Some c \<in> set (cpc_cols e)}"

lemma cpc_rel_SetColsPerCache:
  assumes "cm_ok m"
  shows "\<exists>v. SetColsPerCache m = Some v \<and> None \<notin> set v \<and> (\<forall>k. cpc_rel v k = cm_cols m k)"
proof -
  let ?v = "map (\<lambda>(k, cs). Some \<lparr>cpc_cache = k, cpc_cols = map Some cs\<rparr>) (head m)"
  have "cpc_rel ?v k = cm_cols m k" for k
  proof -
    have iff: "(k, cs) \<in> set (head m) \<longleftrightarrow> map_of (head m) k = Some cs" for cs
      using assms by (simp add: cm_ok_def nmap_ok_def map_of_eq_Some_iff)
    have "cpc_rel ?v k = {c. \<exists>cs. (k, cs) \<in> set (head m) \<and> c \<in> set cs}"
      by (force simp: cpc_rel_def image_iff)
    also have "\<dots> = cm_cols m k"
      unfolding iff by (simp add: cm_cols_def NoDBMapGetPtrPtr_def split: option.split)
    finally show ?thesis .
  qed
  moreover have "None \<notin> set ?v" by auto
  ultimately show ?thesis using SetColsPerCache_eq[OF assms] by blast
qed

section \<open>The columns of a row and what is wanted of them\<close>

text \<open>For a row \<open>ns\<close> of the matrix: the columns read from a data cache, read otherwise, written to a
  data cache, and whose position is recorded.\<close>

definition want_hit :: "NoDBBitmap_t \<Rightarrow> Node_t list \<Rightarrow> nat \<Rightarrow> bool" where
  "want_hit R ns j \<longleftrightarrow> j \<in> bm_set R \<and> dataHit (ns ! j) = CACHE_HIT"

definition want_read :: "NoDBBitmap_t \<Rightarrow> Node_t list \<Rightarrow> nat \<Rightarrow> bool" where
  "want_read R ns j \<longleftrightarrow> j \<in> bm_set R \<and> dataHit (ns ! j) \<noteq> CACHE_HIT"

definition want_data :: "NoDBBitmap_t \<Rightarrow> Node_t list \<Rightarrow> nat \<Rightarrow> bool" where
  "want_data D ns j \<longleftrightarrow> j \<in> bm_set D \<and> dataHit (ns ! j) = CACHE_ADD"

definition want_pos :: "NoDBBitmap_t \<Rightarrow> Node_t list \<Rightarrow> nat \<Rightarrow> bool" where
  "want_pos P ns j \<longleftrightarrow> j \<in> bm_set P \<and> pmHit (ns ! j) = CACHE_ADD"

definition pick :: "NoDBCol_t list \<Rightarrow> nat \<Rightarrow> (nat \<Rightarrow> bool) \<Rightarrow> NoDBCol_t set" where
  "pick cs k Q = {cs ! j |j. j < k \<and> Q j}"

lemma pick_Suc: "pick cs (Suc k) Q = (if Q k then insert (cs ! k) (pick cs k Q) else pick cs k Q)"
  by (auto simp: pick_def less_Suc_eq)

lemma pick_0 [simp]: "pick cs 0 Q = {}"
  by (simp add: pick_def)

lemma pick_fresh: "distinct cs \<Longrightarrow> k < length cs \<Longrightarrow> cs ! k \<notin> pick cs k Q"
  by (auto simp: pick_def nth_eq_iff_index_eq)

text \<open>The fields of a node that \<open>FillRow\<close> reads are set, and the relation describes written columns.\<close>

definition row_ok :: "NoDBRelation_t \<Rightarrow> NoDBCol_t list \<Rightarrow> Node_t list \<Rightarrow> bool" where
  "row_ok rel cs ns \<longleftrightarrow> length ns = length cs \<and> distinct cs \<and>
     (\<forall>j < length cs. (dataHit (ns ! j) = CACHE_HIT \<or> dataHit (ns ! j) = CACHE_ADD \<longrightarrow> dataCache (ns ! j) \<noteq> None) \<and>
        (pmHit (ns ! j) = CACHE_ADD \<longrightarrow> pmCache (ns ! j) \<noteq> None) \<and>
        (dataHit (ns ! j) = CACHE_ADD \<longrightarrow> NoDBRelationIsColumnByValue rel (cs ! j) \<noteq> None))"

definition by_value :: "NoDBRelation_t \<Rightarrow> NoDBCol_t \<Rightarrow> bool" where
  "by_value rel c \<longleftrightarrow> the (NoDBRelationIsColumnByValue rel c) \<noteq> 0"

text \<open>The part of a reply that collecting a position does not touch.\<close>

definition reply_rest :: "fill_state \<Rightarrow> col_map \<times> col_map \<times> col_map \<times> NoDBColList_t \<times> col_map \<times> col_map \<times> NoDBReadViaPM_t option list" where
  "reply_rest s = (let r = fst s in (mapDataHit r, mapDataAddByValue r, mapDataAddByRef r, convert r, mapPositionsAdd r,
     mapReadFromPM r, readViaPM r))"

section \<open>Collecting positions\<close>

text \<open>
  The contract of a way to collect positions: collecting adds one item and leaves the rest of the
  reply alone, and the items depend only on the two collections. The column loop of \<open>FillRow\<close> is
  verified once for every such way.
\<close>

locale collector =
  fixes collect :: "NoDBCol_t \<Rightarrow> nat \<Rightarrow> fill_state \<Rightarrow> fill_state"
    and items :: "fill_state \<Rightarrow> 'i set"
    and item :: "NoDBCol_t \<Rightarrow> nat \<Rightarrow> 'i"
  assumes items_init: "items (init_reply, []) = {}"
    and items_collect: "items (collect c j s) = insert (item c j) (items s)"
    and collect_rest: "reply_rest (collect c j s) = reply_rest s"
    and items_cong: "collectFromFile (fst s) = collectFromFile (fst s') \<Longrightarrow> snd s = snd s' \<Longrightarrow> items s = items s'"
begin

definition fill_inv ::
    "NoDBRelation_t \<Rightarrow> NoDBCol_t list \<Rightarrow> Node_t list \<Rightarrow> NoDBBitmap_t \<Rightarrow> NoDBBitmap_t \<Rightarrow> NoDBBitmap_t \<Rightarrow>
     nat \<Rightarrow> nat \<Rightarrow> nat \<Rightarrow> fill_state \<Rightarrow> bool" where
  "fill_inv rel cs ns R D P kr kd kp s \<longleftrightarrow> (let r = fst s in
     cm_ok (mapDataHit r) \<and> cm_ok (mapDataAddByValue r) \<and> cm_ok (mapDataAddByRef r) \<and> cm_ok (mapPositionsAdd r) \<and>
     (\<forall>p. cm_cols (mapDataHit r) p = pick cs kr (\<lambda>j. want_hit R ns j \<and> dataCache (ns ! j) = p)) \<and>
     (\<forall>p. cm_cols (mapDataAddByValue r) p =
        pick cs kd (\<lambda>j. want_data D ns j \<and> by_value rel (cs ! j) \<and> dataCache (ns ! j) = p)) \<and>
     (\<forall>p. cm_cols (mapDataAddByRef r) p =
        pick cs kd (\<lambda>j. want_data D ns j \<and> \<not> by_value rel (cs ! j) \<and> dataCache (ns ! j) = p)) \<and>
     (\<forall>p. cm_cols (mapPositionsAdd r) p = pick cs kp (\<lambda>j. want_pos P ns j \<and> pmCache (ns ! j) = p)) \<and>
     distinct (convert r) \<and> set (convert r) = pick cs kr (want_read R ns) \<union> pick cs kd (want_data D ns) \<and>
     items s = {item (cs ! j) j |j. j < kr \<and> want_read R ns j} \<union> {item (cs ! j) j |j. j < kd \<and> want_data D ns j} \<union>
       {item (cs ! j) j |j. j < kp \<and> want_pos P ns j} \<and>
     mapReadFromPM r = NoDBMapArenaInit \<and> readViaPM r = [])"

lemma item_Suc:
  "{item (cs ! j) j |j. j < Suc k \<and> Q j} =
   (if Q k then insert (item (cs ! k) k) {item (cs ! j) j |j. j < k \<and> Q j} else {item (cs ! j) j |j. j < k \<and> Q j})"
  by (auto simp: less_Suc_eq)

lemma collect_fields [simp]:
  "mapDataHit (fst (collect c j s)) = mapDataHit (fst s)"
  "mapDataAddByValue (fst (collect c j s)) = mapDataAddByValue (fst s)"
  "mapDataAddByRef (fst (collect c j s)) = mapDataAddByRef (fst s)"
  "mapPositionsAdd (fst (collect c j s)) = mapPositionsAdd (fst s)"
  "convert (fst (collect c j s)) = convert (fst s)"
  "mapReadFromPM (fst (collect c j s)) = mapReadFromPM (fst s)"
  "readViaPM (fst (collect c j s)) = readViaPM (fst s)"
  using collect_rest[of c j s] by (simp_all add: reply_rest_def Let_def)

lemma items_upd [simp]:
  "items (apfst (\<lambda>r. r\<lparr>mapDataHit := f r\<rparr>) s) = items s"
  "items (apfst (\<lambda>r. r\<lparr>mapDataAddByValue := f r\<rparr>) s) = items s"
  "items (apfst (\<lambda>r. r\<lparr>mapDataAddByRef := f r\<rparr>) s) = items s"
  "items (apfst (\<lambda>r. r\<lparr>mapPositionsAdd := f r\<rparr>) s) = items s"
  "items (add_convert c s) = items s"
  by (rule items_cong; simp add: add_convert_def split_beta)+

lemma add_convert_fields [simp]:
  "mapDataHit (fst (add_convert c s)) = mapDataHit (fst s)"
  "mapDataAddByValue (fst (add_convert c s)) = mapDataAddByValue (fst s)"
  "mapDataAddByRef (fst (add_convert c s)) = mapDataAddByRef (fst s)"
  "mapPositionsAdd (fst (add_convert c s)) = mapPositionsAdd (fst s)"
  "mapReadFromPM (fst (add_convert c s)) = mapReadFromPM (fst s)"
  "readViaPM (fst (add_convert c s)) = readViaPM (fst s)"
  "distinct (convert (fst (add_convert c s))) = distinct (convert (fst s))"
  "set (convert (fst (add_convert c s))) = insert c (set (convert (fst s)))"
  by (auto simp: add_convert_def split_beta NoDBColListArenaAddUnique_def NoDBColListArenaAdd_def)

lemma step_read:
  assumes inv: "fill_inv rel cs ns R D P k k k s" and row: "row_ok rel cs ns" and k: "k < length cs" "k \<in> bm_set R"
  shows "\<exists>s'. FillRow_read collect (ns ! k) (cs ! k) k s = Some s' \<and> fill_inv rel cs ns R D P (Suc k) k k s'"
proof (cases "dataHit (ns ! k) = CACHE_HIT")
  case True
  then obtain p where p: "dataCache (ns ! k) = Some p" using row k by (auto simp: row_ok_def)
  have w: "want_hit R ns k" "\<not> want_read R ns k" using True k by (auto simp: want_hit_def want_read_def)
  have fresh: "cs ! k \<notin> cm_cols (mapDataHit (fst s)) (Some p)"
    using inv pick_fresh[of cs k] row k by (simp add: fill_inv_def Let_def row_ok_def)
  have ok: "cm_ok (mapDataHit (fst s))" using inv by (simp add: fill_inv_def Let_def)
  show ?thesis
    using inv True p w by (simp add: FillRow_read_def fill_inv_def Let_def pick_Suc item_Suc AddColToMap_ok[OF ok fresh])
next
  case False
  then have w: "\<not> want_hit R ns k" "want_read R ns k" using k by (auto simp: want_hit_def want_read_def)
  show ?thesis
    using inv False w by (simp add: FillRow_read_def fill_inv_def Let_def pick_Suc item_Suc items_collect)
qed

lemma step_read_skip:
  assumes "fill_inv rel cs ns R D P k k k s" "k \<notin> bm_set R"
  shows "fill_inv rel cs ns R D P (Suc k) k k s"
  using assms by (simp add: fill_inv_def Let_def pick_Suc item_Suc want_hit_def want_read_def)

lemma step_data:
  assumes inv: "fill_inv rel cs ns R D P kr k k s" and row: "row_ok rel cs ns" and k: "k < length cs" "k \<in> bm_set D"
  shows "\<exists>s'. FillRow_writeData collect rel (ns ! k) (cs ! k) k s = Some s' \<and> fill_inv rel cs ns R D P kr (Suc k) k s'"
proof (cases "dataHit (ns ! k) = CACHE_ADD")
  case True
  then obtain p bv where p: "dataCache (ns ! k) = Some p" "NoDBRelationIsColumnByValue rel (cs ! k) = Some bv"
    using row k by (auto simp: row_ok_def)
  have w: "want_data D ns k" "by_value rel (cs ! k) \<longleftrightarrow> bv \<noteq> 0" using True k p by (auto simp: want_data_def by_value_def)
  have fresh: "cs ! k \<notin> cm_cols (mapDataAddByValue (fst s)) (Some p)" "cs ! k \<notin> cm_cols (mapDataAddByRef (fst s)) (Some p)"
    using inv pick_fresh[of cs k] row k by (simp_all add: fill_inv_def Let_def row_ok_def)
  have ok: "cm_ok (mapDataAddByValue (fst s))" "cm_ok (mapDataAddByRef (fst s))"
    using inv by (simp_all add: fill_inv_def Let_def)
  show ?thesis
    using inv True p w
    by (simp add: FillRow_writeData_def fill_inv_def Let_def pick_Suc item_Suc items_collect
        AddColToMap_ok[OF ok(1) fresh(1)] AddColToMap_ok[OF ok(2) fresh(2)])
next
  case False
  then show ?thesis
    using inv by (simp add: FillRow_writeData_def fill_inv_def Let_def pick_Suc item_Suc want_data_def)
qed

lemma step_data_skip:
  assumes "fill_inv rel cs ns R D P kr k k s" "k \<notin> bm_set D"
  shows "fill_inv rel cs ns R D P kr (Suc k) k s"
  using assms by (simp add: fill_inv_def Let_def pick_Suc item_Suc want_data_def)

lemma step_pos:
  assumes inv: "fill_inv rel cs ns R D P kr kd k s" and row: "row_ok rel cs ns" and k: "k < length cs" "k \<in> bm_set P"
  shows "\<exists>s'. FillRow_writePositions collect (ns ! k) (cs ! k) k s = Some s' \<and> fill_inv rel cs ns R D P kr kd (Suc k) s'"
proof (cases "pmHit (ns ! k) = CACHE_ADD")
  case True
  then obtain p where p: "pmCache (ns ! k) = Some p" using row k by (auto simp: row_ok_def)
  have w: "want_pos P ns k" using True k by (auto simp: want_pos_def)
  have fresh: "cs ! k \<notin> cm_cols (mapPositionsAdd (fst s)) (Some p)"
    using inv pick_fresh[of cs k] row k by (simp add: fill_inv_def Let_def row_ok_def)
  have ok: "cm_ok (mapPositionsAdd (fst s))" using inv by (simp add: fill_inv_def Let_def)
  show ?thesis
    using inv True p w
    by (simp add: FillRow_writePositions_def fill_inv_def Let_def pick_Suc item_Suc items_collect AddColToMap_ok[OF ok fresh])
next
  case False
  then show ?thesis
    using inv by (simp add: FillRow_writePositions_def fill_inv_def Let_def pick_Suc item_Suc want_pos_def)
qed

lemma step_pos_skip:
  assumes "fill_inv rel cs ns R D P kr kd k s" "k \<notin> bm_set P"
  shows "fill_inv rel cs ns R D P kr kd (Suc k) s"
  using assms by (simp add: fill_inv_def Let_def pick_Suc item_Suc want_pos_def)

lemma step_col:
  assumes inv: "fill_inv rel cs (mx ! i) R D P k k k s" and row: "row_ok rel cs (mx ! i)" "i < length mx" and k: "k < length cs"
    and bm: "bm_ok (length cs) R" "bm_ok (length cs) D" "bm_ok (length cs) P"
  shows "\<exists>s'. FillRow_col collect mx i rel (map Some cs) R D P s k = Some s' \<and>
    fill_inv rel cs (mx ! i) R D P (Suc k) (Suc k) (Suc k) s'"
proof -
  have n: "node_get mx (int i) (int k) = Some (mx ! i ! k)"
    using row k by (simp add: node_get_def row_ok_def)
  obtain s1 where s1: "(if k \<in> bm_set R then FillRow_read collect (mx ! i ! k) (cs ! k) k s else Some s) = Some s1"
    "fill_inv rel cs (mx ! i) R D P (Suc k) k k s1"
    using step_read[OF inv row(1) k] step_read_skip[OF inv] by (metis (full_types))
  obtain s2 where s2: "(if k \<in> bm_set D then FillRow_writeData collect rel (mx ! i ! k) (cs ! k) k s1 else Some s1) = Some s2"
    "fill_inv rel cs (mx ! i) R D P (Suc k) (Suc k) k s2"
    using step_data[OF s1(2) row(1) k] step_data_skip[OF s1(2)] by (metis (full_types))
  obtain s3 where s3: "(if k \<in> bm_set P then FillRow_writePositions collect (mx ! i ! k) (cs ! k) k s2 else Some s2) = Some s3"
    "fill_inv rel cs (mx ! i) R D P (Suc k) (Suc k) (Suc k) s3"
    using step_pos[OF s2(2) row(1) k] step_pos_skip[OF s2(2)] by (metis (full_types))
  show ?thesis
    using n k s1(1) s2(1) s3 NoDBBitmapIsSet_ok[OF bm(1) k] NoDBBitmapIsSet_ok[OF bm(2) k] NoDBBitmapIsSet_ok[OF bm(3) k]
    by (simp add: FillRow_col_def)
qed

lemma fill_loop:
  assumes row: "row_ok rel cs (mx ! i)" "i < length mx"
    and bm: "bm_ok (length cs) R" "bm_ok (length cs) D" "bm_ok (length cs) P"
  shows "\<exists>s. foldM (FillRow_col collect mx i rel (map Some cs) R D P) (init_reply, []) [0..<length cs] = Some s \<and>
    fill_inv rel cs (mx ! i) R D P (length cs) (length cs) (length cs) s"
proof -
  have "\<exists>s. foldM (FillRow_col collect mx i rel (map Some cs) R D P) (init_reply, []) [0..<length cs] = Some s \<and>
    fill_inv rel cs (mx ! i) R D P (length [0..<length cs]) (length [0..<length cs]) (length [0..<length cs]) s"
  proof (rule foldM_rule)
    show "fill_inv rel cs (mx ! i) R D P 0 0 0 (init_reply, [])"
      by (simp add: fill_inv_def Let_def items_init) (simp add: init_reply_def)
    fix k t assume "k < length [0..<length cs]" "fill_inv rel cs (mx ! i) R D P k k k t"
    then show "\<exists>t'. FillRow_col collect mx i rel (map Some cs) R D P t ([0..<length cs] ! k) = Some t' \<and>
      fill_inv rel cs (mx ! i) R D P (Suc k) (Suc k) (Suc k) t'"
      using step_col[OF _ row _ bm, of k t] by simp
  qed
  then show ?thesis by simp
qed

end

interpretation from_file: collector collect_file "\<lambda>s. set (collectFromFile (fst s))" "\<lambda>c j. c"
  by unfold_locales
     (auto simp: collect_file_def init_reply_def reply_rest_def Let_def split_beta NoDBColListArenaAddUnique_def NoDBColListArenaAdd_def)

interpretation from_pm: collector collect_pm "\<lambda>s. set (snd s)" "\<lambda>c j. int j"
  by unfold_locales
     (auto simp: collect_pm_def init_reply_def reply_rest_def Let_def split_beta NoDBIntListArenaAddUnique_def NoDBIntListArenaAdd_def)

section \<open>Reading via the positional map\<close>

definition ncol :: "Node_t \<Rightarrow> NoDBCol_t" where "ncol n = the (closestColumn n)"

definition ndist :: "Node_t \<Rightarrow> int" where "ndist n = the (distance n)"

definition node_pm_ok :: "nat \<Rightarrow> Node_t \<Rightarrow> bool" where
  "node_pm_ok natts n \<longleftrightarrow> closestPMCache n \<noteq> None \<and> closestColumn n \<noteq> None \<and> distance n \<noteq> None \<and>
     0 \<le> ncol n \<and> nat (ncol n) < natts"

text \<open>What step 1 knows of a closest column: its cache, and the exact extent to parse around it.\<close>

definition dist_at :: "Node_t set \<Rightarrow> NoDBCol_t \<Rightarrow> ColDistance_t \<Rightarrow> bool" where
  "dist_at S c cd \<longleftrightarrow>
     (cd_cache cd = None \<longleftrightarrow> c \<notin> ncol ` S) \<and>
     (\<forall>p. cd_cache cd = Some p \<longrightarrow> (\<exists>n \<in> S. ncol n = c \<and> closestPMCache n = Some p)) \<and>
     (\<forall>n \<in> S. ncol n = c \<longrightarrow> backwardDistance cd \<le> ndist n \<and> ndist n \<le> forwardDistance cd) \<and>
     (forwardDistance cd = 0 \<or> (\<exists>n \<in> S. ncol n = c \<and> ndist n = forwardDistance cd)) \<and>
     (backwardDistance cd = 0 \<or> (\<exists>n \<in> S. ncol n = c \<and> ndist n = backwardDistance cd)) \<and>
     backwardDistance cd \<le> 0 \<and> 0 \<le> forwardDistance cd"

definition dist_inv :: "nat \<Rightarrow> Node_t set \<Rightarrow> ColDistance_t list \<times> int \<Rightarrow> bool" where
  "dist_inv natts S t \<longleftrightarrow> length (fst t) = natts \<and> snd t = int (card (ncol ` S)) \<and>
     (\<forall>k < natts. dist_at S (int k) (fst t ! k))"

lemma dist_at_other: "ncol n \<noteq> c \<Longrightarrow> dist_at S c cd \<Longrightarrow> dist_at (insert n S) c cd"
  by (simp add: dist_at_def)

lemma dist_at_new:
  assumes "dist_at S (ncol n) cd" "closestPMCache n = Some p"
  shows "dist_at (insert n S) (ncol n)
    (if ndist n \<ge> 0 then
       (if cd_cache cd = None \<or> ndist n > forwardDistance cd then cd\<lparr>cd_cache := Some p, forwardDistance := ndist n\<rparr> else cd)
     else
       (if ndist n < backwardDistance cd then cd\<lparr>cd_cache := Some p, backwardDistance := ndist n\<rparr> else cd))"
proof -
  note d = assms(1)[unfolded dist_at_def]
  consider (fwd) "ndist n \<ge> 0" "cd_cache cd = None \<or> ndist n > forwardDistance cd"
    | (fwd_in) "ndist n \<ge> 0" "cd_cache cd \<noteq> None" "ndist n \<le> forwardDistance cd"
    | (bwd) "ndist n < 0" "ndist n < backwardDistance cd"
    | (bwd_in) "ndist n < 0" "backwardDistance cd \<le> ndist n"
    by linarith
  then show ?thesis
  proof cases
    case fwd
    have "ndist m \<le> ndist n" if "m \<in> S" "ncol m = ncol n" for m
      using fwd d that by (metis dual_order.strict_trans1 imageI leD linorder_linear)
    then show ?thesis using fwd d assms(2) unfolding dist_at_def by (simp; blast)
  next
    case fwd_in
    then show ?thesis using d by (simp add: dist_at_def; blast)
  next
    case bwd
    have "ndist n \<le> ndist m" if "m \<in> S" "ncol m = ncol n" for m
      using bwd d that by fastforce
    then show ?thesis using bwd d assms(2) unfolding dist_at_def by (simp; blast)
  next
    case bwd_in
    then have "cd_cache cd \<noteq> None" using d by (auto simp: image_iff)
    then show ?thesis using bwd_in d by (simp add: dist_at_def; blast)
  qed
qed

lemma FillRow_distance_ok:
  assumes n: "node_pm_ok natts n" and inv: "dist_inv natts S t" "finite S"
  shows "\<exists>t'. FillRow_distance n t = Some t' \<and> dist_inv natts (insert n S) t'"
proof -
  obtain cds nvia where t: "t = (cds, nvia)" by (cases t)
  obtain p where f: "closestPMCache n = Some p" "closestColumn n = Some (ncol n)" "distance n = Some (ndist n)"
    "0 \<le> ncol n" "nat (ncol n) < natts"
    using n by (auto simp: node_pm_ok_def ncol_def ndist_def)
  let ?c = "nat (ncol n)"
  define cd where "cd = cds ! ?c"
  define cd' where "cd' = (if ndist n \<ge> 0 then
       (if cd_cache cd = None \<or> ndist n > forwardDistance cd then cd\<lparr>cd_cache := Some p, forwardDistance := ndist n\<rparr> else cd)
     else
       (if ndist n < backwardDistance cd then cd\<lparr>cd_cache := Some p, backwardDistance := ndist n\<rparr> else cd))"
  have len: "length cds = natts" and cnt: "nvia = int (card (ncol ` S))" and at: "\<And>k. k < natts \<Longrightarrow> dist_at S (int k) (cds ! k)"
    using inv t by (auto simp: dist_inv_def)
  have at_c: "dist_at S (ncol n) cd" using at[OF f(5)] f(4) by (simp add: cd_def)
  have new: "dist_at (insert n S) (ncol n) cd'" unfolding cd'_def by (rule dist_at_new[OF at_c f(1)])
  have same: "cds[?c := cd] = cds" by (simp add: cd_def)
  have r: "FillRow_distance n t = Some (cds[?c := cd'], if cd_cache cd = None then nvia + 1 else nvia)"
    using f len same
    by (simp add: FillRow_distance_def t Let_def arr_get_in arr_set_in cd_def[symmetric] cd'_def cong: if_cong)
  have none: "cd_cache cd = None \<longleftrightarrow> ncol n \<notin> ncol ` S" using at_c by (simp add: dist_at_def)
  have "(if cd_cache cd = None then nvia + 1 else nvia) = int (card (ncol ` insert n S))"
    using none cnt inv(2) by (simp add: insert_absorb)
  moreover have "dist_at (insert n S) (int k) (cds[?c := cd'] ! k)" if k: "k < natts" for k
  proof (cases "k = ?c")
    case True
    then show ?thesis using new f len by simp
  next
    case False
    then have "ncol n \<noteq> int k" using f(4) by auto
    then show ?thesis using dist_at_other[OF _ at[OF k]] False by simp
  qed
  ultimately show ?thesis using r len by (simp add: dist_inv_def)
qed

lemma step1_loop:
  assumes "\<forall>n \<in> set xs. node_pm_ok natts n"
  shows "\<exists>t. foldM (\<lambda>s n. FillRow_distance n s)
      (replicate natts \<lparr>forwardDistance = 0, backwardDistance = 0, cd_cache = None\<rparr>, 0) xs = Some t \<and> dist_inv natts (set xs) t"
  using assms
proof (induction xs rule: rev_induct)
  case Nil
  show ?case by (simp add: dist_inv_def dist_at_def)
next
  case (snoc n xs)
  then obtain t where t: "foldM (\<lambda>s n. FillRow_distance n s)
      (replicate natts \<lparr>forwardDistance = 0, backwardDistance = 0, cd_cache = None\<rparr>, 0) xs = Some t" "dist_inv natts (set xs) t"
    by auto
  obtain t' where "FillRow_distance n t = Some t'" "dist_inv natts (insert n (set xs)) t'"
    using FillRow_distance_ok[OF _ t(2) finite_set, of n] snoc.prems by (metis in_set_conv_decomp)
  then show ?case using t(1) by (simp add: foldM_snoc)
qed

text \<open>Step 2: one filled entry per closest column, and each of them is read from its cache.\<close>

definition via_inv :: "ColDistance_t list \<Rightarrow> nat \<Rightarrow> Node_t set \<Rightarrow> col_map \<times> NoDBReadViaPM_t option list \<times> int \<Rightarrow> bool" where
  "via_inv cds nt S t \<longleftrightarrow> (case t of (m, via, k) \<Rightarrow>
     cm_ok m \<and> (\<forall>p. cm_cols m p = {c \<in> ncol ` S. cd_cache (cds ! nat c) = p}) \<and>
     k = int (card (ncol ` S)) \<and>
     (\<exists>cs. length cs = card (ncol ` S) \<and> set cs = ncol ` S \<and>
        via = map (\<lambda>c. Some \<lparr>via_col = c, forward = forwardDistance (cds ! nat c), backward = backwardDistance (cds ! nat c)\<rparr>) cs @
              replicate (nt - length cs) None))"

lemma FillRow_via_ok:
  assumes n: "node_pm_ok natts n" and len: "length cds = natts" and inv: "via_inv cds nt S t" "finite S"
    and tot: "card (ncol ` insert n S) \<le> nt"
  shows "\<exists>t'. FillRow_via cds n t = Some t' \<and> via_inv cds nt (insert n S) t'"
proof -
  obtain m via k where t: "t = (m, via, k)" by (cases t)
  have f: "closestColumn n = Some (ncol n)" "0 \<le> ncol n" "nat (ncol n) < length cds"
    using n len by (auto simp: node_pm_ok_def ncol_def)
  let ?cd = "cds ! nat (ncol n)"
  let ?e = "\<lambda>c. \<lparr>via_col = c, forward = forwardDistance (cds ! nat c), backward = backwardDistance (cds ! nat c)\<rparr>"
  obtain cs where i: "cm_ok m" "\<And>p. cm_cols m p = {c \<in> ncol ` S. cd_cache (cds ! nat c) = p}"
    "k = int (card (ncol ` S))" "length cs = card (ncol ` S)" "set cs = ncol ` S"
    "via = map (\<lambda>c. Some (?e c)) cs @ replicate (nt - length cs) None"
    using inv(1) unfolding via_inv_def t by auto
  define m' where "m' = fst (AddUniqueColToMap m (cd_cache ?cd) (ncol n))"
  have "snd (AddUniqueColToMap m (cd_cache ?cd) (ncol n)) = (if ncol n \<in> ncol ` S then 0 else 1)"
    using AddUniqueColToMap_ok(3)[OF i(1), of "cd_cache ?cd" "ncol n"] i(2) by simp
  then have A: "AddUniqueColToMap m (cd_cache ?cd) (ncol n) = (m', if ncol n \<in> ncol ` S then 0 else 1)"
    by (simp add: m'_def prod_eq_iff)
  have B: "cm_cols m' p = {c \<in> ncol ` insert n S. cd_cache (cds ! nat c) = p}" for p
    unfolding m'_def AddUniqueColToMap_ok(2)[OF i(1)] i(2) image_insert by (cases "p = cd_cache ?cd") auto
  have C: "cm_ok m'" unfolding m'_def by (rule AddUniqueColToMap_ok(1)[OF i(1)])
  note m' = A C B
  show ?thesis
  proof (cases "ncol n \<in> ncol ` S")
    case True
    then have "ncol ` insert n S = ncol ` S" by auto
    then show ?thesis
      using True m' i f by (auto simp: FillRow_via_def t arr_get_in via_inv_def)
  next
    case False
    have c: "card (ncol ` insert n S) = Suc (card (ncol ` S))" using False inv(2) by simp
    then have lt: "length cs < nt" using tot i(4) by simp
    have "arr_set via k (Some (?e (ncol n))) =
        Some (map (\<lambda>c. Some (?e c)) (cs @ [ncol n]) @ replicate (nt - length (cs @ [ncol n])) None)"
      using lt i by (auto simp: list_update_append Cons_replicate_eq Suc_diff_Suc[symmetric])
    then have "FillRow_via cds n t = Some (m', map (\<lambda>c. Some (?e c)) (cs @ [ncol n]) @ replicate (nt - length (cs @ [ncol n])) None, k + 1)"
      using False m' f by (simp add: FillRow_via_def t arr_get_in)
    moreover have "via_inv cds nt (insert n S) (m', map (\<lambda>c. Some (?e c)) (cs @ [ncol n]) @ replicate (nt - length (cs @ [ncol n])) None, k + 1)"
      unfolding via_inv_def prod.case
      using m'(2,3) i c by (intro conjI exI[of _ "cs @ [ncol n]"]) auto
    ultimately show ?thesis by blast
  qed
qed

lemma step2_loop:
  assumes "\<forall>n \<in> set xs. node_pm_ok natts n" "length cds = natts" "card (ncol ` set xs) \<le> nt"
  shows "\<exists>t. foldM (\<lambda>s n. FillRow_via cds n s) (NoDBMapArenaInit, replicate nt None, 0) xs = Some t \<and>
    via_inv cds nt (set xs) t"
  using assms
proof (induction xs rule: rev_induct)
  case Nil
  show ?case by (simp add: via_inv_def)
next
  case (snoc n xs)
  have "card (ncol ` set xs) \<le> card (ncol ` set (xs @ [n]))" by (rule card_mono) auto
  then obtain t where t: "foldM (\<lambda>s n. FillRow_via cds n s) (NoDBMapArenaInit, replicate nt None, 0) xs = Some t"
    "via_inv cds nt (set xs) t"
    using snoc by force
  obtain t' where "FillRow_via cds n t = Some t'" "via_inv cds nt (insert n (set xs)) t'"
    using FillRow_via_ok[OF _ snoc.prems(2) t(2) finite_set, of n] snoc.prems by fastforce
  then show ?case using t(1) by (simp add: foldM_snoc)
qed

section \<open>The reply for a row\<close>

definition want_position :: "NoDBBitmap_t \<Rightarrow> NoDBBitmap_t \<Rightarrow> NoDBBitmap_t \<Rightarrow> Node_t list \<Rightarrow> nat \<Rightarrow> bool" where
  "want_position R D P ns j \<longleftrightarrow> want_read R ns j \<or> want_data D ns j \<or> want_pos P ns j"

definition pm_usable :: "Node_t list \<Rightarrow> bool" where
  "pm_usable ns \<longleftrightarrow> (\<exists>n \<in> set ns. closestPMCache n \<noteq> None)"

text \<open>
  The position of a node can be reached: its closest column is read from a positional map that was
  found for it, and the parse around that column extends to the node's own column.
\<close>

definition via_reaches :: "FillRowReply_t \<Rightarrow> Node_t set \<Rightarrow> Node_t \<Rightarrow> bool" where
  "via_reaches r S n \<longleftrightarrow>
     (\<exists>e. Some e \<in> set (readViaPM r) \<and> via_col e = ncol n \<and> backward e \<le> ndist n \<and> ndist n \<le> forward e) \<and>
     (\<exists>p. ncol n \<in> cm_cols (mapReadFromPM r) (Some p) \<and> (\<exists>n' \<in> S. ncol n' = ncol n \<and> closestPMCache n' = Some p))"

text \<open>The parse around a closest column ends at a wanted column.\<close>

definition via_tight :: "FillRowReply_t \<Rightarrow> Node_t set \<Rightarrow> bool" where
  "via_tight r S \<longleftrightarrow> None \<notin> set (readViaPM r) \<and>
     (\<forall>e. Some e \<in> set (readViaPM r) \<longrightarrow> via_col e \<in> ncol ` S \<and> 0 \<le> forward e \<and> backward e \<le> 0 \<and>
        (forward e = 0 \<or> (\<exists>n \<in> S. ncol n = via_col e \<and> ndist n = forward e)) \<and>
        (backward e = 0 \<or> (\<exists>n \<in> S. ncol n = via_col e \<and> ndist n = backward e)))"

lemma pm_available_eq:
  assumes "i < length mx" "\<forall>j \<in> set is. j < length (mx ! i)"
  shows "pm_available mx i is = Some (\<exists>j \<in> set is. closestPMCache (mx ! i ! j) \<noteq> None)"
  using assms(2) by (induction "is") (auto simp: node_get_def assms(1))

lemma pm_available_row:
  assumes "i < length mx" "length (mx ! i) = m"
  shows "pm_available mx i [0..<m] = Some (pm_usable (mx ! i))"
proof -
  have "set (mx ! i) = (!) (mx ! i) ` {0..<m}" using nth_image[of m "mx ! i"] assms(2) by simp
  then have "(\<exists>j \<in> set [0..<m]. closestPMCache (mx ! i ! j) \<noteq> None) \<longleftrightarrow> pm_usable (mx ! i)"
    by (simp add: pm_usable_def)
  then show ?thesis using pm_available_eq[OF assms(1), of "[0..<m]"] assms(2) by simp
qed

lemma collect_pm_file:
  assumes "foldM (FillRow_col collect_pm mx i rel cols R D P) (init_reply, []) is = Some s"
  shows "collectFromFile (fst s) = []"
  using assms
proof (rule foldM_inv)
  fix x u u' assume "collectFromFile (fst u) = []" "FillRow_col collect_pm mx i rel cols R D P u x = Some u'"
  then show "collectFromFile (fst u') = []"
    by (auto simp: FillRow_col_def FillRow_read_def FillRow_writeData_def FillRow_writePositions_def collect_pm_def
        add_convert_def split_beta Let_def split: if_splits Option.bind_splits)
qed (simp add: init_reply_def)

text \<open>The two passes over the collected indices.\<close>

lemma via_passes:
  assumes i: "i < length mx" and idx: "\<forall>j \<in> set idx. 0 \<le> j \<and> nat j < length (mx ! i) \<and> node_pm_ok natts (mx ! i ! nat j)"
  shows "\<exists>cds nvia m via k. FillRow_step1 mx i idx (int natts) = Some (cds, nvia) \<and>
    FillRow_step2 mx i idx cds nvia = Some (m, via, k) \<and> cm_ok m \<and>
    via_tight (r\<lparr>mapReadFromPM := m, readViaPM := via\<rparr>) ((\<lambda>j. mx ! i ! nat j) ` set idx) \<and>
    (\<forall>j \<in> set idx. via_reaches (r\<lparr>mapReadFromPM := m, readViaPM := via\<rparr>) ((\<lambda>j. mx ! i ! nat j) ` set idx) (mx ! i ! nat j))"
proof -
  let ?f = "\<lambda>j. mx ! i ! nat j"
  let ?xs = "map ?f idx" and ?S = "?f ` set idx"
  have get: "node_get mx (int i) j = Some (?f j)" if "j \<in> set idx" for j
    using idx that i by (auto simp: node_get_def arr_get_in)
  have ok: "\<forall>n \<in> set ?xs. node_pm_ok natts n" using idx by auto
  obtain cds nvia where t: "foldM (\<lambda>s n. FillRow_distance n s)
      (replicate natts \<lparr>forwardDistance = 0, backwardDistance = 0, cd_cache = None\<rparr>, 0) ?xs = Some (cds, nvia)"
    "dist_inv natts (set ?xs) (cds, nvia)"
    using step1_loop[OF ok] by auto
  have s1: "FillRow_step1 mx i idx (int natts) = Some (cds, nvia)"
    using t(1) unfolding FillRow_step1_def foldM_map nat_int by (simp add: get cong: foldM_cong)
  have d: "length cds = natts" "nvia = int (card (ncol ` ?S))" "\<And>k. k < natts \<Longrightarrow> dist_at ?S (int k) (cds ! k)"
    using t(2) by (simp_all add: dist_inv_def)
  obtain m via k where u: "foldM (\<lambda>s n. FillRow_via cds n s) (NoDBMapArenaInit, replicate (card (ncol ` ?S)) None, 0) ?xs = Some (m, via, k)"
    "via_inv cds (card (ncol ` ?S)) (set ?xs) (m, via, k)"
    using step2_loop[OF ok d(1), of "card (ncol ` ?S)"] by auto
  have s2: "FillRow_step2 mx i idx cds nvia = Some (m, via, k)"
    using u(1) unfolding FillRow_step2_def foldM_map d(2) nat_int by (simp add: get cong: foldM_cong)
  let ?e = "\<lambda>c. \<lparr>via_col = c, forward = forwardDistance (cds ! nat c), backward = backwardDistance (cds ! nat c)\<rparr>"
  obtain cs where v: "cm_ok m" "\<And>p. cm_cols m p = {c \<in> ncol ` ?S. cd_cache (cds ! nat c) = p}"
    "set cs = ncol ` ?S" "via = map (\<lambda>c. Some (?e c)) cs"
    using u(2) by (auto simp: via_inv_def)
  have at: "dist_at ?S (ncol n) (cds ! nat (ncol n))" if "n \<in> ?S" for n
    using d(3)[of "nat (ncol n)"] ok that by (auto simp: node_pm_ok_def)
  have tight: "via_col e \<in> ncol ` ?S \<and> 0 \<le> forward e \<and> backward e \<le> 0 \<and>
        (forward e = 0 \<or> (\<exists>n \<in> ?S. ncol n = via_col e \<and> ndist n = forward e)) \<and>
        (backward e = 0 \<or> (\<exists>n \<in> ?S. ncol n = via_col e \<and> ndist n = backward e))" if e: "Some e \<in> set via" for e
  proof -
    have "via_col e \<in> ncol ` ?S" and e': "e = ?e (via_col e)" using e v(3) unfolding v(4) by auto
    then obtain n where n: "n \<in> ?S" "via_col e = ncol n" by blast
    have "forward e = forwardDistance (cds ! nat (ncol n))" "backward e = backwardDistance (cds ! nat (ncol n))"
      by (subst e', simp add: n(2))+
    then show ?thesis using at[OF n(1)] n(2) imageI[OF n(1), of ncol] unfolding dist_at_def n(2) by presburger
  qed
  have "via_tight (r\<lparr>mapReadFromPM := m, readViaPM := via\<rparr>) ?S"
  proof -
    have "None \<notin> set via" by (auto simp: v(4))
    then show ?thesis using tight unfolding via_tight_def by simp
  qed
  moreover have "via_reaches (r\<lparr>mapReadFromPM := m, readViaPM := via\<rparr>) ?S n" if n: "n \<in> ?S" for n
  proof -
    have D: "dist_at ?S (ncol n) (cds ! nat (ncol n))" by (rule at[OF n])
    then obtain p where p: "cd_cache (cds ! nat (ncol n)) = Some p" using n unfolding dist_at_def by blast
    have "\<exists>e. Some e \<in> set via \<and> via_col e = ncol n \<and> backward e \<le> ndist n \<and> ndist n \<le> forward e"
      using D n unfolding v(4) dist_at_def by (intro exI[of _ "?e (ncol n)"]) (auto simp: v(3))
    moreover have "ncol n \<in> cm_cols m (Some p)" using n p v(2) by blast
    moreover have "\<exists>n' \<in> ?S. ncol n' = ncol n \<and> closestPMCache n' = Some p" using D p unfolding dist_at_def by blast
    ultimately show ?thesis unfolding via_reaches_def by auto
  qed
  ultimately show ?thesis using s1 s2 v(1) by blast
qed

definition reply_columns ::
    "NoDBRelation_t \<Rightarrow> NoDBCol_t list \<Rightarrow> Node_t list \<Rightarrow> NoDBBitmap_t \<Rightarrow> NoDBBitmap_t \<Rightarrow> NoDBBitmap_t \<Rightarrow> FillRowReply_t \<Rightarrow> bool" where
  "reply_columns rel cs ns R D P r \<longleftrightarrow>
     cm_ok (mapDataHit r) \<and> cm_ok (mapDataAddByValue r) \<and> cm_ok (mapDataAddByRef r) \<and> cm_ok (mapPositionsAdd r) \<and>
     cm_ok (mapReadFromPM r) \<and>
     (\<forall>p. cm_cols (mapDataHit r) p = pick cs (length cs) (\<lambda>j. want_hit R ns j \<and> dataCache (ns ! j) = p)) \<and>
     (\<forall>p. cm_cols (mapDataAddByValue r) p =
        pick cs (length cs) (\<lambda>j. want_data D ns j \<and> by_value rel (cs ! j) \<and> dataCache (ns ! j) = p)) \<and>
     (\<forall>p. cm_cols (mapDataAddByRef r) p =
        pick cs (length cs) (\<lambda>j. want_data D ns j \<and> \<not> by_value rel (cs ! j) \<and> dataCache (ns ! j) = p)) \<and>
     (\<forall>p. cm_cols (mapPositionsAdd r) p = pick cs (length cs) (\<lambda>j. want_pos P ns j \<and> pmCache (ns ! j) = p)) \<and>
     distinct (convert r) \<and>
     set (convert r) = pick cs (length cs) (\<lambda>j. want_read R ns j \<or> want_data D ns j)"

lemma pick_Un: "pick cs k Q \<union> pick cs k Q' = pick cs k (\<lambda>j. Q j \<or> Q' j)"
  by (auto simp: pick_def)

lemma FillRow_ok:
  assumes row: "row_ok rel cs (mx ! i)" "i < length mx" and natts: "NoDBRelationGetNumberColumns rel = int natts"
    and bm: "bm_ok (length cs) R" "bm_ok (length cs) D" "bm_ok (length cs) P"
    and pm: "pm_usable (mx ! i) \<longrightarrow> (\<forall>j < length cs. want_position R D P (mx ! i) j \<longrightarrow> node_pm_ok natts (mx ! i ! j))"
  shows "\<exists>r. FillRow mx i rel (map Some cs) R D P = Some r \<and> reply_columns rel cs (mx ! i) R D P r \<and>
    (if pm_usable (mx ! i)
     then collectFromFile r = [] \<and>
       via_tight r {mx ! i ! j |j. j < length cs \<and> want_position R D P (mx ! i) j} \<and>
       (\<forall>j < length cs. want_position R D P (mx ! i) j \<longrightarrow>
          via_reaches r {mx ! i ! j |j. j < length cs \<and> want_position R D P (mx ! i) j} (mx ! i ! j))
     else set (collectFromFile r) = pick cs (length cs) (want_position R D P (mx ! i)) \<and> readViaPM r = [] \<and>
       mapReadFromPM r = NoDBMapArenaInit)"
proof -
  have len: "length (mx ! i) = length cs" using row by (simp add: row_ok_def)
  note av = pm_available_row[OF row(2) len]
  show ?thesis
  proof (cases "pm_usable (mx ! i)")
    case False
    obtain s where s: "foldM (FillRow_col collect_file mx i rel (map Some cs) R D P) (init_reply, []) [0..<length cs] = Some s"
      "from_file.fill_inv rel cs (mx ! i) R D P (length cs) (length cs) (length cs) s"
      using from_file.fill_loop[OF row bm] by blast
    have "set (collectFromFile (fst s)) = pick cs (length cs) (want_position R D P (mx ! i))"
      using s(2) unfolding from_file.fill_inv_def Let_def by (auto simp: pick_def want_position_def)
    moreover have "reply_columns rel cs (mx ! i) R D P (fst s)"
      using s(2) unfolding from_file.fill_inv_def Let_def reply_columns_def pick_Un by simp
    moreover have "readViaPM (fst s) = []" "mapReadFromPM (fst s) = NoDBMapArenaInit"
      using s(2) by (simp_all add: from_file.fill_inv_def Let_def)
    ultimately show ?thesis using s(1) av False by (intro exI[of _ "fst s"]) (simp add: FillRow_def Let_def)
  next
    case True
    obtain r idx where s: "foldM (FillRow_col collect_pm mx i rel (map Some cs) R D P) (init_reply, []) [0..<length cs] = Some (r, idx)"
      "from_pm.fill_inv rel cs (mx ! i) R D P (length cs) (length cs) (length cs) (r, idx)"
      using from_pm.fill_loop[OF row bm] by auto
    have idx: "set idx = {int j |j. j < length cs \<and> want_position R D P (mx ! i) j}"
      using s(2) unfolding from_pm.fill_inv_def Let_def by (auto simp: want_position_def)
    have nodes: "(\<lambda>j. mx ! i ! nat j) ` set idx = {mx ! i ! j |j. j < length cs \<and> want_position R D P (mx ! i) j}"
      unfolding idx by (auto simp: image_iff) force
    have ok: "\<forall>j \<in> set idx. 0 \<le> j \<and> nat j < length (mx ! i) \<and> node_pm_ok natts (mx ! i ! nat j)"
      using pm True len unfolding idx by auto
    obtain cds nvia m via k where v: "FillRow_step1 mx i idx (int natts) = Some (cds, nvia)"
      "FillRow_step2 mx i idx cds nvia = Some (m, via, k)" "cm_ok m"
      "via_tight (r\<lparr>mapReadFromPM := m, readViaPM := via\<rparr>) ((\<lambda>j. mx ! i ! nat j) ` set idx)"
      "\<forall>j \<in> set idx. via_reaches (r\<lparr>mapReadFromPM := m, readViaPM := via\<rparr>) ((\<lambda>j. mx ! i ! nat j) ` set idx) (mx ! i ! nat j)"
      using via_passes[OF row(2) ok, of r] by blast
    let ?r = "r\<lparr>mapReadFromPM := m, readViaPM := via\<rparr>"
    have "FillRow mx i rel (map Some cs) R D P = Some ?r"
      using s(1) v(1,2) av True natts by (simp add: FillRow_def Let_def)
    moreover have "reply_columns rel cs (mx ! i) R D P ?r"
      using s(2) v(3) unfolding from_pm.fill_inv_def Let_def reply_columns_def pick_Un by simp
    moreover have "collectFromFile ?r = []" using collect_pm_file[OF s(1)] by simp
    moreover have "via_reaches ?r {mx ! i ! j |j. j < length cs \<and> want_position R D P (mx ! i) j} (mx ! i ! j)"
      if "j < length cs" "want_position R D P (mx ! i) j" for j
    proof -
      have "int j \<in> set idx" using that unfolding idx by blast
      then show ?thesis using v(5)[unfolded nodes, rule_format] by fastforce
    qed
    ultimately show ?thesis using True v(4) unfolding nodes by (intro exI[of _ ?r]) simp
  qed
qed

section \<open>Properties\<close>

text \<open>
  C16: \<open>FillRow\<close> plans the whole row. Each column to read is either read from the data cache of its hit
  or converted; each column to write is converted and written, by value or by reference, to the
  cache chosen for it; each position to record goes to its positions cache. When no positional map is
  usable, exactly the columns with a wanted position are collected from the file. When one is, every
  wanted position is reached: its closest column is read from a positional map found for it and the
  parse around that column extends to it, no entry of the parse list is left unset, and the parse
  never extends further than a wanted column.
\<close>

theorem fill_row_sound:
  assumes "row_ok rel cs (mx ! i)" "i < length mx" "NoDBRelationGetNumberColumns rel = int natts"
    "bm_ok (length cs) R" "bm_ok (length cs) D" "bm_ok (length cs) P"
    "pm_usable (mx ! i) \<longrightarrow> (\<forall>j < length cs. want_position R D P (mx ! i) j \<longrightarrow> node_pm_ok natts (mx ! i ! j))"
  shows "\<exists>r. FillRow mx i rel (map Some cs) R D P = Some r \<and> reply_columns rel cs (mx ! i) R D P r \<and>
    (if pm_usable (mx ! i)
     then collectFromFile r = [] \<and>
       via_tight r {mx ! i ! j |j. j < length cs \<and> want_position R D P (mx ! i) j} \<and>
       (\<forall>j < length cs. want_position R D P (mx ! i) j \<longrightarrow>
          via_reaches r {mx ! i ! j |j. j < length cs \<and> want_position R D P (mx ! i) j} (mx ! i ! j))
     else set (collectFromFile r) = pick cs (length cs) (want_position R D P (mx ! i)) \<and> readViaPM r = [] \<and>
       mapReadFromPM r = NoDBMapArenaInit)"
  by (rule FillRow_ok[OF assms])

definition demo_row :: "Node_t list" where
  "demo_row = [init_node\<lparr>dataHit := CACHE_MISS, pmHit := CACHE_MISS, closestPMCache := Some 7, closestColumn := Some 0, distance := Some 1\<rparr>,
     init_node\<lparr>dataHit := CACHE_HIT, dataCache := Some 9\<rparr>]"

definition demo_bits :: "bool \<Rightarrow> NoDBBitmap_t" where
  "demo_bits b = \<lparr>bits = replicate 2 (Some (if b then 1 else 0)), size_bm = 2\<rparr>"

lemma demo_bits_ok: "bm_ok 2 (demo_bits b)" "bm_set (demo_bits b) = (if b then {0, 1} else {})"
  by (cases b; auto simp: bm_ok_def bm_set_def demo_bits_def less_2_cases_iff numeral_2_eq_2 nth_Cons')+

lemma demo_want:
  "want_position (demo_bits True) (demo_bits False) (demo_bits False) demo_row j \<longleftrightarrow> j = 0"
  "want_read (demo_bits True) demo_row j \<or> want_data (demo_bits False) demo_row j \<longleftrightarrow> j = 0"
  by (auto simp: want_position_def want_read_def want_data_def want_pos_def demo_bits_ok demo_row_def init_node_def)

theorem fill_row_sound_witness:
  "\<exists>r. FillRow [demo_row] 0 demo_rel [Some 1, Some 2] (demo_bits True) (demo_bits False) (demo_bits False) = Some r \<and>
     set (convert r) = {1} \<and> collectFromFile r = [] \<and> via_reaches r {demo_row ! 0} (demo_row ! 0)"
proof -
  have row: "row_ok demo_rel [1, 2] ([demo_row] ! 0)"
    by (auto simp: row_ok_def demo_row_def init_node_def less_Suc_eq)
  have natts: "NoDBRelationGetNumberColumns demo_rel = int 3" by (simp add: demo_rel_def NoDBRelationGetNumberColumns_def)
  have usable: "pm_usable demo_row" by (simp add: pm_usable_def demo_row_def)
  have pm: "\<forall>j < length [1, 2 :: int]. want_position (demo_bits True) (demo_bits False) (demo_bits False) demo_row j \<longrightarrow>
      node_pm_ok 3 (demo_row ! j)"
    unfolding demo_want by (simp add: node_pm_ok_def ncol_def) (simp add: demo_row_def)
  have S: "{demo_row ! j |j. j < length [1, 2 :: int] \<and> want_position (demo_bits True) (demo_bits False) (demo_bits False) demo_row j} = {demo_row ! 0}"
    by (simp add: demo_want)
  have P: "pick [1, 2] (length [1, 2 :: int]) (\<lambda>j. want_read (demo_bits True) demo_row j \<or> want_data (demo_bits False) demo_row j) = {1}"
    by (simp add: demo_want pick_def)
  obtain r where r: "FillRow [demo_row] 0 demo_rel (map Some [1, 2]) (demo_bits True) (demo_bits False) (demo_bits False) = Some r"
    "reply_columns demo_rel [1, 2] demo_row (demo_bits True) (demo_bits False) (demo_bits False) r"
    "collectFromFile r = []" "via_reaches r {demo_row ! 0} (demo_row ! 0)"
    using fill_row_sound[OF row _ natts, of "demo_bits True" "demo_bits False" "demo_bits False"] demo_bits_ok(1)[unfolded numeral_2_eq_2] usable pm
    by (auto simp: S demo_want)
  then show ?thesis using P by (intro exI[of _ r]) (simp add: reply_columns_def)
qed

end
