(* ===== verification/NoDB_Parse.thy ===== *)
theory NoDB_Parse
  imports NoDB_Strategy
begin

text \<open>
  Splitting a line of the raw file into fields, from
  \<open>src/postgresql-9.6.5/src/backend/noDB/NoDBExecutor.c\<close>: the full parse of a line in text and in CSV
  mode, which also records the position of every field, and the partial parses forward and backward
  from a known position.

  A line is the list of its bytes. A pointer into the line is an offset. \<open>field_strings\<close> holds for
  each column \<open>None\<close> while it has not been assigned, \<open>Some None\<close> for the NULL pointer and else the
  bytes of the string. The \<open>unsigned short\<close> fields of \<open>attributes\<close> are 16-bit words that are \<open>None\<close>
  until they are assigned. \<open>ereport(ERROR, ...)\<close> is the value \<open>Err\<close>.
\<close>

section \<open>Types\<close>

datatype copy_error = ExtraData | UnterminatedQuote | InvalidEncoding
  | LiteralCR | LiteralNL | MarkerMismatch | MarkerCorrupt

datatype 'a res = Val 'a | Err copy_error

record attr_t =
  a_ptr :: "16 word option"
  a_width :: "16 word option"

record field_t =
  f_val :: "byte list option"
  f_len :: nat
  f_found :: bool
  f_rest :: "byte list"

record line_state =
  field_strings :: "byte list option option list"
  attributes :: "attr_t list"

text \<open>The parameters of the format, fields of \<open>NoDBScanState_t\<close>.\<close>

record line_format =
  delimc :: byte
  quotec :: byte
  escapec :: byte
  null_print :: "byte list"
  nfields :: int
  lastfield :: int

definition set_ptr :: "attr_t list \<Rightarrow> int \<Rightarrow> 16 word \<Rightarrow> attr_t list option" where
  "set_ptr at i v = do { a \<leftarrow> arr_get at i; arr_set at i (a\<lparr>a_ptr := Some v\<rparr>) }"

definition upd_width :: "attr_t list \<Rightarrow> int \<Rightarrow> attr_t list option" where
  "upd_width at i =
     do {
       a \<leftarrow> arr_get at i;
       b \<leftarrow> arr_get at (i + 1);
       p \<leftarrow> a_ptr a;
       q \<leftarrow> a_ptr b;
       arr_set at i (a\<lparr>a_width := Some (q - p - 1)\<rparr>)
     }"

section \<open>Escapes of the text format\<close>

definition ISOCTAL :: "byte \<Rightarrow> bool" where "ISOCTAL c \<longleftrightarrow> 48 \<le> c \<and> c \<le> 55"

definition OCTVALUE :: "byte \<Rightarrow> nat" where "OCTVALUE c = unat c - 48"

definition isdigit :: "byte \<Rightarrow> bool" where "isdigit c \<longleftrightarrow> 48 \<le> c \<and> c \<le> 57"

definition isxdigit :: "byte \<Rightarrow> bool" where
  "isxdigit c \<longleftrightarrow> isdigit c \<or> (97 \<le> c \<and> c \<le> 102) \<or> (65 \<le> c \<and> c \<le> 70)"

definition tolower :: "byte \<Rightarrow> byte" where "tolower c = (if 65 \<le> c \<and> c \<le> 90 then c + 32 else c)"

definition GetDecimalFromHex :: "byte \<Rightarrow> int" where
  "GetDecimalFromHex hex = (if isdigit hex then sint hex - 48 else sint (tolower hex) - 97 + 10)"

definition IS_HIGHBIT_SET :: "byte \<Rightarrow> bool" where "IS_HIGHBIT_SET c \<longleftrightarrow> 128 \<le> c"

text \<open>
  The switch after a backslash. \<open>c\<close> is the character after it and \<open>cs\<close> what follows; the result is the
  character, the number of further characters consumed, what remains, and whether \<open>saw_non_ascii\<close> is
  set.
\<close>

definition octal_escape :: "byte \<Rightarrow> byte list \<Rightarrow> byte \<times> nat \<times> byte list \<times> bool" where
  "octal_escape c cs =
     (let (v, k, rest) =
        (case cs of
           [] \<Rightarrow> (OCTVALUE c, 0, [])
         | d # cs' \<Rightarrow>
             if ISOCTAL d then
               (let v = OCTVALUE c * 8 + OCTVALUE d in
                case cs' of
                  [] \<Rightarrow> (v, 1, [])
                | e # cs'' \<Rightarrow> if ISOCTAL e then (v * 8 + OCTVALUE e, 2, cs'') else (v, 1, cs'))
             else (OCTVALUE c, 0, cs));
        ch = (of_nat v :: byte) in
      (ch, k, rest, ch = 0 \<or> IS_HIGHBIT_SET ch))"

definition hex_escape :: "byte list \<Rightarrow> byte \<times> nat \<times> byte list \<times> bool" where
  "hex_escape cs =
     (case cs of
        [] \<Rightarrow> (120, 0, [], False)
      | h # cs' \<Rightarrow>
          if isxdigit h then
            (let (v, k, rest) =
               (case cs' of
                  [] \<Rightarrow> (GetDecimalFromHex h, 1, [])
                | h' # cs'' \<Rightarrow>
                    if isxdigit h' then (GetDecimalFromHex h * 16 + GetDecimalFromHex h', 2, cs'')
                    else (GetDecimalFromHex h, 1, cs'));
               ch = (word_of_int v :: byte) in
             (ch, k, rest, ch = 0 \<or> IS_HIGHBIT_SET ch))
          else (120, 0, cs, False))"

definition unescape :: "byte \<Rightarrow> byte list \<Rightarrow> byte \<times> nat \<times> byte list \<times> bool" where
  "unescape c cs =
     (if ISOCTAL c then octal_escape c cs
      else if c = 120 then hex_escape cs
      else (if c = 98 then 8 else if c = 102 then 12 else if c = 110 then 10 else if c = 114 then 13
            else if c = 116 then 9 else if c = 118 then 11 else c, 0, cs, False))"

lemma unescape_length: "unescape c cs = (ch, k, rest, na) \<Longrightarrow> length cs = k + length rest"
  by (auto simp: unescape_def octal_escape_def hex_escape_def Let_def split: if_splits list.splits prod.splits)

section \<open>Fields\<close>

text \<open>
  The scan of one field in text mode from \<open>cur\<close>, with the number of bytes passed, the output so far
  and \<open>saw_non_ascii\<close>. The result is the output, \<open>input_len\<close>, \<open>found_delim\<close>, the flag and the rest.
\<close>

function text_scan :: "byte \<Rightarrow> byte list \<Rightarrow> nat \<Rightarrow> byte list \<Rightarrow> bool \<Rightarrow> byte list \<times> nat \<times> bool \<times> bool \<times> byte list" where
  "text_scan d [] n out na = (out, n, False, na, [])"
| "text_scan d (c # cs) n out na =
     (if c = d then (out, n, True, na, cs)
      else if c = 92 then
        (case cs of
           [] \<Rightarrow> (out, n, False, na, [])
         | c' # cs' \<Rightarrow>
             (case unescape c' cs' of (ch, k, rest, f) \<Rightarrow> text_scan d rest (n + 2 + k) (out @ [ch]) (na \<or> f)))
      else text_scan d cs (n + 1) (out @ [c]) na)"
  by pat_completeness auto
termination
  by (relation "measure (\<lambda>(d, cs, n, out, na). length cs)") (auto dest: sym[THEN unescape_length])

text \<open>
  A text field with the test for the null marker. \<open>pg_verifymbstr\<close> depends on the encoding of the
  database and is a parameter: whether the string is valid.
\<close>

definition text_field :: "line_format \<Rightarrow> (byte list \<Rightarrow> bool) \<Rightarrow> byte list \<Rightarrow> field_t res" where
  "text_field fmt pg_verifymbstr cur =
     (case text_scan (delimc fmt) cur 0 [] False of (out, n, found, na, rest) \<Rightarrow>
        if na \<and> \<not> pg_verifymbstr out then Err InvalidEncoding
        else Val \<lparr>f_val = (if take n cur = null_print fmt then None else Some out), f_len = n,
                  f_found = found, f_rest = rest\<rparr>)"

text \<open>
  The scan of one field in CSV mode; \<open>inq\<close> tells which of the two inner loops runs. The result has
  \<open>saw_quote\<close> in place of \<open>saw_non_ascii\<close>.
\<close>

fun csv_scan ::
    "byte \<Rightarrow> byte \<Rightarrow> byte \<Rightarrow> byte list \<Rightarrow> bool \<Rightarrow> nat \<Rightarrow> byte list \<Rightarrow> bool \<Rightarrow>
     (byte list \<times> nat \<times> bool \<times> bool \<times> byte list) res" where
  "csv_scan d q e [] inq n out sq = (if inq then Err UnterminatedQuote else Val (out, n, False, sq, []))"
| "csv_scan d q e [c] inq n out sq =
     (if \<not> inq then
        if c = d then Val (out, n, True, sq, [])
        else if c = q then csv_scan d q e [] True (n + 1) out True
        else csv_scan d q e [] False (n + 1) (out @ [c]) sq
      else if c = q then csv_scan d q e [] False (n + 1) out sq
      else csv_scan d q e [] True (n + 1) (out @ [c]) sq)"
| "csv_scan d q e (c # c' # cs) inq n out sq =
     (if \<not> inq then
        if c = d then Val (out, n, True, sq, c' # cs)
        else if c = q then csv_scan d q e (c' # cs) True (n + 1) out True
        else csv_scan d q e (c' # cs) False (n + 1) (out @ [c]) sq
      else if c = e \<and> (c' = e \<or> c' = q) then csv_scan d q e cs True (n + 2) (out @ [c']) sq
      else if c = q then csv_scan d q e (c' # cs) False (n + 1) out sq
      else csv_scan d q e (c' # cs) True (n + 1) (out @ [c]) sq)"

definition csv_field :: "line_format \<Rightarrow> byte list \<Rightarrow> field_t res" where
  "csv_field fmt cur =
     (case csv_scan (delimc fmt) (quotec fmt) (escapec fmt) cur False 0 [] False of
        Err e \<Rightarrow> Err e
      | Val (out, n, found, sq, rest) \<Rightarrow>
          Val \<lparr>f_val = (if \<not> sq \<and> take n cur = null_print fmt then None else Some out), f_len = n,
               f_found = found, f_rest = rest\<rparr>)"

section \<open>Lines\<close>

text \<open>The outer loop over the fields, the same for both formats up to the scan of a field.\<close>

function read_fields ::
    "(byte list \<Rightarrow> field_t res) \<Rightarrow> line_format \<Rightarrow> int \<Rightarrow> byte list \<Rightarrow> nat \<Rightarrow> line_state \<Rightarrow> line_state res option" where
  "read_fields field fmt fieldno cur total_length st =
     (if fieldno \<ge> nfields fmt then Some (Err ExtraData)
      else (case field cur of
        Err e \<Rightarrow> Some (Err e)
      | Val f \<Rightarrow>
          do {
            fv \<leftarrow> arr_set (field_strings st) fieldno (Some (f_val f));
            let total_length = total_length + f_len f;
            at \<leftarrow> set_ptr (attributes st) (fieldno + 1) (of_nat (total_length + 1));
            at \<leftarrow> upd_width at fieldno;
            let st = st\<lparr>field_strings := fv, attributes := at\<rparr>;
            (if fieldno = lastfield fmt then Some (Val st)
             else if \<not> f_found f then Some (Val st)
             else read_fields field fmt (fieldno + 1) (f_rest f) (total_length + 1) st)
          }))"
  by pat_completeness auto
termination
  by (relation "measure (\<lambda>(field, fmt, n, cur, t, st). nat (nfields fmt - n))") auto

declare read_fields.simps [simp del]

definition NoDBCopyReadAttributesText ::
    "line_format \<Rightarrow> (byte list \<Rightarrow> bool) \<Rightarrow> byte list \<Rightarrow> line_state \<Rightarrow> line_state res option" where
  "NoDBCopyReadAttributesText fmt pg_verifymbstr line st =
     (if nfields fmt \<le> 0 then Some (if length line \<noteq> 0 then Err ExtraData else Val st)
      else read_fields (text_field fmt pg_verifymbstr) fmt 0 line 0 st)"

definition NoDBCopyReadAttributesCSV :: "line_format \<Rightarrow> byte list \<Rightarrow> line_state \<Rightarrow> line_state res option" where
  "NoDBCopyReadAttributesCSV fmt line st =
     (if nfields fmt \<le> 0 then Some (if length line \<noteq> 0 then Err ExtraData else Val st)
      else read_fields (csv_field fmt) fmt 0 line 0 st)"

section \<open>Partial parses\<close>

text \<open>
  The loop of \<open>parseLineForward\<close>: the rest of the line and its offset, \<open>how_many\<close>, \<open>attributeID\<close>,
  \<open>start_ptr\<close> and the attributes. The result has \<open>end_ptr\<close> last.
\<close>

function forward_loop ::
    "byte \<Rightarrow> byte list \<Rightarrow> nat \<Rightarrow> int \<Rightarrow> int \<Rightarrow> nat \<Rightarrow> attr_t list \<Rightarrow> (attr_t list \<times> int \<times> int \<times> nat \<times> nat) option" where
  "forward_loop d [] pos how_many attributeID start at = Some (at, how_many, attributeID, start, pos)"
| "forward_loop d (c # cs) pos how_many attributeID start at =
     do {
       (at, how_many, attributeID, start, stop) \<leftarrow>
         (if c = d then
            do {
              at' \<leftarrow> set_ptr at (attributeID + 1) (of_nat (pos + 1));
              Some (at', how_many - 1, attributeID + 1, if how_many - 1 = 0 then start else pos + 1, how_many - 1 = 0)
            }
          else Some (at, how_many, attributeID, start, False));
       (if stop then Some (at, how_many, attributeID, start, pos)
        else if c = 92 then
          (case cs of
             [] \<Rightarrow> Some (at, how_many, attributeID, start, pos)
           | c' # cs' \<Rightarrow>
               (case unescape c' cs' of (ch, k, rest, f) \<Rightarrow> forward_loop d rest (pos + 2 + k) how_many attributeID start at))
        else forward_loop d cs (pos + 1) how_many attributeID start at)
     }"
  by pat_completeness auto
termination
  by (relation "measure (\<lambda>(d, cs, p, h, a, s, at). length cs)") (auto dest: sym[THEN unescape_length])

definition parseLineForward ::
    "line_format \<Rightarrow> byte list \<Rightarrow> attr_t list \<Rightarrow> nat \<Rightarrow> int \<Rightarrow> int \<Rightarrow> (attr_t list \<times> nat) option" where
  "parseLineForward fmt line at cur how_many attributeID =
     do {
       (at, how_many, attributeID, start, stop) \<leftarrow> forward_loop (delimc fmt) (drop cur line) cur how_many attributeID cur at;
       at \<leftarrow> (if how_many > 0 then set_ptr at (attributeID + 1) (of_nat (length line + 1)) else Some at);
       let input_len = stop - start;
       Some (at, if take input_len (drop start line) = null_print fmt then 0 else input_len)
     }"

text \<open>
  The escape processing of the backward loop: from the character before the backslash, at offset
  \<open>cur + 1\<close>. Where the code tests \<open>cur_ptr < line_end_ptr\<close> before the second digit it reads before the
  start of the line.
\<close>

definition backward_digits :: "(byte \<Rightarrow> bool) \<Rightarrow> byte list \<Rightarrow> int \<Rightarrow> int option" where
  "backward_digits isdig line cur =
     (if cur \<ge> 0 then
        do {
          c \<leftarrow> arr_get line cur;
          (if isdig c then
             (if cur - 1 < 0 then do { c' \<leftarrow> arr_get line (cur - 1); Some (if isdig c' then cur - 2 else cur - 1) }
              else Some (cur - 1))
           else Some cur)
        }
      else Some cur)"

definition backward_escape :: "byte list \<Rightarrow> byte \<Rightarrow> int \<Rightarrow> int option" where
  "backward_escape line c cur =
     (if ISOCTAL c then backward_digits ISOCTAL line cur
      else if c = 120 then backward_digits isxdigit line cur
      else Some cur)"

lemma backward_escape_le: "backward_escape line c cur = Some cur' \<Longrightarrow> cur' \<le> cur"
  by (auto simp: backward_escape_def backward_digits_def split: if_splits Option.bind_splits)

function backward_loop ::
    "byte \<Rightarrow> byte list \<Rightarrow> int \<Rightarrow> int \<Rightarrow> int \<Rightarrow> attr_t list \<Rightarrow> (attr_t list \<times> int \<times> int \<times> int) option" where
  "backward_loop d line pos how_many attributeID at =
     (if pos < 0 then Some (at, how_many, attributeID, pos)
      else
        (case arr_get line pos of
           None \<Rightarrow> None
         | Some c \<Rightarrow>
             (case (if c = d then
                      map_option (\<lambda>at'. (at', how_many - 1, if how_many - 1 = 0 then attributeID else attributeID - 1, how_many - 1 = 0))
                        (set_ptr at attributeID (word_of_int (pos + 1)))
                    else Some (at, how_many, attributeID, False)) of
                None \<Rightarrow> None
              | Some (at, how_many, attributeID, stop) \<Rightarrow>
                  if stop then Some (at, how_many, attributeID, pos)
                  else if c = 92 then
                    (if pos - 1 < 0 then Some (at, how_many, attributeID, pos)
                     else
                       (case arr_get line (pos - 1) of
                          None \<Rightarrow> None
                        | Some c' \<Rightarrow>
                            (case backward_escape line c' (pos - 2) of
                               None \<Rightarrow> None
                             | Some cur \<Rightarrow> backward_loop d line cur how_many attributeID at)))
                  else backward_loop d line (pos - 1) how_many attributeID at)))"
  by pat_completeness auto
termination
  by (relation "measure (\<lambda>(d, line, pos, h, a, at). nat (pos + 1))") (auto dest: backward_escape_le)

declare backward_loop.simps [simp del]

definition parseLineBackward ::
    "line_format \<Rightarrow> byte list \<Rightarrow> attr_t list \<Rightarrow> int \<Rightarrow> int \<Rightarrow> int \<Rightarrow> (attr_t list \<times> int) option" where
  "parseLineBackward fmt line at cur how_many attributeID =
     do {
       (at, how_many, attributeID, stop) \<leftarrow> backward_loop (delimc fmt) line cur how_many attributeID at;
       at \<leftarrow> (if how_many > 0 then set_ptr at attributeID 0 else Some at);
       let input_len = cur - stop;
       (if input_len = int (length (null_print fmt)) \<and> null_print fmt \<noteq> [] \<and> stop < 0 then None
        else Some (at, if input_len = int (length (null_print fmt)) \<and> take (nat input_len) (drop (nat stop) line) = null_print fmt
                       then 0 else input_len))
     }"

text \<open>Positions around a column whose position and width are known.\<close>

definition upd_widths :: "attr_t list \<Rightarrow> int list \<Rightarrow> attr_t list option" where
  "upd_widths at js = foldM upd_width at js"

definition NoDBGetNextTupleViaPM :: "line_format \<Rightarrow> byte list \<Rightarrow> NoDBReadViaPM_t \<Rightarrow> attr_t list \<Rightarrow> attr_t list option" where
  "NoDBGetNextTupleViaPM fmt line via at =
     do {
       let which = via_col via;
       at \<leftarrow> (if forward via > 0 then
                do {
                  a \<leftarrow> arr_get at which;
                  p \<leftarrow> a_ptr a;
                  wd \<leftarrow> a_width a;
                  let start = unat p + unat wd;
                  at \<leftarrow> set_ptr at (which + 1) (of_nat (start + 1));
                  (at, r) \<leftarrow> parseLineForward fmt line at (start + 1) (forward via) (which + 1);
                  upd_widths at [which + 1..which + forward via]
                }
              else Some at);
       (if backward via < 0 then
          do {
            a \<leftarrow> arr_get at which;
            p \<leftarrow> a_ptr a;
            let stop = int (unat p) - 1;
            (at, r) \<leftarrow> parseLineBackward fmt line at (stop - 1) \<bar>backward via\<bar> (which - 1);
            upd_widths at (rev [which + backward via..which - 1])
          }
        else Some at)
     }"

section \<open>Values\<close>

text \<open>
  The input function of a column's type, called through \<open>FunctionCallInvoke\<close>, is a parameter from the
  column and the C string (up to its first NUL byte) to the datum.
\<close>

record value_state =
  dvalues :: "64 word option list"
  dnulls :: "bool option list"

definition cstring :: "byte list \<Rightarrow> byte list" where
  "cstring bs = takeWhile (\<lambda>b. b \<noteq> 0) bs"

definition set_value :: "int \<Rightarrow> 64 word \<Rightarrow> bool \<Rightarrow> value_state \<Rightarrow> value_state option" where
  "set_value i v n st =
     do { vs \<leftarrow> arr_set (dvalues st) i (Some v); ns \<leftarrow> arr_set (dnulls st) i (Some n); Some (st\<lparr>dvalues := vs, dnulls := ns\<rparr>) }"

definition NoDBGetValues ::
    "(int \<Rightarrow> byte list \<Rightarrow> 64 word) \<Rightarrow> byte list option option list \<Rightarrow> NoDBColVector_t \<Rightarrow> value_state \<Rightarrow> value_state option" where
  "NoDBGetValues input_fn fv cols st =
     foldM (\<lambda>st j. do {
         i \<leftarrow> NoDBColVectorGet cols (int j);
         o1 \<leftarrow> arr_get fv i;
         str \<leftarrow> o1;
         (case str of
            None \<Rightarrow> set_value i 0 True st
          | Some bs \<Rightarrow> set_value i (input_fn i (cstring bs)) False st)
       }) st [0..<nat (NoDBColVectorSize cols)]"

text \<open>
  With known positions the string is cut out of the line in place: a NUL byte is stored behind it.
  The buffer holds the line and its terminating NUL byte.
\<close>

definition NoDBGetValuesWithPM ::
    "(int \<Rightarrow> byte list \<Rightarrow> 64 word) \<Rightarrow> attr_t list \<Rightarrow> NoDBColVector_t \<Rightarrow> byte list \<times> value_state \<Rightarrow> (byte list \<times> value_state) option" where
  "NoDBGetValuesWithPM input_fn at cols buf_st =
     foldM (\<lambda>(buf, st) j. do {
         i \<leftarrow> NoDBColVectorGet cols (int j);
         a \<leftarrow> arr_get at i;
         p \<leftarrow> a_ptr a;
         bytesToRead \<leftarrow> a_width a;
         (if bytesToRead = 0 then None
          else do {
            buf \<leftarrow> arr_set buf (int (unat p) + int (unat bytesToRead)) 0;
            let str = cstring (drop (unat p) buf);
            st \<leftarrow> (if str = [92, 78] then set_value i 0 True st else set_value i (input_fn i str) False st);
            Some (buf, st)
          })
       }) buf_st [0..<nat (NoDBColVectorSize cols)]"

section \<open>Reading whole lines with known lengths\<close>

text \<open>
  How many bytes of the following lines fit into the buffer, from the line lengths of the end-of-line
  cache (C \<open>short\<close>, so signed). The loop variable is an \<open>int\<close>: a row it cannot hold is outside the
  defined behaviour.
\<close>

definition INT_MAX :: int where "INT_MAX = 2147483647"

fun bytes_to_read_loop :: "NoDBCache_t \<Rightarrow> nat list \<Rightarrow> int \<Rightarrow> int \<Rightarrow> int \<Rightarrow> (int \<times> int) option" where
  "bytes_to_read_loop eolCache [] availableBytes result tuplesRead = Some (result, tuplesRead)"
| "bytes_to_read_loop eolCache (i # is) availableBytes result tuplesRead =
     (if int i > INT_MAX then None
      else
        do {
          l \<leftarrow> NoDBCacheGetShortInt eolCache 0 (of_nat i);
          (if result + sint l > availableBytes then Some (result, tuplesRead)
           else bytes_to_read_loop eolCache is availableBytes (result + sint l) (tuplesRead + 1))
        })"

definition NoDBComputeBytesToRead :: "NoDBCache_t \<Rightarrow> nat \<Rightarrow> int \<Rightarrow> (int \<times> int) option" where
  "NoDBComputeBytesToRead eolCache currentTuple availableBytes =
     bytes_to_read_loop eolCache [currentTuple..<unat (NoDBCacheGetUsedRows eolCache)] availableBytes 0 0"

end
