(* ===== verification/NoDB_ExecInfo.thy ===== *)
theory NoDB_ExecInfo
  imports NoDB_EOLCache NoDB_Bitmap
begin

text \<open>
  The per-relation execution information of
  \<open>src/postgresql-9.6.5/src/backend/noDB/NoDBExecInfo.c\<close>: which columns are cached, the write locks of
  the data caches and of the positional map, the integrity-check flags and the statistics, and the
  policies that decide which columns a query may write.

  An entry is addressed by its index in the vector. The relation of an entry is a pointer into the
  heap of theory \<open>NoDB_EOLCache\<close>. The \<open>stat\<close> system call is a parameter that gives the size of a file.
\<close>

record NoDBExecInfo_t =
  budgetPM :: int
  budgetCache :: int
  colsPM :: NoDBBitmap_t
  colsCache :: NoDBBitmap_t
  locks_size :: int
  CacheLock :: "int list"
  PMLock :: "int list"
  firstTime :: bool
  disable_need_transcoding :: bool
  statsCollected :: NoDBBitmap_t
  ei_blocks :: "32 word"
  ei_rows :: NoDBRow_t
  ei_rel :: nat
  ei_filename :: string

record NoDBExecInfoVector_t =
  eiv_size :: nat
  eiv_used :: nat
  eiv_vector :: "NoDBExecInfo_t option list"

definition FILENAME_SIZE :: nat where "FILENAME_SIZE = 256"

definition BLCKSZ :: int where "BLCKSZ = 8192"

section \<open>Creation and lookup\<close>

definition NoDBExecInfoInit ::
    "nodb_heap \<Rightarrow> NoDBExecInfoVector_t option \<Rightarrow> nat \<Rightarrow> string \<Rightarrow> int \<Rightarrow> int \<Rightarrow>
     (NoDBExecInfoVector_t \<times> nat) option" where
  "NoDBExecInfoInit h ExecInfo relp filename bPM bCache =
     do {
       rel \<leftarrow> h_rels h relp;
       let natts = NoDBRelationGetNumberColumns rel;
       let ei = (case ExecInfo of
            None \<Rightarrow> \<lparr>eiv_size = NELLEM_ALLOC, eiv_used = 0, eiv_vector = replicate NELLEM_ALLOC None\<rparr>
          | Some ei \<Rightarrow> ei);
       let i = eiv_used ei;
       let ei = (if i = eiv_size ei
                 then ei\<lparr>eiv_size := eiv_size ei + NELLEM_ALLOC,
                         eiv_vector := realloc_array (eiv_vector ei) (eiv_size ei + NELLEM_ALLOC)\<rparr>
                 else ei);
       cc \<leftarrow> NoDBBitmapInit natts;
       cc \<leftarrow> NoDBBitmapClearAll cc;
       pm \<leftarrow> NoDBBitmapInit natts;
       pm \<leftarrow> NoDBBitmapClearAll pm;
       sc \<leftarrow> NoDBBitmapInit natts;
       sc \<leftarrow> NoDBBitmapClearAll sc;
       (if length filename < FILENAME_SIZE then
          do {
            v \<leftarrow> arr_set (eiv_vector ei) (int i)
                (Some \<lparr>budgetPM = bPM, budgetCache = bCache, colsPM = pm, colsCache = cc, locks_size = natts,
                  CacheLock = replicate (nat natts) 0, PMLock = replicate (nat natts) 0,
                  firstTime = True, disable_need_transcoding = False, statsCollected = sc,
                  ei_blocks = 0, ei_rows = 0, ei_rel = relp, ei_filename = filename\<rparr>);
            Some (ei\<lparr>eiv_vector := v, eiv_used := eiv_used ei + 1\<rparr>, i)
          }
        else None)
     }"

fun GetExecInfo_loop :: "nodb_heap \<Rightarrow> NoDBExecInfo_t option list \<Rightarrow> nat list \<Rightarrow> string \<Rightarrow> nat option option" where
  "GetExecInfo_loop h v [] name = Some None"
| "GetExecInfo_loop h v (i # is) name =
     do {
       oe \<leftarrow> arr_get v (int i);
       e \<leftarrow> oe;
       rel \<leftarrow> h_rels h (ei_rel e);
       (if rel_name rel = name then Some (Some i) else GetExecInfo_loop h v is name)
     }"

definition NoDBGetExecInfo :: "nodb_heap \<Rightarrow> NoDBExecInfoVector_t option \<Rightarrow> string \<Rightarrow> nat option option" where
  "NoDBGetExecInfo h ExecInfo name =
     (case ExecInfo of
        None \<Rightarrow> Some None
      | Some ei \<Rightarrow> GetExecInfo_loop h (eiv_vector ei) [0..<eiv_used ei] name)"

section \<open>Write policies and locks\<close>

definition NoDBNothingPolicy :: NoDBColVector_t where
  "NoDBNothingPolicy = NoDBColVectorInit 0"

text \<open>
  The two loops of the aggressive policies: count the unlocked columns of the query, then collect
  and lock them. \<open>locks\<close> is \<open>CacheLock\<close> or \<open>PMLock\<close>, \<open>cached\<close> the bitmap of the columns with a cache.
\<close>

definition count_unlocked :: "int list \<Rightarrow> NoDBColVector_t \<Rightarrow> int option" where
  "count_unlocked locks queryAtts =
     foldM (\<lambda>counter i. do {
         column \<leftarrow> NoDBColVectorGet queryAtts (int i);
         l \<leftarrow> arr_get locks column;
         Some (if l = 0 then counter + 1 else counter)
       }) 0 [0..<nat (NoDBColVectorSize queryAtts)]"

definition lock_columns ::
    "int list \<Rightarrow> NoDBBitmap_t \<Rightarrow> NoDBColVector_t \<Rightarrow> NoDBColVector_t \<Rightarrow>
     (int list \<times> NoDBBitmap_t \<times> NoDBColVector_t \<times> int) option" where
  "lock_columns locks cached queryAtts writeCols =
     foldM (\<lambda>(locks, cached, wc, j) i. do {
         column \<leftarrow> NoDBColVectorGet queryAtts (int i);
         l \<leftarrow> arr_get locks column;
         (if l = 0 then do {
            wc' \<leftarrow> NoDBColVectorSet wc j column;
            cached' \<leftarrow> NoDBBitmapSet cached column;
            locks' \<leftarrow> arr_set locks column 1;
            Some (locks', cached', wc', j + 1)
          } else Some (locks, cached, wc, j))
       }) (locks, cached, writeCols, 0) [0..<nat (NoDBColVectorSize queryAtts)]"

definition NoDBAggressiveCachePolicy ::
    "NoDBExecInfo_t \<Rightarrow> NoDBColVector_t \<Rightarrow> (NoDBExecInfo_t \<times> NoDBColVector_t) option" where
  "NoDBAggressiveCachePolicy e queryAtts =
     do {
       counter \<leftarrow> count_unlocked (CacheLock e) queryAtts;
       (locks, cached, wc, j) \<leftarrow> lock_columns (CacheLock e) (colsCache e) queryAtts (NoDBColVectorInit counter);
       Some (e\<lparr>CacheLock := locks, colsCache := cached\<rparr>, wc)
     }"

definition NoDBAggressivePMPolicy ::
    "NoDBExecInfo_t \<Rightarrow> NoDBColVector_t \<Rightarrow> (NoDBExecInfo_t \<times> NoDBColVector_t) option" where
  "NoDBAggressivePMPolicy e queryAtts =
     do {
       counter \<leftarrow> count_unlocked (PMLock e) queryAtts;
       (locks, cached, wc, j) \<leftarrow> lock_columns (PMLock e) (colsPM e) queryAtts (NoDBColVectorInit counter);
       Some (e\<lparr>PMLock := locks, colsPM := cached\<rparr>, wc)
     }"

definition NoDBExecIntegrityCheckCompleted :: "NoDBExecInfo_t \<Rightarrow> NoDBExecInfo_t" where
  "NoDBExecIntegrityCheckCompleted e = e\<lparr>firstTime := False, disable_need_transcoding := True\<rparr>"

definition release_locks :: "int list \<Rightarrow> NoDBColVector_t \<Rightarrow> (int list \<times> int) option" where
  "release_locks locks queryAtts =
     foldM (\<lambda>(locks, changed) i. do {
         column \<leftarrow> NoDBColVectorGet queryAtts (int i);
         l \<leftarrow> arr_get locks column;
         locks' \<leftarrow> arr_set locks column 0;
         Some (locks', if l \<noteq> 0 then 1 else changed)
       }) (locks, 0) [0..<nat (NoDBColVectorSize queryAtts)]"

definition NoDBExecReleaseCacheLocks ::
    "NoDBExecInfo_t \<Rightarrow> NoDBColVector_t \<Rightarrow> (NoDBExecInfo_t \<times> int) option" where
  "NoDBExecReleaseCacheLocks e queryAtts =
     do { (locks, changed) \<leftarrow> release_locks (CacheLock e) queryAtts; Some (e\<lparr>CacheLock := locks\<rparr>, changed) }"

definition NoDBExecReleasePMLocks ::
    "NoDBExecInfo_t \<Rightarrow> NoDBColVector_t \<Rightarrow> (NoDBExecInfo_t \<times> int) option" where
  "NoDBExecReleasePMLocks e queryAtts =
     do { (locks, changed) \<leftarrow> release_locks (PMLock e) queryAtts; Some (e\<lparr>PMLock := locks\<rparr>, changed) }"

definition NoDBGetNeedTranscoding :: "NoDBExecInfo_t \<Rightarrow> bool" where
  "NoDBGetNeedTranscoding e = disable_need_transcoding e"

section \<open>Statistics\<close>

definition NoDBComputeNumberOfBlocks :: "(string \<Rightarrow> int option) \<Rightarrow> string \<Rightarrow> 32 word option" where
  "NoDBComputeNumberOfBlocks stat filename = map_option (\<lambda>sz. word_of_int (sz div BLCKSZ)) (stat filename)"

definition NoDBExecSetNumberOffBlocks :: "(string \<Rightarrow> int option) \<Rightarrow> NoDBExecInfo_t \<Rightarrow> NoDBExecInfo_t option" where
  "NoDBExecSetNumberOffBlocks stat e =
     do {
       st_size \<leftarrow> stat (ei_filename e);
       let nBlocks = (word_of_int (st_size div BLCKSZ) :: 32 word);
       Some (e\<lparr>ei_blocks := (if nBlocks = 0 then 1 else nBlocks)\<rparr>)
     }"

definition NoDBExecSetNumberOffRows :: "eol_state \<Rightarrow> NoDBExecInfo_t \<Rightarrow> NoDBExecInfo_t option" where
  "NoDBExecSetNumberOffRows st e =
     do {
       rel \<leftarrow> h_rels (eol_heap st) (ei_rel e);
       r \<leftarrow> NoDBGetEOLCache st (rel_name rel);
       (case r of
          None \<Rightarrow> Some (e\<lparr>ei_rows := 100\<rparr>)
        | Some p \<Rightarrow> do { c \<leftarrow> h_caches (eol_heap st) p; Some (e\<lparr>ei_rows := NoDBCacheGetUsedRows c\<rparr>) })
     }"

text \<open>\<open>getInputFilename\<close> (of \<open>snooping/common.c\<close>) is given as the file name or NULL.\<close>

definition NoDBExecGetNumberOfBlocks ::
    "(string \<Rightarrow> int option) \<Rightarrow> NoDBExecInfo_t option \<Rightarrow> string option \<Rightarrow> 32 word option" where
  "NoDBExecGetNumberOfBlocks stat oe fname =
     (case oe of
        None \<Rightarrow> (case fname of Some file \<Rightarrow> NoDBComputeNumberOfBlocks stat file | None \<Rightarrow> Some 0)
      | Some e \<Rightarrow> Some (ei_blocks e))"

definition NoDBExecGetNumberOfRows :: "NoDBExecInfo_t option \<Rightarrow> 32 word" where
  "NoDBExecGetNumberOfRows oe = (case oe of None \<Rightarrow> 0 | Some e \<Rightarrow> ucast (ei_rows e))"

section \<open>Locks as sets of columns\<close>

definition unlocked :: "int list \<Rightarrow> NoDBCol_t list \<Rightarrow> NoDBCol_t list" where
  "unlocked locks cs = filter (\<lambda>c. locks ! nat c = 0) cs"

definition lock_all :: "int list \<Rightarrow> NoDBCol_t list \<Rightarrow> int list" where
  "lock_all locks cs = foldl (\<lambda>l c. if l ! nat c = 0 then l[nat c := 1] else l) locks cs"

definition atts_ok :: "nat \<Rightarrow> NoDBCol_t list \<Rightarrow> bool" where
  "atts_ok n cs \<longleftrightarrow> distinct cs \<and> (\<forall>c \<in> set cs. 0 \<le> c \<and> nat c < n)"

definition lock_inv :: "NoDBExecInfo_t \<Rightarrow> nat \<Rightarrow> bool" where
  "lock_inv e n \<longleftrightarrow> length (CacheLock e) = n \<and> length (PMLock e) = n \<and> bm_ok n (colsCache e) \<and> bm_ok n (colsPM e)"

lemma count_unlocked_eq:
  assumes "\<forall>c \<in> set cs. 0 \<le> c \<and> nat c < length locks"
  shows "count_unlocked locks (map Some cs) = Some (int (length (unlocked locks cs)))"
proof -
  have "count_unlocked locks (map Some cs) =
      foldM (\<lambda>counter c. do { l \<leftarrow> arr_get locks c; Some (if l = 0 then counter + 1 else counter) }) 0 cs"
    unfolding count_unlocked_def vector_size length_map nat_int by (rule foldM_index) simp
  also have "\<dots> = Some (int (length (unlocked locks cs)))"
    using assms by (induction cs rule: rev_induct) (simp_all add: foldM_snoc unlocked_def arr_get_in)
  finally show ?thesis .
qed

lemma lock_columns_eq:
  assumes "atts_ok (length locks) cs" "bm_ok (length locks) cached"
  shows "\<exists>locks' cached'. lock_columns locks cached (map Some cs) (replicate (length (unlocked locks cs)) None) =
      Some (locks', cached', map Some (unlocked locks cs), int (length (unlocked locks cs))) \<and>
    length locks' = length locks \<and> (\<forall>c \<in> set cs. locks' ! nat c \<noteq> 0) \<and>
    (\<forall>i < length locks. int i \<notin> set cs \<longrightarrow> locks' ! i = locks ! i) \<and>
    bm_ok (length locks) cached' \<and> bm_set cached' = bm_set cached \<union> nat ` set (unlocked locks cs)"
proof -
  define ws where "ws = unlocked locks cs"
  let ?f = "\<lambda>(locks, cached, wc, j) column. do {
         l \<leftarrow> arr_get locks column;
         (if l = 0 then do {
            wc' \<leftarrow> NoDBColVectorSet wc j column;
            cached' \<leftarrow> NoDBBitmapSet cached column;
            locks' \<leftarrow> arr_set locks column 1;
            Some (locks', cached', wc', j + 1)
          } else Some (locks, cached, wc, j))
       }"
  let ?P = "\<lambda>i (l, b, wc, j). length l = length locks \<and> bm_ok (length locks) b \<and>
      (\<forall>c \<in> set (take i cs). l ! nat c \<noteq> 0) \<and> (\<forall>k < length locks. int k \<notin> set (take i cs) \<longrightarrow> l ! k = locks ! k) \<and>
      bm_set b = bm_set cached \<union> nat ` set (unlocked locks (take i cs)) \<and>
      j = int (length (unlocked locks (take i cs))) \<and>
      wc = map Some (unlocked locks (take i cs)) @ replicate (length ws - length (unlocked locks (take i cs))) None"
  have "\<exists>t. foldM ?f (locks, cached, replicate (length ws) None, 0) cs = Some t \<and> ?P (length cs) t"
  proof (rule foldM_rule)
    show "?P 0 (locks, cached, replicate (length ws) None, 0)" using assms by (simp add: unlocked_def)
    fix i t assume i: "i < length cs" and P: "?P i t"
    obtain l b wc j where t: "t = (l, b, wc, j)" by (cases t) auto
    let ?c = "cs ! i" and ?u = "unlocked locks (take i cs)"
    have c: "0 \<le> ?c" "nat ?c < length locks" "?c \<notin> set (take i cs)"
      using assms(1) i nth_mem[OF i] unfolding atts_ok_def
      by (blast, blast, auto simp: in_set_conv_nth nth_eq_iff_index_eq)
    have old: "l ! nat ?c = locks ! nat ?c" using P t c by simp
    have tk: "take (Suc i) cs = take i cs @ [?c]" using i by (rule take_Suc_conv_app_nth)
    show "\<exists>t'. ?f t ?c = Some t' \<and> ?P (Suc i) t'"
    proof (cases "locks ! nat ?c = 0")
      case False
      then have "unlocked locks (take (Suc i) cs) = ?u" by (simp add: unlocked_def tk)
      moreover have "?f t ?c = Some t" using False old P t c by (simp add: arr_get_in)
      ultimately show ?thesis using P t tk old False by auto
    next
      case True
      have u: "unlocked locks (take (Suc i) cs) = ?u @ [?c]" using True by (simp add: unlocked_def tk)
      have "ws = unlocked locks (take (Suc i) cs) @ unlocked locks (drop (Suc i) cs)"
        by (metis append_take_drop_id filter_append unlocked_def ws_def)
      then have lt: "length ?u < length ws" using u by simp
      obtain b' where b': "NoDBBitmapSet b (int (nat ?c)) = Some b'" "bm_ok (length locks) b'" "bm_set b' = insert (nat ?c) (bm_set b)"
        using NoDBBitmapSet_ok[of "length locks" b "nat ?c"] P t c by auto
      have wc: "NoDBColVectorSet wc j ?c = Some (map Some (?u @ [?c]) @ replicate (length ws - length (?u @ [?c])) None)"
        using P t lt by (auto simp: NoDBColVectorSet_def list_update_append Cons_replicate_eq Suc_diff_Suc[symmetric])
      have "?f t ?c = Some (l[nat ?c := 1], b', map Some (?u @ [?c]) @ replicate (length ws - length (?u @ [?c])) None, j + 1)"
        using True old P t c b' wc by (simp add: arr_get_in arr_set_in)
      moreover have "?P (Suc i) (l[nat ?c := 1], b', map Some (?u @ [?c]) @ replicate (length ws - length (?u @ [?c])) None, j + 1)"
        using P t b' c u tk by (auto simp: nth_list_update)
      ultimately show ?thesis by blast
    qed
  qed
  then obtain l b where r: "foldM ?f (locks, cached, replicate (length ws) None, 0) cs = Some (l, b, map Some ws, int (length ws))"
    "length l = length locks" "bm_ok (length locks) b" "\<forall>c \<in> set cs. l ! nat c \<noteq> 0"
    "\<forall>k < length locks. int k \<notin> set cs \<longrightarrow> l ! k = locks ! k" "bm_set b = bm_set cached \<union> nat ` set ws"
    by (auto simp: ws_def)
  have "lock_columns locks cached (map Some cs) (replicate (length ws) None) = foldM ?f (locks, cached, replicate (length ws) None, 0) cs"
    unfolding lock_columns_def vector_size length_map nat_int by (rule foldM_index) (simp split: prod.splits)
  then show ?thesis using r unfolding ws_def[symmetric] by (intro exI[of _ l] exI[of _ b]) simp
qed

lemma release_locks_eq:
  assumes "atts_ok (length locks) cs"
  shows "\<exists>locks'. release_locks locks (map Some cs) =
      Some (locks', if \<exists>c \<in> set cs. locks ! nat c \<noteq> 0 then 1 else 0) \<and>
    length locks' = length locks \<and>
    (\<forall>i < length locks. locks' ! i = (if int i \<in> set cs then 0 else locks ! i))"
proof -
  let ?f = "\<lambda>(locks, changed) column. do {
         l \<leftarrow> arr_get locks column;
         locks' \<leftarrow> arr_set locks column 0;
         Some (locks', if l \<noteq> 0 then (1 :: int) else changed)
       }"
  have "release_locks locks (map Some cs) = foldM ?f (locks, 0) cs"
    unfolding release_locks_def vector_size length_map nat_int by (rule foldM_index) (simp split: prod.splits)
  moreover have "\<exists>locks'. foldM ?f (locks, 0) cs = Some (locks', if \<exists>c \<in> set cs. locks ! nat c \<noteq> 0 then 1 else 0) \<and>
    length locks' = length locks \<and> (\<forall>i < length locks. locks' ! i = (if int i \<in> set cs then 0 else locks ! i))"
    using assms
  proof (induction cs rule: rev_induct)
    case (snoc c cs)
    then obtain l where l: "foldM ?f (locks, 0) cs = Some (l, if \<exists>c \<in> set cs. locks ! nat c \<noteq> 0 then 1 else 0)"
      "length l = length locks" "\<forall>i < length locks. l ! i = (if int i \<in> set cs then 0 else locks ! i)"
      by (auto simp: atts_ok_def)
    have c: "0 \<le> c" "nat c < length locks" "c \<notin> set cs" using snoc.prems by (auto simp: atts_ok_def)
    have old: "l ! nat c = locks ! nat c" using l(3) c by simp
    show ?case
      using l c old by (intro exI[of _ "l[nat c := 0]"]) (auto simp: foldM_snoc arr_get_in arr_set_in nth_list_update)
  qed simp
  ultimately show ?thesis by simp
qed

section \<open>The contract of a write policy\<close>

text \<open>
  Both aggressive policies promise the same: hand out the columns of the query that are not locked,
  in order, and lock all of them; releasing unlocks the given columns and tells whether any was
  locked. What follows for two queries is proved once.
\<close>

locale write_policy =
  fixes policy :: "'e \<Rightarrow> NoDBColVector_t \<Rightarrow> ('e \<times> NoDBColVector_t) option"
    and release :: "'e \<Rightarrow> NoDBColVector_t \<Rightarrow> ('e \<times> int) option"
    and locked :: "'e \<Rightarrow> NoDBCol_t set"
    and ok :: "nat \<Rightarrow> 'e \<Rightarrow> bool"
  assumes policy_spec: "ok n e \<Longrightarrow> atts_ok n cs \<Longrightarrow>
      \<exists>e'. policy e (map Some cs) = Some (e', map Some (filter (\<lambda>c. c \<notin> locked e) cs)) \<and> ok n e' \<and>
        locked e' = locked e \<union> set cs"
    and release_spec: "ok n e \<Longrightarrow> atts_ok n cs \<Longrightarrow>
      \<exists>e'. release e (map Some cs) = Some (e', if set cs \<inter> locked e \<noteq> {} then 1 else 0) \<and> ok n e' \<and>
        locked e' = locked e - set cs"
begin

lemma exclusive:
  assumes "ok n e" "atts_ok n cs" "atts_ok n ds"
  shows "\<exists>e1 e2 ws vs. policy e (map Some cs) = Some (e1, map Some ws) \<and> policy e1 (map Some ds) = Some (e2, map Some vs) \<and>
    ok n e2 \<and> set ws \<inter> set vs = {} \<and> set cs \<inter> set vs = {} \<and> set ws = set cs - locked e \<and>
    set vs = set ds - (locked e \<union> set cs)"
proof -
  obtain e1 where e1: "policy e (map Some cs) = Some (e1, map Some (filter (\<lambda>c. c \<notin> locked e) cs))" "ok n e1"
    "locked e1 = locked e \<union> set cs" using policy_spec[OF assms(1,2)] by blast
  obtain e2 where e2: "policy e1 (map Some ds) = Some (e2, map Some (filter (\<lambda>c. c \<notin> locked e1) ds))" "ok n e2"
    using policy_spec[OF e1(2) assms(3)] by blast
  have ws: "set (filter (\<lambda>c. c \<notin> locked e) cs) = set cs - locked e" by (simp add: set_diff_eq)
  have vs: "set (filter (\<lambda>c. c \<notin> locked e1) ds) = set ds - (locked e \<union> set cs)"
    by (simp add: set_diff_eq e1(3))
  show ?thesis
    by (rule exI[of _ e1], rule exI[of _ e2], rule exI[of _ "filter (\<lambda>c. c \<notin> locked e) cs"],
        rule exI[of _ "filter (\<lambda>c. c \<notin> locked e1) ds"]) (simp only: e1(1) e2 ws vs, blast)
qed

lemma reacquire:
  assumes "ok n e" "atts_ok n cs" "set cs \<inter> locked e = {}"
  shows "\<exists>e1 e2 e3. policy e (map Some cs) = Some (e1, map Some cs) \<and>
    release e1 (map Some cs) = Some (e2, if cs = [] then 0 else 1) \<and> locked e2 = locked e \<and>
    policy e2 (map Some cs) = Some (e3, map Some cs) \<and> ok n e3"
proof -
  have f: "filter (\<lambda>c. c \<notin> L) cs = cs" if "set cs \<inter> L = {}" for L using that by (auto simp: filter_id_conv)
  obtain e1 where e1: "policy e (map Some cs) = Some (e1, map Some cs)" "ok n e1" "locked e1 = locked e \<union> set cs"
    using policy_spec[OF assms(1,2)] f[OF assms(3)] by auto
  obtain e2 where e2: "release e1 (map Some cs) = Some (e2, if set cs \<inter> locked e1 \<noteq> {} then 1 else 0)" "ok n e2"
    "locked e2 = locked e1 - set cs" using release_spec[OF e1(2) assms(2)] by blast
  have l2: "locked e2 = locked e" using e1(3) e2(3) assms(3) by blast
  obtain e3 where e3: "policy e2 (map Some cs) = Some (e3, map Some cs)" "ok n e3"
    using policy_spec[OF e2(2) assms(2)] f[OF assms(3)] l2 by auto
  moreover have "(if set cs \<inter> locked e1 \<noteq> {} then 1 else 0 :: int) = (if cs = [] then 0 else 1)"
    using e1(3) by (cases cs) auto
  ultimately show ?thesis using e1(1) e2(1) l2 by (intro exI[of _ e1] exI[of _ e2] exI[of _ e3]) simp
qed

end

definition locked_cols :: "int list \<Rightarrow> NoDBCol_t set" where
  "locked_cols l = {c. 0 \<le> c \<and> nat c < length l \<and> l ! nat c \<noteq> 0}"

lemma unlocked_filter: "\<forall>c \<in> set cs. 0 \<le> c \<and> nat c < length l \<Longrightarrow> unlocked l cs = filter (\<lambda>c. c \<notin> locked_cols l) cs"
  by (auto simp: unlocked_def locked_cols_def intro!: filter_cong)

lemma policy_loops:
  assumes "atts_ok (length locks) cs" "bm_ok (length locks) cached"
  shows "\<exists>locks' cached' j. count_unlocked locks (map Some cs) = Some (int (length (unlocked locks cs))) \<and>
    lock_columns locks cached (map Some cs) (NoDBColVectorInit (int (length (unlocked locks cs)))) =
      Some (locks', cached', map Some (filter (\<lambda>c. c \<notin> locked_cols locks) cs), j) \<and>
    length locks' = length locks \<and> bm_ok (length locks) cached' \<and> locked_cols locks' = locked_cols locks \<union> set cs"
proof -
  have rng: "\<forall>c \<in> set cs. 0 \<le> c \<and> nat c < length locks" using assms(1) by (simp add: atts_ok_def)
  have init: "NoDBColVectorInit (int (length (unlocked locks cs))) = replicate (length (unlocked locks cs)) None"
    by (simp add: NoDBColVectorInit_def)
  obtain l b where lb: "lock_columns locks cached (map Some cs) (replicate (length (unlocked locks cs)) None) =
      Some (l, b, map Some (unlocked locks cs), int (length (unlocked locks cs)))"
    "length l = length locks" "\<forall>c \<in> set cs. l ! nat c \<noteq> 0"
    "\<forall>i < length locks. int i \<notin> set cs \<longrightarrow> l ! i = locks ! i" "bm_ok (length locks) b"
    using lock_columns_eq[OF assms] by blast
  have "locked_cols l = locked_cols locks \<union> set cs"
  proof (intro set_eqI)
    fix c
    show "c \<in> locked_cols l \<longleftrightarrow> c \<in> locked_cols locks \<union> set cs"
      using lb(2,3) rng lb(4)[rule_format, of "nat c"] by (cases "c \<in> set cs") (auto simp: locked_cols_def)
  qed
  then show ?thesis
    unfolding init using lb count_unlocked_eq[OF rng] unlocked_filter[OF rng] by auto
qed

lemma release_loop:
  assumes "atts_ok (length locks) cs"
  shows "\<exists>locks'. release_locks locks (map Some cs) =
      Some (locks', if set cs \<inter> locked_cols locks \<noteq> {} then 1 else 0) \<and>
    length locks' = length locks \<and> locked_cols locks' = locked_cols locks - set cs"
proof -
  obtain l where l: "release_locks locks (map Some cs) = Some (l, if \<exists>c \<in> set cs. locks ! nat c \<noteq> 0 then 1 else 0)"
    "length l = length locks" "\<forall>i < length locks. l ! i = (if int i \<in> set cs then 0 else locks ! i)"
    using release_locks_eq[OF assms] by blast
  have "(\<exists>c \<in> set cs. locks ! nat c \<noteq> 0) \<longleftrightarrow> set cs \<inter> locked_cols locks \<noteq> {}"
    using assms by (auto simp: atts_ok_def locked_cols_def)
  moreover have "locked_cols l = locked_cols locks - set cs"
    using l(2,3) by (auto simp: locked_cols_def split: if_splits)
  ultimately show ?thesis using l(1,2) by (intro exI[of _ l]) simp
qed

interpretation cache_policy: write_policy NoDBAggressiveCachePolicy NoDBExecReleaseCacheLocks "\<lambda>e. locked_cols (CacheLock e)" "\<lambda>n e. lock_inv e n"
proof
  fix n e cs assume inv: "lock_inv e n" and cs: "atts_ok n cs"
  have c: "atts_ok (length (CacheLock e)) cs" "bm_ok (length (CacheLock e)) (colsCache e)"
    using inv cs by (simp_all add: lock_inv_def)
  obtain l b j where p: "count_unlocked (CacheLock e) (map Some cs) = Some (int (length (unlocked (CacheLock e) cs)))"
    "lock_columns (CacheLock e) (colsCache e) (map Some cs) (NoDBColVectorInit (int (length (unlocked (CacheLock e) cs)))) =
      Some (l, b, map Some (filter (\<lambda>c. c \<notin> locked_cols (CacheLock e)) cs), j)"
    "length l = length (CacheLock e)" "bm_ok (length (CacheLock e)) b" "locked_cols l = locked_cols (CacheLock e) \<union> set cs"
    using policy_loops[OF c] by blast
  show "\<exists>e'. NoDBAggressiveCachePolicy e (map Some cs) = Some (e', map Some (filter (\<lambda>c. c \<notin> locked_cols (CacheLock e)) cs)) \<and>
      lock_inv e' n \<and> locked_cols (CacheLock e') = locked_cols (CacheLock e) \<union> set cs"
    by (intro exI[of _ "e\<lparr>CacheLock := l, colsCache := b\<rparr>"]) (use inv p in \<open>simp add: NoDBAggressiveCachePolicy_def lock_inv_def\<close>)
  obtain l where l: "release_locks (CacheLock e) (map Some cs) = Some (l, if set cs \<inter> locked_cols (CacheLock e) \<noteq> {} then 1 else 0)"
    "length l = length (CacheLock e)" "locked_cols l = locked_cols (CacheLock e) - set cs"
    using release_loop[OF c(1)] by blast
  show "\<exists>e'. NoDBExecReleaseCacheLocks e (map Some cs) = Some (e', if set cs \<inter> locked_cols (CacheLock e) \<noteq> {} then 1 else 0) \<and>
      lock_inv e' n \<and> locked_cols (CacheLock e') = locked_cols (CacheLock e) - set cs"
    by (intro exI[of _ "e\<lparr>CacheLock := l\<rparr>"]) (use inv l in \<open>simp add: NoDBExecReleaseCacheLocks_def lock_inv_def\<close>)
qed

interpretation pm_policy: write_policy NoDBAggressivePMPolicy NoDBExecReleasePMLocks "\<lambda>e. locked_cols (PMLock e)" "\<lambda>n e. lock_inv e n"
proof
  fix n e cs assume inv: "lock_inv e n" and cs: "atts_ok n cs"
  have c: "atts_ok (length (PMLock e)) cs" "bm_ok (length (PMLock e)) (colsPM e)"
    using inv cs by (simp_all add: lock_inv_def)
  obtain l b j where p: "count_unlocked (PMLock e) (map Some cs) = Some (int (length (unlocked (PMLock e) cs)))"
    "lock_columns (PMLock e) (colsPM e) (map Some cs) (NoDBColVectorInit (int (length (unlocked (PMLock e) cs)))) =
      Some (l, b, map Some (filter (\<lambda>c. c \<notin> locked_cols (PMLock e)) cs), j)"
    "length l = length (PMLock e)" "bm_ok (length (PMLock e)) b" "locked_cols l = locked_cols (PMLock e) \<union> set cs"
    using policy_loops[OF c] by blast
  show "\<exists>e'. NoDBAggressivePMPolicy e (map Some cs) = Some (e', map Some (filter (\<lambda>c. c \<notin> locked_cols (PMLock e)) cs)) \<and>
      lock_inv e' n \<and> locked_cols (PMLock e') = locked_cols (PMLock e) \<union> set cs"
    by (intro exI[of _ "e\<lparr>PMLock := l, colsPM := b\<rparr>"]) (use inv p in \<open>simp add: NoDBAggressivePMPolicy_def lock_inv_def\<close>)
  obtain l where l: "release_locks (PMLock e) (map Some cs) = Some (l, if set cs \<inter> locked_cols (PMLock e) \<noteq> {} then 1 else 0)"
    "length l = length (PMLock e)" "locked_cols l = locked_cols (PMLock e) - set cs"
    using release_loop[OF c(1)] by blast
  show "\<exists>e'. NoDBExecReleasePMLocks e (map Some cs) = Some (e', if set cs \<inter> locked_cols (PMLock e) \<noteq> {} then 1 else 0) \<and>
      lock_inv e' n \<and> locked_cols (PMLock e') = locked_cols (PMLock e) - set cs"
    by (intro exI[of _ "e\<lparr>PMLock := l\<rparr>"]) (use inv l in \<open>simp add: NoDBExecReleasePMLocks_def lock_inv_def\<close>)
qed

section \<open>Lookup\<close>

text \<open>
  A well-formed vector: the first \<open>used\<close> entries are filled and point to relations of the heap.
\<close>

definition eiv_ok :: "nodb_heap \<Rightarrow> NoDBExecInfoVector_t option \<Rightarrow> bool" where
  "eiv_ok h oei \<longleftrightarrow> (case oei of None \<Rightarrow> True | Some ei \<Rightarrow>
     eiv_used ei \<le> eiv_size ei \<and> length (eiv_vector ei) = eiv_size ei \<and>
     (\<forall>i < eiv_used ei. \<exists>e rel. eiv_vector ei ! i = Some e \<and> h_rels h (ei_rel e) = Some rel))"

definition eiv_names :: "nodb_heap \<Rightarrow> NoDBExecInfoVector_t option \<Rightarrow> string list" where
  "eiv_names h oei = (case oei of None \<Rightarrow> [] | Some ei \<Rightarrow>
     map (\<lambda>i. rel_name (the (h_rels h (ei_rel (the (eiv_vector ei ! i)))))) [0..<eiv_used ei])"

fun first_index :: "'a list \<Rightarrow> 'a \<Rightarrow> nat option" where
  "first_index [] x = None"
| "first_index (y # ys) x = (if y = x then Some 0 else map_option Suc (first_index ys x))"

lemma first_index_snoc:
  "first_index (xs @ [y]) x = (case first_index xs x of Some i \<Rightarrow> Some i | None \<Rightarrow> if y = x then Some (length xs) else None)"
  by (induction xs) (auto split: option.splits)

lemma GetExecInfo_loop_eq:
  assumes "\<forall>i \<in> set is. i < length v \<and> (\<exists>e rel. v ! i = Some e \<and> h_rels h (ei_rel e) = Some rel)"
  shows "GetExecInfo_loop h v is name =
    Some (map_option (\<lambda>k. is ! k) (first_index (map (\<lambda>i. rel_name (the (h_rels h (ei_rel (the (v ! i)))))) is) name))"
  using assms
proof (induction "is")
  case (Cons i "is")
  then obtain e rel where e: "i < length v" "v ! i = Some e" "h_rels h (ei_rel e) = Some rel" by auto
  have ih: "GetExecInfo_loop h v is name =
    Some (map_option (\<lambda>k. is ! k) (first_index (map (\<lambda>i. rel_name (the (h_rels h (ei_rel (the (v ! i)))))) is) name))"
    using Cons by simp
  show ?case using e ih by (cases "rel_name rel = name") (simp_all add: option.map_comp comp_def)
qed simp

lemma first_index_less: "first_index xs x = Some k \<Longrightarrow> k < length xs"
  by (induction xs arbitrary: k) (auto split: if_splits)

lemma NoDBGetExecInfo_eq:
  assumes "eiv_ok h oei"
  shows "NoDBGetExecInfo h oei name = Some (first_index (eiv_names h oei) name)"
proof (cases oei)
  case (Some ei)
  have "\<forall>i \<in> set [0..<eiv_used ei]. i < length (eiv_vector ei) \<and>
      (\<exists>e rel. eiv_vector ei ! i = Some e \<and> h_rels h (ei_rel e) = Some rel)"
    using assms Some by (auto simp: eiv_ok_def)
  from GetExecInfo_loop_eq[OF this, of name] show ?thesis
    using Some first_index_less[of _ name]
    by (auto simp: NoDBGetExecInfo_def eiv_names_def map_option_case dest: first_index_less split: option.split)
qed (simp add: NoDBGetExecInfo_def eiv_names_def)

lemma NoDBExecInfoInit_ok:
  assumes ok: "eiv_ok h oei" and rel: "h_rels h relp = Some rel" "NoDBRelationGetNumberColumns rel = int n"
    and fn: "length filename < 256"
  shows "\<exists>ei e. NoDBExecInfoInit h oei relp filename bPM bCache = Some (ei, length (eiv_names h oei)) \<and>
    eiv_ok h (Some ei) \<and> eiv_names h (Some ei) = eiv_names h oei @ [rel_name rel] \<and>
    eiv_vector ei ! length (eiv_names h oei) = Some e \<and> lock_inv e n \<and> locked_cols (CacheLock e) = {} \<and>
    locked_cols (PMLock e) = {} \<and> firstTime e \<and>
    (\<forall>i < length (eiv_names h oei). \<forall>ei0. oei = Some ei0 \<longrightarrow> eiv_vector ei ! i = eiv_vector ei0 ! i)"
proof -
  define ei0 where "ei0 = (case oei of
      None \<Rightarrow> \<lparr>eiv_size = NELLEM_ALLOC, eiv_used = 0, eiv_vector = replicate NELLEM_ALLOC None\<rparr> | Some ei \<Rightarrow> ei)"
  define i where "i = eiv_used ei0"
  define ei1 where "ei1 = (if i = eiv_size ei0
      then ei0\<lparr>eiv_size := eiv_size ei0 + NELLEM_ALLOC,
        eiv_vector := realloc_array (eiv_vector ei0) (eiv_size ei0 + NELLEM_ALLOC)\<rparr> else ei0)"
  have ok0: "eiv_ok h (Some ei0)" "eiv_names h (Some ei0) = eiv_names h oei"
    using ok by (simp_all add: ei0_def eiv_ok_def eiv_names_def NELLEM_ALLOC_def split: option.splits)
  have len: "length (eiv_names h oei) = i" unfolding ok0(2)[symmetric] by (simp add: eiv_names_def i_def)
  have ok1: "i < length (eiv_vector ei1)" "eiv_used ei1 = i" "length (eiv_vector ei1) = eiv_size ei1"
    "\<forall>k < i. eiv_vector ei1 ! k = eiv_vector ei0 ! k"
    using ok0(1) by (auto simp: ei1_def i_def eiv_ok_def realloc_array_grow NELLEM_ALLOC_def nth_append)
  obtain b where b: "NoDBBitmapInit (int n) = Some b" "bm_ok n b" using NoDBBitmapInit_ok(1) by blast
  obtain b' where b': "NoDBBitmapClearAll b = Some b'" "bm_ok n b'"
    using NoDBBitmapClearAll_ok[of b n] b(2) by (auto simp: bm_ok_def)
  define e where "e = \<lparr>budgetPM = bPM, budgetCache = bCache, colsPM = b', colsCache = b', locks_size = int n,
      CacheLock = replicate n 0, PMLock = replicate n 0, firstTime = True, disable_need_transcoding = False,
      statsCollected = b', ei_blocks = 0, ei_rows = 0, ei_rel = relp, ei_filename = filename\<rparr>"
  define ei where "ei = ei1\<lparr>eiv_vector := (eiv_vector ei1)[i := Some e], eiv_used := Suc i\<rparr>"
  have init: "NoDBExecInfoInit h oei relp filename bPM bCache = Some (ei, i)"
    unfolding NoDBExecInfoInit_def ei0_def[symmetric] Let_def
    using rel fn b b' ok1
    by (simp add: FILENAME_SIZE_def i_def[symmetric] ei1_def[symmetric] ei_def e_def)
  have old: "eiv_vector ei ! k = eiv_vector ei0 ! k" if "k < i" for k
    using that ok1 by (simp add: ei_def)
  have new: "eiv_vector ei ! i = Some e" using ok1 by (simp add: ei_def)
  have "eiv_ok h (Some ei)"
    using ok0(1) ok1 rel old new
    by (auto simp: eiv_ok_def ei_def less_Suc_eq i_def[symmetric] e_def)
  moreover have "eiv_names h (Some ei) = eiv_names h oei @ [rel_name rel]"
    unfolding ok0(2)[symmetric] using old new rel
    by (simp add: eiv_names_def i_def[symmetric] e_def) (simp add: ei_def e_def)
  moreover have "lock_inv e n" "locked_cols (CacheLock e) = {}" "locked_cols (PMLock e) = {}" "firstTime e"
    using b' by (auto simp: e_def lock_inv_def locked_cols_def)
  moreover have "\<forall>k < i. \<forall>ei'. oei = Some ei' \<longrightarrow> eiv_vector ei ! k = eiv_vector ei' ! k"
    using old by (auto simp: ei0_def)
  ultimately show ?thesis using init new len by blast
qed

section \<open>Properties\<close>

text \<open>
  A new entry of the execution-information vector is found again by name unless an older entry
  has the same name (then the older one is found), starts with no column locked, and leaves every
  older entry unchanged and reachable, also when the vector has to grow.
\<close>

theorem exec_info_registry:
  assumes "eiv_ok h oei" "h_rels h relp = Some rel" "NoDBRelationGetNumberColumns rel = int n" "length filename < 256"
  shows "\<exists>ei i e. NoDBExecInfoInit h oei relp filename bPM bCache = Some (ei, i) \<and> eiv_ok h (Some ei) \<and>
    eiv_vector ei ! i = Some e \<and> lock_inv e n \<and> locked_cols (CacheLock e) = {} \<and> locked_cols (PMLock e) = {} \<and>
    NoDBGetExecInfo h (Some ei) (rel_name rel) =
      Some (case first_index (eiv_names h oei) (rel_name rel) of None \<Rightarrow> Some i | Some j \<Rightarrow> Some j) \<and>
    (\<forall>name. name \<noteq> rel_name rel \<longrightarrow> NoDBGetExecInfo h (Some ei) name = NoDBGetExecInfo h oei name)"
proof -
  obtain ei e where r: "NoDBExecInfoInit h oei relp filename bPM bCache = Some (ei, length (eiv_names h oei))"
    "eiv_ok h (Some ei)" "eiv_names h (Some ei) = eiv_names h oei @ [rel_name rel]"
    "eiv_vector ei ! length (eiv_names h oei) = Some e" "lock_inv e n" "locked_cols (CacheLock e) = {}"
    "locked_cols (PMLock e) = {}"
    using NoDBExecInfoInit_ok[OF assms, of bPM bCache] by blast
  show ?thesis
    by (rule exI[of _ ei], rule exI[of _ "length (eiv_names h oei)"], rule exI[of _ e])
       (use r in \<open>simp add: NoDBGetExecInfo_eq[OF r(2)] NoDBGetExecInfo_eq[OF assms(1)] first_index_snoc split: option.split\<close>)
qed

definition demo_heap :: nodb_heap where
  "demo_heap = \<lparr>h_caches = (\<lambda>_. None), h_rels = (\<lambda>p. if p = 1 then Some demo_rel else None), h_next = 2\<rparr>"

theorem exec_info_registry_witness:
  "\<exists>ei i. NoDBExecInfoInit demo_heap None 1 ''/tmp/t.csv'' 0 0 = Some (ei, i) \<and>
     NoDBGetExecInfo demo_heap (Some ei) ''t'' = Some (Some i)"
proof -
  have h: "h_rels demo_heap 1 = Some demo_rel" "NoDBRelationGetNumberColumns demo_rel = int 3" "rel_name demo_rel = ''t''"
    by (simp_all add: demo_heap_def demo_rel_def NoDBRelationGetNumberColumns_def)
  show ?thesis
    using exec_info_registry[OF _ h(1,2), of None "''/tmp/t.csv''" 0 0] h(3) by (auto simp: eiv_ok_def eiv_names_def)
qed


definition demo_bitmap :: NoDBBitmap_t where
  "demo_bitmap = \<lparr>bits = replicate 3 (Some 0), size_bm = 3\<rparr>"

definition demo_info :: NoDBExecInfo_t where
  "demo_info = \<lparr>budgetPM = 0, budgetCache = 0, colsPM = demo_bitmap, colsCache = demo_bitmap, locks_size = 3,
     CacheLock = [0, 1, 0], PMLock = [0, 0, 0], firstTime = True, disable_need_transcoding = False,
     statsCollected = demo_bitmap, ei_blocks = 0, ei_rows = 0, ei_rel = 1, ei_filename = ''t.csv''\<rparr>"

lemma demo_info_ok: "lock_inv demo_info 3" "atts_ok 3 [0, 1]" "atts_ok 3 [2, 1]" "locked_cols (CacheLock demo_info) = {1}"
proof -
  show "lock_inv demo_info 3" by (simp add: lock_inv_def demo_info_def demo_bitmap_def bm_ok_def)
  show "atts_ok 3 [0, 1]" "atts_ok 3 [2, 1]" by (simp_all add: atts_ok_def)
  show "locked_cols (CacheLock demo_info) = {1}"
    by (auto simp: locked_cols_def demo_info_def nth_Cons' split: if_splits)
qed


text \<open>
  C29: Acquiring the write columns of a query, releasing them and acquiring them again gives all of
  them both times; the release reports a change exactly when there was a column, and restores the
  set of locked columns. This holds for the data-cache locks and for the positional-map locks.
\<close>

theorem write_locks_reacquire:
  assumes "lock_inv e n" "atts_ok n cs" "set cs \<inter> locked_cols (CacheLock e) = {}" "set cs \<inter> locked_cols (PMLock e) = {}"
  shows "(\<exists>e1 e2 e3. NoDBAggressiveCachePolicy e (map Some cs) = Some (e1, map Some cs) \<and>
      NoDBExecReleaseCacheLocks e1 (map Some cs) = Some (e2, if cs = [] then 0 else 1) \<and>
      locked_cols (CacheLock e2) = locked_cols (CacheLock e) \<and>
      NoDBAggressiveCachePolicy e2 (map Some cs) = Some (e3, map Some cs) \<and> lock_inv e3 n) \<and>
    (\<exists>e1 e2 e3. NoDBAggressivePMPolicy e (map Some cs) = Some (e1, map Some cs) \<and>
      NoDBExecReleasePMLocks e1 (map Some cs) = Some (e2, if cs = [] then 0 else 1) \<and>
      locked_cols (PMLock e2) = locked_cols (PMLock e) \<and>
      NoDBAggressivePMPolicy e2 (map Some cs) = Some (e3, map Some cs) \<and> lock_inv e3 n)"
  by (rule conjI[OF cache_policy.reacquire[OF assms(1-3)] pm_policy.reacquire[OF assms(1,2,4)]])

theorem write_locks_reacquire_witness:
  "\<exists>e1 e2 e3. NoDBAggressiveCachePolicy demo_info [Some 0, Some 2] = Some (e1, [Some 0, Some 2]) \<and>
     NoDBExecReleaseCacheLocks e1 [Some 0, Some 2] = Some (e2, 1) \<and>
     NoDBAggressiveCachePolicy e2 [Some 0, Some 2] = Some (e3, [Some 0, Some 2])"
proof -
  have "atts_ok 3 [0, 2]" by (simp add: atts_ok_def)
  moreover have "set [0, 2] \<inter> locked_cols (CacheLock demo_info) = {}" by (simp add: demo_info_ok(4))
  moreover have "set [0, 2] \<inter> locked_cols (PMLock demo_info) = {}"
    by (auto simp: locked_cols_def demo_info_def nth_Cons' split: if_splits)
  ultimately show ?thesis
    using conjunct1[OF write_locks_reacquire[OF demo_info_ok(1), of "[0, 2]"]] by simp blast
qed

text \<open>
  The block count of a raw file stored by \<open>NoDBExecSetNumberOffBlocks\<close> is never 0, and for files
  below \<open>2 ^ 45\<close> bytes it is the number of full blocks, at least 1, without wrapping at 32 bits.
\<close>

theorem blocks_bounds:
  assumes "stat (ei_filename e) = Some sz" "0 \<le> sz" "sz < 2 ^ 45"
  shows "\<exists>e'. NoDBExecSetNumberOffBlocks stat e = Some e' \<and> e' = e\<lparr>ei_blocks := ei_blocks e'\<rparr> \<and>
    uint (ei_blocks e') = max 1 (sz div 8192) \<and> NoDBExecGetNumberOfBlocks stat (Some e') f = Some (ei_blocks e')"
proof -
  have "sz div 8192 < 2 ^ 32" using assms(3) by simp
  then have u: "uint (word_of_int (sz div 8192) :: 32 word) = sz div 8192"
    using assms(2) by (simp add: unsigned_of_int take_bit_int_eq_self)
  then have "(word_of_int (sz div 8192) :: 32 word) = 0 \<longleftrightarrow> sz div 8192 = 0"
    by (metis uint_0_iff)
  then show ?thesis
    using assms(1,2) u
    by (auto simp: NoDBExecSetNumberOffBlocks_def BLCKSZ_def NoDBExecGetNumberOfBlocks_def max_def)
qed

theorem blocks_bounds_witness:
  "\<exists>e'. NoDBExecSetNumberOffBlocks (\<lambda>_. Some 20000) demo_info = Some e' \<and> uint (ei_blocks e') = 2"
  using blocks_bounds[of "\<lambda>_. Some 20000" demo_info 20000 None] by auto

end
