(* ===== verification/NoDB_ReadLine.thy ===== *)
theory NoDB_ReadLine
  imports NoDB_Parse NoDB_ExecInfo
begin

text \<open>
  Reading lines of the raw file, from \<open>src/postgresql-9.6.5/src/backend/noDB/NoDBExecutor.c\<close>: the raw
  buffer and its refills, the search for the end of the line with its lookahead, the path that uses the
  line lengths of the end-of-line cache, and the conversion of the encoding.

  The file is the list of its bytes with a position; \<open>fread\<close> returns as many of the requested bytes as
  the file still has. \<open>raw_buf\<close> holds the \<open>raw_buf_len\<close> bytes of the buffer, behind which the code
  keeps a NUL byte. \<open>pg_encoding_mblen\<close> for the encoding of the client and \<open>pg_client_to_server\<close> are
  parameters. Read errors of the operating system are not modelled.
\<close>

section \<open>State\<close>

datatype EolType = EOL_UNKNOWN | EOL_NL | EOL_CR | EOL_CRNL

record read_format =
  csv_mode :: bool
  rquote :: byte
  rescape :: byte
  encoding_embeds_ascii :: bool
  need_transcoding :: bool

record reader =
  copy_file :: "byte list"
  copy_pos :: nat
  raw_buf :: "byte list"
  raw_buf_index :: nat
  line_buf :: "byte list"
  line_buf_converted :: bool
  eol_type :: EolType
  cur_lineno :: nat
  header_line :: bool
  read_header :: bool
  eolCache :: NoDBCache_t
  processed :: nat
  tupleRead :: nat
  tupleStored :: int

definition RAW_BUF_SIZE :: nat where "RAW_BUF_SIZE = 32768"

section \<open>Filling the buffer\<close>

definition fread :: "nat \<Rightarrow> reader \<Rightarrow> reader \<times> byte list" where
  "fread n rd = (let bs = take n (drop (copy_pos rd) (copy_file rd)) in (rd\<lparr>copy_pos := copy_pos rd + length bs\<rparr>, bs))"

text \<open>
  The header is skipped with the first block: the code looks for its newline in the block, without
  regard to the end of the block, and reads again from behind it.
\<close>

definition NoDBCopyGetData :: "nat \<Rightarrow> reader \<Rightarrow> (reader \<times> byte list) option" where
  "NoDBCopyGetData maxread rd =
     (if header_line rd \<and> \<not> read_header rd then
        (let (rd, temp) = fread maxread rd in
         if temp = [] then Some (rd, [])
         else if 10 \<notin> set temp then None
         else
           (let i = length (takeWhile (\<lambda>c. c \<noteq> 10) temp) + 1;
                rd = rd\<lparr>eolCache := NoDBCacheSetHeaderSize (eolCache rd) (of_nat i), copy_pos := i\<rparr>;
                (rd, bs) = fread maxread rd in
            Some (rd\<lparr>read_header := True\<rparr>, bs)))
      else Some (fread maxread rd))"

definition NoDBCopyLoadRawBuf :: "reader \<Rightarrow> (reader \<times> bool) option" where
  "NoDBCopyLoadRawBuf rd =
     (let saved = drop (raw_buf_index rd) (raw_buf rd) in
      do {
        (rd, bs) \<leftarrow> NoDBCopyGetData (RAW_BUF_SIZE - length saved) rd;
        Some (rd\<lparr>raw_buf := saved @ bs, raw_buf_index := 0\<rparr>, bs \<noteq> [])
      })"

text \<open>The macro \<open>REFILL_LINEBUF\<close>.\<close>

definition REFILL_LINEBUF :: "nat \<Rightarrow> reader \<Rightarrow> reader option" where
  "REFILL_LINEBUF raw_buf_ptr rd =
     (if raw_buf_ptr > raw_buf_index rd then
        (if raw_buf_ptr > length (raw_buf rd) then None
         else Some (rd\<lparr>line_buf := line_buf rd @ drop (raw_buf_index rd) (take raw_buf_ptr (raw_buf rd)),
                       raw_buf_index := raw_buf_ptr\<rparr>))
      else Some rd)"

definition NoDBTryReFillRawBuf :: "reader \<Rightarrow> (reader \<times> bool) option" where
  "NoDBTryReFillRawBuf rd =
     (if raw_buf_index rd \<ge> length (raw_buf rd) then
        do {
          rd \<leftarrow> REFILL_LINEBUF (raw_buf_index rd) rd;
          (rd, ok) \<leftarrow> NoDBCopyLoadRawBuf rd;
          Some (rd, raw_buf rd = [] \<or> \<not> ok)
        }
      else Some (rd, False))"

section \<open>The end of the line\<close>

text \<open>A character of the buffer or the NUL byte behind it.\<close>

definition raw_get :: "reader \<Rightarrow> nat \<Rightarrow> byte option" where
  "raw_get rd i = (if i < length (raw_buf rd) then Some (raw_buf rd ! i) else if i = length (raw_buf rd) then Some 0 else None)"

text \<open>The local variables of \<open>NoDBCopyReadLineText\<close> and how one pass through its loop ends.\<close>

record scan =
  ptr :: nat
  need_data :: bool
  hit_eof :: bool
  first_char :: bool
  in_quote :: bool
  last_was_esc :: bool

datatype pass = Again reader scan | Stop reader nat bool | Fail copy_error

text \<open>The condition of \<open>IF_NEED_REFILL_AND_NOT_EOF_CONTINUE\<close> and its effect.\<close>

definition need_refill :: "reader \<Rightarrow> scan \<Rightarrow> nat \<Rightarrow> bool" where
  "need_refill rd s p \<longleftrightarrow> p \<ge> length (raw_buf rd) \<and> \<not> hit_eof s"

definition refill :: "reader \<Rightarrow> scan \<Rightarrow> nat \<Rightarrow> pass" where
  "refill rd s prev = Again rd (s\<lparr>ptr := prev, need_data := True\<rparr>)"

definition csv_state :: "read_format \<Rightarrow> byte \<Rightarrow> scan \<Rightarrow> scan" where
  "csv_state fmt c s =
     (if csv_mode fmt then
        (let quotec = rquote fmt;
             escapec = (if rescape fmt = quotec then 0 else rescape fmt);
             s = (if in_quote s \<and> c = escapec then s\<lparr>last_was_esc := \<not> last_was_esc s\<rparr> else s);
             s = (if c = quotec \<and> \<not> last_was_esc s then s\<lparr>in_quote := \<not> in_quote s\<rparr> else s) in
         if c \<noteq> escapec then s\<lparr>last_was_esc := False\<rparr> else s)
      else s)"

definition count_line :: "read_format \<Rightarrow> byte \<Rightarrow> scan \<Rightarrow> reader \<Rightarrow> reader" where
  "count_line fmt c s rd =
     (if csv_mode fmt \<and> in_quote s \<and> c = (if eol_type rd = EOL_NL then 10 else 13)
      then rd\<lparr>cur_lineno := cur_lineno rd + 1\<rparr> else rd)"

text \<open>The label \<open>not_end_of_copy\<close>: multi-byte characters.\<close>

definition not_end_of_copy :: "read_format \<Rightarrow> (byte \<Rightarrow> nat) \<Rightarrow> reader \<Rightarrow> scan \<Rightarrow> byte \<Rightarrow> nat \<Rightarrow> nat \<Rightarrow> pass" where
  "not_end_of_copy fmt pg_encoding_mblen rd s c prev p =
     (if encoding_embeds_ascii fmt \<and> IS_HIGHBIT_SET c then
        (let extra = pg_encoding_mblen c - 1 in
         if need_refill rd s (p + extra) then refill rd s prev
         else if p + extra \<ge> length (raw_buf rd) then Stop rd (if extra \<noteq> 0 then length (raw_buf rd) else p) True
         else Again rd (s\<lparr>ptr := p + extra, first_char := False\<rparr>))
      else Again rd (s\<lparr>ptr := p, first_char := False\<rparr>))"

definition carriage_return :: "reader \<Rightarrow> scan \<Rightarrow> nat \<Rightarrow> nat \<Rightarrow> pass option" where
  "carriage_return rd s prev p =
     (if eol_type rd = EOL_UNKNOWN \<or> eol_type rd = EOL_CRNL then
        (if need_refill rd s p then Some (refill rd s prev)
         else
           do {
             c \<leftarrow> raw_get rd p;
             Some (if c = 10 then Stop (rd\<lparr>eol_type := EOL_CRNL\<rparr>) (p + 1) False
                   else if eol_type rd = EOL_CRNL then Fail LiteralCR
                   else Stop (rd\<lparr>eol_type := EOL_CR\<rparr>) p False)
           })
      else if eol_type rd = EOL_NL then Some (Fail LiteralCR)
      else Some (Stop rd p False))"

definition newline :: "reader \<Rightarrow> nat \<Rightarrow> pass" where
  "newline rd p =
     (if eol_type rd = EOL_CR \<or> eol_type rd = EOL_CRNL then Fail LiteralNL
      else Stop (rd\<lparr>eol_type := EOL_NL\<rparr>) p False)"

text \<open>The end-of-copy marker from behind the period on: the character that ends its line.\<close>

definition marker_end :: "read_format \<Rightarrow> (byte \<Rightarrow> nat) \<Rightarrow> reader \<Rightarrow> scan \<Rightarrow> byte \<Rightarrow> nat \<Rightarrow> nat \<Rightarrow> pass option" where
  "marker_end fmt pg_encoding_mblen rd s c prev p =
     (if need_refill rd s p then Some (refill rd s prev)
      else
        do {
          c2 \<leftarrow> raw_get rd p;
          Some (if c2 \<noteq> 13 \<and> c2 \<noteq> 10 then
                  (if \<not> csv_mode fmt then Fail MarkerCorrupt
                   else not_end_of_copy fmt pg_encoding_mblen rd s c prev (prev + 1))
                else if eol_type rd = EOL_NL \<and> c2 \<noteq> 10 \<or> eol_type rd = EOL_CRNL \<and> c2 \<noteq> 10 \<or> eol_type rd = EOL_CR \<and> c2 \<noteq> 13 then
                  Fail MarkerMismatch
                else
                  Stop (rd\<lparr>line_buf := line_buf rd @ drop (raw_buf_index rd) (take prev (raw_buf rd)), raw_buf_index := p + 1\<rparr>) (p + 1) True)
        })"

definition end_marker :: "read_format \<Rightarrow> (byte \<Rightarrow> nat) \<Rightarrow> reader \<Rightarrow> scan \<Rightarrow> byte \<Rightarrow> nat \<Rightarrow> nat \<Rightarrow> pass option" where
  "end_marker fmt pg_encoding_mblen rd s c prev p =
     (if eol_type rd = EOL_CRNL then
        (if need_refill rd s p then Some (refill rd s prev)
         else
           do {
             c2 \<leftarrow> raw_get rd p;
             (if c2 = 10 then
                Some (if \<not> csv_mode fmt then Fail MarkerMismatch else not_end_of_copy fmt pg_encoding_mblen rd s c prev (prev + 1))
              else if c2 \<noteq> 13 then
                Some (if \<not> csv_mode fmt then Fail MarkerCorrupt else not_end_of_copy fmt pg_encoding_mblen rd s c prev (prev + 1))
              else marker_end fmt pg_encoding_mblen rd s c prev (p + 1))
           })
      else marker_end fmt pg_encoding_mblen rd s c prev p)"

definition backslash :: "read_format \<Rightarrow> (byte \<Rightarrow> nat) \<Rightarrow> reader \<Rightarrow> scan \<Rightarrow> byte \<Rightarrow> nat \<Rightarrow> nat \<Rightarrow> pass option" where
  "backslash fmt pg_encoding_mblen rd s c prev p =
     (if need_refill rd s p then Some (refill rd s prev)
      else if p \<ge> length (raw_buf rd) then Some (Stop rd p True)
      else
        do {
          c2 \<leftarrow> raw_get rd p;
          (if c2 = 46 then end_marker fmt pg_encoding_mblen rd s c prev (p + 1)
           else Some (not_end_of_copy fmt pg_encoding_mblen rd s c prev (if \<not> csv_mode fmt then p + 1 else p)))
        })"

text \<open>One pass through the loop, from the fetch of a character on.\<close>

definition read_pass :: "read_format \<Rightarrow> (byte \<Rightarrow> nat) \<Rightarrow> reader \<Rightarrow> scan \<Rightarrow> pass option" where
  "read_pass fmt pg_encoding_mblen rd s =
     do {
       let prev = ptr s;
       c \<leftarrow> raw_get rd prev;
       let p = prev + 1;
       (if csv_mode fmt \<and> (c = 92 \<or> c = 13) \<and> need_refill rd s p then Some (refill rd s prev)
        else
          (let s = csv_state fmt c s;
               rd = count_line fmt c s rd in
           if c = 13 \<and> (\<not> csv_mode fmt \<or> \<not> in_quote s) then carriage_return rd s prev p
           else if c = 10 \<and> (\<not> csv_mode fmt \<or> \<not> in_quote s) then Some (newline rd p)
           else if c = 92 \<and> (\<not> csv_mode fmt \<or> first_char s) then backslash fmt pg_encoding_mblen rd s c prev p
           else Some (not_end_of_copy fmt pg_encoding_mblen rd s c prev p)))
     }"

text \<open>A pass that goes on either asks for more data, unless the file is at its end, or moves forward.\<close>

definition input_of :: "reader \<Rightarrow> byte list \<times> nat \<times> byte list \<times> bool \<times> bool" where
  "input_of rd = (copy_file rd, copy_pos rd, raw_buf rd, header_line rd, read_header rd)"

definition moves :: "reader \<Rightarrow> scan \<Rightarrow> nat \<Rightarrow> pass \<Rightarrow> bool" where
  "moves rd s prev q \<longleftrightarrow> (\<forall>rd' s'. q = Again rd' s' \<longrightarrow> input_of rd' = input_of rd \<and> hit_eof s' = hit_eof s \<and>
     (need_data s' \<and> ptr s' = prev \<and> \<not> hit_eof s \<or> \<not> need_data s' \<and> prev < ptr s'))"

lemma moves_refill: "need_refill rd s p \<Longrightarrow> moves rd s prev (refill rd s prev)"
  by (auto simp: moves_def refill_def need_refill_def)

lemma moves_simps [simp]: "moves rd s prev (Stop rd' q b)" "moves rd s prev (Fail e)"
  by (simp_all add: moves_def)

lemma moves_not_end_of_copy: "\<not> need_data s \<Longrightarrow> prev < p \<Longrightarrow> moves rd s prev (not_end_of_copy fmt mb rd s c prev p)"
  by (auto simp: not_end_of_copy_def Let_def moves_refill) (auto simp: moves_def)

lemma moves_carriage_return: "carriage_return rd s prev p = Some q \<Longrightarrow> moves rd s prev q"
  by (auto simp: carriage_return_def moves_refill split: if_splits Option.bind_splits)

lemma moves_newline: "moves rd s prev (newline rd p)"
  by (simp add: newline_def)

lemma moves_marker_end: "marker_end fmt mb rd s c prev p = Some q \<Longrightarrow> \<not> need_data s \<Longrightarrow> moves rd s prev q"
  by (auto simp: marker_end_def moves_refill moves_not_end_of_copy split: if_splits Option.bind_splits)

lemma moves_end_marker: "end_marker fmt mb rd s c prev p = Some q \<Longrightarrow> \<not> need_data s \<Longrightarrow> moves rd s prev q"
  by (auto simp: end_marker_def moves_refill moves_not_end_of_copy moves_marker_end split: if_splits Option.bind_splits)

lemma moves_backslash: "backslash fmt mb rd s c prev p = Some q \<Longrightarrow> \<not> need_data s \<Longrightarrow> prev < p \<Longrightarrow> moves rd s prev q"
  by (auto simp: backslash_def moves_refill moves_not_end_of_copy moves_end_marker split: if_splits Option.bind_splits)

lemma csv_state_same [simp]:
  "ptr (csv_state fmt c s) = ptr s" "need_data (csv_state fmt c s) = need_data s" "hit_eof (csv_state fmt c s) = hit_eof s"
  "first_char (csv_state fmt c s) = first_char s"
  by (simp_all add: csv_state_def Let_def)

lemma count_line_same [simp]: "input_of (count_line fmt c s rd) = input_of rd" "raw_buf (count_line fmt c s rd) = raw_buf rd"
  by (simp_all add: count_line_def input_of_def)

lemma moves_state: "moves (count_line fmt c s1 rd) (csv_state fmt c s) prev q \<Longrightarrow> moves rd s prev q"
  by (simp add: moves_def)

lemma if_Some_cases: "(if b then x else y) = Some q \<Longrightarrow> (b \<Longrightarrow> x = Some q \<Longrightarrow> P) \<Longrightarrow> (\<not> b \<Longrightarrow> y = Some q \<Longrightarrow> P) \<Longrightarrow> P"
  by (cases b) auto

lemma read_pass_moves:
  assumes "read_pass fmt mb rd s = Some q" "\<not> need_data s"
  shows "moves rd s (ptr s) q"
proof -
  obtain c where c: "raw_get rd (ptr s) = Some c" using assms(1) by (auto simp: read_pass_def Let_def split: Option.bind_splits)
  let ?s = "csv_state fmt c s"
  let ?rd = "count_line fmt c ?s rd"
  note st = moves_state[of fmt c ?s rd s "ptr s"]
  have e: "(if csv_mode fmt \<and> (c = 92 \<or> c = 13) \<and> need_refill rd s (ptr s + 1) then Some (refill rd s (ptr s))
      else if c = 13 \<and> (\<not> csv_mode fmt \<or> \<not> in_quote ?s) then carriage_return ?rd ?s (ptr s) (ptr s + 1)
      else if c = 10 \<and> (\<not> csv_mode fmt \<or> \<not> in_quote ?s) then Some (newline ?rd (ptr s + 1))
      else if c = 92 \<and> (\<not> csv_mode fmt \<or> first_char ?s) then backslash fmt mb ?rd ?s c (ptr s) (ptr s + 1)
      else Some (not_end_of_copy fmt mb ?rd ?s c (ptr s) (ptr s + 1))) = Some q"
    using assms(1) by (simp only: read_pass_def Let_def c Option.bind.simps)
  from e show ?thesis
  proof (elim if_Some_cases, goal_cases)
    case 1
    then show ?case using moves_refill[of rd s "ptr s + 1"] by auto
  next
    case 2
    show ?case by (rule st[OF moves_carriage_return[OF 2(3)]])
  next
    case 3
    then show ?case using st[OF moves_newline] by auto
  next
    case 4
    show ?case by (rule st[OF moves_backslash[OF 4(5)]]) (simp_all add: assms(2))
  next
    case 5
    then show ?case using st[OF moves_not_end_of_copy[of ?s "ptr s" "ptr s + 1"]] assms(2) by auto
  qed
qed

text \<open>The load at the head of the loop.\<close>

definition load_more :: "reader \<Rightarrow> scan \<Rightarrow> (reader \<times> scan) option" where
  "load_more rd s =
     do {
       rd \<leftarrow> REFILL_LINEBUF (ptr s) rd;
       (rd, ok) \<leftarrow> NoDBCopyLoadRawBuf rd;
       Some (rd, s\<lparr>hit_eof := hit_eof s \<or> \<not> ok, ptr := 0, need_data := False\<rparr>)
     }"

definition header_pending :: "reader \<Rightarrow> nat" where
  "header_pending rd = (if header_line rd \<and> \<not> read_header rd then 1 else 0)"

definition file_left :: "reader \<Rightarrow> nat" where
  "file_left rd = length (copy_file rd) - copy_pos rd"

lemma NoDBCopyGetData_left:
  assumes "NoDBCopyGetData n rd = Some (rd', bs)"
  shows "header_pending rd' < header_pending rd \<or>
    header_pending rd' = header_pending rd \<and> (bs \<noteq> [] \<and> file_left rd' < file_left rd \<or> bs = [] \<and> file_left rd' = file_left rd)"
    and "raw_buf rd' = raw_buf rd" "raw_buf_index rd' = raw_buf_index rd" "line_buf rd' = line_buf rd"
proof -
  have "raw_buf rd' = raw_buf rd \<and> raw_buf_index rd' = raw_buf_index rd \<and> line_buf rd' = line_buf rd \<and>
    (header_pending rd' < header_pending rd \<or>
    header_pending rd' = header_pending rd \<and> (bs \<noteq> [] \<and> file_left rd' < file_left rd \<or> bs = [] \<and> file_left rd' = file_left rd))"
  proof (cases "header_line rd \<and> \<not> read_header rd")
    case True
    then show ?thesis
      using assms by (auto simp: NoDBCopyGetData_def fread_def Let_def header_pending_def file_left_def split: if_splits)
  next
    case False
    then have "NoDBCopyGetData n rd = Some (fread n rd)" by (simp only: NoDBCopyGetData_def if_False)
    then show ?thesis using assms by (auto simp: fread_def Let_def header_pending_def file_left_def)
  qed
  then show "header_pending rd' < header_pending rd \<or>
    header_pending rd' = header_pending rd \<and> (bs \<noteq> [] \<and> file_left rd' < file_left rd \<or> bs = [] \<and> file_left rd' = file_left rd)"
    "raw_buf rd' = raw_buf rd" "raw_buf_index rd' = raw_buf_index rd" "line_buf rd' = line_buf rd" by auto
qed

lemma load_more_left:
  assumes "load_more rd s = Some (rd', s')"
  shows "header_pending rd' < header_pending rd \<or> header_pending rd' = header_pending rd \<and>
    (file_left rd' < file_left rd \<or> file_left rd' = file_left rd \<and> hit_eof s' \<and> length (raw_buf rd') \<le> length (raw_buf rd) - ptr s)"
    and "ptr s' = 0" "\<not> need_data s'"
proof -
  obtain rd1 rd2 ok where r: "REFILL_LINEBUF (ptr s) rd = Some rd1" "NoDBCopyLoadRawBuf rd1 = Some (rd2, ok)"
    "rd' = rd2" "s' = s\<lparr>hit_eof := hit_eof s \<or> \<not> ok, ptr := 0, need_data := False\<rparr>"
    using assms by (auto simp: load_more_def split: Option.bind_splits)
  have rd1: "raw_buf rd1 = raw_buf rd" "ptr s \<le> raw_buf_index rd1" "header_pending rd1 = header_pending rd" "file_left rd1 = file_left rd"
    using r(1) by (auto simp: REFILL_LINEBUF_def header_pending_def file_left_def split: if_splits)
  let ?saved = "drop (raw_buf_index rd1) (raw_buf rd1)"
  obtain rd3 bs where l: "NoDBCopyGetData (RAW_BUF_SIZE - length ?saved) rd1 = Some (rd3, bs)"
    "rd2 = rd3\<lparr>raw_buf := ?saved @ bs, raw_buf_index := 0\<rparr>" "ok = (bs \<noteq> [])"
    using r(2) by (auto simp: NoDBCopyLoadRawBuf_def Let_def split: Option.bind_splits)
  have "header_pending rd2 = header_pending rd3" "file_left rd2 = file_left rd3"
    by (simp_all add: l(2) header_pending_def file_left_def)
  then show "header_pending rd' < header_pending rd \<or> header_pending rd' = header_pending rd \<and>
    (file_left rd' < file_left rd \<or> file_left rd' = file_left rd \<and> hit_eof s' \<and> length (raw_buf rd') \<le> length (raw_buf rd) - ptr s)"
    using NoDBCopyGetData_left(1)[OF l(1)] rd1 r(3,4) l(2,3) by auto
  show "ptr s' = 0" "\<not> need_data s'" by (simp_all add: r(4))
qed

lemma loop_decreases:
  assumes "(if ptr s \<ge> length (raw_buf rd) \<or> need_data s then load_more rd s else Some (rd, s)) = Some (rd1, s1)"
    "raw_buf rd1 \<noteq> []" "read_pass fmt mb rd1 s1 = Some (Again rd2 s2)"
  shows "((fmt, mb, rd2, s2), (fmt, mb, rd, s)) \<in> measures [\<lambda>(fmt, mb, rd, s). header_pending rd, \<lambda>(fmt, mb, rd, s). file_left rd,
    \<lambda>(fmt, mb, rd, s). if hit_eof s then 0 else 1, \<lambda>(fmt, mb, rd, s). length (raw_buf rd) - ptr s,
    \<lambda>(fmt, mb, rd, s). if need_data s then 0 else 1]"
proof (cases "ptr s \<ge> length (raw_buf rd) \<or> need_data s")
  case True
  then have l: "load_more rd s = Some (rd1, s1)" using assms(1) by simp
  note ld = load_more_left[OF l]
  have m: "header_pending rd2 = header_pending rd1" "file_left rd2 = file_left rd1" "raw_buf rd2 = raw_buf rd1" "hit_eof s2 = hit_eof s1"
    "hit_eof s1 \<Longrightarrow> 0 < ptr s2"
    using read_pass_moves[OF assms(3) ld(3)] ld(2)
    by (auto simp: moves_def input_of_def header_pending_def file_left_def)
  have "length (raw_buf rd1) - ptr s2 < n" if "hit_eof s1" "length (raw_buf rd1) \<le> n" for n
    using m(5)[OF that(1)] that(2) assms(2) by (cases "raw_buf rd1") auto
  then show ?thesis using ld(1) m by auto
next
  case False
  then have e: "rd1 = rd" "s1 = s" "\<not> need_data s" "ptr s < length (raw_buf rd)" using assms(1) by auto
  have "header_pending rd2 = header_pending rd" "file_left rd2 = file_left rd" "raw_buf rd2 = raw_buf rd" "hit_eof s2 = hit_eof s"
    "need_data s2 \<and> ptr s2 = ptr s \<or> ptr s < ptr s2"
    using read_pass_moves[OF assms(3)] unfolding e by (auto simp: e(3) moves_def input_of_def header_pending_def file_left_def)
  then show ?thesis using e by auto
qed

text \<open>
  The loop of \<open>NoDBCopyReadLineText\<close>. Every pass reads the header, reads from the file, notices its
  end, moves forward in the buffer or asks for data.
\<close>

function read_line_loop :: "read_format \<Rightarrow> (byte \<Rightarrow> nat) \<Rightarrow> reader \<Rightarrow> scan \<Rightarrow> (reader \<times> nat \<times> bool) res option" where
  "read_line_loop fmt pg_encoding_mblen rd s =
     (case (if ptr s \<ge> length (raw_buf rd) \<or> need_data s then load_more rd s else Some (rd, s)) of
        None \<Rightarrow> None
      | Some (rd, s) \<Rightarrow>
          if raw_buf rd = [] then Some (Val (rd, 0, True))
          else
            (case read_pass fmt pg_encoding_mblen rd s of
               None \<Rightarrow> None
             | Some (Again rd s) \<Rightarrow> read_line_loop fmt pg_encoding_mblen rd s
             | Some (Stop rd p result) \<Rightarrow> Some (Val (rd, p, result))
             | Some (Fail e) \<Rightarrow> Some (Err e)))"
  by pat_completeness auto
termination
  by (relation "measures [\<lambda>(fmt, mb, rd, s). header_pending rd, \<lambda>(fmt, mb, rd, s). file_left rd,
    \<lambda>(fmt, mb, rd, s). if hit_eof s then 0 else 1, \<lambda>(fmt, mb, rd, s). length (raw_buf rd) - ptr s,
    \<lambda>(fmt, mb, rd, s). if need_data s then 0 else 1]") (simp, hypsubst, erule (2) loop_decreases)

declare read_line_loop.simps [simp del]

definition start_scan :: "reader \<Rightarrow> scan" where
  "start_scan rd = \<lparr>ptr = raw_buf_index rd, need_data = False, hit_eof = False, first_char = True, in_quote = False, last_was_esc = False\<rparr>"

definition NoDBCopyReadLineText :: "read_format \<Rightarrow> (byte \<Rightarrow> nat) \<Rightarrow> reader \<Rightarrow> (reader \<times> bool) res option" where
  "NoDBCopyReadLineText fmt pg_encoding_mblen rd =
     (case read_line_loop fmt pg_encoding_mblen rd (start_scan rd) of
        None \<Rightarrow> None
      | Some (Err e) \<Rightarrow> Some (Err e)
      | Some (Val (rd, p, result)) \<Rightarrow> do { rd \<leftarrow> REFILL_LINEBUF p rd; Some (Val (rd, result)) })"

section \<open>The next tuple\<close>

text \<open>
  \<open>pg_client_to_server\<close> returns \<open>None\<close> where it hands back its argument. The flag of the execution
  information is \<open>disable_need_transcoding\<close>.
\<close>

definition convertToServerEncoding :: "read_format \<Rightarrow> NoDBExecInfo_t \<Rightarrow> (byte list \<Rightarrow> byte list option) \<Rightarrow> reader \<Rightarrow> reader" where
  "convertToServerEncoding fmt execInfo pg_client_to_server rd =
     (let rd = rd\<lparr>line_buf_converted := False\<rparr>;
          rd = (if need_transcoding fmt \<and> \<not> NoDBGetNeedTranscoding execInfo then
                  (case pg_client_to_server (line_buf rd) of None \<Rightarrow> rd | Some cvt \<Rightarrow> rd\<lparr>line_buf := cstring cvt\<rparr>)
                else rd) in
      rd\<lparr>line_buf_converted := True\<rparr>)"

text \<open>The end-of-line marker is cut off and the length of the line with it goes to the end-of-line cache.\<close>

definition strip_eol :: "nat \<Rightarrow> reader \<Rightarrow> reader option" where
  "strip_eol n rd =
     do {
       let line = take (length (line_buf rd) - n) (line_buf rd);
       cache \<leftarrow> NoDBCacheSetShortInt (eolCache rd) 0 (of_nat (processed rd)) (of_nat (length line + n));
       Some (rd\<lparr>line_buf := line, eolCache := cache\<rparr>)
     }"

definition NoDBGetNextTupleFromFile ::
    "read_format \<Rightarrow> (byte \<Rightarrow> nat) \<Rightarrow> NoDBExecInfo_t \<Rightarrow> (byte list \<Rightarrow> byte list option) \<Rightarrow> reader \<Rightarrow> (reader \<times> bool) res option" where
  "NoDBGetNextTupleFromFile fmt pg_encoding_mblen execInfo pg_client_to_server rd =
     (case NoDBCopyReadLineText fmt pg_encoding_mblen (rd\<lparr>line_buf := []\<rparr>) of
        None \<Rightarrow> None
      | Some (Err e) \<Rightarrow> Some (Err e)
      | Some (Val (rd, dn)) \<Rightarrow>
          if dn then Some (Val (rd, True))
          else
            do {
              rd \<leftarrow> (case eol_type rd of
                 EOL_NL \<Rightarrow> if line_buf rd \<noteq> [] \<and> last (line_buf rd) = 10 then strip_eol 1 rd else None
               | EOL_CR \<Rightarrow> if line_buf rd \<noteq> [] \<and> last (line_buf rd) = 13 then strip_eol 1 rd else None
               | EOL_CRNL \<Rightarrow> if length (line_buf rd) \<ge> 2 \<and> line_buf rd ! (length (line_buf rd) - 2) = 13 \<and> last (line_buf rd) = 10
                              then strip_eol 2 rd else None
               | EOL_UNKNOWN \<Rightarrow> None);
              let rd = rd\<lparr>eolCache := NoDBCacheSetUsedRows (eolCache rd) (of_nat (processed rd + 1)), tupleRead := tupleRead rd + 1\<rparr>;
              Some (Val (convertToServerEncoding fmt execInfo pg_client_to_server rd, False))
            })"

text \<open>With known line lengths, whole lines are read into the buffer.\<close>

definition skip_header :: "reader \<Rightarrow> reader option" where
  "skip_header rd =
     (if header_line rd \<and> \<not> read_header rd then
        do {
          headerSize \<leftarrow> NoDBCacheGetHeaderSize (eolCache rd);
          (if unat headerSize > RAW_BUF_SIZE + 1 then None
           else Some ((fst (fread (unat headerSize) rd))\<lparr>read_header := True\<rparr>))
        }
      else Some rd)"

lemma RAW_BUF_SIZE_int [code_unfold]: "int RAW_BUF_SIZE = 32768"
  by (simp add: RAW_BUF_SIZE_def)

definition read_block :: "reader \<Rightarrow> (reader \<times> bool) option" where
  "read_block rd =
     do {
       rd \<leftarrow> skip_header rd;
       (if raw_buf_index rd < length (raw_buf rd) then None
        else
          do {
            (toRead, stored) \<leftarrow> NoDBComputeBytesToRead (eolCache rd) (processed rd) (int RAW_BUF_SIZE);
            (if toRead = 0 then Some (rd, True)
             else if toRead < 0 then None
             else
               (let (rd, bs) = fread (nat toRead) rd in
                if length bs \<noteq> nat toRead then None
                else Some (rd\<lparr>tupleStored := stored, raw_buf := bs, raw_buf_index := 0\<rparr>, False)))
          })
     }"

definition NoDBCopyReadLineTextWithEOL :: "reader \<Rightarrow> (reader \<times> bool) option" where
  "NoDBCopyReadLineTextWithEOL rd =
     do {
       (rd, dn) \<leftarrow> (if tupleStored rd = 0 then read_block rd else Some (rd, False));
       (if dn then Some (rd, True)
        else
          do {
            l \<leftarrow> NoDBCacheGetShortInt (eolCache rd) 0 (of_nat (processed rd));
            let offset = sint l;
            (if offset < 0 \<or> raw_buf_index rd + nat offset > length (raw_buf rd) then None
             else Some (rd\<lparr>tupleStored := tupleStored rd - 1,
                           line_buf := line_buf rd @ take (nat offset) (drop (raw_buf_index rd) (raw_buf rd)),
                           raw_buf_index := raw_buf_index rd + nat offset\<rparr>, False))
          })
     }"

definition NoDBGetNextTupleFromFileWithEOL ::
    "read_format \<Rightarrow> NoDBExecInfo_t \<Rightarrow> (byte list \<Rightarrow> byte list option) \<Rightarrow> reader \<Rightarrow> (reader \<times> bool) option" where
  "NoDBGetNextTupleFromFileWithEOL fmt execInfo pg_client_to_server rd =
     do {
       (rd, dn) \<leftarrow> NoDBCopyReadLineTextWithEOL (rd\<lparr>line_buf := []\<rparr>);
       (if dn then Some (rd, True)
        else if line_buf rd = [] then None
        else
          do {
            rd \<leftarrow> (if last (line_buf rd) = 10 then Some (rd\<lparr>line_buf := butlast (line_buf rd)\<rparr>)
                   else if last (line_buf rd) = 13 then Some (rd\<lparr>line_buf := butlast (line_buf rd)\<rparr>)
                   else None);
            Some (convertToServerEncoding fmt execInfo pg_client_to_server (rd\<lparr>tupleRead := tupleRead rd + 1\<rparr>), False)
          })
     }"

end
