(* ===== verification/NoDB_ReadSpec.thy ===== *)
theory NoDB_ReadSpec
  imports NoDB_ReadLine
begin

text \<open>
  What \<open>NoDBCopyReadLineText\<close> promises, independent of the raw buffer: a specification that splits off
  the next line of a stream of bytes, and the proof that the buffered loop with its refills and
  lookahead implements it.
\<close>

section \<open>The next line of a stream\<close>

type_synonym line_result = "(byte list \<times> byte list \<times> EolType \<times> bool) res"

definition prepend :: "byte list \<Rightarrow> line_result \<Rightarrow> line_result" where
  "prepend xs r = (case r of Err e \<Rightarrow> Err e | Val (l, rest, eol, eof) \<Rightarrow> Val (xs @ l, rest, eol, eof))"

lemma prepend_simps [simp]:
  "prepend xs (Err e) = Err e" "prepend xs (Val (l, rest, eol, eof)) = Val (xs @ l, rest, eol, eof)"
  by (simp_all add: prepend_def)

lemma prepend_prepend [simp]: "prepend xs (prepend ys r) = prepend (xs @ ys) r"
  by (simp add: prepend_def split: res.splits prod.splits)

lemma prepend_Nil [simp]: "prepend [] r = r"
  by (simp add: prepend_def split: res.splits prod.splits)

definition next_byte :: "byte list \<Rightarrow> byte" where
  "next_byte cs = (case cs of [] \<Rightarrow> 0 | c # _ \<Rightarrow> c)"

text \<open>Behind a backslash and a period: does the end-of-copy marker end here, and what follows it.\<close>

definition marker_spec2 :: "read_format \<Rightarrow> EolType \<Rightarrow> byte list \<Rightarrow> byte list option res" where
  "marker_spec2 fmt eol cs =
     (let c = next_byte cs in
      if c \<noteq> 13 \<and> c \<noteq> 10 then (if \<not> csv_mode fmt then Err MarkerCorrupt else Val None)
      else if eol = EOL_NL \<and> c \<noteq> 10 \<or> eol = EOL_CRNL \<and> c \<noteq> 10 \<or> eol = EOL_CR \<and> c \<noteq> 13 then Err MarkerMismatch
      else Val (Some (tl cs)))"

definition marker_spec :: "read_format \<Rightarrow> EolType \<Rightarrow> byte list \<Rightarrow> byte list option res" where
  "marker_spec fmt eol cs =
     (if eol = EOL_CRNL then
        (let c = next_byte cs in
         if c = 10 then (if \<not> csv_mode fmt then Err MarkerMismatch else Val None)
         else if c \<noteq> 13 then (if \<not> csv_mode fmt then Err MarkerCorrupt else Val None)
         else marker_spec2 fmt eol (tl cs))
      else marker_spec2 fmt eol cs)"

definition csv_flags :: "read_format \<Rightarrow> byte \<Rightarrow> bool \<Rightarrow> bool \<Rightarrow> bool \<times> bool" where
  "csv_flags fmt c inq esc =
     (let s = csv_state fmt c \<lparr>ptr = 0, need_data = False, hit_eof = False, first_char = False, in_quote = inq, last_was_esc = esc\<rparr>
      in (in_quote s, last_was_esc s))"

text \<open>
  The next line with its end-of-line marker, what follows it, the kind of marker and whether the end
  of the data was found. \<open>fi\<close> tells whether this is the first character of the line.
\<close>

function line_spec :: "read_format \<Rightarrow> EolType \<Rightarrow> bool \<Rightarrow> bool \<Rightarrow> bool \<Rightarrow> byte list \<Rightarrow> line_result" where
  "line_spec fmt eol fi inq esc [] = Val ([], [], eol, True)"
| "line_spec fmt eol fi inq esc (c # cs) =
     (case csv_flags fmt c inq esc of (inq, esc) \<Rightarrow>
        if c = 13 \<and> (\<not> csv_mode fmt \<or> \<not> inq) then
          if eol = EOL_UNKNOWN \<or> eol = EOL_CRNL then
            if next_byte cs = 10 then Val ([13, 10], tl cs, EOL_CRNL, False)
            else if eol = EOL_CRNL then Err LiteralCR
            else Val ([13], cs, EOL_CR, False)
          else if eol = EOL_NL then Err LiteralCR
          else Val ([13], cs, eol, False)
        else if c = 10 \<and> (\<not> csv_mode fmt \<or> \<not> inq) then
          if eol = EOL_CR \<or> eol = EOL_CRNL then Err LiteralNL else Val ([10], cs, EOL_NL, False)
        else if c = 92 \<and> (\<not> csv_mode fmt \<or> fi) then
          (case cs of
             [] \<Rightarrow> Val ([92], [], eol, True)
           | d # ds \<Rightarrow>
               if d = 46 then
                 (case marker_spec fmt eol ds of
                    Err e \<Rightarrow> Err e
                  | Val (Some rest) \<Rightarrow> Val ([], rest, eol, True)
                  | Val None \<Rightarrow> prepend [92] (line_spec fmt eol False inq esc cs))
               else if \<not> csv_mode fmt then prepend [92, d] (line_spec fmt eol False inq esc ds)
               else prepend [92] (line_spec fmt eol False inq esc cs))
        else prepend [c] (line_spec fmt eol False inq esc cs))"
  by pat_completeness auto
termination
  by (relation "measure (\<lambda>(fmt, eol, fi, inq, esc, cs). length cs)") auto

declare line_spec.simps(2) [simp del]

section \<open>The loop as seen on the stream\<close>

definition stream :: "reader \<Rightarrow> nat \<Rightarrow> byte list" where
  "stream rd p = drop p (raw_buf rd) @ drop (copy_pos rd) (copy_file rd)"

definition partial_line :: "reader \<Rightarrow> nat \<Rightarrow> byte list" where
  "partial_line rd p = line_buf rd @ drop (raw_buf_index rd) (take p (raw_buf rd))"

text \<open>The line that is still to come from a state of the loop.\<close>

definition pending :: "read_format \<Rightarrow> reader \<Rightarrow> scan \<Rightarrow> line_result" where
  "pending fmt rd s = prepend (partial_line rd (ptr s))
     (line_spec fmt (eol_type rd) (first_char s) (in_quote s) (last_was_esc s) (stream rd (ptr s)))"

text \<open>Everything that reading a line does not touch.\<close>

definition frame :: "reader \<Rightarrow> NoDBCache_t \<times> nat \<times> nat \<times> int \<times> byte list \<times> bool \<times> bool" where
  "frame rd = (eolCache rd, processed rd, tupleRead rd, tupleStored rd, copy_file rd, header_line rd, read_header rd)"

definition buf_inv :: "reader \<Rightarrow> bool" where
  "buf_inv rd \<longleftrightarrow> raw_buf_index rd \<le> length (raw_buf rd) \<and> length (raw_buf rd) \<le> RAW_BUF_SIZE \<and> header_pending rd = 0"

definition scan_inv :: "reader \<Rightarrow> scan \<Rightarrow> bool" where
  "scan_inv rd s \<longleftrightarrow> buf_inv rd \<and> raw_buf_index rd \<le> ptr s \<and> ptr s \<le> length (raw_buf rd) \<and>
     (hit_eof s \<longrightarrow> length (copy_file rd) \<le> copy_pos rd) \<and>
     (need_data s \<longrightarrow> \<not> hit_eof s \<and> length (raw_buf rd) < ptr s + RAW_BUF_SIZE) \<and>
     (first_char s \<longrightarrow> \<not> in_quote s \<and> \<not> last_was_esc s)"

text \<open>A pass of the loop keeps the pending line or delivers it.\<close>

definition sim :: "read_format \<Rightarrow> reader \<Rightarrow> line_result \<Rightarrow> pass \<Rightarrow> bool" where
  "sim fmt rd res q = (case q of
     Again rd' s' \<Rightarrow> scan_inv rd' s' \<and> pending fmt rd' s' = res \<and> frame rd' = frame rd
   | Stop rd' p eof \<Rightarrow> buf_inv rd' \<and> raw_buf_index rd' \<le> p \<and> p \<le> length (raw_buf rd') \<and>
       res = Val (partial_line rd' p, stream rd' p, eol_type rd', eof) \<and> frame rd' = frame rd
   | Fail e \<Rightarrow> res = Err e)"

definition plain_format :: "read_format \<Rightarrow> bool" where
  "plain_format fmt \<longleftrightarrow> \<not> encoding_embeds_ascii fmt \<and> (csv_mode fmt \<longrightarrow> rquote fmt \<noteq> 92)"

lemma stream_cons: "p < length (raw_buf rd) \<Longrightarrow> stream rd p = raw_buf rd ! p # stream rd (Suc p)"
  by (simp add: stream_def Cons_nth_drop_Suc[symmetric])

lemma stream_end: "length (raw_buf rd) \<le> p \<Longrightarrow> length (copy_file rd) \<le> copy_pos rd \<Longrightarrow> stream rd p = []"
  by (simp add: stream_def)

lemma partial_line_Suc:
  "raw_buf_index rd \<le> p \<Longrightarrow> p < length (raw_buf rd) \<Longrightarrow> partial_line rd (Suc p) = partial_line rd p @ [raw_buf rd ! p]"
  by (simp add: partial_line_def take_Suc_conv_app_nth)

lemma look:
  assumes "\<not> need_refill rd s p" "p \<le> length (raw_buf rd)" "hit_eof s \<longrightarrow> length (copy_file rd) \<le> copy_pos rd"
  shows "raw_get rd p = Some (next_byte (stream rd p))" and "next_byte (stream rd p) \<noteq> 0 \<Longrightarrow> p < length (raw_buf rd)"
    and "tl (stream rd p) = stream rd (Suc p)"
proof -
  have "p < length (raw_buf rd) \<or> p = length (raw_buf rd) \<and> stream rd p = [] \<and> stream rd (Suc p) = []"
    using assms stream_end[of rd] by (auto simp: need_refill_def)
  then show "raw_get rd p = Some (next_byte (stream rd p))" "next_byte (stream rd p) \<noteq> 0 \<Longrightarrow> p < length (raw_buf rd)"
    "tl (stream rd p) = stream rd (Suc p)"
    using stream_cons[of p rd] by (auto simp: raw_get_def next_byte_def)
qed

lemma csv_flags_state:
  "csv_flags fmt c (in_quote s) (last_was_esc s) = (in_quote (csv_state fmt c s), last_was_esc (csv_state fmt c s))"
  by (simp add: csv_flags_def csv_state_def Let_def)

lemma csv_state_first: "first_char s \<longrightarrow> \<not> in_quote s \<and> \<not> last_was_esc s \<Longrightarrow> plain_format fmt \<Longrightarrow> first_char s \<or> \<not> csv_mode fmt \<Longrightarrow>
    csv_state fmt 92 s = s"
  by (auto simp: csv_state_def Let_def plain_format_def)

text \<open>The loop looks at character \<open>c\<close>.\<close>

definition at_char :: "reader \<Rightarrow> scan \<Rightarrow> byte \<Rightarrow> bool" where
  "at_char rd s c \<longleftrightarrow> buf_inv rd \<and> raw_buf_index rd \<le> ptr s \<and> ptr s < length (raw_buf rd) \<and> raw_buf rd ! ptr s = c \<and>
     (hit_eof s \<longrightarrow> length (copy_file rd) \<le> copy_pos rd) \<and> \<not> need_data s"

lemma at_char_facts:
  assumes "at_char rd s c"
  shows "stream rd (ptr s) = c # stream rd (Suc (ptr s))" "partial_line rd (Suc (ptr s)) = partial_line rd (ptr s) @ [c]"
    "Suc (ptr s) \<le> length (raw_buf rd)" "hit_eof s \<longrightarrow> length (copy_file rd) \<le> copy_pos rd"
    "raw_buf_index rd \<le> ptr s" "buf_inv rd"
  using assms stream_cons partial_line_Suc by (auto simp: at_char_def)

lemma sim_refill:
  assumes "scan_inv rd s" "need_refill rd s p" "p \<le> ptr s + 4" "pending fmt rd s = res"
  shows "sim fmt rd res (refill rd s (ptr s))"
proof -
  let ?s = "s\<lparr>ptr := ptr s, need_data := True\<rparr>"
  have "length (raw_buf rd) < ptr s + RAW_BUF_SIZE" using assms(2,3) by (simp add: need_refill_def RAW_BUF_SIZE_def)
  then have "scan_inv rd ?s" using assms(1,2) by (simp add: scan_inv_def need_refill_def)
  moreover have "pending fmt rd ?s = pending fmt rd s" by (simp add: pending_def)
  ultimately show ?thesis using assms(4) by (simp add: sim_def refill_def)
qed

lemma sim_not_end_of_copy:
  assumes "at_char rd s c" "plain_format fmt" "ptr s < p" "p \<le> length (raw_buf rd)"
    "res = prepend (partial_line rd p) (line_spec fmt (eol_type rd) False (in_quote s) (last_was_esc s) (stream rd p))"
  shows "sim fmt rd res (not_end_of_copy fmt mb rd s d (ptr s) p)"
  using assms by (simp add: not_end_of_copy_def plain_format_def sim_def scan_inv_def at_char_def pending_def)

lemma sim_carriage_return:
  assumes at: "at_char rd s 13"
    and refill: "need_refill rd s (Suc (ptr s)) \<Longrightarrow> scan_inv rd s \<and> pending fmt rd s = res"
    and res: "res = prepend (partial_line rd (ptr s))
      (if eol_type rd = EOL_UNKNOWN \<or> eol_type rd = EOL_CRNL then
         if next_byte (stream rd (Suc (ptr s))) = 10 then Val ([13, 10], tl (stream rd (Suc (ptr s))), EOL_CRNL, False)
         else if eol_type rd = EOL_CRNL then Err LiteralCR
         else Val ([13], stream rd (Suc (ptr s)), EOL_CR, False)
       else if eol_type rd = EOL_NL then Err LiteralCR
       else Val ([13], stream rd (Suc (ptr s)), eol_type rd, False))"
  shows "\<exists>q. carriage_return rd s (ptr s) (Suc (ptr s)) = Some q \<and> sim fmt rd res q"
proof (cases "need_refill rd s (Suc (ptr s))")
  case True
  then have "sim fmt rd res (refill rd s (ptr s))" using refill by (intro sim_refill[of _ _ "Suc (ptr s)"]) auto
  then show ?thesis
    using True res at_char_facts[OF at] by (auto simp: carriage_return_def sim_def stream_def partial_line_def)
next
  case False
  note f = at_char_facts[OF at]
  note lk = look[OF False f(3,4)]
  have sim: "sim fmt rd (Val (partial_line rd p, stream rd p, e, b)) (Stop (rd\<lparr>eol_type := e\<rparr>) p b)"
    if "Suc (ptr s) \<le> p" "p \<le> length (raw_buf rd)" for p e b
    using that f by (simp add: sim_def buf_inv_def header_pending_def frame_def partial_line_def stream_def)
  show ?thesis
  proof (cases "next_byte (stream rd (Suc (ptr s))) = 10")
    case True
    then have l: "Suc (ptr s) < length (raw_buf rd)" using lk(2) by simp
    then have "partial_line rd (Suc (Suc (ptr s))) = partial_line rd (ptr s) @ [13, 10]"
      using True f partial_line_Suc[of rd "Suc (ptr s)"] stream_cons[OF l] by (simp add: next_byte_def)
    then show ?thesis
      using True False res lk l f sim[of "Suc (Suc (ptr s))" EOL_CRNL False] sim[of "Suc (ptr s)" "eol_type rd" False]
      by (auto simp: carriage_return_def sim_def[of _ _ _ "Fail _"])
  next
    case n: False
    show ?thesis
      using n False res lk f sim[of "Suc (ptr s)" EOL_CR False] sim[of "Suc (ptr s)" "eol_type rd" False]
      by (auto simp: carriage_return_def sim_def[of _ _ _ "Fail _"])
  qed
qed

lemma sim_newline:
  assumes at: "at_char rd s 10"
    and res: "res = prepend (partial_line rd (ptr s))
      (if eol_type rd = EOL_CR \<or> eol_type rd = EOL_CRNL then Err LiteralNL else Val ([10], stream rd (Suc (ptr s)), EOL_NL, False))"
  shows "sim fmt rd res (newline rd (Suc (ptr s)))"
  using at_char_facts[OF at] res
  by (simp add: newline_def sim_def buf_inv_def header_pending_def frame_def) (simp add: partial_line_def stream_def)

text \<open>The marker: \<open>m\<close> is the result of its specification, \<open>cont\<close> the line when it is no marker.\<close>

definition marker_result :: "byte list \<Rightarrow> EolType \<Rightarrow> line_result \<Rightarrow> byte list option res \<Rightarrow> line_result" where
  "marker_result before eol cont m = (case m of
     Err e \<Rightarrow> Err e
   | Val (Some rest) \<Rightarrow> Val (before, rest, eol, True)
   | Val None \<Rightarrow> cont)"

lemma sim_continue:
  assumes at: "at_char rd s c" and fmt: "plain_format fmt"
    and cont: "cont = prepend (partial_line rd (Suc (ptr s)))
      (line_spec fmt (eol_type rd) False (in_quote s) (last_was_esc s) (stream rd (Suc (ptr s))))"
  shows "sim fmt rd cont (not_end_of_copy fmt mb rd s d (ptr s) (ptr s + 1))"
  by (rule sim_not_end_of_copy[OF at fmt]) (use at cont in \<open>auto simp: at_char_def\<close>)

lemma sim_marker_end:
  assumes at: "at_char rd s 92" and fmt: "plain_format fmt" and inv: "scan_inv rd s" "pending fmt rd s = res"
    and cont: "cont = prepend (partial_line rd (Suc (ptr s)))
      (line_spec fmt (eol_type rd) False (in_quote s) (last_was_esc s) (stream rd (Suc (ptr s))))"
    and p: "ptr s \<le> p" "p \<le> ptr s + 4" "p \<le> length (raw_buf rd)"
    and res: "res = marker_result (partial_line rd (ptr s)) (eol_type rd) cont (marker_spec2 fmt (eol_type rd) (stream rd p))"
  shows "\<exists>q. marker_end fmt mb rd s 92 (ptr s) p = Some q \<and> sim fmt rd res q"
proof (cases "need_refill rd s p")
  case True
  then show ?thesis using sim_refill[OF inv(1) True p(2) inv(2)] by (simp add: marker_end_def)
next
  case False
  note f = at_char_facts[OF at]
  note lk = look[OF False p(3) f(4)]
  note sc = sim_continue[OF at fmt cont, of mb 92]
  let ?c = "next_byte (stream rd p)"
  let ?rd = "rd\<lparr>line_buf := line_buf rd @ drop (raw_buf_index rd) (take (ptr s) (raw_buf rd)), raw_buf_index := p + 1\<rparr>"
  have st: "sim fmt rd (Val (partial_line rd (ptr s), stream rd (Suc p), eol_type rd, True)) (Stop ?rd (p + 1) True)" if "?c \<noteq> 0"
    using lk(2)[OF that] f(6)
    by (simp add: sim_def buf_inv_def header_pending_def frame_def partial_line_def stream_def)
  have eq: "marker_end fmt mb rd s 92 (ptr s) p =
    Some (if ?c \<noteq> 13 \<and> ?c \<noteq> 10 then
            (if \<not> csv_mode fmt then Fail MarkerCorrupt else not_end_of_copy fmt mb rd s 92 (ptr s) (ptr s + 1))
          else if eol_type rd = EOL_NL \<and> ?c \<noteq> 10 \<or> eol_type rd = EOL_CRNL \<and> ?c \<noteq> 10 \<or> eol_type rd = EOL_CR \<and> ?c \<noteq> 13 then
            Fail MarkerMismatch
          else Stop ?rd (p + 1) True)"
    using False lk(1) by (simp only: marker_end_def if_False Option.bind.simps)
  have fl: "sim fmt rd (Err e) (Fail e)" for e by (simp add: sim_def)
  show ?thesis
    unfolding eq res marker_spec2_def Let_def lk(3)
    using sc st fl by (cases "?c = 13"; cases "?c = 10") (auto simp: marker_result_def)
qed

lemma sim_end_marker:
  assumes at: "at_char rd s 92" and fmt: "plain_format fmt" and inv: "scan_inv rd s" "pending fmt rd s = res"
    and cont: "cont = prepend (partial_line rd (Suc (ptr s)))
      (line_spec fmt (eol_type rd) False (in_quote s) (last_was_esc s) (stream rd (Suc (ptr s))))"
    and p: "ptr s \<le> p" "p \<le> ptr s + 3" "p \<le> length (raw_buf rd)"
    and res: "res = marker_result (partial_line rd (ptr s)) (eol_type rd) cont (marker_spec fmt (eol_type rd) (stream rd p))"
  shows "\<exists>q. end_marker fmt mb rd s 92 (ptr s) p = Some q \<and> sim fmt rd res q"
proof (cases "eol_type rd = EOL_CRNL \<and> \<not> need_refill rd s p")
  case False
  show ?thesis
  proof (cases "eol_type rd = EOL_CRNL")
    case True
    then show ?thesis using False sim_refill[OF inv(1) _ _ inv(2), of p] p by (simp add: end_marker_def)
  next
    case n: False
    have "res = marker_result (partial_line rd (ptr s)) (eol_type rd) cont (marker_spec2 fmt (eol_type rd) (stream rd p))"
      using res n by (simp add: marker_spec_def)
    then show ?thesis using sim_marker_end[OF at fmt inv cont, of p mb] n p by (simp add: end_marker_def)
  qed
next
  case True
  note f = at_char_facts[OF at]
  note lk = look[OF conjunct2[OF True] p(3) f(4)]
  note sc = sim_continue[OF at fmt cont, of mb 92]
  let ?c = "next_byte (stream rd p)"
  have eq: "end_marker fmt mb rd s 92 (ptr s) p =
    (if ?c = 10 then Some (if \<not> csv_mode fmt then Fail MarkerMismatch else not_end_of_copy fmt mb rd s 92 (ptr s) (ptr s + 1))
     else if ?c \<noteq> 13 then Some (if \<not> csv_mode fmt then Fail MarkerCorrupt else not_end_of_copy fmt mb rd s 92 (ptr s) (ptr s + 1))
     else marker_end fmt mb rd s 92 (ptr s) (p + 1))"
    using True lk(1) by (simp only: end_marker_def if_True if_False simp_thms Option.bind.simps)
  have fl: "sim fmt rd (Err e) (Fail e)" for e by (simp add: sim_def)
  show ?thesis
  proof (cases "?c = 13")
    case c: True
    then have "p < length (raw_buf rd)" using lk(2) by simp
    moreover have "res = marker_result (partial_line rd (ptr s)) (eol_type rd) cont (marker_spec2 fmt (eol_type rd) (stream rd (p + 1)))"
      using res True c lk(3) by (simp add: marker_spec_def)
    ultimately show ?thesis using sim_marker_end[OF at fmt inv cont, of "p + 1" mb] p c eq by simp
  next
    case c: False
    then show ?thesis unfolding eq res marker_spec_def Let_def using True sc fl by (auto simp: marker_result_def)
  qed
qed

lemma sim_backslash:
  assumes at: "at_char rd s 92" and fmt: "plain_format fmt" and inv: "scan_inv rd s" "pending fmt rd s = res"
    and res: "res = prepend (partial_line rd (ptr s))
      (case stream rd (Suc (ptr s)) of
         [] \<Rightarrow> Val ([92], [], eol_type rd, True)
       | d # ds \<Rightarrow>
           if d = 46 then
             (case marker_spec fmt (eol_type rd) ds of
                Err e \<Rightarrow> Err e
              | Val (Some rest) \<Rightarrow> Val ([], rest, eol_type rd, True)
              | Val None \<Rightarrow> prepend [92] (line_spec fmt (eol_type rd) False (in_quote s) (last_was_esc s) (stream rd (Suc (ptr s)))))
           else if \<not> csv_mode fmt then prepend [92, d] (line_spec fmt (eol_type rd) False (in_quote s) (last_was_esc s) ds)
           else prepend [92] (line_spec fmt (eol_type rd) False (in_quote s) (last_was_esc s) (stream rd (Suc (ptr s)))))"
  shows "\<exists>q. backslash fmt mb rd s 92 (ptr s) (Suc (ptr s)) = Some q \<and> sim fmt rd res q"
proof (cases "need_refill rd s (Suc (ptr s))")
  case True
  then show ?thesis using sim_refill[OF inv(1) True _ inv(2)] by (simp add: backslash_def)
next
  case False
  note f = at_char_facts[OF at]
  let ?p = "Suc (ptr s)"
  show ?thesis
  proof (cases "?p < length (raw_buf rd)")
    case True
    let ?cont = "prepend (partial_line rd ?p) (line_spec fmt (eol_type rd) False (in_quote s) (last_was_esc s) (stream rd ?p))"
    let ?d = "raw_buf rd ! ?p"
    have st: "stream rd ?p = ?d # stream rd (Suc ?p)" by (rule stream_cons[OF True])
    have pl: "partial_line rd (Suc ?p) = partial_line rd (ptr s) @ [92, ?d]"
      using partial_line_Suc[of rd ?p] True f(2,5) by simp
    have eq: "backslash fmt mb rd s 92 (ptr s) ?p =
      (if ?d = 46 then end_marker fmt mb rd s 92 (ptr s) (?p + 1)
       else Some (not_end_of_copy fmt mb rd s 92 (ptr s) (if \<not> csv_mode fmt then ?p + 1 else ?p)))"
      using True False by (simp add: backslash_def raw_get_def)
    show ?thesis
    proof (cases "?d = 46")
      case d: True
      have "res = marker_result (partial_line rd (ptr s)) (eol_type rd) ?cont (marker_spec fmt (eol_type rd) (stream rd (?p + 1)))"
        using res d f(2) by (auto simp: st marker_result_def split: res.splits option.splits)
      then show ?thesis using sim_end_marker[OF at fmt inv refl, of "?p + 1" mb] True d eq by simp
    next
      case d: False
      then show ?thesis
        using sim_not_end_of_copy[OF at fmt, of "?p + 1" res mb 92] sim_continue[OF at fmt refl, of mb 92] res st pl True eq f(2)
        by auto
    qed
  next
    case e: False
    then have "stream rd ?p = []" "?p = length (raw_buf rd)" using False f stream_end[of rd ?p] by (auto simp: need_refill_def)
    then show ?thesis
      using False f res by (simp add: backslash_def sim_def)
  qed
qed

lemma count_line_fields [simp]:
  "raw_buf_index (count_line fmt c t rd) = raw_buf_index rd" "line_buf (count_line fmt c t rd) = line_buf rd"
  "eol_type (count_line fmt c t rd) = eol_type rd" "copy_file (count_line fmt c t rd) = copy_file rd"
  "copy_pos (count_line fmt c t rd) = copy_pos rd" "frame (count_line fmt c t rd) = frame rd"
  "header_pending (count_line fmt c t rd) = header_pending rd"
  by (simp_all add: count_line_def frame_def header_pending_def)

lemma count_line_view [simp]:
  "stream (count_line fmt c t rd) p = stream rd p" "partial_line (count_line fmt c t rd) p = partial_line rd p"
  "buf_inv (count_line fmt c t rd) = buf_inv rd" "need_refill (count_line fmt c t rd) s p = need_refill rd s p"
  by (simp_all add: stream_def partial_line_def buf_inv_def need_refill_def)

lemma count_line_states [simp]:
  "at_char (count_line fmt c t rd) s d = at_char rd s d" "scan_inv (count_line fmt c t rd) s = scan_inv rd s"
  "pending fmt' (count_line fmt c t rd) s = pending fmt' rd s" "sim fmt' (count_line fmt c t rd) res q = sim fmt' rd res q"
  by (simp_all add: at_char_def scan_inv_def pending_def sim_def split: pass.split)

lemma at_char_state: "at_char rd (csv_state fmt c s) d = at_char rd s d"
  by (simp add: at_char_def)

lemma sim_read_pass:
  assumes fmt: "plain_format fmt" and inv: "scan_inv rd s" "\<not> need_data s" "ptr s < length (raw_buf rd)"
  shows "\<exists>q. read_pass fmt mb rd s = Some q \<and> sim fmt rd (pending fmt rd s) q"
proof -
  define c where "c = raw_buf rd ! ptr s"
  let ?p = "Suc (ptr s)" and ?s = "csv_state fmt c s"
  let ?rd = "count_line fmt c ?s rd"
  have at: "at_char rd s c" using inv by (simp add: at_char_def scan_inv_def c_def)
  note f = at_char_facts[OF at]
  have at': "at_char ?rd ?s c" using at by (simp add: at_char_state)
  have get: "raw_get rd (ptr s) = Some c" using inv(3) by (simp add: raw_get_def c_def)
  have pend: "pending fmt rd s = prepend (partial_line rd (ptr s))
    (line_spec fmt (eol_type rd) (first_char s) (in_quote s) (last_was_esc s) (c # stream rd ?p))"
    using f(1) by (simp add: pending_def)
  note spec = pend[unfolded line_spec.simps csv_flags_state prod.case]
  have eq: "read_pass fmt mb rd s =
    (if csv_mode fmt \<and> (c = 92 \<or> c = 13) \<and> need_refill rd s ?p then Some (refill rd s (ptr s))
     else if c = 13 \<and> (\<not> csv_mode fmt \<or> \<not> in_quote ?s) then carriage_return ?rd ?s (ptr s) ?p
     else if c = 10 \<and> (\<not> csv_mode fmt \<or> \<not> in_quote ?s) then Some (newline ?rd ?p)
     else if c = 92 \<and> (\<not> csv_mode fmt \<or> first_char ?s) then backslash fmt mb ?rd ?s c (ptr s) ?p
     else Some (not_end_of_copy fmt mb ?rd ?s c (ptr s) ?p))"
    by (simp only: read_pass_def Let_def get Option.bind.simps Suc_eq_plus1)
  consider (N) "csv_mode fmt \<and> (c = 92 \<or> c = 13) \<and> need_refill rd s ?p"
    | (R) "\<not> (csv_mode fmt \<and> need_refill rd s ?p)" "c = 13" "\<not> csv_mode fmt \<or> \<not> in_quote ?s"
    | (L) "c = 10" "\<not> csv_mode fmt \<or> \<not> in_quote ?s"
    | (B) "\<not> (csv_mode fmt \<and> need_refill rd s ?p)" "c = 92" "\<not> csv_mode fmt \<or> first_char s"
    | (O) "\<not> (csv_mode fmt \<and> (c = 92 \<or> c = 13) \<and> need_refill rd s ?p)" "\<not> (c = 13 \<and> (\<not> csv_mode fmt \<or> \<not> in_quote ?s))"
        "\<not> (c = 10 \<and> (\<not> csv_mode fmt \<or> \<not> in_quote ?s))" "\<not> (c = 92 \<and> (\<not> csv_mode fmt \<or> first_char s))"
    by blast
  then show ?thesis
  proof cases
    case N
    then show ?thesis using sim_refill[OF inv(1), of ?p fmt] eq by simp
  next
    case R
    have t: "\<not> csv_mode fmt \<Longrightarrow> ?s = s" by (simp add: csv_state_def)
    have "\<exists>q. carriage_return ?rd ?s (ptr ?s) (Suc (ptr ?s)) = Some q \<and> sim fmt ?rd (pending fmt rd s) q"
    proof (rule sim_carriage_return)
      show "at_char ?rd ?s 13" using at' R(2) by simp
      show "scan_inv ?rd ?s \<and> pending fmt ?rd ?s = pending fmt rd s" if "need_refill ?rd ?s (Suc (ptr ?s))"
        using that R(1) t inv(1) by (cases "csv_mode fmt") (auto simp: need_refill_def)
    qed (use spec R in simp)
    then show ?thesis using eq R by auto
  next
    case L
    have "sim fmt ?rd (pending fmt rd s) (newline ?rd (Suc (ptr ?s)))"
      by (rule sim_newline) (use at' spec L in simp_all)
    then show ?thesis using eq L by auto
  next
    case B
    have s: "?s = s" using csv_state_first[of s fmt] inv(1) fmt B by (auto simp: scan_inv_def)
    have "\<exists>q. backslash fmt mb ?rd s 92 (ptr s) (Suc (ptr s)) = Some q \<and> sim fmt ?rd (pending fmt rd s) q"
      by (rule sim_backslash, unfold count_line_fields count_line_view count_line_states) (use at fmt inv spec[unfolded s] B in simp_all)
    then show ?thesis using eq B s by auto
  next
    case O
    have "pending fmt rd s = prepend (partial_line rd ?p) (line_spec fmt (eol_type rd) False (in_quote ?s) (last_was_esc ?s) (stream rd ?p))"
      unfolding spec using O f(2) by auto
    then have "sim fmt ?rd (pending fmt rd s) (not_end_of_copy fmt mb ?rd ?s c (ptr ?s) (ptr ?s + 1))"
      by (intro sim_continue[OF at' fmt]) simp
    then show ?thesis using eq O by auto
  qed
qed

section \<open>Refilling the buffer\<close>

lemma NoDBCopyGetData_plain: "header_pending rd = 0 \<Longrightarrow> NoDBCopyGetData n rd = Some (fread n rd)"
  by (auto simp: NoDBCopyGetData_def header_pending_def split: if_splits)

lemma take_split: "xs = take n xs @ drop (length (take n xs)) xs"
  by (cases "n \<le> length xs") simp_all

lemma load_more_sim:
  assumes inv: "scan_inv rd s" and load: "length (raw_buf rd) \<le> ptr s \<or> need_data s"
  shows "\<exists>rd' s'. load_more rd s = Some (rd', s') \<and> scan_inv rd' s' \<and> \<not> need_data s' \<and> ptr s' = 0 \<and>
    pending fmt rd' s' = pending fmt rd s \<and> frame rd' = frame rd \<and>
    (raw_buf rd' = [] \<longrightarrow> raw_buf_index rd' = 0 \<and> stream rd (ptr s) = [] \<and> line_buf rd' = partial_line rd (ptr s) \<and> stream rd' 0 = [])"
proof -
  have i: "raw_buf_index rd \<le> ptr s" "ptr s \<le> length (raw_buf rd)" "header_pending rd = 0" "length (raw_buf rd) \<le> RAW_BUF_SIZE"
    using inv by (auto simp: scan_inv_def buf_inv_def)
  let ?rd1 = "rd\<lparr>line_buf := partial_line rd (ptr s), raw_buf_index := ptr s\<rparr>"
  have r: "REFILL_LINEBUF (ptr s) rd = Some ?rd1"
    using i by (cases "raw_buf_index rd = ptr s") (auto simp: REFILL_LINEBUF_def partial_line_def)
  define sv where "sv = drop (ptr s) (raw_buf rd)"
  define bs where "bs = take (RAW_BUF_SIZE - length sv) (drop (copy_pos rd) (copy_file rd))"
  let ?rd = "?rd1\<lparr>copy_pos := copy_pos rd + length bs, raw_buf := sv @ bs, raw_buf_index := 0\<rparr>"
  let ?s = "s\<lparr>hit_eof := hit_eof s \<or> bs = [], ptr := 0, need_data := False\<rparr>"
  have h: "header_pending ?rd1 = 0" "header_pending ?rd = 0" using i(3) by (simp_all add: header_pending_def)
  have l: "load_more rd s = Some (?rd, ?s)"
    by (simp add: load_more_def r NoDBCopyLoadRawBuf_def NoDBCopyGetData_plain[OF h(1)] fread_def sv_def bs_def)
  have st: "stream ?rd 0 = stream rd (ptr s)"
  proof -
    have "drop (copy_pos rd) (copy_file rd) = bs @ drop (copy_pos rd + length bs) (copy_file rd)"
      using take_split[of "drop (copy_pos rd) (copy_file rd)" "RAW_BUF_SIZE - length sv"] by (simp add: bs_def[symmetric] add.commute)
    then show ?thesis by (simp add: stream_def sv_def)
  qed
  have pl: "partial_line ?rd 0 = partial_line rd (ptr s)" by (simp add: partial_line_def)
  have sv: "length sv < RAW_BUF_SIZE" using load inv i by (auto simp: sv_def scan_inv_def RAW_BUF_SIZE_def)
  have e: "length (copy_file rd) \<le> copy_pos rd" if "bs = []" using that sv by (simp add: bs_def)
  have sz: "length sv + length bs \<le> RAW_BUF_SIZE" using sv by (simp add: bs_def)
  have eof: "length (copy_file rd) \<le> copy_pos rd + length bs" if "hit_eof s \<or> bs = []"
    using that e inv by (cases "bs = []") (auto simp: scan_inv_def intro: trans_le_add1)
  have "first_char s \<longrightarrow> \<not> in_quote s \<and> \<not> last_was_esc s" using inv by (simp add: scan_inv_def)
  then have "scan_inv ?rd ?s" using sz eof h(2) by (simp add: scan_inv_def buf_inv_def)
  moreover have "pending fmt ?rd ?s = pending fmt rd s" using st pl by (simp add: pending_def)
  moreover have "frame ?rd = frame rd" by (simp add: frame_def)
  moreover have "stream rd (ptr s) = []" if "raw_buf ?rd = []"
    using that e by (simp add: st[symmetric]) (simp add: stream_def)
  then have "raw_buf ?rd = [] \<longrightarrow> raw_buf_index ?rd = 0 \<and> stream rd (ptr s) = [] \<and> line_buf ?rd = partial_line rd (ptr s) \<and> stream ?rd 0 = []"
    unfolding st by simp
  moreover have "\<not> need_data ?s" "ptr ?s = 0" by simp_all
  ultimately show ?thesis using l by blast
qed

text \<open>The result of the loop delivers the pending line.\<close>

definition delivers :: "reader \<Rightarrow> line_result \<Rightarrow> (reader \<times> nat \<times> bool) res option \<Rightarrow> bool" where
  "delivers rd res r \<longleftrightarrow> (case res of
     Err e \<Rightarrow> r = Some (Err e)
   | Val (l, rest, eol, eof) \<Rightarrow> \<exists>rd' p. r = Some (Val (rd', p, eof)) \<and> buf_inv rd' \<and> raw_buf_index rd' \<le> p \<and> p \<le> length (raw_buf rd') \<and>
       partial_line rd' p = l \<and> stream rd' p = rest \<and> eol_type rd' = eol \<and> frame rd' = frame rd)"

lemma delivers_frame: "frame rd = frame rd' \<Longrightarrow> delivers rd res r = delivers rd' res r"
  by (simp only: delivers_def)

lemma read_line_loop_sim:
  assumes "plain_format fmt" "scan_inv rd s"
  shows "delivers rd (pending fmt rd s) (read_line_loop fmt mb rd s)"
  using assms
proof (induction fmt mb rd s rule: read_line_loop.induct)
  case (1 fmt mb rd s)
  let ?h = "if ptr s \<ge> length (raw_buf rd) \<or> need_data s then load_more rd s else Some (rd, s)"
  obtain rd1 s1 where h: "?h = Some (rd1, s1)" "scan_inv rd1 s1" "\<not> need_data s1" "pending fmt rd1 s1 = pending fmt rd s"
    "frame rd1 = frame rd" "raw_buf rd1 \<noteq> [] \<Longrightarrow> ptr s1 < length (raw_buf rd1)"
    "raw_buf rd1 = [] \<Longrightarrow> raw_buf_index rd1 = 0 \<and> ptr s1 = 0 \<and> stream rd1 0 = []"
  proof (cases "ptr s \<ge> length (raw_buf rd) \<or> need_data s")
    case True
    then show ?thesis using load_more_sim[OF 1(3) True, of fmt] that by auto
  next
    case False
    then have "raw_buf rd \<noteq> []" by auto
    then show ?thesis using False 1(3) that[of rd s] by simp
  qed
  show ?case
  proof (cases "raw_buf rd1 = []")
    case True
    have "pending fmt rd1 s1 = Val (partial_line rd1 0, [], eol_type rd1, True)"
      using h(7)[OF True] by (simp add: pending_def)
    moreover have "read_line_loop fmt mb rd s = Some (Val (rd1, 0, True))"
      using h(1) True by (subst read_line_loop.simps) simp
    moreover have "buf_inv rd1" using h(2) by (simp add: scan_inv_def)
    ultimately show ?thesis using h(4,5) h(7)[OF True] by (auto simp: delivers_def)
  next
    case False
    obtain q where q: "read_pass fmt mb rd1 s1 = Some q" "sim fmt rd1 (pending fmt rd s) q"
      using sim_read_pass[OF 1(2) h(2,3) h(6)[OF False], of mb] h(4) by auto
    have loop: "read_line_loop fmt mb rd s = (case q of Again rd' s' \<Rightarrow> read_line_loop fmt mb rd' s'
      | Stop rd' p result \<Rightarrow> Some (Val (rd', p, result)) | Fail e \<Rightarrow> Some (Err e))"
      using h(1) False q(1) by (subst read_line_loop.simps) (simp split: pass.split)
    show ?thesis
    proof (cases q)
      case (Again rd' s')
      have "delivers rd' (pending fmt rd' s') (read_line_loop fmt mb rd' s')"
        by (rule 1(1)[OF h(1) refl False q(1) Again 1(2)]) (use q(2) Again in \<open>simp add: sim_def\<close>)
      moreover have "frame rd' = frame rd" "pending fmt rd' s' = pending fmt rd s" using q(2) Again h(5) by (simp_all add: sim_def)
      ultimately show ?thesis using Again loop delivers_frame[of rd' rd] by simp
    next
      case (Stop rd' p eof)
      then show ?thesis using q(2) loop h(5) by (simp add: sim_def delivers_def)
    next
      case (Fail e)
      then show ?thesis using q(2) loop by (simp add: sim_def delivers_def)
    qed
  qed
qed

section \<open>Refinement\<close>

text \<open>The bytes of the file that have not been delivered yet.\<close>

definition unread :: "reader \<Rightarrow> byte list" where
  "unread rd = stream rd (raw_buf_index rd)"

lemma read_line_ok:
  assumes "plain_format fmt" "buf_inv rd" "line_buf rd = []"
  shows "case line_spec fmt (eol_type rd) True False False (unread rd) of
      Err e \<Rightarrow> NoDBCopyReadLineText fmt mb rd = Some (Err e)
    | Val (l, rest, eol, eof) \<Rightarrow> \<exists>rd'. NoDBCopyReadLineText fmt mb rd = Some (Val (rd', eof)) \<and>
        line_buf rd' = l \<and> unread rd' = rest \<and> eol_type rd' = eol \<and> buf_inv rd' \<and> frame rd' = frame rd"
proof -
  let ?s = "start_scan rd" and ?r = "line_spec fmt (eol_type rd) True False False (unread rd)"
  have "scan_inv rd ?s" using assms(2) by (simp add: scan_inv_def start_scan_def buf_inv_def)
  moreover have "pending fmt rd ?s = ?r"
    using assms(3) by (simp add: pending_def start_scan_def partial_line_def unread_def)
  ultimately have d: "delivers rd ?r (read_line_loop fmt mb rd ?s)" using read_line_loop_sim[OF assms(1)] by metis
  show ?thesis
  proof (cases ?r)
    case (Err e)
    then show ?thesis using d by (simp add: delivers_def NoDBCopyReadLineText_def)
  next
    case (Val v)
    obtain l rest eol eof where v: "v = (l, rest, eol, eof)" by (metis prod_cases4)
    obtain rd1 p where r: "read_line_loop fmt mb rd ?s = Some (Val (rd1, p, eof))" "buf_inv rd1" "raw_buf_index rd1 \<le> p"
      "p \<le> length (raw_buf rd1)" "partial_line rd1 p = l" "stream rd1 p = rest" "eol_type rd1 = eol" "frame rd1 = frame rd"
      using d Val v by (auto simp: delivers_def)
    let ?rd = "rd1\<lparr>line_buf := partial_line rd1 p, raw_buf_index := p\<rparr>"
    have "REFILL_LINEBUF p rd1 = Some ?rd"
      using r(3,4) by (cases "raw_buf_index rd1 = p") (auto simp: REFILL_LINEBUF_def partial_line_def)
    then have "NoDBCopyReadLineText fmt mb rd = Some (Val (?rd, eof))" by (simp add: NoDBCopyReadLineText_def r(1))
    moreover have "unread ?rd = stream rd1 p" "buf_inv ?rd" "frame ?rd = frame rd1"
      using r(2,4) by (simp_all add: unread_def stream_def buf_inv_def header_pending_def frame_def)
    ultimately show ?thesis using r(5-8) Val v by simp
  qed
qed

text \<open>
  C10: Reading a line refines splitting the stream. Whatever the sizes of the file and the position in
  the raw buffer, with all its refills in the middle of a line, of a \<open>\r\n\<close> or of an end-of-copy
  marker, \<open>NoDBCopyReadLineText\<close> returns exactly the next line of the bytes not delivered yet,
  leaves exactly the bytes behind it, settles the kind of line ends in the same way and reports the
  same errors as \<open>line_spec\<close>, which knows nothing of buffers. It never reads outside the buffer, and
  it always returns. The encoding of the client embeds no ASCII bytes and in CSV mode the quote is
  not the backslash.
\<close>

theorem read_line_refines:
  assumes "plain_format fmt" "buf_inv rd" "line_buf rd = []"
  shows "case line_spec fmt (eol_type rd) True False False (unread rd) of
      Err e \<Rightarrow> NoDBCopyReadLineText fmt mb rd = Some (Err e)
    | Val (l, rest, eol, eof) \<Rightarrow> \<exists>rd'. NoDBCopyReadLineText fmt mb rd = Some (Val (rd', eof)) \<and>
        line_buf rd' = l \<and> unread rd' = rest \<and> eol_type rd' = eol \<and> buf_inv rd' \<and> frame rd' = frame rd"
  using assms by (rule read_line_ok)

definition text_reader :: "byte list \<Rightarrow> reader" where
  "text_reader bs = \<lparr>copy_file = bs, copy_pos = 0, raw_buf = [], raw_buf_index = 0, line_buf = [], line_buf_converted = False,
     eol_type = EOL_UNKNOWN, cur_lineno = 0, header_line = False, read_header = False, eolCache = demo_cache, processed = 0,
     tupleRead = 0, tupleStored = 0\<rparr>"

definition csv_format :: read_format where
  "csv_format = \<lparr>csv_mode = True, rquote = 34, rescape = 34, encoding_embeds_ascii = False, need_transcoding = False\<rparr>"

lemma text_reader_inv: "buf_inv (text_reader bs)" "line_buf (text_reader bs) = []" "eol_type (text_reader bs) = EOL_UNKNOWN"
  "unread (text_reader bs) = bs"
  by (simp_all add: text_reader_def buf_inv_def header_pending_def unread_def stream_def)

lemma csv_format_plain: "plain_format csv_format"
  by (simp add: csv_format_def plain_format_def)

text \<open>The file \<open>"x\<close>, newline, \<open>y",z\<close>, newline, \<open>w\<close>: the first newline is inside quotes.\<close>

theorem read_line_refines_witness:
  "\<exists>rd'. NoDBCopyReadLineText csv_format (\<lambda>_. 1) (text_reader [34, 120, 10, 121, 34, 44, 122, 10, 119]) = Some (Val (rd', False)) \<and>
     line_buf rd' = [34, 120, 10, 121, 34, 44, 122, 10] \<and> unread rd' = [119] \<and> eol_type rd' = EOL_NL"
proof -
  have "line_spec csv_format EOL_UNKNOWN True False False [34, 120, 10, 121, 34, 44, 122, 10, 119] =
    Val ([34, 120, 10, 121, 34, 44, 122, 10], [119], EOL_NL, False)" by code_simp
  then show ?thesis
    using read_line_refines[OF csv_format_plain text_reader_inv(1,2)[of "[34, 120, 10, 121, 34, 44, 122, 10, 119]"], of "\<lambda>_. 1"]
    by (auto simp: text_reader_inv)
qed

section \<open>Reading all lines\<close>

text \<open>What a line takes from the stream: everything up to its end, or up to an end-of-copy marker.\<close>

lemma marker_spec_split:
  assumes "marker_spec fmt eol cs = Val (Some rest)"
  shows "\<exists>m. cs = m @ rest"
proof -
  have t: "\<exists>m. cs = m @ tl cs" for cs :: "byte list" by (cases cs) (auto intro: exI[of _ "[hd cs]"])
  have t2: "\<exists>m. cs = m @ tl (tl cs)" using t[of cs] t[of "tl cs"] by (metis append.assoc)
  from assms have "rest = tl cs \<or> rest = tl (tl cs)"
    by (auto simp: marker_spec_def marker_spec2_def Let_def split: if_splits)
  then show ?thesis using t[of cs] t2 by auto
qed

definition split_ok :: "byte list \<Rightarrow> line_result \<Rightarrow> bool" where
  "split_ok s r \<longleftrightarrow> (\<forall>l rest eol eof. r = Val (l, rest, eol, eof) \<longrightarrow>
     (\<exists>m. s = l @ m @ rest \<and> (m = [] \<and> (eof \<longrightarrow> rest = []) \<or> eof \<and> take 2 m = [92, 46]) \<and> (\<not> eof \<longrightarrow> l \<noteq> [])))"

lemma split_ok_prepend: "split_ok s r \<Longrightarrow> split_ok (xs @ s) (prepend xs r)"
  by (auto simp: split_ok_def prepend_def split: res.splits)

lemma split_ok_Cons: "split_ok s r \<Longrightarrow> split_ok (c # s) (prepend [c] r)" and split_ok_Cons2: "split_ok s r \<Longrightarrow> split_ok (c # d # s) (prepend [c, d] r)"
  using split_ok_prepend[of s r "[c]"] split_ok_prepend[of s r "[c, d]"] by simp_all

lemma split_ok_Val: "l \<noteq> [] \<Longrightarrow> eof \<longrightarrow> rest = [] \<Longrightarrow> split_ok (l @ rest) (Val (l, rest, eol, eof))" and split_ok_Err [simp]: "split_ok s (Err e)"
  by (simp_all add: split_ok_def)

lemma line_spec_split: "split_ok s (line_spec fmt eol fi inq esc s)"
proof (induction "length s" arbitrary: s fi inq esc rule: less_induct)
  case less
  show ?case
  proof (cases s)
    case Nil
    then show ?thesis by (simp add: split_ok_def)
  next
    case (Cons c cs)
    obtain iq ec where fl: "csv_flags fmt c inq esc = (iq, ec)" by (metis surj_pair)
    note unf = line_spec.simps(2)[of fmt eol fi inq esc c cs, unfolded fl prod.case]
    have IH: "split_ok cs (line_spec fmt eol False iq ec cs)" by (rule less) (simp add: Cons)
    have cr: "split_ok (13 # cs) (Val ([13, 10], tl cs, e, False))" if "next_byte cs = 10" for e
      using that split_ok_Val[of "[13, 10]" False "tl cs"] by (cases cs) (auto simp: next_byte_def)
    have one: "split_ok (x # cs) (Val ([x], cs, e, False))" for x e using split_ok_Val[of "[x]" False cs] by simp
    have bs: "split_ok (92 # cs) (case cs of
             [] \<Rightarrow> Val ([92], [], eol, True)
           | d # ds \<Rightarrow>
               if d = 46 then
                 (case marker_spec fmt eol ds of
                    Err e \<Rightarrow> Err e
                  | Val (Some rest) \<Rightarrow> Val ([], rest, eol, True)
                  | Val None \<Rightarrow> prepend [92] (line_spec fmt eol False iq ec cs))
               else if \<not> csv_mode fmt then prepend [92, d] (line_spec fmt eol False iq ec ds)
               else prepend [92] (line_spec fmt eol False iq ec cs))"
    proof (cases cs)
      case Nil
      then show ?thesis using split_ok_Val[of "[92]" True "[]"] by simp
    next
      case (Cons d ds)
      have "split_ok ds (line_spec fmt eol False iq ec ds)" by (rule less) (simp add: \<open>s = c # cs\<close> Cons)
      moreover have "split_ok (92 # 46 # ds) (Val ([], rest, eol, True))" if "marker_spec fmt eol ds = Val (Some rest)" for rest
        using marker_spec_split[OF that] by (auto simp: split_ok_def intro!: exI[of _ "92 # 46 # _"])
      ultimately show ?thesis
        using split_ok_Cons[OF IH, of 92] split_ok_Cons2[of ds _ 92 d] Cons by (auto split: res.splits option.splits)
    qed
    show ?thesis unfolding Cons unf using split_ok_Cons[OF IH, of c] cr one bs by auto
  qed
qed

text \<open>
  Lines are read until the end of the data is reported, each into an empty \<open>line_buf\<close>, for at most
  \<open>fuel\<close> calls. The last component is the state with what was left in \<open>line_buf\<close> at the end.
\<close>

fun read_lines :: "nat \<Rightarrow> read_format \<Rightarrow> (byte \<Rightarrow> nat) \<Rightarrow> reader \<Rightarrow> (byte list list \<times> reader) res option" where
  "read_lines 0 fmt mb rd = None"
| "read_lines (Suc fuel) fmt mb rd =
     (case NoDBCopyReadLineText fmt mb (rd\<lparr>line_buf := []\<rparr>) of
        None \<Rightarrow> None
      | Some (Err e) \<Rightarrow> Some (Err e)
      | Some (Val (rd', True)) \<Rightarrow> Some (Val ([], rd'))
      | Some (Val (rd', False)) \<Rightarrow>
          (case read_lines fuel fmt mb rd' of
             None \<Rightarrow> None
           | Some (Err e) \<Rightarrow> Some (Err e)
           | Some (Val (ls, rd'')) \<Rightarrow> Some (Val (line_buf rd' # ls, rd''))))"

lemma reset_line [simp]: "buf_inv (rd\<lparr>line_buf := x\<rparr>) = buf_inv rd" "unread (rd\<lparr>line_buf := x\<rparr>) = unread rd" "frame (rd\<lparr>line_buf := x\<rparr>) = frame rd"
  by (simp_all add: buf_inv_def header_pending_def unread_def stream_def frame_def)

lemma read_line_cases:
  assumes "plain_format fmt" "buf_inv rd"
  obtains (error) e where "NoDBCopyReadLineText fmt mb (rd\<lparr>line_buf := []\<rparr>) = Some (Err e)"
  | (line) rd' eof m where "NoDBCopyReadLineText fmt mb (rd\<lparr>line_buf := []\<rparr>) = Some (Val (rd', eof))" "buf_inv rd'"
      "unread rd = line_buf rd' @ m @ unread rd'" "m = [] \<and> (eof \<longrightarrow> unread rd' = []) \<or> eof \<and> take 2 m = [92, 46]"
      "\<not> eof \<longrightarrow> line_buf rd' \<noteq> []"
proof -
  let ?rd = "rd\<lparr>line_buf := []\<rparr>"
  note r = read_line_ok[of fmt ?rd mb, OF assms(1)] assms(2)
  note sp = line_spec_split[of "unread rd" fmt "eol_type rd" True False False]
  show thesis
  proof (cases "line_spec fmt (eol_type rd) True False False (unread rd)")
    case (Err e)
    then show thesis using r error by simp
  next
    case (Val v)
    obtain l rest eol eof where v: "v = (l, rest, eol, eof)" by (metis prod_cases4)
    show thesis using r sp Val v line unfolding split_ok_def by fastforce
  qed
qed

text \<open>
  C20: The scan of a file ends and loses nothing. From any state of the buffer, one call more than there
  are unread bytes is enough to reach the end of the data or a reported error. In the first case the
  lines, what is left in \<open>line_buf\<close> and what follows an end-of-copy marker are the unread bytes, in
  their order: no byte is skipped at a refill or delivered twice.
\<close>

theorem scan_terminates:
  assumes "plain_format fmt" "buf_inv rd"
  shows "\<exists>r. read_lines (Suc (length (unread rd))) fmt mb rd = Some r \<and>
    (\<forall>ls rd'. r = Val (ls, rd') \<longrightarrow> (\<exists>m. unread rd = concat ls @ line_buf rd' @ m @ unread rd' \<and>
       (m = [] \<and> unread rd' = [] \<or> take 2 m = [92, 46])))"
proof -
  have "\<exists>r. read_lines (Suc n) fmt mb rd = Some r \<and>
    (\<forall>ls rd'. r = Val (ls, rd') \<longrightarrow> (\<exists>m. unread rd = concat ls @ line_buf rd' @ m @ unread rd' \<and>
       (m = [] \<and> unread rd' = [] \<or> take 2 m = [92, 46])))" if "length (unread rd) \<le> n" for n
    using assms(2) that
  proof (induction n arbitrary: rd)
    case (0 rd)
    from assms(1) 0(1) show ?case by (cases rule: read_line_cases[where mb = mb]) (use 0 in auto)
  next
    case (Suc n rd)
    from assms(1) Suc.prems(1) show ?case
    proof (cases rule: read_line_cases[where mb = mb])
      case (error e)
      then show ?thesis by simp
    next
      case (line rd' eof m)
      show ?thesis
      proof (cases eof)
        case True
        then show ?thesis using line by auto
      next
        case False
        then have "length (unread rd') \<le> n" using line(3,5) Suc.prems(2) by (cases "line_buf rd'") auto
        then obtain r where r: "read_lines (Suc n) fmt mb rd' = Some r"
          "\<And>ls rd''. r = Val (ls, rd'') \<Longrightarrow> \<exists>m. unread rd' = concat ls @ line_buf rd'' @ m @ unread rd'' \<and>
            (m = [] \<and> unread rd'' = [] \<or> take 2 m = [92, 46])"
          using Suc.IH[OF line(2)] by blast
        show ?thesis using r line False by (cases r) (auto simp del: read_lines.simps simp: read_lines.simps(2)[of "Suc n"])
      qed
    qed
  qed
  then show ?thesis by blast
qed

theorem scan_terminates_witness:
  "\<exists>r. read_lines 4 csv_format (\<lambda>_. 1) (text_reader [97, 10, 98]) = Some r"
  using scan_terminates[OF csv_format_plain text_reader_inv(1)[of "[97, 10, 98]"], of "\<lambda>_. 1"]
  by (auto simp: text_reader_inv numeral_eq_Suc)

end
