(* ===== verification/NoDB_ParseSpec.thy ===== *)
theory NoDB_ParseSpec
  imports NoDB_Parse
begin

text \<open>
  Correctness of the line parsers of theory \<open>NoDB_Parse\<close>: memory safety on every input, the round trip
  of CSV lines, and the agreement of the partial parses with the full one.
\<close>

section \<open>Positions\<close>

lemma set_ptr_ok:
  "0 \<le> i \<Longrightarrow> nat i < length at \<Longrightarrow> set_ptr at i v = Some (at[nat i := (at ! nat i)\<lparr>a_ptr := Some v\<rparr>])"
  by (simp add: set_ptr_def arr_get_in arr_set_in)

lemma upd_width_ok:
  assumes "0 \<le> i" "nat i + 1 < length at" "a_ptr (at ! nat i) = Some p" "a_ptr (at ! (nat i + 1)) = Some q"
  shows "upd_width at i = Some (at[nat i := (at ! nat i)\<lparr>a_width := Some (q - p - 1)\<rparr>])"
proof -
  have "nat (i + 1) = nat i + 1" using assms(1) by simp
  then show ?thesis using assms by (simp add: upd_width_def arr_get_in arr_set_in)
qed

text \<open>The effect of one field on the attributes: the position of the next field and its own width.\<close>

definition put_field :: "attr_t list \<Rightarrow> nat \<Rightarrow> 16 word \<Rightarrow> 16 word \<Rightarrow> attr_t list" where
  "put_field at f p q =
     (at[f + 1 := (at ! (f + 1))\<lparr>a_ptr := Some q\<rparr>])[f := (at ! f)\<lparr>a_width := Some (q - p - 1)\<rparr>]"

lemma length_put_field [simp]: "length (put_field at f p q) = length at"
  by (simp add: put_field_def)

lemma put_field_ptr:
  assumes "f + 1 < length at"
  shows "a_ptr (put_field at f p q ! k) = (if k = f + 1 then Some q else a_ptr (at ! k))"
    and "a_width (put_field at f p q ! k) = (if k = f then Some (q - p - 1) else a_width (at ! k))"
  using assms by (auto simp: put_field_def nth_list_update)

lemma field_positions:
  assumes "f + 1 < length at" "a_ptr (at ! f) = Some p"
  shows "do { at \<leftarrow> set_ptr at (int f + 1) q; upd_width at (int f) } = Some (put_field at f p q)"
proof -
  have f: "nat (int f + 1) = f + 1" by simp
  let ?a = "at[f + 1 := (at ! (f + 1))\<lparr>a_ptr := Some q\<rparr>]"
  have s: "set_ptr at (int f + 1) q = Some ?a" using assms(1) set_ptr_ok[of "int f + 1" at q] unfolding f by simp
  have "upd_width ?a (int f) = Some (?a[nat (int f) := (?a ! nat (int f))\<lparr>a_width := Some (q - p - 1)\<rparr>])"
    by (rule upd_width_ok) (use assms in simp_all)
  then show ?thesis by (simp add: s put_field_def)
qed

section \<open>The field loop\<close>

text \<open>One iteration, on arrays that are large enough.\<close>

definition arrays_ok :: "line_format \<Rightarrow> nat \<Rightarrow> line_state \<Rightarrow> bool" where
  "arrays_ok fmt f st \<longleftrightarrow> nfields fmt \<le> int (length (field_strings st)) \<and> nfields fmt < int (length (attributes st)) \<and>
     (int f < nfields fmt \<longrightarrow> a_ptr (attributes st ! f) \<noteq> None)"

definition next_state :: "nat \<Rightarrow> nat \<Rightarrow> field_t \<Rightarrow> line_state \<Rightarrow> line_state" where
  "next_state f tot fd st =
     st\<lparr>field_strings := (field_strings st)[f := Some (f_val fd)],
        attributes := put_field (attributes st) f (the (a_ptr (attributes st ! f))) (of_nat (tot + f_len fd + 1))\<rparr>"

lemma read_fields_step:
  assumes "arrays_ok fmt f st" "int f < nfields fmt" "field cur = Val fd"
  shows "read_fields field fmt (int f) cur tot st =
    (if int f = lastfield fmt \<or> \<not> f_found fd then Some (Val (next_state f tot fd st))
     else read_fields field fmt (int (Suc f)) (f_rest fd) (tot + f_len fd + 1) (next_state f tot fd st))"
proof -
  have len: "f < length (field_strings st)" "f + 1 < length (attributes st)" using assms(1,2) by (auto simp: arrays_ok_def)
  obtain p where p: "a_ptr (attributes st ! f) = Some p" using assms(1,2) by (auto simp: arrays_ok_def)
  note pos = field_positions[OF len(2) p, of "of_nat (tot + f_len fd + 1)"]
  obtain at1 where at1: "set_ptr (attributes st) (int f + 1) (of_nat (tot + f_len fd + 1)) = Some at1"
    "upd_width at1 (int f) = Some (put_field (attributes st) f p (of_nat (tot + f_len fd + 1)))"
    using pos by (auto split: Option.bind_splits)
  show ?thesis
    using assms(2,3) len p at1
    by (subst read_fields.simps) (simp add: next_state_def Let_def add.commute[of "1 :: int"])
qed

lemma arrays_ok_next:
  assumes "arrays_ok fmt f st" "int f < nfields fmt"
  shows "arrays_ok fmt (Suc f) (next_state f tot fd st)"
proof -
  have "f + 1 < length (attributes st)" using assms by (auto simp: arrays_ok_def)
  then show ?thesis using assms(1) by (simp add: arrays_ok_def next_state_def put_field_ptr)
qed

lemma next_state_lengths [simp]:
  "length (field_strings (next_state f tot fd st)) = length (field_strings st)"
  "length (attributes (next_state f tot fd st)) = length (attributes st)"
  by (simp_all add: next_state_def)

lemma read_fields_total:
  assumes "arrays_ok fmt f st"
  shows "\<exists>r. read_fields field fmt (int f) cur tot st = Some r \<and>
    (\<forall>st'. r = Val st' \<longrightarrow> length (field_strings st') = length (field_strings st) \<and>
       length (attributes st') = length (attributes st))"
  using assms
proof (induction "nat (nfields fmt - int f)" arbitrary: f cur tot st)
  case 0
  then have "int f \<ge> nfields fmt" by simp
  then show ?case by (subst read_fields.simps) simp
next
  case (Suc n)
  then have f: "int f < nfields fmt" by simp
  show ?case
  proof (cases "field cur")
    case (Err e)
    then show ?thesis using f by (subst read_fields.simps) simp
  next
    case (Val fd)
    note step = read_fields_step[OF Suc.prems f, of field cur fd tot, OF Val]
    have "n = nat (nfields fmt - int (Suc f))" using Suc.hyps(2) by simp
    from Suc.hyps(1)[OF this arrays_ok_next[OF Suc.prems f], of "f_rest fd" "tot + f_len fd + 1" tot fd]
    show ?thesis unfolding step by (auto split: if_splits)
  qed
qed

section \<open>Lines as joined fields\<close>

fun join_fields :: "byte \<Rightarrow> byte list list \<Rightarrow> byte list" where
  "join_fields d [] = []"
| "join_fields d [r] = r"
| "join_fields d (r # s # rs) = r @ d # join_fields d (s # rs)"

definition field_start :: "byte list list \<Rightarrow> nat \<Rightarrow> nat" where
  "field_start rs i = sum_list (map length (take i rs)) + i"

lemma field_start_0 [simp]: "field_start rs 0 = 0"
  by (simp add: field_start_def)

lemma field_start_Suc [simp]: "field_start (r # rs) (Suc i) = length r + 1 + field_start rs i"
  by (simp add: field_start_def)

lemma width_word: "(of_nat (t + l + 1) :: 16 word) - of_nat t - 1 = of_nat l"
  by (simp add: algebra_simps)

text \<open>What the loop leaves in the arrays for the fields from column \<open>f\<close> on, up to the last wanted one.\<close>

definition fields_read :: "line_format \<Rightarrow> nat \<Rightarrow> nat \<Rightarrow> byte list list \<Rightarrow> byte list option list \<Rightarrow> line_state \<Rightarrow> line_state \<Rightarrow> bool" where
  "fields_read fmt f tot rs vs st st' \<longleftrightarrow>
     length (field_strings st') = length (field_strings st) \<and> length (attributes st') = length (attributes st) \<and>
     (\<forall>i < length rs. int (f + i) \<le> lastfield fmt \<longrightarrow>
        field_strings st' ! (f + i) = Some (vs ! i) \<and>
        a_ptr (attributes st' ! (f + i)) = Some (of_nat (tot + field_start rs i)) \<and>
        a_width (attributes st' ! (f + i)) = Some (of_nat (length (rs ! i)))) \<and>
     (\<forall>k < f. field_strings st' ! k = field_strings st ! k \<and> attributes st' ! k = attributes st ! k) \<and>
     a_ptr (attributes st' ! f) = a_ptr (attributes st ! f)"

lemma read_fields_list:
  assumes "arrays_ok fmt f st" "rs \<noteq> []" "length vs = length rs" "int f \<le> lastfield fmt" "lastfield fmt < nfields fmt"
    "a_ptr (attributes st ! f) = Some (of_nat tot)"
    "\<forall>i < length rs. \<forall>rs'. field (join_fields d (rs ! i # rs')) =
       Val \<lparr>f_val = vs ! i, f_len = length (rs ! i), f_found = (rs' \<noteq> []), f_rest = join_fields d rs'\<rparr>"
  shows "\<exists>st'. read_fields field fmt (int f) (join_fields d rs) tot st = Some (Val st') \<and> fields_read fmt f tot rs vs st st'"
  using assms
proof (induction rs arbitrary: f tot st vs)
  case (Cons r rs)
  obtain v vs' where vs: "vs = v # vs'" "length vs' = length rs" using Cons.prems(3) by (cases vs) auto
  let ?fd = "\<lparr>f_val = v, f_len = length r, f_found = (rs \<noteq> []), f_rest = join_fields d rs\<rparr>"
  have fd: "field (join_fields d (r # rs)) = Val ?fd" using Cons.prems(7)[rule_format, of 0 rs] vs by simp
  have f: "int f < nfields fmt" using Cons.prems(4,5) by simp
  define st1 where "st1 = next_state f tot ?fd st"
  have step: "read_fields field fmt (int f) (join_fields d (r # rs)) tot st =
    (if int f = lastfield fmt \<or> rs = [] then Some (Val st1)
     else read_fields field fmt (int (Suc f)) (join_fields d rs) (tot + length r + 1) st1)"
    using read_fields_step[OF Cons.prems(1) f, of field "join_fields d (r # rs)" ?fd tot, OF fd] by (simp add: st1_def)
  have len: "f < length (field_strings st)" "f + 1 < length (attributes st)"
    using Cons.prems(1) f by (auto simp: arrays_ok_def)
  have at: "attributes st1 = put_field (attributes st) f (of_nat tot) (of_nat (tot + length r + 1))"
    using Cons.prems(6) by (simp add: st1_def next_state_def)
  have one: "field_strings st1 ! f = Some v" "a_ptr (attributes st1 ! f) = Some (of_nat tot)"
    "a_width (attributes st1 ! f) = Some (of_nat (length r))" "a_ptr (attributes st1 ! Suc f) = Some (of_nat (tot + length r + 1))"
    using len Cons.prems(6) width_word[of tot "length r"]
    by (simp_all add: at put_field_ptr) (simp_all add: st1_def next_state_def)
  have old: "field_strings st1 ! k = field_strings st ! k" "attributes st1 ! k = attributes st ! k" if "k < f" for k
    using that len unfolding at by (simp_all add: st1_def next_state_def put_field_def)
  have lens: "length (field_strings st1) = length (field_strings st)" "length (attributes st1) = length (attributes st)"
    by (simp_all add: st1_def)
  show ?case
  proof (cases "int f = lastfield fmt \<or> rs = []")
    case True
    have "fields_read fmt f tot (r # rs) vs st st1"
      unfolding fields_read_def using True one old lens Cons.prems(6) vs by (auto simp: less_Suc_eq_0_disj)
    then show ?thesis using True step by simp
  next
    case False
    have a1: "arrays_ok fmt (Suc f) st1" unfolding st1_def by (rule arrays_ok_next[OF Cons.prems(1) f])
    have sub: "\<forall>i < length rs. \<forall>rs'. field (join_fields d (rs ! i # rs')) =
       Val \<lparr>f_val = vs' ! i, f_len = length (rs ! i), f_found = (rs' \<noteq> []), f_rest = join_fields d rs'\<rparr>"
      using Cons.prems(7) vs by (metis Suc_less_eq length_Cons nth_Cons_Suc)
    obtain st' where st': "read_fields field fmt (int (Suc f)) (join_fields d rs) (tot + length r + 1) st1 = Some (Val st')"
      "fields_read fmt (Suc f) (tot + length r + 1) rs vs' st1 st'"
      using Cons.IH[OF a1 _ vs(2) _ Cons.prems(5) one(4) sub] False Cons.prems(4) by auto
    have rest: "field_strings st' ! (f + Suc i) = Some (vs ! Suc i) \<and>
        a_ptr (attributes st' ! (f + Suc i)) = Some (of_nat (tot + field_start (r # rs) (Suc i))) \<and>
        a_width (attributes st' ! (f + Suc i)) = Some (of_nat (length (rs ! i)))"
      if "i < length rs" "int (f + Suc i) \<le> lastfield fmt" for i
      using st'(2) that vs by (simp add: fields_read_def add.assoc)
    have first: "field_strings st' ! f = Some v \<and> a_ptr (attributes st' ! f) = Some (of_nat tot) \<and>
        a_width (attributes st' ! f) = Some (of_nat (length r))"
      using st'(2) one by (simp add: fields_read_def)
    have "fields_read fmt f tot (r # rs) vs st st'"
      unfolding fields_read_def
    proof (intro conjI allI impI)
      fix i assume i: "i < length (r # rs)" "int (f + i) \<le> lastfield fmt"
      show "field_strings st' ! (f + i) = Some (vs ! i)" using first rest[of "i - 1"] i vs by (cases i) auto
      show "a_ptr (attributes st' ! (f + i)) = Some (of_nat (tot + field_start (r # rs) i))"
        using first rest[of "i - 1"] i by (cases i) auto
      show "a_width (attributes st' ! (f + i)) = Some (of_nat (length ((r # rs) ! i)))"
        using first rest[of "i - 1"] i by (cases i) auto
    next
      fix k assume "k < f"
      then show "field_strings st' ! k = field_strings st ! k" "attributes st' ! k = attributes st ! k"
        using st'(2) old by (simp_all add: fields_read_def)
    qed (use st'(2) lens first Cons.prems(6) in \<open>simp_all add: fields_read_def\<close>)
    then show ?thesis using st'(1) step False by auto
  qed
qed simp

section \<open>CSV lines\<close>

text \<open>A CSV field as it is written: the null marker, a plain field, or a quoted one.\<close>

datatype csv_item = CNull | CPlain "byte list" | CQuoted "byte list"

definition csv_escape :: "byte \<Rightarrow> byte \<Rightarrow> byte list \<Rightarrow> byte list" where
  "csv_escape q e v = concat (map (\<lambda>c. if c = q \<or> c = e then [e, c] else [c]) v)"

fun csv_write :: "line_format \<Rightarrow> csv_item \<Rightarrow> byte list" where
  "csv_write fmt CNull = null_print fmt"
| "csv_write fmt (CPlain v) = v"
| "csv_write fmt (CQuoted v) = quotec fmt # csv_escape (quotec fmt) (escapec fmt) v @ [quotec fmt]"

fun csv_value :: "csv_item \<Rightarrow> byte list option" where
  "csv_value CNull = None"
| "csv_value (CPlain v) = Some v"
| "csv_value (CQuoted v) = Some v"

fun csv_writable :: "line_format \<Rightarrow> csv_item \<Rightarrow> bool" where
  "csv_writable fmt CNull \<longleftrightarrow> delimc fmt \<notin> set (null_print fmt) \<and> quotec fmt \<notin> set (null_print fmt)"
| "csv_writable fmt (CPlain v) \<longleftrightarrow> delimc fmt \<notin> set v \<and> quotec fmt \<notin> set v \<and> v \<noteq> null_print fmt"
| "csv_writable fmt (CQuoted v) \<longleftrightarrow> True"

lemma csv_scan_stop:
  "csv_scan d q e (if b then [] else d # xs) False n out sq = Val (out, n, \<not> b, sq, if b then [] else xs)"
  by (cases xs) auto

lemma csv_scan_plain:
  assumes "d \<notin> set v" "q \<notin> set v"
  shows "csv_scan d q e (v @ rest) False n out sq = csv_scan d q e rest False (n + length v) (out @ v) sq"
  using assms
proof (induction v arbitrary: n out)
  case (Cons c v)
  then show ?case by (cases "v @ rest") auto
qed simp

lemma csv_scan_escaped:
  assumes "q = e \<Longrightarrow> rest = [] \<or> hd rest \<noteq> q"
  shows "csv_scan d q e (csv_escape q e v @ q # rest) True n out sq =
    csv_scan d q e rest False (n + length (csv_escape q e v) + 1) (out @ v) sq"
proof (induction v arbitrary: n out)
  case Nil
  then show ?case using assms by (cases rest) (auto simp: csv_escape_def)
next
  case (Cons c v)
  show ?case
  proof (cases "c = q \<or> c = e")
    case True
    then have "csv_escape q e (c # v) = [e, c] @ csv_escape q e v" by (simp add: csv_escape_def)
    then show ?thesis using True Cons.IH[of "n + 2" "out @ [c]"] by auto
  next
    case False
    then have s: "csv_escape q e (c # v) = c # csv_escape q e v" by (simp add: csv_escape_def)
    obtain x xs where x: "csv_escape q e v @ q # rest = x # xs" by (cases "csv_escape q e v @ q # rest") auto
    have "csv_scan d q e (c # x # xs) True n out sq = csv_scan d q e (x # xs) True (n + 1) (out @ [c]) sq"
      using False by simp
    then show ?thesis using Cons.IH[of "n + 1" "out @ [c]"] by (simp add: s x[symmetric])
  qed
qed

lemma join_fields_Cons: "join_fields d (r # rs) = r @ (if rs = [] then [] else d # join_fields d rs)"
  by (cases rs) auto

lemma csv_field_write:
  assumes "csv_writable fmt v" "delimc fmt \<noteq> quotec fmt"
  shows "csv_field fmt (join_fields (delimc fmt) (csv_write fmt v # rs)) =
    Val \<lparr>f_val = csv_value v, f_len = length (csv_write fmt v), f_found = (rs \<noteq> []), f_rest = join_fields (delimc fmt) rs\<rparr>"
proof -
  let ?d = "delimc fmt" and ?q = "quotec fmt" and ?e = "escapec fmt"
  let ?t = "if rs = [] then [] else ?d # join_fields ?d rs"
  have rest: "(if rs = [] then [] else join_fields ?d rs) = join_fields ?d rs" by simp
  have stop: "csv_scan ?d ?q ?e ?t False n out sq = Val (out, n, rs \<noteq> [], sq, join_fields ?d rs)" for n out sq
    using csv_scan_stop[of ?d ?q ?e "rs = []" "join_fields ?d rs"] by (cases "rs = []") auto
  have plain: "csv_scan ?d ?q ?e (w @ ?t) False 0 [] False = Val (w, length w, rs \<noteq> [], False, join_fields ?d rs)"
    if "?d \<notin> set w" "?q \<notin> set w" for w
    using csv_scan_plain[OF that, of ?e ?t 0 "[]" False] stop by simp
  show ?thesis
  proof (cases v)
    case CNull
    then show ?thesis using plain[of "null_print fmt"] assms(1) by (simp add: csv_field_def join_fields_Cons del: append_assoc)
  next
    case (CPlain w)
    then show ?thesis using plain[of w] assms(1) by (simp add: csv_field_def join_fields_Cons)
  next
    case (CQuoted w)
    let ?w = "csv_escape ?q ?e w"
    have esc: "csv_scan ?d ?q ?e (?w @ ?q # ?t) True 1 [] True = csv_scan ?d ?q ?e ?t False (1 + length ?w + 1) ([] @ w) True"
      by (rule csv_scan_escaped) (use assms(2) in auto)
    have "csv_scan ?d ?q ?e (?w @ ?q # ?t) True 1 [] True = Val (w, 1 + length ?w + 1, rs \<noteq> [], True, join_fields ?d rs)"
      unfolding esc stop by simp
    moreover have "csv_scan ?d ?q ?e (?q # (?w @ ?q # ?t)) False 0 [] False = csv_scan ?d ?q ?e (?w @ ?q # ?t) True 1 [] True"
      using assms(2) by (cases "?w @ ?q # ?t") auto
    ultimately show ?thesis by (simp add: csv_field_def join_fields_Cons CQuoted)
  qed
qed

section \<open>Properties of the full parse\<close>

text \<open>The state a scan starts a line with: arrays for all columns, and column 0 starts the line.\<close>

definition line_start :: "line_format \<Rightarrow> line_state \<Rightarrow> bool" where
  "line_start fmt st \<longleftrightarrow> nfields fmt \<le> int (length (field_strings st)) \<and> nfields fmt < int (length (attributes st)) \<and>
     a_ptr (attributes st ! 0) = Some 0"

lemma line_start_arrays: "line_start fmt st \<Longrightarrow> arrays_ok fmt 0 st"
  by (simp add: line_start_def arrays_ok_def)

text \<open>
  C19: No line makes the parser touch memory outside its arrays. For every sequence of bytes, in text
  and in CSV mode, the parse ends with a reported error or with arrays of the same size; it never
  indexes \<open>field_strings\<close> or \<open>attributes\<close> out of range and never uses an unset position.
\<close>

theorem parse_memory_safe:
  assumes "line_start fmt st"
  shows "(\<exists>r. NoDBCopyReadAttributesCSV fmt line st = Some r \<and> (\<forall>st'. r = Val st' \<longrightarrow>
      length (field_strings st') = length (field_strings st) \<and> length (attributes st') = length (attributes st))) \<and>
    (\<exists>r. NoDBCopyReadAttributesText fmt verify line st = Some r \<and> (\<forall>st'. r = Val st' \<longrightarrow>
      length (field_strings st') = length (field_strings st) \<and> length (attributes st') = length (attributes st)))"
  using read_fields_total[OF line_start_arrays[OF assms], of "csv_field fmt" line 0]
    read_fields_total[OF line_start_arrays[OF assms], of "text_field fmt verify" line 0]
  by (simp add: NoDBCopyReadAttributesCSV_def NoDBCopyReadAttributesText_def)

definition demo_format :: line_format where
  "demo_format = \<lparr>delimc = 44, quotec = 34, escapec = 34, null_print = [], nfields = 3, lastfield = 2\<rparr>"

definition demo_line_state :: line_state where
  "demo_line_state = \<lparr>field_strings = replicate 3 None,
     attributes = \<lparr>a_ptr = Some 0, a_width = None\<rparr> # replicate 3 \<lparr>a_ptr = None, a_width = None\<rparr>\<rparr>"

lemma demo_line_start: "line_start demo_format demo_line_state"
  by (simp add: line_start_def demo_format_def demo_line_state_def)

theorem parse_memory_safe_witness:
  "line_start demo_format demo_line_state \<and>
   (\<exists>r. NoDBCopyReadAttributesCSV demo_format [34, 97] demo_line_state = Some r)"
  using parse_memory_safe[OF demo_line_start, of "[34, 97]" "\<lambda>_. True"] demo_line_start by blast

lemma csv_read_ok:
  assumes "line_start fmt st" "delimc fmt \<noteq> quotec fmt" "\<forall>v \<in> set vs. csv_writable fmt v" "vs \<noteq> []"
    "0 \<le> lastfield fmt" "lastfield fmt < nfields fmt"
  shows "\<exists>st'. NoDBCopyReadAttributesCSV fmt (join_fields (delimc fmt) (map (csv_write fmt) vs)) st = Some (Val st') \<and>
    fields_read fmt 0 0 (map (csv_write fmt) vs) (map csv_value vs) st st'"
proof -
  have nf: "\<not> nfields fmt \<le> 0" using assms(5,6) by simp
  have fields: "\<forall>i < length (map (csv_write fmt) vs). \<forall>rs'. csv_field fmt (join_fields (delimc fmt) (map (csv_write fmt) vs ! i # rs')) =
      Val \<lparr>f_val = map csv_value vs ! i, f_len = length (map (csv_write fmt) vs ! i), f_found = (rs' \<noteq> []), f_rest = join_fields (delimc fmt) rs'\<rparr>"
    using csv_field_write[OF _ assms(2)] assms(3) by simp
  have ptr: "a_ptr (attributes st ! 0) = Some (of_nat 0)" using assms(1) by (simp add: line_start_def)
  obtain st' where st': "read_fields (csv_field fmt) fmt (int 0) (join_fields (delimc fmt) (map (csv_write fmt) vs)) 0 st = Some (Val st')"
    "fields_read fmt 0 0 (map (csv_write fmt) vs) (map csv_value vs) st st'"
    using read_fields_list[OF line_start_arrays[OF assms(1)] _ _ _ assms(6) ptr fields] assms(4,5) by auto
  then show ?thesis using nf by (intro exI[of _ st']) (simp add: NoDBCopyReadAttributesCSV_def)
qed

text \<open>
  C13: Reading a CSV line gives back the fields it was written from: null markers, plain fields and
  quoted fields with embedded delimiters, quotes and escapes. For every column up to the last wanted
  one the string is the value, and the recorded position and width locate the written field in the
  line.
\<close>

theorem csv_roundtrip:
  assumes "line_start fmt st" "delimc fmt \<noteq> quotec fmt" "\<forall>v \<in> set vs. csv_writable fmt v" "vs \<noteq> []"
    "0 \<le> lastfield fmt" "lastfield fmt < nfields fmt"
  shows "\<exists>st'. NoDBCopyReadAttributesCSV fmt (join_fields (delimc fmt) (map (csv_write fmt) vs)) st = Some (Val st') \<and>
    (\<forall>i < length vs. int i \<le> lastfield fmt \<longrightarrow>
       field_strings st' ! i = Some (csv_value (vs ! i)) \<and>
       a_ptr (attributes st' ! i) = Some (of_nat (field_start (map (csv_write fmt) vs) i)) \<and>
       a_width (attributes st' ! i) = Some (of_nat (length (csv_write fmt (vs ! i)))))"
  using csv_read_ok[OF assms] by (auto simp: fields_read_def)

definition demo_items :: "csv_item list" where
  "demo_items = [CPlain [97], CQuoted [98, 44, 34], CNull]"

lemma demo_items_ok:
  "\<forall>v \<in> set demo_items. csv_writable demo_format v" "demo_items \<noteq> []" "length demo_items = 3"
  "delimc demo_format \<noteq> quotec demo_format" "0 \<le> lastfield demo_format" "lastfield demo_format < nfields demo_format"
  "lastfield demo_format = 2" "csv_value (demo_items ! Suc 0) = Some [98, 44, 34]" "csv_value (demo_items ! 2) = None"
  "field_start (map (csv_write demo_format) demo_items) 2 = 9"
  by (simp_all add: demo_items_def demo_format_def field_start_def csv_escape_def)

theorem csv_roundtrip_witness:
  "\<exists>st'. NoDBCopyReadAttributesCSV demo_format
       (join_fields (delimc demo_format) (map (csv_write demo_format) demo_items)) demo_line_state = Some (Val st') \<and>
     field_strings st' ! 1 = Some (Some [98, 44, 34]) \<and> field_strings st' ! 2 = Some None \<and>
     a_ptr (attributes st' ! 2) = Some 9"
proof -
  obtain st' where st': "NoDBCopyReadAttributesCSV demo_format
       (join_fields (delimc demo_format) (map (csv_write demo_format) demo_items)) demo_line_state = Some (Val st')"
    "\<forall>i < length demo_items. int i \<le> lastfield demo_format \<longrightarrow>
       field_strings st' ! i = Some (csv_value (demo_items ! i)) \<and>
       a_ptr (attributes st' ! i) = Some (of_nat (field_start (map (csv_write demo_format) demo_items) i)) \<and>
       a_width (attributes st' ! i) = Some (of_nat (length (csv_write demo_format (demo_items ! i))))"
    using csv_roundtrip[OF demo_line_start demo_items_ok(4,1,2,5,6)] by blast
  show ?thesis
    using st'(1) st'(2)[rule_format, of 1] st'(2)[rule_format, of 2] by (simp add: demo_items_ok)
qed

end
