(* ===== verification/NoDB_ParsePM.thy ===== *)
theory NoDB_ParsePM
  imports NoDB_ParseSpec
begin

text \<open>
  The partial parses of \<open>NoDBGetNextTupleViaPM\<close> against the full parse: from the known position of one
  column, forward and backward, the positions and widths of the other columns are those the full
  parse records.
\<close>

section \<open>Unescaped delimiters\<close>

text \<open>The offsets of the delimiters that end a field, and where the scan of the last field ends.\<close>

function delims :: "byte \<Rightarrow> byte list \<Rightarrow> nat \<Rightarrow> nat list" where
  "delims d [] p = []"
| "delims d (c # cs) p =
     (if c = d then p # delims d cs (p + 1)
      else if c = 92 then
        (case cs of [] \<Rightarrow> [] | c' # cs' \<Rightarrow> (case unescape c' cs' of (ch, k, rest, f) \<Rightarrow> delims d rest (p + 2 + k)))
      else delims d cs (p + 1))"
  by pat_completeness auto
termination
  by (relation "measure (\<lambda>(d, cs, p). length cs)") (auto dest: sym[THEN unescape_length])

function scan_end :: "byte \<Rightarrow> byte list \<Rightarrow> nat \<Rightarrow> nat" where
  "scan_end d [] p = p"
| "scan_end d (c # cs) p =
     (if c = d then scan_end d cs (p + 1)
      else if c = 92 then
        (case cs of [] \<Rightarrow> p | c' # cs' \<Rightarrow> (case unescape c' cs' of (ch, k, rest, f) \<Rightarrow> scan_end d rest (p + 2 + k)))
      else scan_end d cs (p + 1))"
  by pat_completeness auto
termination
  by (relation "measure (\<lambda>(d, cs, p). length cs)") (auto dest: sym[THEN unescape_length])

lemma unescape_drop: "unescape c cs = (ch, k, rest, na) \<Longrightarrow> rest = drop k cs"
  by (auto simp: unescape_def octal_escape_def hex_escape_def Let_def split: if_splits list.splits prod.splits)

lemma escape_induct [case_names Nil Delim Escape Dangling Plain]:
  assumes nil: "\<And>p. P [] p"
    and delim: "\<And>cs p. P cs (p + 1) \<Longrightarrow> P (d # cs) p"
    and escape: "\<And>c' cs' ch k rest f p. \<lbrakk>d \<noteq> 92; unescape c' cs' = (ch, k, rest, f);
        length cs' = k + length rest; P rest (p + 2 + k)\<rbrakk> \<Longrightarrow> P (92 # c' # cs') p"
    and dangling: "\<And>p. d \<noteq> 92 \<Longrightarrow> P [92] p"
    and plain: "\<And>c cs p. \<lbrakk>c \<noteq> d; c \<noteq> 92; P cs (p + 1)\<rbrakk> \<Longrightarrow> P (c # cs) p"
  shows "P cs p"
proof (induction "length cs" arbitrary: cs p rule: less_induct)
  case less
  consider (N) "cs = []" | (D) cs' where "cs = d # cs'" | (G) "cs = [92]" "d \<noteq> 92"
    | (E) c' cs' where "cs = 92 # c' # cs'" "d \<noteq> 92" | (P) c cs' where "cs = c # cs'" "c \<noteq> d" "c \<noteq> 92"
    by (metis list.exhaust)
  then show ?case
  proof cases
    case E
    obtain ch k rest f where u: "unescape c' cs' = (ch, k, rest, f)" by (metis prod_cases4)
    note l = unescape_length[OF u]
    show ?thesis unfolding E(1) by (rule escape[OF E(2) u l]) (rule less, simp add: E l)
  next
    case D
    show ?thesis unfolding D by (rule delim, rule less) (simp add: D)
  next
    case P
    show ?thesis unfolding P(1) by (rule plain[OF P(2,3)], rule less) (simp add: P)
  qed (auto intro: nil dangling)
qed

lemma delims_simps [simp]:
  "delims d (d # cs) p = p # delims d cs (p + 1)"
  "d \<noteq> 92 \<Longrightarrow> delims d [92] p = []"
  "\<lbrakk>d \<noteq> 92; unescape c' cs' = (ch, k, rest, f)\<rbrakk> \<Longrightarrow> delims d (92 # c' # cs') p = delims d rest (p + 2 + k)"
  "\<lbrakk>c \<noteq> d; c \<noteq> 92\<rbrakk> \<Longrightarrow> delims d (c # cs) p = delims d cs (p + 1)"
  by auto

lemma scan_end_simps [simp]:
  "scan_end d (d # cs) p = scan_end d cs (p + 1)"
  "d \<noteq> 92 \<Longrightarrow> scan_end d [92] p = p"
  "\<lbrakk>d \<noteq> 92; unescape c' cs' = (ch, k, rest, f)\<rbrakk> \<Longrightarrow> scan_end d (92 # c' # cs') p = scan_end d rest (p + 2 + k)"
  "\<lbrakk>c \<noteq> d; c \<noteq> 92\<rbrakk> \<Longrightarrow> scan_end d (c # cs) p = scan_end d cs (p + 1)"
  by auto

declare delims.simps(2) [simp del] scan_end.simps(2) [simp del]

lemma scan_end_bounds: "p \<le> scan_end d cs p \<and> scan_end d cs p \<le> p + length cs"
  by (induction cs p rule: escape_induct[where d = d]) auto

lemma delims_bounds: "x \<in> set (delims d cs p) \<Longrightarrow> p \<le> x \<and> x < scan_end d cs p"
proof (induction cs p rule: escape_induct[where d = d])
  case (Delim cs p)
  then show ?case using scan_end_bounds[of "p + 1" d cs] by auto
qed auto

text \<open>Behind a delimiter the scan continues as at the start of a line.\<close>

lemma delims_drop:
  assumes "delims d cs p = xs @ x # ys"
  shows "delims d (drop (x + 1 - p) cs) (x + 1) = ys \<and> scan_end d (drop (x + 1 - p) cs) (x + 1) = scan_end d cs p"
  using assms
proof (induction cs p arbitrary: xs rule: escape_induct[where d = d])
  case (Delim cs p)
  show ?case
  proof (cases xs)
    case Nil
    then show ?thesis using Delim by auto
  next
    case (Cons a xs')
    then have ds: "delims d cs (p + 1) = xs' @ x # ys" using Delim by auto
    then have "p + 1 \<le> x" using delims_bounds[of x d cs "p + 1"] by simp
    then show ?thesis using Delim(1)[OF ds] by (simp add: Suc_diff_le)
  qed
next
  case (Escape c' cs' ch k rest f p)
  have ds: "delims d rest (p + 2 + k) = xs @ x # ys" using Escape(5) Escape(1,2) by simp
  have "p + 2 + k \<le> x" using delims_bounds[of x d rest "p + 2 + k"] ds by simp
  then obtain m where "x = p + 2 + k + m" using le_Suc_ex by blast
  then have "x + 1 - p = Suc (Suc (m + 1 + k))" and x: "x + 1 - (p + 2 + k) = m + 1" by simp_all
  then have "drop (x + 1 - p) (92 # c' # cs') = drop (m + 1) rest"
    unfolding unescape_drop[OF Escape(2)] by (simp only: drop_Suc_Cons drop_drop)
  then show ?case using Escape(4)[OF ds] by (simp only: x delims_simps(3)[OF Escape(1,2)] scan_end_simps(3)[OF Escape(1,2)])
next
  case (Plain c cs p)
  then have ds: "delims d cs (p + 1) = xs @ x # ys" by simp
  then have "p + 1 \<le> x" using delims_bounds[of x d cs "p + 1"] by simp
  then show ?case using Plain(3)[OF ds] Plain(1,2) by (simp add: Suc_diff_le)
qed auto


lemma delims_sorted: "sorted_wrt (<) (delims d cs p)"
proof (induction cs p rule: escape_induct[where d = d])
  case (Delim cs p)
  then show ?case using delims_bounds[of _ d cs "p + 1"] by force
qed auto

text \<open>
  Where the columns of a line start; the last entry is where another column would start behind the
  end of the line.
\<close>

definition col_starts :: "byte \<Rightarrow> byte list \<Rightarrow> nat \<Rightarrow> nat list" where
  "col_starts d cs p = p # map Suc (delims d cs p) @ [scan_end d cs p + 1]"

lemma length_col_starts [simp]: "length (col_starts d cs p) = length (delims d cs p) + 2"
  by (simp add: col_starts_def)

lemma col_starts_sorted: "sorted_wrt (<) (col_starts d cs p)"
  using delims_sorted[of d cs p] delims_bounds[of _ d cs p] scan_end_bounds[of p d cs]
  by (fastforce simp: col_starts_def sorted_wrt_append sorted_wrt_map)

lemma col_starts_less: "i < j \<Longrightarrow> j < length (delims d cs p) + 2 \<Longrightarrow> col_starts d cs p ! i < col_starts d cs p ! j"
  using sorted_wrt_nth_less[OF col_starts_sorted, of i j d cs p] by simp

lemma col_starts_bound: "i < length (delims d cs p) + 2 \<Longrightarrow> col_starts d cs p ! i \<le> p + length cs + 1"
  using col_starts_less[of i "length (delims d cs p) + 1" d cs p] scan_end_bounds[of p d cs]
  by (cases "i = length (delims d cs p) + 1") (auto simp: col_starts_def nth_append)

lemma col_starts_delim: "i < length (delims d cs p) \<Longrightarrow> col_starts d cs p ! Suc i = Suc (delims d cs p ! i)"
  by (simp add: col_starts_def nth_append)

section \<open>Positions of the full parse\<close>

lemma text_scan_simps [simp]:
  "text_scan d (d # cs) n out na = (out, n, True, na, cs)"
  "d \<noteq> 92 \<Longrightarrow> text_scan d [92] n out na = (out, n, False, na, [])"
  "\<lbrakk>d \<noteq> 92; unescape c' cs' = (ch, k, rest, f)\<rbrakk> \<Longrightarrow>
     text_scan d (92 # c' # cs') n out na = text_scan d rest (n + 2 + k) (out @ [ch]) (na \<or> f)"
  "\<lbrakk>c \<noteq> d; c \<noteq> 92\<rbrakk> \<Longrightarrow> text_scan d (c # cs) n out na = text_scan d cs (n + 1) (out @ [c]) na"
  by auto

declare text_scan.simps(2) [simp del]

lemma text_scan_delims:
  assumes "text_scan d cs n out na = (out', n', found, na', rest)"
  shows "case delims d cs p of
      [] \<Rightarrow> \<not> found \<and> n' + p = n + scan_end d cs p
    | x # xs \<Rightarrow> found \<and> n' + p = n + x \<and> delims d rest (x + 1) = xs \<and> scan_end d rest (x + 1) = scan_end d cs p"
  using assms
proof (induction cs p arbitrary: n out na rule: escape_induct[where d = d])
  case (Escape c' cs' ch k r f p)
  have t: "text_scan d r (n + 2 + k) (out @ [ch]) (na \<or> f) = (out', n', found, na', rest)"
    using Escape(5) Escape(1,2) by simp
  show ?case using Escape(4)[OF t] Escape(1,2) by (auto split: list.splits)
next
  case (Plain c cs p)
  have t: "text_scan d cs (n + 1) (out @ [c]) na = (out', n', found, na', rest)" using Plain(4) Plain(1,2) by simp
  show ?case using Plain(3)[OF t] Plain(1,2) by (auto split: list.splits)
qed auto

lemma text_field_positions:
  assumes "text_field fmt verify cur = Val fd"
  shows "col_starts (delimc fmt) cur p = p # (if f_found fd then col_starts (delimc fmt) (f_rest fd) (p + f_len fd + 1) else [p + f_len fd + 1])"
proof -
  obtain out n found na rest where e: "text_scan (delimc fmt) cur 0 [] False = (out, n, found, na, rest)"
    by (metis prod_cases5)
  have fd: "f_found fd = found" "f_rest fd = rest" "f_len fd = n" using assms e by (auto simp: text_field_def split: if_splits)
  show ?thesis using text_scan_delims[OF e, of p] by (auto simp: fd col_starts_def add.commute split: list.splits)
qed

text \<open>The attributes from column \<open>f\<close> on hold the positions and widths that follow from \<open>bs\<close>.\<close>

definition positions :: "nat \<Rightarrow> nat \<Rightarrow> nat list \<Rightarrow> attr_t list \<Rightarrow> bool" where
  "positions f lf bs at \<longleftrightarrow> (\<forall>i. Suc i < length bs \<longrightarrow> f + i \<le> lf \<longrightarrow>
     at ! (f + i) = \<lparr>a_ptr = Some (of_nat (bs ! i)), a_width = Some (of_nat (bs ! Suc i) - of_nat (bs ! i) - 1)\<rparr>)"

lemma positions_Cons:
  "positions f lf (b # c # bs) at \<longleftrightarrow>
     (f \<le> lf \<longrightarrow> at ! f = \<lparr>a_ptr = Some (of_nat b), a_width = Some (of_nat c - of_nat b - 1)\<rparr>) \<and> positions (Suc f) lf (c # bs) at"
  unfolding positions_def by (auto simp: nth_Cons split: nat.splits)

lemma positions_past: "lf < f \<Longrightarrow> positions f lf bs at" and positions_single: "positions f lf [b] at"
  by (auto simp: positions_def)

lemma next_state_attr:
  assumes "f + 1 < length (attributes st)" "a_ptr (attributes st ! f) = Some (of_nat p)"
  shows "attributes (next_state f p fd st) ! f =
      \<lparr>a_ptr = Some (of_nat p), a_width = Some (of_nat (p + f_len fd + 1) - of_nat p - 1)\<rparr>"
    and "a_ptr (attributes (next_state f p fd st) ! Suc f) = Some (of_nat (p + f_len fd + 1))"
    and "k < f \<Longrightarrow> attributes (next_state f p fd st) ! k = attributes st ! k"
  using assms by (simp_all add: next_state_def put_field_def)

lemma text_positions:
  assumes "arrays_ok fmt f st" "int f \<le> lastfield fmt" "lastfield fmt < nfields fmt"
    "a_ptr (attributes st ! f) = Some (of_nat p)"
    "read_fields (text_field fmt verify) fmt (int f) cur p st = Some (Val st')"
  shows "positions f (nat (lastfield fmt)) (col_starts (delimc fmt) cur p) (attributes st') \<and>
    (\<forall>k < f. attributes st' ! k = attributes st ! k)"
  using assms
proof (induction "nat (nfields fmt - int f)" arbitrary: f cur p st rule: less_induct)
  case (less f cur p st)
  have f: "int f < nfields fmt" using less.prems(2,3) by simp
  then obtain fd where fd: "text_field fmt verify cur = Val fd"
    using less.prems(5) by (cases "text_field fmt verify cur") (auto simp: read_fields.simps)
  let ?s = "next_state f p fd st" and ?q = "p + f_len fd + 1"
  have len: "f + 1 < length (attributes st)" using less.prems(1) f by (auto simp: arrays_ok_def)
  note at = next_state_attr[OF len less.prems(4), where fd = fd]
  note step = read_fields_step[where field = "text_field fmt verify" and tot = p, OF less.prems(1) f fd]
  note starts = text_field_positions[OF fd, of p]
  show ?case
  proof (cases "int f = lastfield fmt \<or> \<not> f_found fd")
    case True
    then have st': "st' = ?s" using less.prems(5) step by simp
    obtain bs where bs: "col_starts (delimc fmt) cur p = p # ?q # bs" "\<not> f_found fd \<Longrightarrow> bs = []"
      using starts by (cases "f_found fd") (auto simp: col_starts_def)
    have "positions (Suc f) (nat (lastfield fmt)) (?q # bs) (attributes ?s)"
      using True bs(2) by (auto intro: positions_past positions_single)
    then show ?thesis by (simp add: bs(1) st' positions_Cons at)
  next
    case False
    then have r: "read_fields (text_field fmt verify) fmt (int (Suc f)) (f_rest fd) ?q ?s = Some (Val st')"
      using less.prems(5) step by simp
    obtain bs where bs: "col_starts (delimc fmt) (f_rest fd) ?q = ?q # bs" by (simp add: col_starts_def)
    have "positions (Suc f) (nat (lastfield fmt)) (col_starts (delimc fmt) (f_rest fd) ?q) (attributes st') \<and>
      (\<forall>k < Suc f. attributes st' ! k = attributes ?s ! k)"
      by (rule less.hyps[OF _ arrays_ok_next[OF less.prems(1) f] _ less.prems(3) at(2) r])
        (use False less.prems(2) f in auto)
    then show ?thesis using starts False unfolding bs by (simp add: positions_Cons at)
  qed
qed

lemma text_line_positions:
  assumes "line_start fmt st" "0 \<le> lastfield fmt" "lastfield fmt < nfields fmt"
    "NoDBCopyReadAttributesText fmt verify line st = Some (Val st')"
  shows "positions 0 (nat (lastfield fmt)) (col_starts (delimc fmt) line 0) (attributes st')"
proof -
  have "read_fields (text_field fmt verify) fmt (int 0) line 0 st = Some (Val st')"
    using assms by (simp add: NoDBCopyReadAttributesText_def)
  then show ?thesis
    using text_positions[OF line_start_arrays[OF assms(1)], of 0 verify line st'] assms by (simp add: line_start_def)
qed

section \<open>The forward parse\<close>

lemma forward_loop_simps [simp]:
  "d \<noteq> 92 \<Longrightarrow> forward_loop d [92] pos h a start at = Some (at, h, a, start, pos)"
  "\<lbrakk>d \<noteq> 92; unescape c' cs' = (ch, k, rest, f)\<rbrakk> \<Longrightarrow>
     forward_loop d (92 # c' # cs') pos h a start at = forward_loop d rest (pos + 2 + k) h a start at"
  "\<lbrakk>c \<noteq> d; c \<noteq> 92\<rbrakk> \<Longrightarrow> forward_loop d (c # cs) pos h a start at = forward_loop d cs (pos + 1) h a start at"
  by auto

lemma forward_loop_delim:
  assumes "d \<noteq> 92" "0 \<le> a" "nat a + 1 < length at"
  shows "forward_loop d (d # cs) pos h a start at =
    (let at' = at[nat a + 1 := (at ! (nat a + 1))\<lparr>a_ptr := Some (of_nat (pos + 1))\<rparr>] in
     if h = 1 then Some (at', 0, a + 1, start, pos) else forward_loop d cs (pos + 1) (h - 1) (a + 1) (pos + 1) at')"
proof -
  have n: "nat (a + 1) = nat a + 1" using assms(2) by simp
  have "set_ptr at (a + 1) (of_nat (pos + 1)) = Some (at[nat a + 1 := (at ! (nat a + 1))\<lparr>a_ptr := Some (of_nat (pos + 1))\<rparr>])"
    using set_ptr_ok[of "a + 1" at "of_nat (pos + 1)"] assms unfolding n by simp
  then show ?thesis using assms(1) by (simp add: Let_def)
qed

declare forward_loop.simps(2) [simp del]

text \<open>The attributes after the positions \<open>qs\<close> were stored from column \<open>a\<close> on.\<close>

definition put_ptrs :: "nat \<Rightarrow> nat list \<Rightarrow> attr_t list \<Rightarrow> attr_t list" where
  "put_ptrs a qs at = map (\<lambda>j. if a \<le> j \<and> j < a + length qs then (at ! j)\<lparr>a_ptr := Some (of_nat (qs ! (j - a)))\<rparr> else at ! j) [0..<length at]"

lemma length_put_ptrs [simp]: "length (put_ptrs a qs at) = length at"
  by (simp add: put_ptrs_def)

lemma put_ptrs_nth:
  "j < length at \<Longrightarrow> put_ptrs a qs at ! j =
     (if a \<le> j \<and> j < a + length qs then (at ! j)\<lparr>a_ptr := Some (of_nat (qs ! (j - a)))\<rparr> else at ! j)"
  by (simp add: put_ptrs_def)

lemma put_ptrs_Nil [simp]: "put_ptrs a [] at = at"
  by (rule nth_equalityI) (auto simp: put_ptrs_nth)

lemma put_ptrs_Cons:
  assumes "a < length at"
  shows "put_ptrs a (q # qs) at = put_ptrs (Suc a) qs (at[a := (at ! a)\<lparr>a_ptr := Some (of_nat q)\<rparr>])"
  by (rule nth_equalityI) (use assms in \<open>auto simp: put_ptrs_nth nth_Cons' nth_list_update\<close>)

lemma put_ptrs_snoc:
  assumes "a + length qs < length at"
  shows "(put_ptrs a qs at)[a + length qs := (put_ptrs a qs at ! (a + length qs))\<lparr>a_ptr := Some (of_nat q)\<rparr>] = put_ptrs a (qs @ [q]) at"
  by (rule nth_equalityI) (use assms in \<open>auto simp: put_ptrs_nth nth_append nth_list_update\<close>)

lemma forward_loop_ok:
  assumes "d \<noteq> 92" "0 < h" "0 \<le> a" "nat a + h < length at"
  shows "\<exists>start' stop. forward_loop d cs pos (int h) a start at =
    Some (put_ptrs (nat a + 1) (map Suc (take h (delims d cs pos))) at, int (h - length (delims d cs pos)),
      a + int (min h (length (delims d cs pos))), start', stop)"
  using assms(2-4)
proof (induction cs pos arbitrary: h a start at rule: escape_induct[where d = d])
  case (Delim cs p)
  let ?at = "at[nat a + 1 := (at ! (nat a + 1))\<lparr>a_ptr := Some (of_nat (p + 1))\<rparr>]"
  have n: "nat (1 + a) = Suc (nat a)" using Delim(3) by simp
  obtain h' where h: "h = Suc h'" using Delim(2) by (cases h) auto
  have l: "nat a + 1 < length at" using Delim(4) h by simp
  note fl = forward_loop_delim[OF assms(1) Delim(3) l, of cs p "int h" start, unfolded Let_def]
  show ?case
  proof (cases "h' = 0")
    case True
    then show ?thesis using fl by (simp add: h put_ptrs_Cons[OF l[simplified]])
  next
    case False
    then show ?thesis
      using Delim(1)[of h' "a + 1" ?at "p + 1"] Delim(3,4) fl
      by (auto simp: h n put_ptrs_Cons[OF l[simplified]] algebra_simps)
  qed
qed (auto simp: assms(1))

lemma parseLineForward_ok:
  assumes "delimc fmt \<noteq> 92" "0 < h" "0 \<le> a" "nat a + h < length at"
    "h \<le> length (delims (delimc fmt) (drop cur line) cur) + 1"
  shows "\<exists>r. parseLineForward fmt line at cur (int h) a =
    Some (put_ptrs (nat a + 1) (take h (map Suc (delims (delimc fmt) (drop cur line) cur) @ [length line + 1])) at, r)"
proof -
  let ?ds = "delims (delimc fmt) (drop cur line) cur"
  obtain start stop where fl: "forward_loop (delimc fmt) (drop cur line) cur (int h) a cur at =
    Some (put_ptrs (nat a + 1) (map Suc (take h ?ds)) at, int (h - length ?ds), a + int (min h (length ?ds)), start, stop)"
    using forward_loop_ok[OF assms(1-4), of "drop cur line" cur cur] by blast
  show ?thesis
  proof (cases "h \<le> length ?ds")
    case True
    then show ?thesis using fl by (simp add: parseLineForward_def take_map Let_def)
  next
    case False
    then have h: "h = length ?ds + 1" using assms(5) by simp
    let ?at = "put_ptrs (nat a + 1) (map Suc ?ds) at" and ?j = "nat a + 1 + length (map Suc ?ds)"
    have n: "nat (a + int (length ?ds) + 1) = ?j" using assms(3) by simp
    have l: "?j < length at" using assms(4) h by simp
    have "set_ptr ?at (a + int (length ?ds) + 1) (of_nat (length line + 1)) = Some (put_ptrs (nat a + 1) (map Suc ?ds @ [length line + 1]) at)"
      using set_ptr_ok[of "a + int (length ?ds) + 1" ?at "of_nat (length line + 1)"] put_ptrs_snoc[OF l, of "length line + 1"] l assms(3)
      unfolding n by simp
    then show ?thesis using fl by (simp add: parseLineForward_def h Let_def)
  qed
qed

text \<open>The widths follow from the positions.\<close>

definition put_widths :: "int list \<Rightarrow> attr_t list \<Rightarrow> attr_t list" where
  "put_widths js at = map (\<lambda>j. if int j \<in> set js
     then (at ! j)\<lparr>a_width := Some (the (a_ptr (at ! Suc j)) - the (a_ptr (at ! j)) - 1)\<rparr> else at ! j) [0..<length at]"

lemma length_put_widths [simp]: "length (put_widths js at) = length at"
  by (simp add: put_widths_def)

lemma put_widths_nth:
  "j < length at \<Longrightarrow> put_widths js at ! j =
     (if int j \<in> set js then (at ! j)\<lparr>a_width := Some (the (a_ptr (at ! Suc j)) - the (a_ptr (at ! j)) - 1)\<rparr> else at ! j)"
  by (simp add: put_widths_def)

lemma upd_widths_ok:
  assumes "\<forall>j \<in> set js. 0 \<le> j \<and> Suc (nat j) < length at \<and> a_ptr (at ! nat j) \<noteq> None \<and> a_ptr (at ! Suc (nat j)) \<noteq> None"
  shows "upd_widths at js = Some (put_widths js at)"
  using assms
proof (induction js arbitrary: at)
  case Nil
  have "put_widths [] at = at" by (rule nth_equalityI) (auto simp: put_widths_nth)
  then show ?case by (simp add: upd_widths_def)
next
  case (Cons j js)
  have j: "0 \<le> j" "Suc (nat j) < length at" using Cons.prems by auto
  obtain p q where pq: "a_ptr (at ! nat j) = Some p" "a_ptr (at ! Suc (nat j)) = Some q" using Cons.prems by auto
  let ?at = "at[nat j := (at ! nat j)\<lparr>a_width := Some (q - p - 1)\<rparr>]"
  have ptr: "a_ptr (?at ! i) = a_ptr (at ! i)" for i
    using j by (cases "i = nat j") auto
  have "upd_width at j = Some ?at" using upd_width_ok[OF j(1), of at p q] j pq by simp
  moreover have "upd_widths ?at js = Some (put_widths js ?at)"
    by (rule Cons.IH) (use Cons.prems ptr in auto)
  moreover have "put_widths js ?at = put_widths (j # js) at"
    by (rule nth_equalityI) (use j pq ptr in \<open>auto simp: put_widths_nth nth_list_update\<close>)
  ultimately show ?case by (simp add: upd_widths_def)
qed

text \<open>One attribute holds the position and the width that follow from \<open>bs\<close>.\<close>

definition attr_of :: "nat list \<Rightarrow> nat \<Rightarrow> attr_t" where
  "attr_of bs i = \<lparr>a_ptr = Some (of_nat (bs ! i)), a_width = Some (of_nat (bs ! Suc i) - of_nat (bs ! i) - 1)\<rparr>"

lemma via_stop:
  assumes "bs ! w < bs ! Suc w" "bs ! Suc w < 2 ^ 16"
  shows "unat (the (a_ptr (attr_of bs w))) + unat (the (a_width (attr_of bs w))) + 1 = bs ! Suc w"
proof -
  have e: "(of_nat (bs ! Suc w) - of_nat (bs ! w) - 1 :: 16 word) = of_nat (bs ! Suc w - bs ! w - 1)"
    using assms(1) by (simp add: of_nat_diff)
  have u: "unat (of_nat x :: 16 word) = x" if "x < 2 ^ 16" for x using that by (simp add: unat_of_nat)
  have b: "bs ! w < 2 ^ 16" "bs ! Suc w - bs ! w - 1 < 2 ^ 16" using assms by simp_all
  show ?thesis unfolding attr_of_def attr_t.select_convs option.sel e u[OF b(1)] u[OF b(2)] using assms(1) by simp
qed

text \<open>The two halves of \<open>NoDBGetNextTupleViaPM\<close>.\<close>

lemma via_forward:
  assumes "delimc fmt \<noteq> 92" "scan_end (delimc fmt) line 0 = length line" "length line + 1 < 2 ^ 16"
    and bs: "bs = col_starts (delimc fmt) line 0"
    and k: "0 < k" "w + k + 1 < length bs" "w + k + 1 < length at"
    and at: "at ! w = attr_of bs w"
  shows "\<exists>at'. NoDBGetNextTupleViaPM fmt line \<lparr>via_col = int w, forward = int k, backward = 0\<rparr> at = Some at' \<and>
    length at' = length at \<and> (\<forall>j. w \<le> j \<and> j \<le> w + k \<longrightarrow> at' ! j = attr_of bs j) \<and>
    (\<forall>j < length at. j < w \<or> w + k + 1 < j \<longrightarrow> at' ! j = at ! j)"
proof -
  let ?d = "delimc fmt" and ?ds = "delims (delimc fmt) line 0"
  have lbs: "length bs = length ?ds + 2" by (simp add: bs)
  have w: "w < length ?ds" using k lbs by simp
  have B: "bs ! Suc w = Suc (?ds ! w)" using col_starts_delim[OF w] bs by simp
  have lt: "bs ! w < bs ! Suc w" "bs ! Suc w < 2 ^ 16"
    using col_starts_less[of w "Suc w" ?d line 0] w col_starts_bound[of "Suc w" ?d line 0] assms(3) bs by auto
  note stop = via_stop[OF lt]
  have split: "?ds = take w ?ds @ ?ds ! w # drop (Suc w) ?ds" using id_take_nth_drop[OF w] .
  note dd = delims_drop[OF split, simplified, folded B[simplified]]
  let ?q = "drop (Suc w) bs"
  have q: "?q = bs ! Suc w # map Suc (drop (Suc w) ?ds) @ [length line + 1]"
    using assms(2) w B by (simp add: bs col_starts_def drop_map Cons_nth_drop_Suc[symmetric])
  let ?at1 = "at[Suc w := (at ! Suc w)\<lparr>a_ptr := Some (of_nat (bs ! Suc w))\<rparr>]"
  have s1: "set_ptr at (int w + 1) (of_nat (bs ! Suc w)) = Some ?at1"
    using set_ptr_ok[of "int w + 1" at "of_nat (bs ! Suc w)"] k by (simp add: nat_add_distrib)
  let ?at2 = "put_ptrs (Suc w) (take (Suc k) ?q) at"
  have n: "nat (int w + 1) = Suc w" by simp
  have "k \<le> length (drop (Suc w) ?ds) + 1" using k lbs by simp
  then obtain r where s2: "parseLineForward fmt line ?at1 (bs ! Suc w) (int k) (int w + 1) = Some (?at2, r)"
    using parseLineForward_ok[OF assms(1) k(1), of "int w + 1" ?at1 "bs ! Suc w" line] dd k
    by (auto simp: n q put_ptrs_Cons)
  have lq: "length (take (Suc k) ?q) = Suc k" using k by simp
  have ptr: "?at2 ! j = (at ! j)\<lparr>a_ptr := Some (of_nat (bs ! j))\<rparr>" if "Suc w \<le> j" "j \<le> Suc (w + k)" for j
    using that k lq by (simp add: put_ptrs_nth)
  have s3: "upd_widths ?at2 [int w + 1..int w + int k] = Some (put_widths [int w + 1..int w + int k] ?at2)"
    by (rule upd_widths_ok) (use k ptr in auto)
  let ?at3 = "put_widths [int w + 1..int w + int k] ?at2"
  have run: "NoDBGetNextTupleViaPM fmt line \<lparr>via_col = int w, forward = int k, backward = 0\<rparr> at = Some ?at3"
    using s1 s2 s3 k stop at
    by (simp add: NoDBGetNextTupleViaPM_def arr_get_in Let_def attr_of_def)
  have "?at3 ! j = attr_of bs j" if "w \<le> j" "j \<le> w + k" for j
  proof (cases "j = w")
    case True
    then show ?thesis using k at by (simp add: put_widths_nth put_ptrs_nth)
  next
    case False
    then show ?thesis using that k ptr[of j] ptr[of "Suc j"] by (simp add: put_widths_nth attr_of_def)
  qed
  moreover have "?at3 ! j = at ! j" if "j < length at" "j < w \<or> w + k + 1 < j" for j
    using that lq by (auto simp: put_widths_nth put_ptrs_nth)
  ultimately show ?thesis using run by simp
qed

section \<open>The backward parse\<close>

text \<open>Without backslashes every delimiter ends a field.\<close>

definition delims_upto :: "byte \<Rightarrow> byte list \<Rightarrow> nat \<Rightarrow> nat list" where
  "delims_upto d line n = filter (\<lambda>i. line ! i = d) [0..<n]"

lemma delims_upto_Suc: "delims_upto d line (Suc n) = delims_upto d line n @ (if line ! n = d then [n] else [])"
  by (simp add: delims_upto_def)

lemma delims_plain: "92 \<notin> set cs \<Longrightarrow> delims d cs p = map (\<lambda>i. p + i) (filter (\<lambda>i. cs ! i = d) [0..<length cs])"
proof (induction cs arbitrary: p)
  case (Cons c cs)
  have up: "[0..<length (c # cs)] = 0 # map Suc [0..<length cs]" by (simp add: map_Suc_upt upt_conv_Cons del: upt_Suc)
  have "delims d cs (p + 1) = map (\<lambda>i. p + 1 + i) (filter (\<lambda>i. cs ! i = d) [0..<length cs])"
    using Cons by simp
  moreover have "delims d (c # cs) p = (if c = d then [p] else []) @ delims d cs (p + 1)"
    using Cons.prems by (cases "c = d") auto
  ultimately show ?case unfolding up by (simp add: filter_map o_def)
qed simp

lemma delims_line: "92 \<notin> set line \<Longrightarrow> delims d line 0 = delims_upto d line (length line)"
  by (simp add: delims_plain delims_upto_def)

lemma scan_end_plain: "92 \<notin> set cs \<Longrightarrow> scan_end d cs p = p + length cs"
proof (induction cs arbitrary: p)
  case (Cons c cs)
  then show ?case by (cases "c = d") auto
qed simp

lemma delims_upto_take:
  assumes "w < length (delims_upto d line n)"
  shows "delims_upto d line (delims_upto d line n ! w) = take w (delims_upto d line n)"
  using assms
proof (induction n)
  case (Suc n)
  then show ?case by (cases "w < length (delims_upto d line n)") (auto simp: delims_upto_Suc nth_append split: if_splits)
qed (simp add: delims_upto_def)

lemma put_ptrs_update:
  assumes "j = a + length qs" "j < length at"
  shows "put_ptrs a qs (at[j := (at ! j)\<lparr>a_ptr := Some (of_nat q)\<rparr>]) = put_ptrs a (qs @ [q]) at"
  by (rule nth_equalityI) (use assms in \<open>auto simp: put_ptrs_nth nth_append nth_list_update\<close>)

lemma backward_loop_ok:
  assumes "92 \<notin> set line" "n \<le> length line" "0 < h" "es = delims_upto d line n" "length es < length at"
  shows "backward_loop d line (int n - 1) (int h) (int (length es)) at =
    Some (put_ptrs (Suc (length es) - min h (length es)) (map Suc (drop (length es - h) es)) at,
      int (h - length es), int (length es - (h - 1)), if h \<le> length es then int (es ! (length es - h)) else - 1)"
  using assms(2-5)
proof (induction n arbitrary: h es at)
  case 0
  then show ?case by (simp add: backward_loop.simps delims_upto_def)
next
  case (Suc n)
  have c: "arr_get line (int n) = Some (line ! n)" "line ! n \<noteq> 92"
    using Suc.prems(1) assms(1) by (auto simp: arr_get_in Suc_le_eq dest: nth_mem)
  let ?e = "delims_upto d line n"
  note IH = Suc.IH[OF _ _ refl]
  show ?case
  proof (cases "line ! n = d")
    case True
    then have es: "es = ?e @ [n]" using Suc.prems(3) by (simp add: delims_upto_Suc)
    let ?at = "at[Suc (length ?e) := (at ! Suc (length ?e))\<lparr>a_ptr := Some (of_nat (Suc n))\<rparr>]"
    have sp: "set_ptr at (int (length es)) (word_of_int (int n + 1)) = Some ?at"
      using set_ptr_ok[of "int (length es)" at "word_of_int (int n + 1)"] Suc.prems(4) by (simp add: es nat_add_distrib add.commute)
    have step: "backward_loop d line (int (Suc n) - 1) (int h) (int (length es)) at =
      (if h = 1 then Some (?at, 0, int (length es), int n) else backward_loop d line (int n - 1) (int (h - 1)) (int (length ?e)) ?at)"
      using c True sp Suc.prems(2) by (subst backward_loop.simps) (auto simp: es of_nat_diff)
    show ?thesis
    proof (cases "h = 1")
      case True
      then show ?thesis using step Suc.prems(4) by (simp add: es put_ptrs_Cons)
    next
      case False
      then have h: "0 < h - 1" using Suc.prems(2) by simp
      have "put_ptrs (Suc (length ?e) - min (h - 1) (length ?e)) (map Suc (drop (length ?e - (h - 1)) ?e)) ?at =
        put_ptrs (Suc (length es) - min h (length es)) (map Suc (drop (length es - h) es)) at"
        using put_ptrs_update[of "Suc (length ?e)" "Suc (length ?e) - min (h - 1) (length ?e)"
            "map Suc (drop (length ?e - (h - 1)) ?e)" at "Suc n"] Suc.prems(4) h
        by (auto simp: es min_def)
      moreover have "length ?e < length ?at" using Suc.prems(4) by (simp add: es)
      ultimately show ?thesis using step False h IH[OF _ h, of ?at] Suc.prems(1) by (auto simp: es nth_append)
    qed
  next
    case False
    then have es: "es = ?e" using Suc.prems(3) by (simp add: delims_upto_Suc)
    have "backward_loop d line (int (Suc n) - 1) (int h) (int (length es)) at = backward_loop d line (int n - 1) (int h) (int (length es)) at"
      using c False by (subst backward_loop.simps) simp
    then show ?thesis using IH[OF _ Suc.prems(2), of at] Suc.prems(1,4) es by simp
  qed
qed

lemma parseLineBackward_ok:
  assumes "92 \<notin> set line" "n \<le> length line" "es = delims_upto (delimc fmt) line n" "length es < length at"
    and k: "0 < k" "k \<le> Suc (length es)"
    and null: "null_print fmt = [] \<or> length (null_print fmt) \<noteq> n"
  shows "\<exists>r. parseLineBackward fmt line at (int n - 1) (int k) (int (length es)) =
    Some (put_ptrs (Suc (length es) - k) (drop (Suc (length es) - k) (0 # map Suc es)) at, r)"
proof (cases "k \<le> length es")
  case True
  then have "Suc (length es) - k = Suc (length es - k)" by simp
  then show ?thesis
    using backward_loop_ok[OF assms(1,2) k(1) assms(3,4)] True
    by (simp add: parseLineBackward_def Let_def min_absorb1 drop_map)
next
  case False
  then have ke: "k = Suc (length es)" using k by simp
  let ?at = "put_ptrs 1 (map Suc es) at"
  have "?at[0 := (?at ! 0)\<lparr>a_ptr := Some 0\<rparr>] = put_ptrs 0 (0 # map Suc es) at"
    by (rule nth_equalityI) (use assms(4) in \<open>auto simp: put_ptrs_nth nth_Cons' nth_list_update\<close>)
  moreover have "at \<noteq> []" using assms(4) by auto
  ultimately have "set_ptr ?at 0 0 = Some (put_ptrs 0 (0 # map Suc es) at)" using set_ptr_ok[of 0 ?at 0] by simp
  then show ?thesis
    using backward_loop_ok[OF assms(1,2) k(1) assms(3,4)] null
    by (auto simp: parseLineBackward_def Let_def ke)
qed

lemma via_backward:
  assumes "92 \<notin> set line" "length line + 1 < 2 ^ 16"
    and bs: "bs = col_starts (delimc fmt) line 0"
    and k: "0 < k" "k \<le> w" "w + 1 < length bs" "w < length at"
    and null: "null_print fmt = [] \<or> length (null_print fmt) + 1 \<noteq> bs ! w"
    and at: "at ! w = attr_of bs w"
  shows "\<exists>at'. NoDBGetNextTupleViaPM fmt line \<lparr>via_col = int w, forward = 0, backward = - int k\<rparr> at = Some at' \<and>
    length at' = length at \<and> (\<forall>j. w - k \<le> j \<and> j \<le> w \<longrightarrow> at' ! j = attr_of bs j) \<and>
    (\<forall>j < length at. j < w - k \<or> w < j \<longrightarrow> at' ! j = at ! j)"
proof -
  let ?d = "delimc fmt" and ?ds = "delims_upto (delimc fmt) line (length line)"
  note ds = delims_line[OF assms(1), of ?d]
  obtain v where v: "w = Suc v" using k by (cases w) auto
  have vl: "v < length ?ds" using k v by (simp add: bs ds)
  have B: "bs ! w = Suc (?ds ! v)" using vl by (simp add: v bs col_starts_delim ds)
  have es: "delims_upto ?d line (?ds ! v) = take v ?ds" by (rule delims_upto_take[OF vl])
  have nl: "?ds ! v < length line" using nth_mem[OF vl] by (auto simp: delims_upto_def)
  have u: "unat (of_nat (bs ! w) :: 16 word) = Suc (?ds ! v)" using nl assms(2) by (simp add: B unat_of_nat del: of_nat_Suc)
  have ui: "uint (of_nat (bs ! w) :: 16 word) = 1 + int (?ds ! v)" unfolding uint_nat u by simp
  have wv: "int w - 1 = int v" by (simp add: v)
  have tk: "0 # map Suc (take v ?ds) = take w bs" using vl by (simp add: v bs col_starts_def ds take_map)
  let ?at2 = "put_ptrs (w - k) (drop (w - k) (take w bs)) at"
  have "\<exists>r. parseLineBackward fmt line at (int (?ds ! v) - 1) (int k) (int v) = Some (?at2, r)"
    using parseLineBackward_ok[OF assms(1) less_imp_le[OF nl] es[symmetric], of at k] vl k null
    by (simp add: v[symmetric] tk B) (simp add: v)
  then obtain r where s2: "parseLineBackward fmt line at (int (?ds ! v) - 1) (int k) (int v) = Some (?at2, r)" by blast
  have ptr: "?at2 ! j = (at ! j)\<lparr>a_ptr := Some (of_nat (bs ! j))\<rparr>" if "w - k \<le> j" "j < w" for j
    using that k by (simp add: put_ptrs_nth)
  have ptw: "?at2 ! w = at ! w" using k by (simp add: put_ptrs_nth)
  have ptrs: "a_ptr (?at2 ! j) = Some (of_nat (bs ! j))" if "w - k \<le> j" "j \<le> w" for j
    using that ptr[of j] ptw at by (cases "j = w") (auto simp: attr_of_def)
  let ?js = "rev [int w - int k..int w - 1]"
  have s3: "upd_widths ?at2 ?js = Some (put_widths ?js ?at2)"
  proof (rule upd_widths_ok, rule ballI)
    fix j assume "j \<in> set ?js"
    then have "w - k \<le> nat j" "nat j < w" "0 \<le> j" using k by auto
    then show "0 \<le> j \<and> Suc (nat j) < length ?at2 \<and> a_ptr (?at2 ! nat j) \<noteq> None \<and> a_ptr (?at2 ! Suc (nat j)) \<noteq> None"
      using k ptrs[of "nat j"] ptrs[of "Suc (nat j)"] by simp
  qed
  let ?at3 = "put_widths ?js ?at2"
  have run: "NoDBGetNextTupleViaPM fmt line \<lparr>via_col = int w, forward = 0, backward = - int k\<rparr> at = Some ?at3"
    using s2 s3 k ui wv by (simp add: NoDBGetNextTupleViaPM_def arr_get_in Let_def at attr_of_def)
  have "?at3 ! j = attr_of bs j" if "w - k \<le> j" "j \<le> w" for j
    using that k at ptw ptr[of j] ptrs[of j] ptrs[of "Suc j"]
    by (cases "j = w") (auto simp: put_widths_nth attr_of_def of_nat_diff)
  moreover have "?at3 ! j = at ! j" if "j < length at" "j < w - k \<or> w < j" for j
    using that k by (auto simp: put_widths_nth put_ptrs_nth)
  ultimately show ?thesis using run by simp
qed

section \<open>Plain lines in CSV mode\<close>

text \<open>Without quotes and backslashes a line means the same in both formats.\<close>

lemma read_fields_cong:
  assumes "\<And>cur. P cur \<Longrightarrow> field cur = field' cur" "\<And>cur fd. P cur \<Longrightarrow> field cur = Val fd \<Longrightarrow> P (f_rest fd)" "P cur"
  shows "read_fields field fmt n cur tot st = read_fields field' fmt n cur tot st"
  using assms(3)
proof (induction "nat (nfields fmt - n)" arbitrary: n cur tot st rule: less_induct)
  case (less n cur tot st)
  show ?case
  proof (cases "n < nfields fmt \<and> (\<exists>fd. field cur = Val fd)")
    case True
    then obtain fd where fd: "field cur = Val fd" "field' cur = Val fd" using assms(1)[OF less.prems] by auto
    have "read_fields field fmt (n + 1) (f_rest fd) t s = read_fields field' fmt (n + 1) (f_rest fd) t s" for t s
      by (rule less.hyps) (use True assms(2)[OF less.prems fd(1)] in auto)
    then show ?thesis using fd by (subst (1 2) read_fields.simps) (simp add: Let_def cong: if_cong)
  next
    case False
    then show ?thesis using assms(1)[OF less.prems] by (subst (1 2) read_fields.simps) (auto split: res.splits)
  qed
qed

lemma csv_scan_text:
  assumes "q \<notin> set cs" "92 \<notin> set cs"
  shows "csv_scan d q e cs False n out sq = (case text_scan d cs n out na of (out', n', found, na', rest) \<Rightarrow> Val (out', n', found, sq, rest))"
  using assms
proof (induction cs arbitrary: n out)
  case (Cons c cs)
  then show ?case by (cases cs; cases "c = d") auto
qed simp

lemma text_scan_ascii:
  "92 \<notin> set cs \<Longrightarrow> text_scan d cs n out na = (out', n', found, na', rest) \<Longrightarrow> na' = na \<and> set rest \<subseteq> set cs"
proof (induction cs arbitrary: n out)
  case (Cons c cs)
  then show ?case by (cases "c = d") (auto, blast)
qed simp

lemma csv_text_same:
  assumes "quotec fmt \<notin> set line" "92 \<notin> set line"
  shows "NoDBCopyReadAttributesCSV fmt line st = NoDBCopyReadAttributesText fmt verify line st"
proof -
  let ?P = "\<lambda>cur. set cur \<subseteq> set line"
  have "read_fields (csv_field fmt) fmt 0 line 0 st = read_fields (text_field fmt verify) fmt 0 line 0 st"
  proof (rule read_fields_cong[where P = ?P])
    fix cur assume P: "?P cur"
    then have c: "quotec fmt \<notin> set cur" "92 \<notin> set cur" using assms by auto
    obtain out n found na rest where t: "text_scan (delimc fmt) cur 0 [] False = (out, n, found, na, rest)" by (metis prod_cases5)
    note a = text_scan_ascii[OF c(2) t]
    show eq: "csv_field fmt cur = text_field fmt verify cur"
      using csv_scan_text[OF c, of "delimc fmt" "escapec fmt" 0 "[]" False False] t a by (simp add: csv_field_def text_field_def)
    show "?P (f_rest fd)" if "csv_field fmt cur = Val fd" for fd
      using that a P t unfolding eq by (auto simp: text_field_def split: if_splits)
  qed simp
  then show ?thesis by (simp add: NoDBCopyReadAttributesCSV_def NoDBCopyReadAttributesText_def)
qed

text \<open>The full parse in either format.\<close>

definition full_parse :: "bool \<Rightarrow> line_format \<Rightarrow> (byte list \<Rightarrow> bool) \<Rightarrow> byte list \<Rightarrow> line_state \<Rightarrow> line_state res option" where
  "full_parse csv fmt pg_verifymbstr line st =
     (if csv then NoDBCopyReadAttributesCSV fmt line st else NoDBCopyReadAttributesText fmt pg_verifymbstr line st)"

lemma full_parse_text:
  "(csv \<longrightarrow> quotec fmt \<notin> set line \<and> 92 \<notin> set line) \<Longrightarrow> full_parse csv fmt verify line st = NoDBCopyReadAttributesText fmt verify line st"
  by (auto simp: full_parse_def csv_text_same)

section \<open>Partial and full parse\<close>

lemma text_lengths:
  assumes "line_start fmt st" "NoDBCopyReadAttributesText fmt verify line st = Some (Val st')"
  shows "length (attributes st') = length (attributes st)"
  using read_fields_total[OF line_start_arrays[OF assms(1)], of "text_field fmt verify" line 0] assms(2)
  by (auto simp: NoDBCopyReadAttributesText_def split: if_splits)

lemma via_split:
  "NoDBGetNextTupleViaPM fmt line \<lparr>via_col = w, forward = f, backward = b\<rparr> at =
     NoDBGetNextTupleViaPM fmt line \<lparr>via_col = w, forward = f, backward = 0\<rparr> at \<bind>
     NoDBGetNextTupleViaPM fmt line \<lparr>via_col = w, forward = 0, backward = b\<rparr>"
  by (simp add: NoDBGetNextTupleViaPM_def[abs_def] Let_def)

lemma via_none: "NoDBGetNextTupleViaPM fmt line \<lparr>via_col = w, forward = 0, backward = 0\<rparr> at = Some at"
  by (simp add: NoDBGetNextTupleViaPM_def)

text \<open>
  What the backward parse needs: no backslash in the line, and a first column that has not the
  length of the null marker, because the comparison with the marker would read the byte before the
  line.
\<close>

definition backward_ok :: "line_format \<Rightarrow> byte list \<Rightarrow> nat \<Rightarrow> bool" where
  "backward_ok fmt line w \<longleftrightarrow> 92 \<notin> set line \<and>
     (null_print fmt = [] \<or> length (null_print fmt) + 1 \<noteq> col_starts (delimc fmt) line 0 ! w)"


definition text_format :: line_format where
  "text_format = \<lparr>delimc = 44, quotec = 34, escapec = 34, null_print = [92, 78], nfields = 3, lastfield = 2\<rparr>"

text \<open>The line \<open>a\,b,\N,c\<close> with an escaped delimiter and a null marker.\<close>

definition text_line :: "byte list" where
  "text_line = [97, 92, 44, 98, 44, 92, 78, 44, 99]"

lemma text_line_parse:
  "full_parse False text_format (\<lambda>_. True) text_line demo_line_state =
     Some (Val \<lparr>field_strings = [Some (Some [97, 44, 98]), Some None, Some (Some [99])],
       attributes = [\<lparr>a_ptr = Some 0, a_width = Some 4\<rparr>, \<lparr>a_ptr = Some 5, a_width = Some 2\<rparr>,
         \<lparr>a_ptr = Some 8, a_width = Some 1\<rparr>, \<lparr>a_ptr = Some 10, a_width = None\<rparr>]\<rparr>)"
  by code_simp


section \<open>Where the partial parses differ\<close>

text \<open>The line \<open>a,"b,c",d\<close>.\<close>

definition quoted_line :: "byte list" where
  "quoted_line = [97, 44, 34, 98, 44, 99, 34, 44, 100]"


text \<open>
  C36: The backward parse reads the byte before the line. Whenever the scan reaches the start of the
  line and the first column is as long as the null marker, the comparison with the marker starts at
  \<open>line_buf.data - 1\<close>; with the marker \<open>\N\<close> of the text format this is every line whose first column
  has two characters.
\<close>

theorem backward_null_reads_before_line:
  assumes "92 \<notin> set line" "length line + 1 < 2 ^ 16" "delimc fmt \<notin> set c" "line = c @ delimc fmt # cs"
    "length (null_print fmt) = length c" "c \<noteq> []" "2 \<le> length at" "a_ptr (at ! 1) = Some (of_nat (length c + 1))"
  shows "NoDBGetNextTupleViaPM fmt line \<lparr>via_col = 1, forward = 0, backward = -1\<rparr> at = None"
proof -
  let ?n = "length c"
  have es: "delims_upto (delimc fmt) line ?n = []"
    using assms(3) by (auto simp: delims_upto_def assms(4) nth_append filter_empty_conv in_set_conv_nth)
  have l: "at \<noteq> []" using assms(7) by auto
  have n: "?n \<le> length line" "?n + 1 < 2 ^ 16" using assms(2,4) by auto
  have "backward_loop (delimc fmt) line (int ?n - 1) 1 0 at = Some (at, 1, 0, - 1)"
    using backward_loop_ok[OF assms(1) n(1) zero_less_one es[symmetric], of at] l by simp
  moreover have "set_ptr at 0 0 \<noteq> None" using set_ptr_ok[of 0 at 0] l by simp
  moreover have "uint (of_nat (?n + 1) :: 16 word) = 1 + int ?n" using n(2) unfolding uint_nat by (simp add: unat_of_nat del: of_nat_Suc)
  ultimately show ?thesis
    using assms(5,6,7,8) by (auto simp: NoDBGetNextTupleViaPM_def parseLineBackward_def arr_get_in Let_def)
qed

theorem backward_null_reads_before_line_witness:
  "NoDBGetNextTupleViaPM text_format [97, 98, 44, 99] \<lparr>via_col = 1, forward = 0, backward = -1\<rparr>
     [\<lparr>a_ptr = Some 0, a_width = Some 2\<rparr>, \<lparr>a_ptr = Some 3, a_width = Some 1\<rparr>] = None"
proof (rule backward_null_reads_before_line[where c = "[97, 98]" and cs = "[99]"])
  show "length [97, 98, 44, 99 :: byte] + 1 < 2 ^ 16" by simp
qed (simp_all add: text_format_def)

end
