(* ===== verification/NoDB_Values.thy ===== *)
theory NoDB_Values
  imports NoDB_ParsePM
begin

text \<open>
  The values of a tuple: converting the strings of the full parse and converting the substrings found
  through the positional map give the same datums. Then the number of bytes to read for lines of
  known length.
\<close>

section \<open>Strings of the full parse\<close>

lemma text_scan_plain:
  assumes "92 \<notin> set cs"
  shows "text_scan d cs n out na = (out @ takeWhile (\<lambda>c. c \<noteq> d) cs, n + length (takeWhile (\<lambda>c. c \<noteq> d) cs), d \<in> set cs, na,
    drop (length (takeWhile (\<lambda>c. c \<noteq> d) cs) + 1) cs)"
  using assms
proof (induction cs arbitrary: n out)
  case (Cons c cs)
  then show ?case by (cases "c = d") auto
qed simp

lemma text_field_plain:
  assumes "92 \<notin> set cur" "text_field fmt verify cur = Val fd"
  shows "f_val fd = (if take (f_len fd) cur = null_print fmt then None else Some (take (f_len fd) cur))"
    and "f_rest fd = drop (f_len fd + 1) cur"
proof -
  let ?tw = "takeWhile (\<lambda>c. c \<noteq> delimc fmt) cur"
  have "fd = \<lparr>f_val = (if take (length ?tw) cur = null_print fmt then None else Some ?tw), f_len = length ?tw,
      f_found = (delimc fmt \<in> set cur), f_rest = drop (length ?tw + 1) cur\<rparr>"
    using assms by (simp add: text_field_def text_scan_plain)
  moreover have "?tw = take (length ?tw) cur" by (rule takeWhile_eq_take)
  ultimately show "f_val fd = (if take (f_len fd) cur = null_print fmt then None else Some (take (f_len fd) cur))"
    "f_rest fd = drop (f_len fd + 1) cur" by simp_all
qed

text \<open>The text of a column between two starts.\<close>

definition segment :: "nat list \<Rightarrow> byte list \<Rightarrow> nat \<Rightarrow> nat \<Rightarrow> byte list" where
  "segment bs cur p i = take (bs ! Suc i - bs ! i - 1) (drop (bs ! i - p) cur)"

lemma segment_subset: "set (segment bs cur p i) \<subseteq> set cur"
  by (auto simp: segment_def dest!: in_set_takeD in_set_dropD)

definition strings :: "byte list \<Rightarrow> nat \<Rightarrow> nat \<Rightarrow> nat list \<Rightarrow> byte list \<Rightarrow> nat \<Rightarrow> byte list option option list \<Rightarrow> bool" where
  "strings nullp f lf bs cur p fs \<longleftrightarrow> (\<forall>i. Suc i < length bs \<longrightarrow> f + i \<le> lf \<longrightarrow>
     fs ! (f + i) = Some (if segment bs cur p i = nullp then None else Some (segment bs cur p i)))"

lemma segment_Cons:
  assumes "p + n + 1 \<le> bs ! i"
  shows "segment (p # bs) cur p (Suc i) = segment bs (drop (n + 1) cur) (p + n + 1) i"
proof -
  have "bs ! i - p = bs ! i - (p + n + 1) + (n + 1)" using assms by simp
  then show ?thesis by (simp only: segment_def drop_drop nth_Cons_Suc)
qed

lemma strings_Cons:
  assumes "\<forall>i < length bs. p + n + 1 \<le> bs ! i" "bs ! 0 = p + n + 1" "bs \<noteq> []"
  shows "strings nullp f lf (p # bs) cur p fs \<longleftrightarrow>
    (f \<le> lf \<longrightarrow> fs ! f = Some (if take n cur = nullp then None else Some (take n cur))) \<and>
    strings nullp (Suc f) lf bs (drop (n + 1) cur) (p + n + 1) fs" (is "?l \<longleftrightarrow> ?h \<and> ?t")
proof
  have h: "segment (p # bs) cur p 0 = take n cur" using assms(2) by (simp add: segment_def)
  show "?h \<and> ?t" if ?l
  proof
    show ?h using that[unfolded strings_def, rule_format, of 0] assms(3) h by (cases bs) auto
    show ?t unfolding strings_def
    proof (intro allI impI)
      fix i assume i: "Suc i < length bs" "Suc f + i \<le> lf"
      show "fs ! (Suc f + i) = Some (if segment bs (drop (n + 1) cur) (p + n + 1) i = nullp then None
          else Some (segment bs (drop (n + 1) cur) (p + n + 1) i))"
        using that[unfolded strings_def, rule_format, of "Suc i"] i assms(1) segment_Cons[of p n bs i cur] by simp
    qed
  qed
  show ?l if "?h \<and> ?t"
    unfolding strings_def
  proof (intro allI impI)
    fix i assume i: "Suc i < length (p # bs)" "f + i \<le> lf"
    show "fs ! (f + i) = Some (if segment (p # bs) cur p i = nullp then None else Some (segment (p # bs) cur p i))"
    proof (cases i)
      case 0
      then show ?thesis using that h i by simp
    next
      case (Suc j)
      then show ?thesis
        using conjunct2[OF that, unfolded strings_def, rule_format, of j] i assms(1) segment_Cons[of p n bs j cur] by simp
    qed
  qed
qed

lemma strings_past: "lf < f \<Longrightarrow> strings nullp f lf bs cur p fs" and strings_single: "strings nullp f lf [b] cur p fs"
  by (auto simp: strings_def)

lemma col_starts_ge: "i < length (col_starts d cs p) \<Longrightarrow> p \<le> col_starts d cs p ! i"
  using col_starts_less[of 0 i d cs p] by (cases i) (auto simp: col_starts_def)

lemma next_state_string:
  "f < length (field_strings st) \<Longrightarrow> field_strings (next_state f tot fd st) ! f = Some (f_val fd)"
  "k < f \<Longrightarrow> field_strings (next_state f tot fd st) ! k = field_strings st ! k"
  by (simp_all add: next_state_def)

lemma text_strings:
  assumes "92 \<notin> set cur" "arrays_ok fmt f st" "int f \<le> lastfield fmt" "lastfield fmt < nfields fmt"
    "read_fields (text_field fmt verify) fmt (int f) cur p st = Some (Val st')"
  shows "strings (null_print fmt) f (nat (lastfield fmt)) (col_starts (delimc fmt) cur p) cur p (field_strings st') \<and>
    (\<forall>k < f. field_strings st' ! k = field_strings st ! k)"
  using assms
proof (induction "nat (nfields fmt - int f)" arbitrary: f cur p st rule: less_induct)
  case (less f cur p st)
  have f: "int f < nfields fmt" using less.prems(3,4) by simp
  then obtain fd where fd: "text_field fmt verify cur = Val fd"
    using less.prems(5) by (cases "text_field fmt verify cur") (auto simp: read_fields.simps)
  let ?s = "next_state f p fd st" and ?q = "p + f_len fd + 1"
  note fv = text_field_plain[OF less.prems(1) fd]
  have len: "f < length (field_strings st)" using less.prems(2) f by (auto simp: arrays_ok_def)
  note at = next_state_string(1)[OF len] next_state_string(2)
  note step = read_fields_step[where field = "text_field fmt verify" and tot = p, OF less.prems(2) f fd]
  define bs where "bs = (if f_found fd then col_starts (delimc fmt) (f_rest fd) ?q else [?q])"
  have starts: "col_starts (delimc fmt) cur p = p # bs" using text_field_positions[OF fd, of p] by (simp add: bs_def)
  have bs: "\<forall>i < length bs. ?q \<le> bs ! i" "bs ! 0 = ?q" "bs \<noteq> []"
    using col_starts_ge[of _ "delimc fmt" "f_rest fd" ?q] by (auto simp: bs_def) (auto simp: col_starts_def)
  note sc = strings_Cons[OF bs, of "null_print fmt" f "nat (lastfield fmt)" cur "field_strings st'"]
  show ?case
  proof (cases "int f = lastfield fmt \<or> \<not> f_found fd")
    case True
    then have st': "st' = ?s" using less.prems(5) step by simp
    have "strings (null_print fmt) (Suc f) (nat (lastfield fmt)) bs (drop (f_len fd + 1) cur) ?q (field_strings ?s)"
      using True by (auto simp: bs_def intro: strings_past strings_single)
    then show ?thesis using sc by (simp add: starts st' at fv(1))
  next
    case False
    then have r: "read_fields (text_field fmt verify) fmt (int (Suc f)) (f_rest fd) ?q ?s = Some (Val st')"
      using less.prems(5) step by simp
    have "92 \<notin> set (f_rest fd)" using less.prems(1) by (auto simp: fv(2) dest: in_set_dropD)
    then have "strings (null_print fmt) (Suc f) (nat (lastfield fmt)) bs (drop (f_len fd + 1) cur) ?q (field_strings st') \<and>
      (\<forall>k < Suc f. field_strings st' ! k = field_strings ?s ! k)"
      using less.hyps[OF _ _ arrays_ok_next[OF less.prems(2) f] _ less.prems(4) r] False less.prems(3) f
      by (simp add: bs_def fv(2))
    then show ?thesis using sc by (simp add: starts at fv(1))
  qed
qed

section \<open>Values\<close>

text \<open>The line buffer after some of its columns were terminated in place.\<close>

definition cut_buf :: "nat list \<Rightarrow> byte list \<Rightarrow> byte list \<Rightarrow> bool" where
  "cut_buf bs line buf \<longleftrightarrow> length buf = length line + 1 \<and>
     (\<forall>i < length buf. buf ! i = (line @ [0]) ! i \<or> buf ! i = 0 \<and> (\<exists>c. Suc c < length bs \<and> i + 1 = bs ! Suc c))"

lemma cut_buf_start: "cut_buf bs line (line @ [0])"
  by (simp add: cut_buf_def)

lemma cut_buf_update:
  assumes "cut_buf bs line buf" "Suc c < length bs" "bs ! Suc c = i + 1"
  shows "cut_buf bs line (buf[i := 0])"
  unfolding cut_buf_def
proof (intro conjI allI impI)
  fix j assume j: "j < length (buf[i := 0])"
  show "buf[i := 0] ! j = (line @ [0]) ! j \<or> buf[i := 0] ! j = 0 \<and> (\<exists>c. Suc c < length bs \<and> j + 1 = bs ! Suc c)"
    using assms j by (cases "j = i") (auto simp: cut_buf_def)
qed (use assms(1) in \<open>simp add: cut_buf_def\<close>)

lemma cut_string:
  assumes "cut_buf bs line buf" "sorted_wrt (<) bs" "Suc c < length bs" "bs ! Suc c = i + 1" "i \<le> length line" "0 \<notin> set line"
  shows "cstring (drop (bs ! c) (buf[i := 0])) = segment bs line 0 c"
proof -
  have ci: "bs ! c \<le> i" using sorted_wrt_nth_less[OF assms(2), of c "Suc c"] assms(3,4) by simp
  have len: "length buf = length line + 1" using assms(1) by (simp add: cut_buf_def)
  have keep: "buf ! j = line ! j" if "bs ! c \<le> j" "j < i" for j
  proof -
    have "j + 1 \<noteq> bs ! Suc k" if "Suc k < length bs" for k
    proof (cases "k < c")
      case True
      then have "bs ! Suc k \<le> bs ! c"
        using sorted_wrt_nth_less[OF assms(2), of "Suc k" c] assms(3) by (cases "Suc k = c") auto
      then show ?thesis using \<open>bs ! c \<le> j\<close> by simp
    next
      case False
      then have "bs ! Suc c \<le> bs ! Suc k"
        using sorted_wrt_nth_less[OF assms(2), of "Suc c" "Suc k"] that by (cases "c = k") auto
      then show ?thesis using \<open>j < i\<close> assms(4) by simp
    qed
    moreover have "j < length buf" using len assms(5) that(2) by simp
    ultimately have "buf ! j = (line @ [0]) ! j" using assms(1) unfolding cut_buf_def by blast
    then show ?thesis using that(2) assms(5) by (simp add: nth_append)
  qed
  let ?b = "drop (bs ! c) (buf[i := 0])"
  have "takeWhile (\<lambda>b. b \<noteq> 0) ?b = take (i - bs ! c) ?b"
  proof (rule takeWhile_eq_take_P_nth)
    fix k assume k: "k < i - bs ! c"
    then have "?b ! k = line ! (bs ! c + k)" using ci len assms(5) keep[of "bs ! c + k"] by simp
    moreover have "line ! (bs ! c + k) \<in> set line" using k assms(5) by simp
    ultimately show "?b ! k \<noteq> 0" using assms(6) by auto
  qed (use ci len assms(5) in simp)
  also have "\<dots> = segment bs line 0 c"
    unfolding segment_def
    by (rule nth_equalityI) (use ci len assms(4,5) keep in auto)
  finally show ?thesis by (simp add: cstring_def)
qed

lemma set_value_ok:
  assumes "0 \<le> i" "nat i < length (dvalues st)" "nat i < length (dnulls st)"
  shows "set_value i v n st = Some (st\<lparr>dvalues := (dvalues st)[nat i := Some v], dnulls := (dnulls st)[nat i := Some n]\<rparr>)"
  using assms by (simp add: set_value_def arr_set_in)

definition value_columns :: "value_state \<Rightarrow> int list \<Rightarrow> bool" where
  "value_columns vs cs \<longleftrightarrow> (\<forall>c \<in> set cs. 0 \<le> c \<and> nat c < length (dvalues vs) \<and> nat c < length (dnulls vs))"

text \<open>What the full parse left for a column: its position, width and string.\<close>

definition column_read :: "nat list \<Rightarrow> byte list \<Rightarrow> line_state \<Rightarrow> int \<Rightarrow> bool" where
  "column_read bs line st c \<longleftrightarrow> 0 \<le> c \<and> nat c + 1 < length bs \<and>
     arr_get (field_strings st) c = Some (Some (Some (segment bs line 0 (nat c)))) \<and>
     arr_get (attributes st) c = Some (attr_of bs (nat c))"

lemma values_step:
  assumes "cut_buf bs line buf" "sorted_wrt (<) bs" "nat c + 1 < length bs" "bs ! Suc (nat c) \<le> length line + 1"
    "length line + 1 < 2 ^ 16" "0 \<notin> set line" "92 \<notin> set line" "segment bs line 0 (nat c) \<noteq> []"
  shows "\<exists>p wd buf'. a_ptr (attr_of bs (nat c)) = Some p \<and> a_width (attr_of bs (nat c)) = Some wd \<and> wd \<noteq> 0 \<and>
    arr_set buf (int (unat p) + int (unat wd)) 0 = Some buf' \<and> cut_buf bs line buf' \<and>
    cstring (drop (unat p) buf') = segment bs line 0 (nat c) \<and> segment bs line 0 (nat c) \<noteq> [92, 78]"
proof -
  let ?c = "nat c"
  have lt: "bs ! ?c < bs ! Suc ?c" "bs ! Suc ?c < 2 ^ 16"
    using sorted_wrt_nth_less[OF assms(2), of ?c "Suc ?c"] assms(3-5) by auto
  obtain p wd where pw: "a_ptr (attr_of bs ?c) = Some p" "a_width (attr_of bs ?c) = Some wd" by (simp add: attr_of_def)
  note stop = via_stop[OF lt, unfolded pw option.sel]
  have p: "unat p = bs ! ?c" using pw(1) lt by (auto simp: attr_of_def unat_of_nat)
  have wd: "wd \<noteq> 0" using stop p assms(8) lt(1) by (auto simp: segment_def)
  define i where "i = bs ! Suc ?c - 1"
  have i: "bs ! Suc ?c = i + 1" "i \<le> length line" using lt(1) assms(4) by (auto simp: i_def)
  have len: "length buf = length line + 1" using assms(1) by (simp add: cut_buf_def)
  have "unat p + unat wd = i" using stop i by simp
  then have s: "int (unat p) + int (unat wd) = int i" by (metis of_nat_add)
  have "arr_set buf (int (unat p) + int (unat wd)) 0 = Some (buf[i := 0])" unfolding s using len i by (simp add: arr_set_in)
  moreover have "segment bs line 0 ?c \<noteq> [92, 78]"
  proof
    assume "segment bs line 0 ?c = [92, 78]"
    then have "92 \<in> set (segment bs line 0 ?c)" by simp
    then show False using assms(7) segment_subset[of bs line 0 ?c] by auto
  qed
  moreover have "cstring (drop (unat p) (buf[i := 0])) = segment bs line 0 ?c"
    unfolding p by (rule cut_string[OF assms(1,2) _ i assms(6)]) (use assms(3) in simp)
  moreover have "cut_buf bs line (buf[i := 0])" by (rule cut_buf_update[OF assms(1) _ i(1)]) (use assms(3) in simp)
  ultimately show ?thesis using pw wd by blast
qed

lemma text_array_lengths:
  assumes "line_start fmt st" "NoDBCopyReadAttributesText fmt verify line st = Some (Val st')"
  shows "length (attributes st') = length (attributes st)" "length (field_strings st') = length (field_strings st)"
  using read_fields_total[OF line_start_arrays[OF assms(1)], of "text_field fmt verify" line 0] assms(2)
  by (auto simp: NoDBCopyReadAttributesText_def split: if_splits)

text \<open>Every value of the list is stored, with its null flag cleared.\<close>

definition put_values :: "value_state \<Rightarrow> int list \<Rightarrow> (int \<Rightarrow> 64 word) \<Rightarrow> value_state" where
  "put_values vs cs F = vs\<lparr>dvalues := store_cols (dvalues vs) cs F, dnulls := store_cols (dnulls vs) cs (\<lambda>_. False)\<rparr>"

lemma put_values_Nil [simp]: "put_values vs [] F = vs"
  by (simp add: put_values_def)

lemma set_value_snoc:
  "value_columns vs [x] \<Longrightarrow> set_value x (F x) False (put_values vs xs F) = Some (put_values vs (xs @ [x]) F)"
  using store_cols_snoc[of x "dvalues vs" xs F] store_cols_snoc[of x "dnulls vs" xs "\<lambda>_. False"]
  by (simp add: value_columns_def set_value_def put_values_def)

lemma value_columns_append [simp]: "value_columns vs (xs @ ys) \<longleftrightarrow> value_columns vs xs \<and> value_columns vs ys"
  by (auto simp: value_columns_def)

lemma put_values_nth:
  "value_columns vs cs \<Longrightarrow> c \<in> set cs \<Longrightarrow> dvalues (put_values vs cs F) ! nat c = Some (F c) \<and> dnulls (put_values vs cs F) ! nat c = Some False"
  by (auto simp: value_columns_def put_values_def store_cols_def)

lemma cstring_segment: "0 \<notin> set line \<Longrightarrow> cstring (segment bs line 0 c) = segment bs line 0 c"
  using segment_subset[of bs line 0 c] by (auto simp: cstring_def takeWhile_eq_all_conv)

lemma NoDBGetValues_eq:
  assumes "0 \<notin> set line" "value_columns vs cs" "\<forall>c \<in> set cs. column_read bs line st c"
  shows "NoDBGetValues input_fn (field_strings st) (map Some cs) vs = Some (put_values vs cs (\<lambda>c. input_fn c (segment bs line 0 (nat c))))"
proof -
  let ?F = "\<lambda>c. input_fn c (segment bs line 0 (nat c))"
  have "NoDBGetValues input_fn (field_strings st) (map Some cs) vs = foldM (\<lambda>vs c. set_value c (?F c) False vs) vs cs"
    unfolding NoDBGetValues_def vector_size length_map nat_int
    by (rule foldM_index) (use assms in \<open>simp add: column_read_def cstring_segment\<close>)
  also have "\<dots> = Some (put_values vs cs ?F)"
    using assms(2) by (induction cs rule: rev_induct) (auto simp: foldM_snoc set_value_snoc[where F = ?F])
  finally show ?thesis .
qed

lemma NoDBGetValuesWithPM_eq:
  assumes "value_columns vs cs" "\<forall>c \<in> set cs. column_read bs line st c \<and> segment bs line 0 (nat c) \<noteq> []"
    and line: "sorted_wrt (<) bs" "\<forall>i < length bs. bs ! i \<le> length line + 1" "length line + 1 < 2 ^ 16" "0 \<notin> set line" "92 \<notin> set line"
  shows "\<exists>buf'. NoDBGetValuesWithPM input_fn (attributes st) (map Some cs) (line @ [0], vs) =
      Some (buf', put_values vs cs (\<lambda>c. input_fn c (segment bs line 0 (nat c)))) \<and> cut_buf bs line buf'"
proof -
  let ?F = "\<lambda>c. input_fn c (segment bs line 0 (nat c))"
  let ?g = "\<lambda>(buf, vs) i. do {
         a \<leftarrow> arr_get (attributes st) i; p \<leftarrow> a_ptr a; bytesToRead \<leftarrow> a_width a;
         (if bytesToRead = 0 then None
          else do {
            buf \<leftarrow> arr_set buf (int (unat p) + int (unat bytesToRead)) 0;
            let str = cstring (drop (unat p) buf);
            vs \<leftarrow> (if str = [92, 78] then set_value i 0 True vs else set_value i (input_fn i str) False vs);
            Some (buf, vs)
          })
       }"
  have "NoDBGetValuesWithPM input_fn (attributes st) (map Some cs) (line @ [0], vs) = foldM ?g (line @ [0], vs) cs"
    unfolding NoDBGetValuesWithPM_def vector_size length_map nat_int by (rule foldM_index) (simp split: prod.splits)
  moreover have "\<exists>buf'. foldM ?g (line @ [0], vs) cs = Some (buf', put_values vs cs ?F) \<and> cut_buf bs line buf'"
    using assms(1,2)
  proof (induction cs rule: rev_induct)
    case Nil
    then show ?case by (simp add: cut_buf_start)
  next
    case (snoc c cs)
    then obtain buf where buf: "foldM ?g (line @ [0], vs) cs = Some (buf, put_values vs cs ?F)" "cut_buf bs line buf" by auto
    have c: "nat c + 1 < length bs" "arr_get (attributes st) c = Some (attr_of bs (nat c))" "segment bs line 0 (nat c) \<noteq> []"
      using snoc.prems(2) by (auto simp: column_read_def)
    have b: "bs ! Suc (nat c) \<le> length line + 1" using line(2) c(1) by simp
    obtain p wd buf' where s: "a_ptr (attr_of bs (nat c)) = Some p" "a_width (attr_of bs (nat c)) = Some wd" "wd \<noteq> 0"
      "arr_set buf (int (unat p) + int (unat wd)) 0 = Some buf'" "cut_buf bs line buf'"
      "cstring (drop (unat p) buf') = segment bs line 0 (nat c)" "segment bs line 0 (nat c) \<noteq> [92, 78]"
      using values_step[OF buf(2) line(1) c(1) b line(3,4,5) c(3)] by blast
    have "?g (buf, put_values vs cs ?F) c = Some (buf', put_values vs (cs @ [c]) ?F)"
      unfolding prod.case c(2) using s set_value_snoc[of vs c ?F cs] snoc.prems(1) by (simp add: Let_def)
    then show ?case using buf(1) s(5) by (simp add: foldM_snoc)
  qed
  ultimately show ?thesis by simp
qed


text \<open>The line \<open>ab,,c\<close>.\<close>

definition plain_line :: "byte list" where
  "plain_line = [97, 98, 44, 44, 99]"

definition demo_values :: value_state where
  "demo_values = \<lparr>dvalues = replicate 3 None, dnulls = replicate 3 None\<rparr>"


section \<open>Reading whole lines of known length\<close>

lemma bytes_to_read_loop_ok:
  assumes "\<forall>i. m \<le> i \<and> i < n \<longrightarrow> NoDBCacheGetShortInt eol 0 (of_nat i) = Some (L i)" "m \<le> n" "res \<le> space" "int n \<le> INT_MAX"
  shows "\<exists>k. m + k \<le> n \<and> bytes_to_read_loop eol [m..<n] space res t = Some (res + (\<Sum>i = m..<m + k. sint (L i)), t + int k) \<and>
    res + (\<Sum>i = m..<m + k. sint (L i)) \<le> space \<and>
    (m + k = n \<or> space < res + (\<Sum>i = m..<m + k. sint (L i)) + sint (L (m + k)))"
  using assms
proof (induction "n - m" arbitrary: m res t)
  case 0
  then show ?case by (intro exI[of _ 0]) simp
next
  case (Suc d)
  then have mn: "m < n" by simp
  then have up: "[m..<n] = m # [Suc m..<n]" by (simp add: upt_conv_Cons)
  have l: "NoDBCacheGetShortInt eol 0 (of_nat m) = Some (L m)" "\<not> int m > INT_MAX" using Suc.prems(1,4) mn by simp_all
  show ?case
  proof (cases "res + sint (L m) > space")
    case True
    then show ?thesis using l mn Suc.prems(3) by (intro exI[of _ 0]) (simp add: up)
  next
    case False
    have "d = n - Suc m" "Suc m \<le> n" using Suc.hyps(2) mn by auto
    then obtain k where k: "Suc m + k \<le> n"
      "bytes_to_read_loop eol [Suc m..<n] space (res + sint (L m)) (t + 1) =
         Some (res + sint (L m) + (\<Sum>i = Suc m..<Suc m + k. sint (L i)), t + 1 + int k)"
      "res + sint (L m) + (\<Sum>i = Suc m..<Suc m + k. sint (L i)) \<le> space"
      "Suc m + k = n \<or> space < res + sint (L m) + (\<Sum>i = Suc m..<Suc m + k. sint (L i)) + sint (L (Suc m + k))"
      using Suc.hyps(1)[of "Suc m" "res + sint (L m)" "t + 1"] Suc.prems(1,4) False by auto
    have s: "(\<Sum>i = m..<m + Suc k. sint (L i)) = sint (L m) + (\<Sum>i = Suc m..<Suc m + k. sint (L i))"
      by (simp add: sum.atLeast_Suc_lessThan)
    show ?thesis
      by (rule exI[of _ "Suc k"], unfold s) (use k l False in \<open>simp add: up add.assoc\<close>)
  qed
qed

text \<open>
  C30: The next block is filled with whole lines and as many as fit. With the line lengths of the
  end-of-line cache, which has at most 2^31 - 1 rows, \<open>NoDBComputeBytesToRead\<close> returns the total length of the lines from the current
  one on, at most the available bytes, and stops only where the cache ends or the next line does not
  fit; when the current line fits, at least one line is read.
\<close>

theorem bytes_to_read_bound:
  assumes "\<forall>i. cur \<le> i \<and> i < unat (NoDBCacheGetUsedRows eol) \<longrightarrow> NoDBCacheGetShortInt eol 0 (of_nat i) = Some (L i)"
    "cur \<le> unat (NoDBCacheGetUsedRows eol)" "0 \<le> space" "int (unat (NoDBCacheGetUsedRows eol)) \<le> INT_MAX"
  shows "\<exists>k. cur + k \<le> unat (NoDBCacheGetUsedRows eol) \<and>
    NoDBComputeBytesToRead eol cur space = Some ((\<Sum>i = cur..<cur + k. sint (L i)), int k) \<and>
    (\<Sum>i = cur..<cur + k. sint (L i)) \<le> space \<and>
    (cur + k = unat (NoDBCacheGetUsedRows eol) \<or> space < (\<Sum>i = cur..<cur + k. sint (L i)) + sint (L (cur + k))) \<and>
    (cur < unat (NoDBCacheGetUsedRows eol) \<and> sint (L cur) \<le> space \<longrightarrow> 0 < k)"
proof -
  obtain k where k: "cur + k \<le> unat (NoDBCacheGetUsedRows eol)"
    "bytes_to_read_loop eol [cur..<unat (NoDBCacheGetUsedRows eol)] space 0 0 = Some (0 + (\<Sum>i = cur..<cur + k. sint (L i)), 0 + int k)"
    "0 + (\<Sum>i = cur..<cur + k. sint (L i)) \<le> space"
    "cur + k = unat (NoDBCacheGetUsedRows eol) \<or> space < 0 + (\<Sum>i = cur..<cur + k. sint (L i)) + sint (L (cur + k))"
    using bytes_to_read_loop_ok[OF assms, of 0] by blast
  have "0 < k" if "cur < unat (NoDBCacheGetUsedRows eol)" "sint (L cur) \<le> space" using that k(4) by (cases k) auto
  then show ?thesis using k by (intro exI[of _ k]) (simp add: NoDBComputeBytesToRead_def)
qed

text \<open>An end-of-line cache with the line lengths 5, 7 and 4.\<close>

definition demo_eol :: NoDBCache_t where
  "demo_eol =
     \<lparr>c_rel = 1, c_type = NODB_POSITIONS_CACHE, c_startRow = 0, c_usedRows = 3, c_nRows = Some 3,
      c_startOffset = 0, c_rowSize = 2, c_rowFree = 0, c_cols = [Some 0], c_usedCols = 1,
      c_offset = [0], c_map = [1], c_list = [\<lparr>used = True, psize = 2\<rparr>],
      c_buf = Some (map Some [5, 0, 7, 0, 4, 0]), c_sizeOfHeader = None\<rparr>"

theorem bytes_to_read_bound_witness:
  "\<exists>k. NoDBComputeBytesToRead demo_eol 0 14 = Some ((\<Sum>i = 0..<k. sint ([5, 7, 4 :: 16 word] ! i)), int k) \<and>
     (\<Sum>i = 0..<k. sint ([5, 7, 4 :: 16 word] ! i)) \<le> 14 \<and> 0 < k"
proof -
  have u: "unat (NoDBCacheGetUsedRows demo_eol) = 3" by code_simp
  have "NoDBCacheGetShortInt demo_eol 0 (of_nat 0) = Some 5" "NoDBCacheGetShortInt demo_eol 0 (of_nat 1) = Some 7"
    "NoDBCacheGetShortInt demo_eol 0 (of_nat 2) = Some 4"
    by code_simp+
  then have "\<forall>i. 0 \<le> i \<and> i < unat (NoDBCacheGetUsedRows demo_eol) \<longrightarrow> NoDBCacheGetShortInt demo_eol 0 (of_nat i) = Some ([5, 7, 4] ! i)"
    unfolding u by (auto simp: less_Suc_eq numeral_3_eq_3 numeral_2_eq_2 simp del: of_nat_Suc)
  then show ?thesis
    using bytes_to_read_bound[of 0 demo_eol "\<lambda>i. [5, 7, 4] ! i" 14] u by (auto simp: INT_MAX_def)
qed

end
