(* ===== verification/NoDB_Replay.thy ===== *)
theory NoDB_Replay
  imports NoDB_ReadSpec NoDB_Values
begin

text \<open>
  The two ways to read a file together: the first scan finds the ends of the lines and stores their
  lengths in the end-of-line cache, the following scans read whole blocks of lines by these lengths.
\<close>

section \<open>Files of plain lines\<close>

fun terminator :: "EolType \<Rightarrow> byte list" where
  "terminator EOL_UNKNOWN = []"
| "terminator EOL_NL = [10]"
| "terminator EOL_CR = [13]"
| "terminator EOL_CRNL = [13, 10]"

definition unquoted_line :: "read_format \<Rightarrow> byte list \<Rightarrow> bool" where
  "unquoted_line fmt l \<longleftrightarrow> 10 \<notin> set l \<and> 13 \<notin> set l \<and> 92 \<notin> set l \<and> (csv_mode fmt \<longrightarrow> rquote fmt \<notin> set l)"

definition file_of :: "EolType \<Rightarrow> byte list list \<Rightarrow> byte list" where
  "file_of t ls = concat (map (\<lambda>l. l @ terminator t) ls)"

lemma file_of_simps [simp]: "file_of t [] = []" "file_of t (l # ls) = l @ terminator t @ file_of t ls"
  "file_of t (ls @ ms) = file_of t ls @ file_of t ms"
  by (simp_all add: file_of_def)

lemma csv_flags_plain: "c \<noteq> rquote fmt \<or> \<not> csv_mode fmt \<Longrightarrow> csv_flags fmt c False False = (False, False)"
  by (auto simp: csv_flags_def csv_state_def Let_def)

lemma next_byte_file:
  assumes "\<forall>l \<in> set ls. unquoted_line fmt l"
  shows "next_byte (file_of EOL_CR ls) \<noteq> 10"
proof (cases ls)
  case (Cons l ms)
  then have "10 \<notin> set l" using assms by (simp add: unquoted_line_def)
  then show ?thesis using Cons by (cases l) (auto simp: next_byte_def)
qed (simp add: next_byte_def)

lemma line_spec_plain:
  assumes "unquoted_line fmt l" "t \<noteq> EOL_UNKNOWN" "eol = EOL_UNKNOWN \<or> eol = t" "t = EOL_CR \<longrightarrow> next_byte rest \<noteq> 10"
    "csv_mode fmt \<longrightarrow> rquote fmt \<noteq> 10 \<and> rquote fmt \<noteq> 13"
  shows "line_spec fmt eol fi False False (l @ terminator t @ rest) = Val (l @ terminator t, rest, t, False)"
  using assms(1)
proof (induction l arbitrary: fi)
  case Nil
  have "csv_flags fmt 10 False False = (False, False)" "csv_flags fmt 13 False False = (False, False)"
    using assms(5) by (auto intro!: csv_flags_plain)
  then show ?case using assms(2-4) by (cases t) (auto simp: line_spec.simps next_byte_def)
next
  case (Cons c l)
  have "csv_flags fmt c False False = (False, False)" using Cons.prems by (intro csv_flags_plain) (auto simp: unquoted_line_def)
  then show ?case using Cons by (simp add: line_spec.simps unquoted_line_def)
qed

section \<open>The first scan\<close>

text \<open>Tuples are read one after the other; the executor counts them in \<open>processed\<close>.\<close>

fun tuples :: "(reader \<Rightarrow> (reader \<times> bool) res option) \<Rightarrow> nat \<Rightarrow> reader \<Rightarrow> (byte list list \<times> reader) res option" where
  "tuples readFile 0 rd = Some (Val ([], rd))"
| "tuples readFile (Suc n) rd =
     (case readFile rd of
        None \<Rightarrow> None
      | Some (Err e) \<Rightarrow> Some (Err e)
      | Some (Val (rd', True)) \<Rightarrow> Some (Val ([], rd'))
      | Some (Val (rd', False)) \<Rightarrow>
          (case tuples readFile n (rd'\<lparr>processed := processed rd' + 1\<rparr>) of
             None \<Rightarrow> None
           | Some (Err e) \<Rightarrow> Some (Err e)
           | Some (Val (ls, rd'')) \<Rightarrow> Some (Val (line_buf rd' # ls, rd''))))"

lemma tuples_step:
  assumes "readFile rd = Some (Val (r, False))" "tuples readFile n (r\<lparr>processed := processed r + 1\<rparr>) = Some (Val (ls, rd'))"
  shows "tuples readFile (Suc n) rd = Some (Val (line_buf r # ls, rd'))"
  using assms by simp

lemma usedRows_dir [simp]:
  "used_cols (c\<lparr>c_usedRows := x\<rparr>) = used_cols c" "col_off (c\<lparr>c_usedRows := x\<rparr>) = col_off c"
  "col_size (c\<lparr>c_usedRows := x\<rparr>) = col_size c" "cache_ok (c\<lparr>c_usedRows := x\<rparr>) = cache_ok c"
proof -
  show u: "used_cols (c\<lparr>c_usedRows := x\<rparr>) = used_cols c" by (simp add: used_cols_def)
  show o: "col_off (c\<lparr>c_usedRows := x\<rparr>) = col_off c" by (simp add: col_off_def fun_eq_iff)
  show "col_size (c\<lparr>c_usedRows := x\<rparr>) = col_size c" by (simp add: col_size_def fun_eq_iff u o)
  show "cache_ok (c\<lparr>c_usedRows := x\<rparr>) = cache_ok c" by (simp add: cache_ok_def u o)
qed

lemma usedRows_cells [simp]:
  "cell_ok (NoDBCacheSetUsedRows c x) col row n = cell_ok c col row n"
  "cell_get dec n (NoDBCacheSetUsedRows c x) col row = cell_get dec n c col row"
proof -
  have o: "NoDBCacheGetOffset (c\<lparr>c_usedRows := x\<rparr>) col row = NoDBCacheGetOffset c col row"
    by (cases "c_buf c") (simp_all add: NoDBCacheGetOffset_def ComputeOffset_def)
  show "cell_ok (NoDBCacheSetUsedRows c x) col row n = cell_ok c col row n"
    by (simp add: NoDBCacheSetUsedRows_def cell_ok_def buf_ok_def row_in_buf_def)
  show "cell_get dec n (NoDBCacheSetUsedRows c x) col row = cell_get dec n c col row"
    by (simp add: NoDBCacheSetUsedRows_def cell_get_def o)
qed

text \<open>The end-of-line cache has room for \<open>n\<close> rows and knows the lengths of the lines before row \<open>k\<close>.\<close>

definition eol_room :: "NoDBCache_t \<Rightarrow> nat \<Rightarrow> bool" where
  "eol_room c n \<longleftrightarrow> n < 2 ^ 64 \<and> (\<forall>i < n. cell_ok c 0 (of_nat i) 2)"

definition eol_rows :: "NoDBCache_t \<Rightarrow> EolType \<Rightarrow> nat \<Rightarrow> byte list list \<Rightarrow> bool" where
  "eol_rows c t k ls \<longleftrightarrow> (\<forall>i < length ls. NoDBCacheGetShortInt c 0 (of_nat (k + i)) = Some (of_nat (length (ls ! i) + length (terminator t))))"

lemma eol_store:
  assumes "eol_room c n" "k < n"
  shows "\<exists>c'. NoDBCacheSetShortInt c 0 (of_nat k) v = Some c' \<and> eol_room c' n \<and> NoDBCacheGetShortInt c' 0 (of_nat k) = Some v \<and>
    (\<forall>i < n. i \<noteq> k \<longrightarrow> NoDBCacheGetShortInt c' 0 (of_nat i) = NoDBCacheGetShortInt c 0 (of_nat i))"
proof -
  have ok: "cell_ok c 0 (of_nat i) 2" if "i < n" for i using assms(1) that by (simp add: eol_room_def)
  obtain c' where c': "cell_set (enc_word 2) c 0 (of_nat k) v = Some c'" "same_dir c c'" "cell_get dec_word 2 c' 0 (of_nat k) = Some v"
    using short_codec.set_get_same[OF ok[OF assms(2)], of v] by blast
  have "cell_get dec_word 2 c' 0 (of_nat i) = (cell_get dec_word 2 c 0 (of_nat i) :: 16 word option)" if i: "i < n" "i \<noteq> k" for i
  proof (rule short_codec.set_get_other[OF ok[OF assms(2)] ok[OF i(1)] _ c'(1)])
    have "(of_nat k :: 64 word) \<noteq> of_nat i"
    proof
      assume "(of_nat k :: 64 word) = of_nat i"
      then have "unat (of_nat k :: 64 word) = unat (of_nat i :: 64 word)" by simp
      then show False using i assms by (simp add: eol_room_def unat_of_nat)
    qed
    then show "(0 :: int, of_nat k :: 64 word) \<noteq> (0, of_nat i)" by simp
  qed
  moreover have "eol_room c' n" using same_dir_cell_ok[OF c'(2) ok] assms(1) by (simp add: eol_room_def)
  ultimately show ?thesis using c' by (auto simp: NoDBCacheSetShortInt_def NoDBCacheGetShortInt_def)
qed

lemmas stored_simps = unread_def stream_def buf_inv_def header_pending_def

lemma processed_frame [simp]:
  "unread (rd\<lparr>processed := k\<rparr>) = unread rd" "buf_inv (rd\<lparr>processed := k\<rparr>) = buf_inv rd"
  by (simp_all add: stored_simps)

text \<open>What one tuple of the first scan leaves behind.\<close>

definition first_step_ok :: "reader \<Rightarrow> EolType \<Rightarrow> nat \<Rightarrow> byte list \<Rightarrow> byte list \<Rightarrow> reader \<Rightarrow> bool" where
  "first_step_ok rd t n l rest rd' \<longleftrightarrow> line_buf rd' = l \<and> unread rd' = rest \<and> eol_type rd' = t \<and> buf_inv rd' \<and>
     processed rd' = processed rd \<and> copy_file rd' = copy_file rd \<and> header_line rd' = header_line rd \<and> read_header rd' = read_header rd \<and>
     eol_room (eolCache rd') n \<and> c_usedRows (eolCache rd') = of_nat (processed rd + 1) \<and>
     NoDBCacheGetShortInt (eolCache rd') 0 (of_nat (processed rd)) = Some (of_nat (length l + length (terminator t))) \<and>
     (\<forall>i < n. i \<noteq> processed rd \<longrightarrow>
        NoDBCacheGetShortInt (eolCache rd') 0 (of_nat i) = NoDBCacheGetShortInt (eolCache rd) 0 (of_nat i))"

lemma strip_terminator:
  assumes "line_buf rd = l @ terminator t" "eol_room (eolCache rd) n" "processed rd < n"
  shows "\<exists>c. strip_eol (length (terminator t)) rd = Some (rd\<lparr>line_buf := l, eolCache := c\<rparr>) \<and> eol_room c n \<and>
    NoDBCacheGetShortInt c 0 (of_nat (processed rd)) = Some (of_nat (length l + length (terminator t))) \<and>
    (\<forall>i < n. i \<noteq> processed rd \<longrightarrow> NoDBCacheGetShortInt c 0 (of_nat i) = NoDBCacheGetShortInt (eolCache rd) 0 (of_nat i))"
  using eol_store[OF assms(2,3), of "of_nat (length l + length (terminator t))"] assms(1)
  by (auto simp: strip_eol_def Let_def simp del: of_nat_add)

definition plain_read :: "read_format \<Rightarrow> bool" where
  "plain_read fmt \<longleftrightarrow> plain_format fmt \<and> \<not> need_transcoding fmt \<and> (csv_mode fmt \<longrightarrow> rquote fmt \<noteq> 10 \<and> rquote fmt \<noteq> 13)"

lemma first_step_line:
  assumes "plain_read fmt" "buf_inv rd" "line_spec fmt (eol_type rd) True False False (unread rd) = Val (l @ terminator t, rest, t, False)"
    "t \<noteq> EOL_UNKNOWN" "eol_room (eolCache rd) n" "processed rd < n"
  shows "\<exists>rd'. NoDBGetNextTupleFromFile fmt mb ei conv rd = Some (Val (rd', False)) \<and> first_step_ok rd t n l rest rd'"
proof -
  let ?rd = "rd\<lparr>line_buf := []\<rparr>"
  have f: "plain_format fmt" "\<not> need_transcoding fmt" using assms(1) by (simp_all add: plain_read_def)
  have "unread ?rd = unread rd" "buf_inv ?rd" using assms(2) by (simp_all add: stored_simps)
  then obtain r where r: "NoDBCopyReadLineText fmt mb ?rd = Some (Val (r, False))" "line_buf r = l @ terminator t"
      "unread r = rest" "eol_type r = t" "buf_inv r" "frame r = frame ?rd"
    using read_line_ok[of fmt ?rd mb, OF f(1)] assms(3) by auto
  then have fr: "eolCache r = eolCache rd" "processed r = processed rd" "copy_file r = copy_file rd" "header_line r = header_line rd"
      "read_header r = read_header rd"
    by (simp_all add: frame_def)
  then obtain c where c: "strip_eol (length (terminator t)) r = Some (r\<lparr>line_buf := l, eolCache := c\<rparr>)" "eol_room c n"
      "NoDBCacheGetShortInt c 0 (of_nat (processed rd)) = Some (of_nat (length l + length (terminator t)))"
      "\<forall>i < n. i \<noteq> processed rd \<longrightarrow> NoDBCacheGetShortInt c 0 (of_nat i) = NoDBCacheGetShortInt (eolCache rd) 0 (of_nat i)"
    using strip_terminator[OF r(2), of n] assms(5,6) by auto
  let ?c = "NoDBCacheSetUsedRows c (of_nat (processed rd + 1))"
  let ?r = "r\<lparr>line_buf := l, eolCache := ?c, tupleRead := tupleRead r + 1, line_buf_converted := True\<rparr>"
  have "NoDBGetNextTupleFromFile fmt mb ei conv rd = Some (Val (?r, False))"
    using r(1,2,4) c(1) fr f(2) assms(4)
    by (cases t) (simp_all add: NoDBGetNextTupleFromFile_def convertToServerEncoding_def Let_def nth_append numeral_2_eq_2)
  moreover have "first_step_ok rd t n l rest ?r"
    using r(3-5) c(2-4) fr
    by (simp add: first_step_ok_def stored_simps eol_room_def NoDBCacheGetShortInt_def del: of_nat_add of_nat_Suc)
       (simp add: NoDBCacheSetUsedRows_def)
  ultimately show ?thesis by blast
qed

lemma first_step:
  assumes "plain_read fmt" "buf_inv rd" "unread rd = file_of t (l # ls)"
    "\<forall>k \<in> set (l # ls). unquoted_line fmt k" "t \<noteq> EOL_UNKNOWN" "eol_type rd = EOL_UNKNOWN \<or> eol_type rd = t"
    "eol_room (eolCache rd) n" "processed rd < n"
  shows "\<exists>rd'. NoDBGetNextTupleFromFile fmt mb ei conv rd = Some (Val (rd', False)) \<and> first_step_ok rd t n l (file_of t ls) rd'"
proof (rule first_step_line[OF assms(1,2) _ assms(5,7,8)])
  have "csv_mode fmt \<longrightarrow> rquote fmt \<noteq> 10 \<and> rquote fmt \<noteq> 13" using assms(1) by (simp add: plain_read_def)
  then show "line_spec fmt (eol_type rd) True False False (unread rd) = Val (l @ terminator t, file_of t ls, t, False)"
    unfolding assms(3) file_of_simps using assms(4-6) next_byte_file[of ls fmt] by (intro line_spec_plain) auto
qed

lemma eol_rows_Cons:
  "eol_rows c t k (l # ls) \<longleftrightarrow>
     NoDBCacheGetShortInt c 0 (of_nat k) = Some (of_nat (length l + length (terminator t))) \<and> eol_rows c t (Suc k) ls"
  by (auto simp: eol_rows_def less_Suc_eq_0_disj simp del: of_nat_add of_nat_Suc)

lemma first_end:
  assumes "plain_read fmt" "buf_inv rd" "unread rd = []"
  shows "\<exists>rd'. NoDBGetNextTupleFromFile fmt mb ei conv rd = Some (Val (rd', True)) \<and> frame rd' = frame rd"
proof -
  let ?rd = "rd\<lparr>line_buf := []\<rparr>"
  have "unread ?rd = []" "buf_inv ?rd" "plain_format fmt" "frame ?rd = frame rd"
    using assms by (simp_all add: stored_simps plain_read_def frame_def)
  then show ?thesis using read_line_ok[of fmt ?rd mb] by (auto simp: line_spec.simps NoDBGetNextTupleFromFile_def)
qed

definition first_scan_ok :: "reader \<Rightarrow> EolType \<Rightarrow> byte list list \<Rightarrow> reader \<Rightarrow> bool" where
  "first_scan_ok rd t ls rd' \<longleftrightarrow> copy_file rd' = copy_file rd \<and> header_line rd' = header_line rd \<and> read_header rd' = read_header rd \<and>
     c_usedRows (eolCache rd') = of_nat (processed rd + length ls) \<and> eol_rows (eolCache rd') t (processed rd) ls \<and>
     (\<forall>i < processed rd. NoDBCacheGetShortInt (eolCache rd') 0 (of_nat i) = NoDBCacheGetShortInt (eolCache rd) 0 (of_nat i))"

lemma first_scan:
  assumes "plain_read fmt" "t \<noteq> EOL_UNKNOWN" "\<forall>k \<in> set ls. unquoted_line fmt k"
    "buf_inv rd" "unread rd = file_of t ls" "eol_type rd = EOL_UNKNOWN \<or> eol_type rd = t"
    "eol_room (eolCache rd) n" "processed rd + length ls \<le> n" "c_usedRows (eolCache rd) = of_nat (processed rd)"
  shows "\<exists>rd'. tuples (NoDBGetNextTupleFromFile fmt mb ei conv) (Suc (length ls)) rd = Some (Val (ls, rd')) \<and> first_scan_ok rd t ls rd'"
  using assms(3-)
proof (induction ls arbitrary: rd)
  case Nil
  then show ?case using first_end[OF assms(1), of rd mb ei conv] by (auto simp: eol_rows_def first_scan_ok_def frame_def)
next
  case (Cons l ls)
  obtain r where r: "NoDBGetNextTupleFromFile fmt mb ei conv rd = Some (Val (r, False))" "first_step_ok rd t n l (file_of t ls) r"
    using first_step[OF assms(1) Cons.prems(2,3) Cons.prems(1) assms(2) Cons.prems(4,5), of mb ei conv] Cons.prems(6) by auto
  let ?r = "r\<lparr>processed := processed r + 1\<rparr>"
  have p: "processed ?r = Suc (processed rd)" "copy_file ?r = copy_file rd" "header_line ?r = header_line rd" "read_header ?r = read_header rd"
    "eolCache ?r = eolCache r" "line_buf r = l"
    using r(2) by (simp_all add: first_step_ok_def)
  have s: "buf_inv ?r" "unread ?r = file_of t ls" "eol_type ?r = EOL_UNKNOWN \<or> eol_type ?r = t" "eol_room (eolCache ?r) n"
      "processed ?r + length ls \<le> n" "c_usedRows (eolCache ?r) = of_nat (processed ?r)"
    using r(2) Cons.prems(6) by (simp_all add: first_step_ok_def)
  have u: "\<forall>k \<in> set ls. unquoted_line fmt k" using Cons.prems(1) by simp
  obtain rd' where rd': "tuples (NoDBGetNextTupleFromFile fmt mb ei conv) (Suc (length ls)) ?r = Some (Val (ls, rd'))"
      "first_scan_ok ?r t ls rd'"
    using Cons.IH[OF u s] by blast
  have "tuples (NoDBGetNextTupleFromFile fmt mb ei conv) (Suc (length (l # ls))) rd = Some (Val (l # ls, rd'))"
    using tuples_step[where readFile = "NoDBGetNextTupleFromFile fmt mb ei conv", OF r(1) rd'(1)] p(6) by simp
  moreover have "eol_rows (eolCache rd') t (processed rd) (l # ls)"
    using rd'(2) r(2) unfolding first_scan_ok_def p by (simp add: eol_rows_Cons first_step_ok_def del: of_nat_add)
  then have "first_scan_ok rd t (l # ls) rd'"
    using rd'(2) r(2) Cons.prems(6) unfolding first_scan_ok_def p by (simp add: first_step_ok_def)
  ultimately show ?case by blast
qed

section \<open>The scans after it\<close>

definition short_lines :: "EolType \<Rightarrow> byte list list \<Rightarrow> bool" where
  "short_lines t ls \<longleftrightarrow> int (length ls) \<le> INT_MAX \<and> (\<forall>l \<in> set ls. length l + length (terminator t) < 2 ^ 15)"

abbreviation line_length :: "EolType \<Rightarrow> byte list list \<Rightarrow> nat \<Rightarrow> 16 word" where
  "line_length t ls i \<equiv> of_nat (length (ls ! i) + length (terminator t))"

lemma sint_line:
  assumes "short_lines t ls" "i < length ls"
  shows "sint (line_length t ls i) = int (length (ls ! i) + length (terminator t))"
proof -
  have "length (ls ! i) + length (terminator t) < 2 ^ 15" using assms by (simp add: short_lines_def)
  then show ?thesis by (simp add: signed_of_nat signed_take_bit_int_eq_self del: of_nat_add)
qed

lemma sum_lines:
  assumes "short_lines t ls" "k + j \<le> length ls"
  shows "(\<Sum>i = k..<k + j. sint (line_length t ls i)) = int (length (file_of t (take j (drop k ls))))"
  using assms(2)
proof (induction j)
  case (Suc j)
  then have "take (Suc j) (drop k ls) = take j (drop k ls) @ [ls ! (k + j)]" by (simp add: take_Suc_conv_app_nth)
  then show ?case using Suc sint_line[OF assms(1), of "k + j"] by simp
qed simp

lemma block_of_lines:
  assumes "eol_rows c t 0 ls" "short_lines t ls" "c_usedRows c = of_nat (length ls)" "length ls < 2 ^ 64" "k < length ls"
  shows "\<exists>j. 0 < j \<and> k + j \<le> length ls \<and>
    NoDBComputeBytesToRead c k (int RAW_BUF_SIZE) = Some (int (length (file_of t (take j (drop k ls)))), int j)"
proof -
  have n: "unat (NoDBCacheGetUsedRows c) = length ls"
    using assms(3,4) by (simp add: NoDBCacheGetUsedRows_def unat_of_nat)
  have g: "\<forall>i. k \<le> i \<and> i < length ls \<longrightarrow> NoDBCacheGetShortInt c 0 (of_nat i) = Some (line_length t ls i)"
    using assms(1) by (simp add: eol_rows_def)
  obtain j where j: "k + j \<le> length ls"
      "bytes_to_read_loop c [k..<length ls] (int RAW_BUF_SIZE) 0 0 = Some (0 + (\<Sum>i = k..<k + j. sint (line_length t ls i)), 0 + int j)"
      "k + j = length ls \<or> int RAW_BUF_SIZE < 0 + (\<Sum>i = k..<k + j. sint (line_length t ls i)) + sint (line_length t ls (k + j))"
    using bytes_to_read_loop_ok[OF g, of 0 "int RAW_BUF_SIZE" 0] assms(2,5) by (auto simp: short_lines_def)
  have "sint (line_length t ls k) < 2 ^ 15"
    using assms(2,5) by (subst sint_line) (simp_all add: short_lines_def flip: of_nat_add)
  then have "0 < j" using j(3) assms(5) by (cases j) (auto simp: RAW_BUF_SIZE_def)
  then show ?thesis using j(1,2) sum_lines[OF assms(2) j(1)] n by (auto simp: NoDBComputeBytesToRead_def)
qed

text \<open>
  Between two tuples the buffer holds \<open>s\<close> whole lines and the file position is at the line behind them.
\<close>

definition replay_inv :: "EolType \<Rightarrow> byte list list \<Rightarrow> nat \<Rightarrow> reader \<Rightarrow> bool" where
  "replay_inv t ls s rd \<longleftrightarrow> processed rd + s \<le> length ls \<and> tupleStored rd = int s \<and>
     raw_buf_index rd \<le> length (raw_buf rd) \<and> drop (raw_buf_index rd) (raw_buf rd) = file_of t (take s (drop (processed rd) ls)) \<and>
     drop (copy_pos rd) (copy_file rd) = file_of t (drop (processed rd + s) ls) \<and> (header_line rd \<longrightarrow> read_header rd)"

definition eol_known :: "EolType \<Rightarrow> byte list list \<Rightarrow> NoDBCache_t \<Rightarrow> bool" where
  "eol_known t ls c \<longleftrightarrow> eol_rows c t 0 ls \<and> short_lines t ls \<and> c_usedRows c = of_nat (length ls) \<and> length ls < 2 ^ 64"

lemma fill_buffer:
  assumes "replay_inv t ls s rd" "eol_known t ls (eolCache rd)" "processed rd < length ls" "t \<noteq> EOL_UNKNOWN"
  shows "\<exists>r s. 0 < s \<and> replay_inv t ls s r \<and> eolCache r = eolCache rd \<and> processed r = processed rd \<and> line_buf r = line_buf rd \<and>
    (if tupleStored rd = 0 then read_block rd else Some (rd, False)) = Some (r, False)"
proof (cases "s = 0")
  case False
  then show ?thesis using assms(1) by (intro exI[of _ rd] exI[of _ s]) (simp add: replay_inv_def)
next
  case True
  let ?k = "processed rd"
  obtain j where j: "0 < j" "?k + j \<le> length ls"
      "NoDBComputeBytesToRead (eolCache rd) ?k (int RAW_BUF_SIZE) = Some (int (length (file_of t (take j (drop ?k ls)))), int j)"
    using block_of_lines[of "eolCache rd" t ls ?k] assms(2,3) by (auto simp: eol_known_def)
  let ?b = "file_of t (take j (drop ?k ls))"
  have "take j (drop ?k ls) = ls ! ?k # take (j - 1) (drop (Suc ?k) ls)"
    using j(1) assms(3) by (cases j) (simp_all add: Cons_nth_drop_Suc[symmetric])
  then have ne: "?b \<noteq> []" using assms(4) by (cases t) auto
  have d: "drop (copy_pos rd) (copy_file rd) = ?b @ file_of t (drop (?k + j) ls)"
  proof -
    have "drop ?k ls = take j (drop ?k ls) @ drop (?k + j) ls" by (metis append_take_drop_id drop_drop add.commute)
    then show ?thesis using assms(1) True by (metis file_of_simps(3) replay_inv_def add_0_right)
  qed
  let ?r = "rd\<lparr>copy_pos := copy_pos rd + length ?b, tupleStored := int j, raw_buf := ?b, raw_buf_index := 0\<rparr>"
  have "drop (copy_pos rd + length ?b) (copy_file rd) = file_of t (drop (?k + j) ls)"
    by (metis d append_eq_conv_conj drop_drop add.commute)
  then have "replay_inv t ls j ?r" using assms(1) j(2) by (simp add: replay_inv_def)
  moreover have "read_block rd = Some (?r, False)"
  proof -
    have "raw_buf_index rd = length (raw_buf rd)" "skip_header rd = Some rd"
      using assms(1) True by (auto simp: replay_inv_def skip_header_def)
    moreover have "fread (length ?b) rd = (rd\<lparr>copy_pos := copy_pos rd + length ?b\<rparr>, ?b)" by (simp add: fread_def d Let_def)
    ultimately show ?thesis using j(3) ne by (simp add: read_block_def)
  qed
  moreover have "tupleStored rd = 0" using assms(1) True by (simp add: replay_inv_def)
  ultimately show ?thesis using j(1) by (intro exI[of _ ?r] exI[of _ j]) simp
qed

lemma replay_step:
  assumes "replay_inv t ls s rd" "eol_known t ls (eolCache rd)" "processed rd < length ls" "t \<noteq> EOL_UNKNOWN" "\<not> need_transcoding fmt"
  shows "\<exists>r s. NoDBGetNextTupleFromFileWithEOL fmt ei conv rd = Some (r, False) \<and>
    line_buf r = ls ! processed rd @ butlast (terminator t) \<and> replay_inv t ls s (r\<lparr>processed := processed r + 1\<rparr>) \<and>
    eolCache r = eolCache rd \<and> processed r = processed rd"
proof -
  let ?rd = "rd\<lparr>line_buf := []\<rparr>" and ?l = "ls ! processed rd @ terminator t"
  have "replay_inv t ls s ?rd" using assms(1) by (simp add: replay_inv_def)
  then obtain r s' where r: "0 < s'" "replay_inv t ls s' r" "eolCache r = eolCache rd" "processed r = processed rd" "line_buf r = []"
      "(if tupleStored ?rd = 0 then read_block ?rd else Some (?rd, False)) = Some (r, False)"
    using fill_buffer[of t ls s ?rd] assms(2-4) by auto
  have k: "processed rd + s' \<le> length ls" "drop (raw_buf_index r) (raw_buf r) = file_of t (take s' (drop (processed rd) ls))"
      "raw_buf_index r \<le> length (raw_buf r)"
    using r(2,4) by (simp_all add: replay_inv_def)
  have "take s' (drop (processed rd) ls) = ls ! processed rd # take (s' - 1) (drop (Suc (processed rd)) ls)"
    using r(1) assms(3) by (cases s') (simp_all add: Cons_nth_drop_Suc[symmetric])
  then have d: "drop (raw_buf_index r) (raw_buf r) = ?l @ file_of t (take (s' - 1) (drop (Suc (processed rd)) ls))"
    using k(2) by simp
  have g: "NoDBCacheGetShortInt (eolCache r) 0 (of_nat (processed r)) = Some (line_length t ls (processed rd))"
    using assms(2,3) r(3,4) by (simp add: eol_known_def eol_rows_def del: of_nat_add)
  have o: "sint (line_length t ls (processed rd)) = int (length ?l)"
    using sint_line[OF _ assms(3)] assms(2) by (simp add: eol_known_def)
  have le: "raw_buf_index r + length ?l \<le> length (raw_buf r)"
    using arg_cong[OF d, of length] k(3) by simp
  have d': "drop (raw_buf_index r + length ?l) (raw_buf r) = file_of t (take (s' - 1) (drop (Suc (processed rd)) ls))"
    by (metis d append_eq_conv_conj drop_drop add.commute)
  let ?r = "r\<lparr>tupleStored := tupleStored r - 1, line_buf := ?l, raw_buf_index := raw_buf_index r + length ?l\<rparr>"
  have rl: "NoDBCopyReadLineTextWithEOL ?rd = Some (?r, False)"
  proof -
    obtain m where m: "length ?l = m" by blast
    then have "take m (drop (raw_buf_index r) (raw_buf r)) = ?l" using d by (metis append_eq_conv_conj)
    then show ?thesis unfolding NoDBCopyReadLineTextWithEOL_def r(6) using g o le r(5) unfolding m by (simp add: Let_def)
  qed
  let ?e = "?r\<lparr>line_buf := butlast ?l, tupleRead := tupleRead r + 1, line_buf_converted := True\<rparr>"
  have "NoDBGetNextTupleFromFileWithEOL fmt ei conv rd = Some (?e, False)"
    using rl assms(4,5) by (cases t) (simp_all add: NoDBGetNextTupleFromFileWithEOL_def convertToServerEncoding_def butlast_append)
  moreover have "butlast ?l = ls ! processed rd @ butlast (terminator t)" using assms(4) by (cases t) (simp_all add: butlast_append)
  moreover have "replay_inv t ls (s' - 1) (?e\<lparr>processed := processed ?e + 1\<rparr>)"
    using r(1,2,4) le d' by (simp add: replay_inv_def of_nat_diff)
  ultimately show ?thesis using r(3,4) by (intro exI[of _ ?e] exI[of _ "s' - 1"]) simp
qed

lemma replay_end:
  assumes "replay_inv t ls s rd" "eol_known t ls (eolCache rd)" "processed rd = length ls"
  shows "\<exists>r. NoDBGetNextTupleFromFileWithEOL fmt ei conv rd = Some (r, True)"
proof -
  have n: "unat (NoDBCacheGetUsedRows (eolCache rd)) = length ls"
    using assms(2) by (simp add: eol_known_def NoDBCacheGetUsedRows_def unat_of_nat)
  have "skip_header (rd\<lparr>line_buf := []\<rparr>) = Some (rd\<lparr>line_buf := []\<rparr>)" using assms(1) by (auto simp: replay_inv_def skip_header_def)
  then show ?thesis using assms(1,3) n
    by (simp add: replay_inv_def NoDBGetNextTupleFromFileWithEOL_def NoDBCopyReadLineTextWithEOL_def read_block_def NoDBComputeBytesToRead_def)
qed

abbreviation replay_next :: "read_format \<Rightarrow> NoDBExecInfo_t \<Rightarrow> (byte list \<Rightarrow> byte list option) \<Rightarrow> reader \<Rightarrow> (reader \<times> bool) res option" where
  "replay_next fmt ei conv rd \<equiv> map_option Val (NoDBGetNextTupleFromFileWithEOL fmt ei conv rd)"

lemma replay_scan:
  assumes "t \<noteq> EOL_UNKNOWN" "\<not> need_transcoding fmt" "replay_inv t ls s rd" "eol_known t ls (eolCache rd)" "processed rd + n = length ls"
  shows "\<exists>rd'. tuples (replay_next fmt ei conv) (Suc n) rd =
    Some (Val (map (\<lambda>l. l @ butlast (terminator t)) (drop (processed rd) ls), rd'))"
  using assms(3-)
proof (induction n arbitrary: rd s)
  case 0
  then show ?case using replay_end[OF 0(1,2), of fmt ei conv] by auto
next
  case (Suc n)
  then have lt: "processed rd < length ls" by simp
  obtain r s' where n: "NoDBGetNextTupleFromFileWithEOL fmt ei conv rd = Some (r, False)" and r: "line_buf r = ls ! processed rd @ butlast (terminator t)"
      "replay_inv t ls s' (r\<lparr>processed := processed r + 1\<rparr>)" "eolCache r = eolCache rd" "processed r = processed rd"
    using replay_step[OF Suc.prems(1,2) lt assms(1,2), of ei conv] by blast
  obtain rd' where "tuples (replay_next fmt ei conv) (Suc n) (r\<lparr>processed := processed r + 1\<rparr>) =
      Some (Val (map (\<lambda>l. l @ butlast (terminator t)) (drop (Suc (processed rd)) ls), rd'))"
    using Suc.IH[OF r(2)] r(3,4) Suc.prems(2,3) by auto
  then have "tuples (replay_next fmt ei conv) (Suc (Suc n)) rd =
      Some (Val (line_buf r # map (\<lambda>l. l @ butlast (terminator t)) (drop (Suc (processed rd)) ls), rd'))"
    using tuples_step[where readFile = "replay_next fmt ei conv" and rd = rd and r = r] n by simp
  then show ?case using r(1) lt by (intro exI[of _ rd']) (simp add: Cons_nth_drop_Suc[symmetric])
qed

text \<open>A new scan of the same file starts at its beginning with an empty buffer.\<close>

definition restart_file :: "reader \<Rightarrow> reader" where
  "restart_file rd = rd\<lparr>copy_pos := 0, read_header := False, processed := 0, tupleRead := 0, tupleStored := 0,
     raw_buf := [], raw_buf_index := 0\<rparr>"

definition fresh_reader :: "byte list \<Rightarrow> reader \<Rightarrow> bool" where
  "fresh_reader f rd \<longleftrightarrow> copy_file rd = f \<and> copy_pos rd = 0 \<and> raw_buf rd = [] \<and> raw_buf_index rd = 0 \<and>
     eol_type rd = EOL_UNKNOWN \<and> \<not> header_line rd \<and> processed rd = 0 \<and> c_usedRows (eolCache rd) = 0"

lemma two_scans:
  assumes "plain_read fmt" "t \<noteq> EOL_UNKNOWN" "\<forall>l \<in> set ls. unquoted_line fmt l" "short_lines t ls"
    "fresh_reader (file_of t ls) rd" "eol_room (eolCache rd) (length ls)"
  shows "\<exists>rd1 rd2. tuples (NoDBGetNextTupleFromFile fmt mb ei conv) (Suc (length ls)) rd = Some (Val (ls, rd1)) \<and>
    tuples (replay_next fmt ei conv) (Suc (length ls)) (restart_file rd1) = Some (Val (map (\<lambda>l. l @ butlast (terminator t)) ls, rd2))"
proof -
  have s: "buf_inv rd" "unread rd = file_of t ls" "eol_type rd = EOL_UNKNOWN \<or> eol_type rd = t" "processed rd + length ls \<le> length ls"
      "c_usedRows (eolCache rd) = of_nat (processed rd)" "\<not> header_line rd" "copy_file rd = file_of t ls" "processed rd = 0"
    using assms(5) by (simp_all add: fresh_reader_def stored_simps)
  obtain rd1 where rd1: "tuples (NoDBGetNextTupleFromFile fmt mb ei conv) (Suc (length ls)) rd = Some (Val (ls, rd1))" "first_scan_ok rd t ls rd1"
    using first_scan[OF assms(1-3) s(1-3) assms(6) s(4,5)] by blast
  have "replay_inv t ls 0 (restart_file rd1)" using rd1(2) s(6,7) by (simp add: first_scan_ok_def restart_file_def replay_inv_def)
  moreover have "eol_known t ls (eolCache (restart_file rd1))"
    using rd1(2) s(8) assms(4,6) by (simp add: first_scan_ok_def restart_file_def eol_known_def eol_room_def)
  moreover have "processed (restart_file rd1) = 0" by (simp add: restart_file_def)
  ultimately obtain rd2 where "tuples (replay_next fmt ei conv) (Suc (length ls)) (restart_file rd1) =
      Some (Val (map (\<lambda>l. l @ butlast (terminator t)) ls, rd2))"
    using replay_scan[where n = "length ls" and rd = "restart_file rd1" and ls = ls and t = t and fmt = fmt and s = 0] assms(1,2)
    by (auto simp: plain_read_def)
  then show ?thesis using rd1(1) by blast
qed


definition replay_reader :: "byte list \<Rightarrow> reader" where
  "replay_reader bs = (text_reader bs)\<lparr>eolCache := demo_eol\<lparr>c_usedRows := 0\<rparr>\<rparr>"

lemma demo_eol_cells: "cell_ok demo_eol 0 0 2" "cell_ok demo_eol 0 1 2"
proof -
  have u: "used_cols demo_eol = [0]" and o: "col_off demo_eol 0 = 0" by (simp_all add: used_cols_def col_off_def demo_eol_def)
  have "cache_ok demo_eol" unfolding cache_ok_def u using o by (simp add: demo_eol_def)
  moreover have "buf_ok demo_eol" by (simp add: buf_ok_def demo_eol_def)
  moreover have "row_in_buf demo_eol 0" "row_in_buf demo_eol 1" by (simp_all add: row_in_buf_def demo_eol_def)
  moreover have "col_size demo_eol 0 = Some 2" using u o by (simp add: col_size_def) (simp add: demo_eol_def)
  ultimately show "cell_ok demo_eol 0 0 2" "cell_ok demo_eol 0 1 2" by (simp_all add: cell_ok_def)
qed

lemma replay_reader_ok: "fresh_reader bs (replay_reader bs)" "eol_room (eolCache (replay_reader bs)) (Suc (Suc 0))"
proof -
  have "eol_room (eolCache (replay_reader bs)) 2"
    using usedRows_cells(1)[of demo_eol 0] demo_eol_cells
    by (auto simp: eol_room_def replay_reader_def NoDBCacheSetUsedRows_def less_2_cases_iff)
  then show "eol_room (eolCache (replay_reader bs)) (Suc (Suc 0))" by (simp add: numeral_2_eq_2)
  show "fresh_reader bs (replay_reader bs)" by (simp add: fresh_reader_def replay_reader_def text_reader_def)
qed

lemma csv_format_read: "plain_read csv_format"
  using csv_format_plain by (simp add: plain_read_def csv_format_def)


text \<open>
  C37: With lines that end in carriage return and newline the two scans differ. The first scan
  delivers the lines; the one after it, by the end-of-line cache, cuts off the newline only and
  delivers every line with the carriage return.
\<close>

theorem crnl_replay_differs:
  assumes "plain_read fmt" "\<forall>l \<in> set ls. unquoted_line fmt l" "short_lines EOL_CRNL ls"
    "fresh_reader (file_of EOL_CRNL ls) rd" "eol_room (eolCache rd) (length ls)"
  shows "\<exists>rd1 rd2. tuples (NoDBGetNextTupleFromFile fmt mb ei conv) (Suc (length ls)) rd = Some (Val (ls, rd1)) \<and>
    tuples (\<lambda>rd. map_option Val (NoDBGetNextTupleFromFileWithEOL fmt ei conv rd)) (Suc (length ls)) (restart_file rd1) =
      Some (Val (map (\<lambda>l. l @ [13]) ls, rd2))"
  using two_scans[OF assms(1) _ assms(2-5), of mb ei conv] by simp

theorem crnl_replay_differs_witness:
  "\<forall>mb ei conv. \<exists>rd1 rd2.
     tuples (NoDBGetNextTupleFromFile csv_format mb ei conv) 3 (replay_reader [97, 13, 10, 99, 13, 10]) = Some (Val ([[97], [99]], rd1)) \<and>
     tuples (\<lambda>rd. map_option Val (NoDBGetNextTupleFromFileWithEOL csv_format ei conv rd)) 3 (restart_file rd1) =
       Some (Val ([[97, 13], [99, 13]], rd2))"
  using crnl_replay_differs[of csv_format "[[97], [99]]" "replay_reader [97, 13, 10, 99, 13, 10]"]
    replay_reader_ok[of "[97, 13, 10, 99, 13, 10]"] csv_format_read
  by (simp add: unquoted_line_def csv_format_def short_lines_def INT_MAX_def numeral_3_eq_3 del: tuples.simps)

end
