(* ===== verification/Snoop_Query.thy ===== *)
theory Snoop_Query
  imports NoDB_Lists
begin

text \<open>
  What the parser records about a query, and which columns of a relation the scan derives from it:
  \<open>src/postgresql-9.6.5/src/backend/snooping/queryDescriptor.c\<close> over the growing arrays of
  \<open>snooping/auxiliary/d_array.c\<close>.

  An array is the list of its allocated objects, \<open>None\<close> where none was stored; names in the alias map
  are strings that must fit their buffers of 64 characters. The column names of a tuple descriptor are
  the list of strings \<open>attrs\<close>.
\<close>

section \<open>Growing arrays\<close>

record 'a D_Array =
  d_data :: "'a option list"
  usedObjects :: nat

definition INIT_SIZE :: nat where "INIT_SIZE = 256"

definition ALLOC_UNIT :: nat where "ALLOC_UNIT = 32"

definition currentSize :: "'a D_Array \<Rightarrow> nat" where
  "currentSize a = length (d_data a)"

definition GetObjectPos :: "'a D_Array \<Rightarrow> int \<Rightarrow> 'a option" where
  "GetObjectPos a pos = (case arr_get (d_data a) pos of None \<Rightarrow> None | Some x \<Rightarrow> x)"

definition IncreaseArraySize :: "'a D_Array \<Rightarrow> nat \<Rightarrow> 'a D_Array" where
  "IncreaseArraySize a additionalObjects =
     a\<lparr>d_data := d_data a @ replicate (if additionalObjects = 0 then ALLOC_UNIT else additionalObjects) None\<rparr>"

definition InitializeArray :: "nat \<Rightarrow> 'a D_Array option" where
  "InitializeArray sz = (if sz > 0 then Some \<lparr>d_data = replicate sz None, usedObjects = 0\<rparr> else None)"

definition FreeArray :: "'a D_Array \<Rightarrow> 'a D_Array" where
  "FreeArray a = \<lparr>d_data = [], usedObjects = 0\<rparr>"

definition make_room :: "'a D_Array \<Rightarrow> 'a D_Array" where
  "make_room a = (if currentSize a = usedObjects a then IncreaseArraySize a 0 else a)"

definition InsertToArray :: "'a D_Array \<Rightarrow> 'a \<Rightarrow> 'a D_Array option" where
  "InsertToArray a x =
     (let a = make_room a in
      map_option (\<lambda>d. a\<lparr>d_data := d, usedObjects := usedObjects a + 1\<rparr>) (arr_set (d_data a) (int (usedObjects a)) (Some x)))"

text \<open>
  The guard of \<open>InsertToArrayAt\<close> only returns for a negative position; behind the used objects the size
  of the move is negative.
\<close>

definition InsertToArrayAt :: "'a D_Array \<Rightarrow> 'a \<Rightarrow> int \<Rightarrow> 'a D_Array option" where
  "InsertToArrayAt a x pos =
     (if pos < 0 \<and> pos \<le> int (currentSize a) then Some a
      else
        (let a = make_room a; p = nat pos; u = usedObjects a in
         if p \<le> u \<and> u < currentSize a
         then Some (a\<lparr>d_data := take p (d_data a) @ [Some x] @ take (u - p) (drop p (d_data a)) @ drop (Suc u) (d_data a),
                      usedObjects := u + 1\<rparr>)
         else None))"

definition RemoveObject :: "'a D_Array \<Rightarrow> int \<Rightarrow> 'a D_Array option" where
  "RemoveObject a pos =
     (if 0 \<le> pos \<and> pos < int (usedObjects a) \<and> usedObjects a \<le> currentSize a
      then Some (a\<lparr>d_data := take (nat pos) (d_data a) @ drop (Suc (nat pos)) (take (usedObjects a) (d_data a)) @
                     drop (usedObjects a - 1) (d_data a), usedObjects := usedObjects a - 1\<rparr>)
      else None)"

text \<open>The result is what is copied to \<open>*object\<close>; the outer \<open>None\<close> is undefined behaviour, the inner one no copy.\<close>

definition ReturnObject :: "'a D_Array \<Rightarrow> int \<Rightarrow> 'a option option" where
  "ReturnObject a pos =
     (if pos < 0 then None
      else if int (usedObjects a) \<le> pos then Some None
      else map_option Some (GetObjectPos a pos))"

fun SearchArray_loop :: "'a D_Array \<Rightarrow> nat list \<Rightarrow> 'a \<Rightarrow> ('a \<Rightarrow> 'a \<Rightarrow> bool) \<Rightarrow> bool option" where
  "SearchArray_loop a [] x compare = Some False"
| "SearchArray_loop a (i # is) x compare =
     do { y \<leftarrow> GetObjectPos a (int i); (if compare y x then Some True else SearchArray_loop a is x compare) }"

definition SearchArray :: "'a D_Array \<Rightarrow> 'a \<Rightarrow> ('a \<Rightarrow> 'a \<Rightarrow> bool) \<Rightarrow> bool option" where
  "SearchArray a x compare = SearchArray_loop a [0..<usedObjects a] x compare"

section \<open>The query descriptor\<close>

definition NUMBER_OF_RELATIONS :: nat where "NUMBER_OF_RELATIONS = 50"

definition MAX_NAME :: nat where "MAX_NAME = 64"

record ColumnDescriptor =
  columnName :: "string option"
  tableName :: "string option"
  schemaName :: "string option"
  catalogName :: "string option"
  whole_row :: bool

record AliasMapEntry =
  am_table :: string
  am_alias :: string

datatype ParseStatus = PS_idle | PS_targetList | PS_groupList | PS_orderByList | PS_whereList | PS_havingList | PS_filterList

record QueryDescriptor =
  aliasMap :: "AliasMapEntry list"
  targetList :: "ColumnDescriptor D_Array"
  groupList :: "ColumnDescriptor D_Array"
  orderByList :: "ColumnDescriptor D_Array"
  whereList :: "ColumnDescriptor D_Array"
  havingList :: "ColumnDescriptor D_Array"
  filterList :: "ColumnDescriptor D_Array"
  allAttributes :: "ColumnDescriptor D_Array"
  qd_limit :: int

record query_state =
  NoDBQueryDesc :: QueryDescriptor
  isInitialized :: bool
  PSStatus :: ParseStatus

definition empty_aliases :: "AliasMapEntry list" where
  "empty_aliases = replicate NUMBER_OF_RELATIONS \<lparr>am_table = [], am_alias = []\<rparr>"

definition initializeQueryDescriptor :: "query_state \<Rightarrow> query_state option" where
  "initializeQueryDescriptor q =
     do {
       a \<leftarrow> InitializeArray INIT_SIZE;
       Some (q\<lparr>NoDBQueryDesc := \<lparr>aliasMap = empty_aliases, targetList = a, groupList = a, orderByList = a, whereList = a,
                 havingList = a, filterList = a, allAttributes = a, qd_limit = 0\<rparr>, isInitialized := True\<rparr>)
     }"

definition resetQueryDescriptor :: "query_state \<Rightarrow> query_state" where
  "resetQueryDescriptor q =
     (let d = NoDBQueryDesc q;
          d = (if isInitialized q
               then d\<lparr>aliasMap := empty_aliases, targetList := FreeArray (targetList d), groupList := FreeArray (groupList d),
                      havingList := FreeArray (havingList d), orderByList := FreeArray (orderByList d),
                      whereList := FreeArray (whereList d), filterList := FreeArray (filterList d),
                      allAttributes := FreeArray (allAttributes d)\<rparr>
               else d) in
      q\<lparr>NoDBQueryDesc := d\<lparr>qd_limit := 0\<rparr>, isInitialized := False, PSStatus := PS_idle\<rparr>)"

definition changeParseStatus :: "ParseStatus \<Rightarrow> query_state \<Rightarrow> query_state" where
  "changeParseStatus newStatus q = q\<lparr>PSStatus := newStatus\<rparr>"

definition equal_names :: "string option \<Rightarrow> string option \<Rightarrow> nat" where
  "equal_names a b = (case (a, b) of (Some x, Some y) \<Rightarrow> if x = y then 1 else 0 | (None, None) \<Rightarrow> 1 | _ \<Rightarrow> 0)"

text \<open>
  The counter \<open>val\<close> is declared bool, which \<open>c.h\<close> defines as char, so it counts the five comparisons.
\<close>

definition equalColDesc :: "ColumnDescriptor \<Rightarrow> ColumnDescriptor \<Rightarrow> bool" where
  "equalColDesc a b \<longleftrightarrow>
     equal_names (columnName a) (columnName b) + equal_names (tableName a) (tableName b) +
     equal_names (schemaName a) (schemaName b) + equal_names (catalogName a) (catalogName b) +
     (if whole_row a = whole_row b then 1 else 0) = 5"

fun find_alias :: "(AliasMapEntry \<Rightarrow> bool) \<Rightarrow> AliasMapEntry list \<Rightarrow> AliasMapEntry option" where
  "find_alias P [] = None"
| "find_alias P (e # es) = (if P e then Some e else find_alias P es)"

definition getTableNameFromAlias :: "QueryDescriptor \<Rightarrow> string \<Rightarrow> string option" where
  "getTableNameFromAlias d alias = map_option am_table (find_alias (\<lambda>e. am_alias e = alias) (aliasMap d))"

definition getAliasFromTableName :: "QueryDescriptor \<Rightarrow> string \<Rightarrow> string option" where
  "getAliasFromTableName d table = map_option am_alias (find_alias (\<lambda>e. am_table e = table) (aliasMap d))"

definition hasTableAlias :: "QueryDescriptor \<Rightarrow> string \<Rightarrow> string \<Rightarrow> bool" where
  "hasTableAlias d table alias = (find_alias (\<lambda>e. am_table e = table \<and> am_alias e = alias) (aliasMap d) \<noteq> None)"

text \<open>The first call on an uninitialised descriptor initialises it.\<close>

definition ensure_initialized :: "query_state \<Rightarrow> query_state option" where
  "ensure_initialized q = (if isInitialized q then Some q else initializeQueryDescriptor q)"

text \<open>
  With a full map \<open>pos\<close> is read without having been set.
\<close>

definition addTableAliasInformation :: "string \<Rightarrow> string \<Rightarrow> query_state \<Rightarrow> query_state option" where
  "addTableAliasInformation table alias q =
     do {
       q \<leftarrow> ensure_initialized q;
       let d = NoDBQueryDesc q;
       let m = aliasMap d;
       let i = length (takeWhile (\<lambda>e. am_table e \<noteq> []) m);
       (if hasTableAlias d table alias then Some q
        else if i = length m \<or> length table \<ge> MAX_NAME \<or> length alias \<ge> MAX_NAME then None
        else Some (q\<lparr>NoDBQueryDesc := d\<lparr>aliasMap := m[i := \<lparr>am_table = table, am_alias = alias\<rparr>]\<rparr>\<rparr>))
     }"

text \<open>In the lists of the where clause and of the filters an alias is replaced by the table it stands for.\<close>

definition resolve_alias :: "QueryDescriptor \<Rightarrow> ColumnDescriptor \<Rightarrow> ColumnDescriptor" where
  "resolve_alias d c =
     (case tableName c of
        None \<Rightarrow> c
      | Some t \<Rightarrow> (case getTableNameFromAlias d t of None \<Rightarrow> c | Some tab \<Rightarrow> c\<lparr>tableName := Some tab\<rparr>))"

definition insert_by_status :: "ParseStatus \<Rightarrow> ColumnDescriptor \<Rightarrow> QueryDescriptor \<Rightarrow> QueryDescriptor option" where
  "insert_by_status st c d =
     (case st of
        PS_idle \<Rightarrow> Some d
      | PS_targetList \<Rightarrow> map_option (\<lambda>a. d\<lparr>targetList := a\<rparr>) (InsertToArray (targetList d) c)
      | PS_groupList \<Rightarrow> map_option (\<lambda>a. d\<lparr>groupList := a\<rparr>) (InsertToArray (groupList d) c)
      | PS_orderByList \<Rightarrow> map_option (\<lambda>a. d\<lparr>orderByList := a\<rparr>) (InsertToArray (orderByList d) c)
      | PS_whereList \<Rightarrow> map_option (\<lambda>a. d\<lparr>whereList := a\<rparr>) (InsertToArray (whereList d) (resolve_alias d c))
      | PS_havingList \<Rightarrow> map_option (\<lambda>a. d\<lparr>havingList := a\<rparr>) (InsertToArray (havingList d) c)
      | PS_filterList \<Rightarrow> map_option (\<lambda>a. d\<lparr>filterList := a\<rparr>) (InsertToArray (filterList d) (resolve_alias d c)))"

definition addColumnInformation ::
    "string option \<Rightarrow> string option \<Rightarrow> string option \<Rightarrow> string option \<Rightarrow> bool \<Rightarrow> query_state \<Rightarrow> query_state option" where
  "addColumnInformation column table schema catalog whole q =
     do {
       q \<leftarrow> ensure_initialized q;
       let c = \<lparr>columnName = column, tableName = table, schemaName = schema, catalogName = catalog, whole_row = whole\<rparr>;
       d \<leftarrow> insert_by_status (PSStatus q) c (NoDBQueryDesc q);
       found \<leftarrow> SearchArray (allAttributes d) c equalColDesc;
       d \<leftarrow> (if found then Some d else map_option (\<lambda>a. d\<lparr>allAttributes := a\<rparr>) (InsertToArray (allAttributes d) c));
       Some (q\<lparr>NoDBQueryDesc := d\<rparr>)
     }"

definition setQueryLimit :: "int \<Rightarrow> query_state \<Rightarrow> query_state" where
  "setQueryLimit l q = q\<lparr>NoDBQueryDesc := (NoDBQueryDesc q)\<lparr>qd_limit := l\<rparr>\<rparr>"

definition getQueryLimit :: "query_state \<Rightarrow> int" where
  "getQueryLimit q = qd_limit (NoDBQueryDesc q)"

section \<open>The columns of a relation that a query uses\<close>

text \<open>The first column with the name that is not marked yet is marked.\<close>

fun mark_column :: "string list \<Rightarrow> string \<Rightarrow> int list \<times> int \<Rightarrow> int list \<times> int" where
  "mark_column (a # attrs) c (w # ws, counter) =
     (if a = c \<and> w \<noteq> 1 then (1 # ws, counter + 1)
      else (let (ws', counter') = mark_column attrs c (ws, counter) in (w # ws', counter')))"
| "mark_column attrs c (ws, counter) = (ws, counter)"

definition mark_descriptor :: "string list \<Rightarrow> ColumnDescriptor \<Rightarrow> int list \<times> int \<Rightarrow> int list \<times> int" where
  "mark_descriptor attrs c st = (case columnName c of None \<Rightarrow> st | Some n \<Rightarrow> mark_column attrs n st)"

definition of_relation :: "QueryDescriptor \<Rightarrow> string \<Rightarrow> ColumnDescriptor \<Rightarrow> bool" where
  "of_relation d rel c = (case tableName c of None \<Rightarrow> True | Some t \<Rightarrow> t = rel \<or> hasTableAlias d rel t)"

fun query_loop :: "QueryDescriptor \<Rightarrow> string list \<Rightarrow> string \<Rightarrow> nat list \<Rightarrow> int list \<times> int \<Rightarrow> (int list \<times> int) option" where
  "query_loop d attrs rel [] st = Some st"
| "query_loop d attrs rel (i # is) st =
     do {
       c \<leftarrow> GetObjectPos (allAttributes d) (int i);
       (if \<not> of_relation d rel c then query_loop d attrs rel is st
        else if whole_row c then Some (replicate (length attrs) 1, int (length attrs))
        else query_loop d attrs rel is (mark_descriptor attrs c st))
     }"

definition marked_vector :: "int list \<Rightarrow> int \<Rightarrow> NoDBColVector_t option" where
  "marked_vector which counter =
     map_option fst
       (foldM (\<lambda>(v, j) i. if which ! i \<noteq> 0 then map_option (\<lambda>v. (v, j + 1)) (NoDBColVectorSet v j (int i)) else Some (v, j))
          (NoDBColVectorInit counter, 0) [0..<length which])"

definition getQueryAttributes :: "query_state \<Rightarrow> string list \<Rightarrow> string \<Rightarrow> NoDBColVector_t option" where
  "getQueryAttributes q attrs rel =
     (let d = NoDBQueryDesc q in
      do {
        (which, counter) \<leftarrow> query_loop d attrs rel [0..<usedObjects (allAttributes d)] (replicate (length attrs) 0, 0);
        marked_vector which counter
      })"

fun filter_loop :: "QueryDescriptor \<Rightarrow> string list \<Rightarrow> string \<Rightarrow> nat list \<Rightarrow> int list \<times> int \<Rightarrow> (int list \<times> int) option" where
  "filter_loop d attrs rel [] st = Some st"
| "filter_loop d attrs rel (i # is) st =
     do {
       c \<leftarrow> GetObjectPos (filterList d) (int i);
       (if tableName c \<noteq> None \<and> tableName c \<noteq> Some rel then filter_loop d attrs rel is st
        else if whole_row c then None
        else filter_loop d attrs rel is (mark_descriptor attrs c st))
     }"

definition getQueryFilterAttributes :: "query_state \<Rightarrow> string list \<Rightarrow> string \<Rightarrow> NoDBColVector_t option" where
  "getQueryFilterAttributes q attrs rel =
     (let d = NoDBQueryDesc q in
      do {
        (which, counter) \<leftarrow> filter_loop d attrs rel [0..<usedObjects (filterList d)] (replicate (length attrs) 0, 0);
        marked_vector which counter
      })"

definition getQueryRestAttributes :: "NoDBColVector_t \<Rightarrow> NoDBColVector_t \<Rightarrow> NoDBColVector_t option" where
  "getQueryRestAttributes queryAtts filterAtts =
     map_option fst
       (foldM (\<lambda>(v, j) i. do {
            col \<leftarrow> NoDBColVectorGet queryAtts (int i);
            f \<leftarrow> NoDBColVectorContains filterAtts col;
            (if f then Some (v, j) else map_option (\<lambda>v. (v, j + 1)) (NoDBColVectorSet v j col))
          }) (NoDBColVectorInit (NoDBColVectorSize queryAtts - NoDBColVectorSize filterAtts), 0 :: int)
          [0..<nat (NoDBColVectorSize queryAtts)])"

definition mergeAttributeVectors :: "NoDBColVector_t \<Rightarrow> NoDBColVector_t \<Rightarrow> NoDBColVector_t option" where
  "mergeAttributeVectors a b =
     do {
       ret \<leftarrow> foldM (\<lambda>ret i. do { col \<leftarrow> NoDBColVectorGet a (int i); NoDBColVectorSet ret (int i) col })
         (NoDBColVectorInit (NoDBColVectorSize a - NoDBColVectorSize b)) [0..<nat (NoDBColVectorSize a)];
       (ret, j) \<leftarrow> foldM (\<lambda>(ret, j) i. do {
            col \<leftarrow> NoDBColVectorGet b (int i);
            f \<leftarrow> NoDBColVectorContains b col;
            (if f then Some (ret, j) else map_option (\<lambda>v. (v, j + 1)) (NoDBColVectorSet ret j col))
          }) (ret, 0 :: int) [0..<nat (NoDBColVectorSize b)];
       NoDBColVectorSort ret
     }"

section \<open>Growing arrays as sequences\<close>

text \<open>
  What a client of a growing sequence relies on: insertion at the end keeps the invariant and the
  elements before, and a search finds exactly the elements equal to its argument.
\<close>

locale growing_seq =
  fixes ok :: "'s \<Rightarrow> bool" and elems :: "'s \<Rightarrow> 'a list"
    and insert_end :: "'s \<Rightarrow> 'a \<Rightarrow> 's option"
    and search :: "'s \<Rightarrow> 'a \<Rightarrow> ('a \<Rightarrow> 'a \<Rightarrow> bool) \<Rightarrow> bool option"
  assumes insert_ok: "ok s \<Longrightarrow> \<exists>t. insert_end s x = Some t \<and> ok t \<and> elems t = elems s @ [x]"
    and search_ok: "ok s \<Longrightarrow> search s x cmp = Some (\<exists>y \<in> set (elems s). cmp y x)"
begin

text \<open>Insertion of what is not there yet, as a set.\<close>

definition add_new :: "('a \<Rightarrow> 'a \<Rightarrow> bool) \<Rightarrow> 's \<Rightarrow> 'a \<Rightarrow> 's option" where
  "add_new cmp s x = (case search s x cmp of None \<Rightarrow> None | Some True \<Rightarrow> Some s | Some False \<Rightarrow> insert_end s x)"

lemma add_new_ok:
  assumes "ok s" "\<And>x y. cmp x y \<longleftrightarrow> x = y" "distinct (elems s)"
  shows "\<exists>t. add_new cmp s x = Some t \<and> ok t \<and> set (elems t) = insert x (set (elems s)) \<and> distinct (elems t)"
  using insert_ok[OF assms(1), of x] search_ok[OF assms(1), of x cmp] assms by (auto simp: add_new_def split: bool.splits)

end

definition d_ok :: "'a D_Array \<Rightarrow> bool" where
  "d_ok a \<longleftrightarrow> usedObjects a \<le> currentSize a \<and> None \<notin> set (take (usedObjects a) (d_data a))"

definition d_elems :: "'a D_Array \<Rightarrow> 'a list" where
  "d_elems a = map the (take (usedObjects a) (d_data a))"

lemma take_map_Some: "None \<notin> set xs \<Longrightarrow> map Some (map the xs) = xs"
  by (induction xs) auto

lemma d_prefix: "d_ok a \<Longrightarrow> take (usedObjects a) (d_data a) = map Some (d_elems a)"
  using take_map_Some[of "take (usedObjects a) (d_data a)"] unfolding d_ok_def d_elems_def by metis

lemma d_length: "d_ok a \<Longrightarrow> length (d_elems a) = usedObjects a"
  by (simp add: d_ok_def d_elems_def currentSize_def)

lemma d_get:
  assumes "d_ok a" "i < usedObjects a"
  shows "GetObjectPos a (int i) = Some (d_elems a ! i)"
proof -
  have "d_data a ! i = take (usedObjects a) (d_data a) ! i" using assms(2) by simp
  also have "\<dots> = Some (d_elems a ! i)" using assms d_length[OF assms(1)] by (simp add: d_prefix)
  finally show ?thesis using assms by (simp add: GetObjectPos_def d_ok_def currentSize_def)
qed

lemma d_intro:
  assumes "take n xs = map Some es" "n \<le> length xs"
  shows "d_ok \<lparr>d_data = xs, usedObjects = n\<rparr>" "d_elems \<lparr>d_data = xs, usedObjects = n\<rparr> = es"
  using assms by (auto simp: d_ok_def d_elems_def currentSize_def comp_def)

lemma make_room_ok:
  assumes "d_ok a"
  shows "d_ok (make_room a)" "d_elems (make_room a) = d_elems a" "usedObjects (make_room a) = usedObjects a"
    "usedObjects a < currentSize (make_room a)"
  using assms by (auto simp: make_room_def IncreaseArraySize_def d_ok_def d_elems_def currentSize_def ALLOC_UNIT_def)

lemma InsertToArray_ok:
  assumes "d_ok a"
  shows "\<exists>b. InsertToArray a x = Some b \<and> d_ok b \<and> d_elems b = d_elems a @ [x]"
proof -
  let ?m = "make_room a"
  note m = make_room_ok[OF assms]
  have t: "take (Suc (usedObjects a)) ((d_data ?m)[usedObjects a := Some x]) = map Some (d_elems a @ [x])"
    using d_prefix[OF m(1)] m(2-4) by (simp add: take_Suc_conv_app_nth currentSize_def)
  have "InsertToArray a x = Some \<lparr>d_data = (d_data ?m)[usedObjects a := Some x], usedObjects = Suc (usedObjects a)\<rparr>"
    using m(3,4) by (simp add: InsertToArray_def Let_def currentSize_def)
  then show ?thesis using d_intro[OF t] m(4) by (simp add: currentSize_def)
qed

lemma SearchArray_loop_ok:
  assumes "d_ok a" "\<forall>i \<in> set is. i < usedObjects a"
  shows "SearchArray_loop a is x cmp = Some (\<exists>i \<in> set is. cmp (d_elems a ! i) x)"
  using assms by (induction "is") (auto simp: d_get)

lemma SearchArray_ok:
  assumes "d_ok a"
  shows "SearchArray a x cmp = Some (\<exists>y \<in> set (d_elems a). cmp y x)"
proof -
  have "set (d_elems a) = (\<lambda>i. d_elems a ! i) ` {0..<usedObjects a}"
    using nth_image[of "usedObjects a" "d_elems a"] d_length[OF assms] by simp
  then show ?thesis using SearchArray_loop_ok[OF assms, of "[0..<usedObjects a]" x cmp] by (simp add: SearchArray_def)
qed

interpretation da: growing_seq d_ok d_elems InsertToArray SearchArray
  by unfold_locales (simp_all add: InsertToArray_ok SearchArray_ok)

lemma InsertToArrayAt_ok:
  assumes "d_ok a" "p \<le> usedObjects a"
  shows "\<exists>b. InsertToArrayAt a x (int p) = Some b \<and> d_ok b \<and> d_elems b = take p (d_elems a) @ x # drop p (d_elems a)"
proof -
  let ?m = "make_room a" and ?u = "usedObjects a"
  note m = make_room_ok[OF assms(1)]
  let ?d = "take p (d_data ?m) @ [Some x] @ take (?u - p) (drop p (d_data ?m)) @ drop (Suc ?u) (d_data ?m)"
  have pre: "take ?u (d_data ?m) = map Some (d_elems a)" using d_prefix[OF m(1)] m(2,3) by simp
  have "take p (d_data ?m) = take p (take ?u (d_data ?m))" using assms(2) by (simp add: min_def)
  then have t1: "take p (d_data ?m) = map Some (take p (d_elems a))" using pre by (simp add: take_map)
  have "take (?u - p) (drop p (d_data ?m)) = drop p (take ?u (d_data ?m))" using assms(2) by (simp add: drop_take)
  then have t2: "take (?u - p) (drop p (d_data ?m)) = map Some (drop p (d_elems a))" using pre by (simp add: drop_map)
  have t: "take (Suc ?u) ?d = map Some (take p (d_elems a) @ x # drop p (d_elems a))"
    unfolding t1 t2 using assms(2) d_length[OF assms(1)] by (simp add: Suc_diff_le)
  have l: "Suc ?u \<le> length ?d" using m(4) assms(2) by (simp add: currentSize_def)
  have "InsertToArrayAt a x (int p) = Some \<lparr>d_data = ?d, usedObjects = Suc ?u\<rparr>"
    using m(3,4) assms(2) by (simp add: InsertToArrayAt_def Let_def)
  then show ?thesis using d_intro[OF t l] by simp
qed

lemma RemoveObject_ok:
  assumes "d_ok a" "p < usedObjects a"
  shows "\<exists>b. RemoveObject a (int p) = Some b \<and> d_ok b \<and> d_elems b = take p (d_elems a) @ drop (Suc p) (d_elems a)"
proof -
  let ?u = "usedObjects a"
  let ?d = "take p (d_data a) @ drop (Suc p) (take ?u (d_data a)) @ drop (?u - 1) (d_data a)"
  have pre: "take ?u (d_data a) = map Some (d_elems a)" by (rule d_prefix[OF assms(1)])
  have le: "?u \<le> length (d_data a)" using assms(1) by (simp add: d_ok_def currentSize_def)
  have "take p (d_data a) = take p (take ?u (d_data a))" using assms(2) by (simp add: min_def)
  then have t1: "take p (d_data a) = map Some (take p (d_elems a))" using pre by (simp add: take_map)
  have t: "take (?u - 1) ?d = map Some (take p (d_elems a) @ drop (Suc p) (d_elems a))"
    unfolding t1 pre using assms(2) d_length[OF assms(1)] by (simp add: drop_map)
  have "RemoveObject a (int p) = Some \<lparr>d_data = ?d, usedObjects = ?u - 1\<rparr>"
    using assms le by (simp add: RemoveObject_def currentSize_def)
  then show ?thesis using d_intro[OF t] le assms(2) by simp
qed

lemma equalColDesc_iff: "equalColDesc a b \<longleftrightarrow> a = b"
proof -
  have n: "equal_names x y = (if x = y then 1 else 0)" for x y by (cases x; cases y) (auto simp: equal_names_def)
  have "equalColDesc a b \<longleftrightarrow> columnName a = columnName b \<and> tableName a = tableName b \<and> schemaName a = schemaName b \<and>
      catalogName a = catalogName b \<and> whole_row a = whole_row b"
    unfolding equalColDesc_def n by (simp only: split: if_splits) simp
  then show ?thesis by (cases a; cases b) simp
qed

section \<open>Marking columns\<close>

text \<open>The marks of the columns whose names satisfy \<open>P\<close>, with their number.\<close>

definition marks :: "string list \<Rightarrow> (string \<Rightarrow> bool) \<Rightarrow> int list \<times> int" where
  "marks attrs P = (map (\<lambda>a. of_bool (P a)) attrs, int (length (filter P attrs)))"

definition marked :: "string list \<Rightarrow> (string \<Rightarrow> bool) \<Rightarrow> NoDBCol_t list" where
  "marked attrs P = map int (filter (\<lambda>i. P (attrs ! i)) [0..<length attrs])"

lemma marks_cong: "(\<And>a. P a \<longleftrightarrow> Q a) \<Longrightarrow> marks attrs P = marks attrs Q"
  by (rule arg_cong[where f = "marks attrs"]) (simp add: fun_eq_iff)

lemma mark_column_absent: "c \<notin> set attrs \<Longrightarrow> mark_column attrs c (ws, k) = (ws, k)"
  by (induction attrs c "(ws, k)" arbitrary: ws k rule: mark_column.induct) auto

lemma filter_or_single: "distinct xs \<Longrightarrow> length (filter (\<lambda>a. a = c \<or> P a) xs) = length (filter P xs) + of_bool (c \<in> set xs \<and> \<not> P c)"
  by (induction xs) auto

lemma mark_column_fst:
  "distinct attrs \<Longrightarrow> mark_column attrs c (map (\<lambda>a. of_bool (P a)) attrs, k) =
     (map (\<lambda>a. of_bool (a = c \<or> P a)) attrs, k + of_bool (c \<in> set attrs \<and> \<not> P c))"
proof (induction attrs)
  case (Cons a attrs)
  have "c \<notin> set attrs \<Longrightarrow> map (\<lambda>a. of_bool (a = c \<or> P a)) attrs = (map (\<lambda>a. of_bool (P a)) attrs :: int list)" by auto
  then show ?case using Cons mark_column_absent[of c attrs] by (auto simp: Let_def)
qed simp

lemma mark_column_marks: "distinct attrs \<Longrightarrow> mark_column attrs c (marks attrs P) = marks attrs (\<lambda>a. a = c \<or> P a)"
  by (simp add: marks_def mark_column_fst filter_or_single)

lemma mark_descriptor_marks:
  "distinct attrs \<Longrightarrow> mark_descriptor attrs c (marks attrs P) = marks attrs (\<lambda>a. columnName c = Some a \<or> P a)"
proof (cases "columnName c")
  case (Some n)
  assume "distinct attrs"
  then show ?thesis using Some by (simp add: mark_descriptor_def mark_column_marks eq_commute[of n])
qed (simp add: mark_descriptor_def)

lemma marks_start: "(replicate (length attrs) 0, 0) = marks attrs (\<lambda>_. False)"
  by (simp add: marks_def map_replicate_const)

lemma marks_all: "(replicate (length attrs) 1, int (length attrs)) = marks attrs (\<lambda>_. True)"
  by (simp add: marks_def map_replicate_const)

lemma fill_vector:
  assumes "length (filter P xs) \<le> n"
  shows "foldM (\<lambda>(v, j) x. if P x then map_option (\<lambda>v. (v, j + 1)) (NoDBColVectorSet v j (f x)) else Some (v, j))
      (replicate n None, 0 :: int) xs =
    Some (map Some (map f (filter P xs)) @ replicate (n - length (filter P xs)) None, int (length (filter P xs)))"
  using assms
proof (induction xs rule: rev_induct)
  case (snoc x xs)
  show ?case
  proof (cases "P x")
    case True
    then have "length (filter P xs) < n" using snoc.prems by simp
    then obtain m where "n - length (filter P xs) = Suc m" "n - length (filter P (xs @ [x])) = m"
      using True by (metis Suc_diff_Suc filter.simps filter_append length_append_singleton)
    then show ?thesis using snoc True by (simp add: foldM_snoc NoDBColVectorSet_def arr_set_def list_update_append)
  qed (use snoc in \<open>simp add: foldM_snoc\<close>)
qed simp

lemma ColVectorInit_nat: "NoDBColVectorInit (int n) = replicate n None"
  by (simp add: NoDBColVectorInit_def)

lemma marked_vector_ok: "marked_vector (fst (marks attrs P)) (snd (marks attrs P)) = Some (map Some (marked attrs P))"
proof -
  let ?Q = "\<lambda>i. P (attrs ! i)"
  have l: "length (filter ?Q [0..<length attrs]) = length (filter P attrs)"
    by (metis (no_types, lifting) filter_map length_map map_nth comp_apply filter_cong)
  have "marked_vector (fst (marks attrs P)) (snd (marks attrs P)) =
    map_option fst (foldM (\<lambda>(v, j) i. if ?Q i then map_option (\<lambda>v. (v, j + 1)) (NoDBColVectorSet v j (int i)) else Some (v, j))
      (replicate (length (filter P attrs)) None, 0) [0..<length attrs])"
    unfolding marked_vector_def by (simp add: marks_def ColVectorInit_nat) (rule arg_cong[where f = "map_option fst"], rule foldM_cong, auto)
  then show ?thesis using fill_vector[of ?Q "[0..<length attrs]" "length (filter P attrs)" int] l by (simp add: marked_def)
qed

lemma marked_set: "set (marked attrs P) = {int i |i. i < length attrs \<and> P (attrs ! i)}"
  by (auto simp: marked_def)

lemma marked_sorted: "sorted_wrt (<) (marked attrs P)"
  by (simp add: marked_def sorted_wrt_map sorted_wrt_filter)

lemma marked_filter: "filter (\<lambda>c. c \<notin> set (marked attrs Q)) (marked attrs P) = marked attrs (\<lambda>a. P a \<and> \<not> Q a)"
  by (auto simp: marked_def filter_map comp_def intro!: arg_cong[where f = "map int"] filter_cong)

section \<open>The states the parser can reach\<close>

text \<open>The descriptor is a zero-initialised global; the parser and the planner call its operations in any order.\<close>

definition query_start :: query_state where
  "query_start =
     (let a = \<lparr>d_data = [], usedObjects = 0\<rparr> in
      \<lparr>NoDBQueryDesc = \<lparr>aliasMap = empty_aliases, targetList = a, groupList = a, orderByList = a, whereList = a, havingList = a,
         filterList = a, allAttributes = a, qd_limit = 0\<rparr>, isInitialized = False, PSStatus = PS_idle\<rparr>)"

inductive query_reach :: "query_state \<Rightarrow> bool" where
  start: "query_reach query_start"
| status: "query_reach q \<Longrightarrow> query_reach (changeParseStatus st q)"
| add_alias: "query_reach q \<Longrightarrow> addTableAliasInformation table al q = Some q' \<Longrightarrow> query_reach q'"
| add_column: "query_reach q \<Longrightarrow> addColumnInformation col table schema catalog whole q = Some q' \<Longrightarrow> query_reach q'"
| set_limit: "query_reach q \<Longrightarrow> query_reach (setQueryLimit l q)"
| reset: "query_reach q \<Longrightarrow> query_reach (resetQueryDescriptor q)"

abbreviation all_cols :: "QueryDescriptor \<Rightarrow> ColumnDescriptor list" where "all_cols d \<equiv> d_elems (allAttributes d)"

abbreviation filter_cols :: "QueryDescriptor \<Rightarrow> ColumnDescriptor list" where "filter_cols d \<equiv> d_elems (filterList d)"

text \<open>
  Every filter column is also among all columns, possibly under an alias that is still in the map.
\<close>

definition covers :: "QueryDescriptor \<Rightarrow> ColumnDescriptor \<Rightarrow> ColumnDescriptor \<Rightarrow> bool" where
  "covers d c c' \<longleftrightarrow> columnName c' = columnName c \<and> whole_row c' = whole_row c \<and>
     (tableName c' = tableName c \<or>
      (\<exists>t al. tableName c = Some t \<and> tableName c' = Some al \<and> (t \<noteq> [] \<longrightarrow> \<lparr>am_table = t, am_alias = al\<rparr> \<in> set (aliasMap d))))"

definition desc_ok :: "QueryDescriptor \<Rightarrow> bool" where
  "desc_ok d \<longleftrightarrow> d_ok (targetList d) \<and> d_ok (groupList d) \<and> d_ok (orderByList d) \<and> d_ok (whereList d) \<and> d_ok (havingList d) \<and>
     d_ok (filterList d) \<and> d_ok (allAttributes d) \<and> distinct (all_cols d) \<and> length (aliasMap d) = NUMBER_OF_RELATIONS \<and>
     (\<forall>c \<in> set (filter_cols d). \<exists>c' \<in> set (all_cols d). covers d c c')"

lemma d_empty [simp]: "d_ok \<lparr>d_data = xs, usedObjects = 0\<rparr>" "d_elems \<lparr>d_data = xs, usedObjects = 0\<rparr> = []"
  by (simp_all add: d_ok_def d_elems_def)

lemma desc_empty:
  "usedObjects a = 0 \<Longrightarrow> desc_ok \<lparr>aliasMap = empty_aliases, targetList = a, groupList = a, orderByList = a, whereList = a,
     havingList = a, filterList = a, allAttributes = a, qd_limit = l\<rparr>"
  by (cases a) (simp add: desc_ok_def empty_aliases_def)

lemma ensure_ok: "ensure_initialized q = Some q' \<Longrightarrow> desc_ok (NoDBQueryDesc q) \<Longrightarrow> desc_ok (NoDBQueryDesc q')"
  by (auto simp: ensure_initialized_def initializeQueryDescriptor_def InitializeArray_def INIT_SIZE_def intro!: desc_empty
      split: if_splits option.splits bind_splits)

lemma reset_ok: "desc_ok (NoDBQueryDesc q) \<Longrightarrow> desc_ok (NoDBQueryDesc (resetQueryDescriptor q))"
  by (simp add: resetQueryDescriptor_def Let_def desc_ok_def FreeArray_def empty_aliases_def covers_def)

lemma find_alias_Some: "find_alias P es = Some e \<Longrightarrow> e \<in> set es \<and> P e"
  by (induction es) (auto split: if_splits)

lemma find_alias_None: "find_alias P es = None \<longleftrightarrow> (\<forall>e \<in> set es. \<not> P e)"
  by (induction es) auto

lemma alias_ok:
  assumes "addTableAliasInformation table al q = Some q'" "desc_ok (NoDBQueryDesc q)"
  shows "desc_ok (NoDBQueryDesc q')"
proof -
  obtain r where r: "ensure_initialized q = Some r" using assms(1) by (auto simp: addTableAliasInformation_def bind_eq_Some_conv)
  let ?d = "NoDBQueryDesc r" and ?i = "length (takeWhile (\<lambda>e. am_table e \<noteq> []) (aliasMap (NoDBQueryDesc r)))"
  have d: "desc_ok ?d" using ensure_ok[OF r assms(2)] .
  have "q' = r \<or> ?i < length (aliasMap ?d) \<and> q' = r\<lparr>NoDBQueryDesc := ?d\<lparr>aliasMap := (aliasMap ?d)[?i := \<lparr>am_table = table, am_alias = al\<rparr>]\<rparr>\<rparr>"
    using assms(1) r length_takeWhile_le[of "\<lambda>e. am_table e \<noteq> []" "aliasMap ?d"]
    by (auto simp: addTableAliasInformation_def Let_def split: if_splits)
  then show ?thesis
  proof
    assume q': "?i < length (aliasMap ?d) \<and> q' = r\<lparr>NoDBQueryDesc := ?d\<lparr>aliasMap := (aliasMap ?d)[?i := \<lparr>am_table = table, am_alias = al\<rparr>]\<rparr>\<rparr>"
    then have free: "am_table (aliasMap ?d ! ?i) = []" using nth_length_takeWhile[of "\<lambda>e. am_table e \<noteq> []" "aliasMap ?d"] by simp
    have "e \<in> set ((aliasMap ?d)[?i := x])" if e: "e \<in> set (aliasMap ?d)" "am_table e \<noteq> []" for e x
    proof -
      obtain j where "j < length (aliasMap ?d)" "aliasMap ?d ! j = e" using e(1) by (auto simp: in_set_conv_nth)
      moreover have "j \<noteq> ?i" using calculation free e(2) by auto
      ultimately show ?thesis by (metis length_list_update nth_list_update_neq nth_mem)
    qed
    then have "covers ?d c c' \<Longrightarrow> covers (NoDBQueryDesc q') c c'" for c c' using q' by (auto simp: covers_def)
    then show ?thesis using d q' by (fastforce simp: desc_ok_def)
  qed (use d in simp)
qed

lemma resolve_covers: "covers d (resolve_alias d c) c"
proof (cases "tableName c")
  case (Some t)
  show ?thesis
  proof (cases "getTableNameFromAlias d t")
    case (Some u)
    then obtain e where "e \<in> set (aliasMap d)" "am_alias e = t" "am_table e = u"
      by (auto simp: getTableNameFromAlias_def dest: find_alias_Some)
    moreover have "e = \<lparr>am_table = am_table e, am_alias = am_alias e\<rparr>" by simp
    ultimately have "\<lparr>am_table = u, am_alias = t\<rparr> \<in> set (aliasMap d)" by metis
    then show ?thesis using Some \<open>tableName c = Some t\<close> by (simp add: covers_def resolve_alias_def)
  qed (use Some in \<open>simp add: covers_def resolve_alias_def\<close>)
qed (simp add: covers_def resolve_alias_def)

text \<open>Where a column goes by the status of the parser: only the filter list matters for the columns to read.\<close>

lemma insert_by_status_ok:
  assumes "desc_ok d"
  shows "\<exists>d'. insert_by_status st c d = Some d' \<and> aliasMap d' = aliasMap d \<and> allAttributes d' = allAttributes d \<and>
    d_ok (targetList d') \<and> d_ok (groupList d') \<and> d_ok (orderByList d') \<and> d_ok (whereList d') \<and> d_ok (havingList d') \<and>
    d_ok (filterList d') \<and> set (filter_cols d') \<subseteq> insert (resolve_alias d c) (set (filter_cols d))"
proof -
  have ok: "d_ok (targetList d)" "d_ok (groupList d)" "d_ok (orderByList d)" "d_ok (whereList d)" "d_ok (havingList d)" "d_ok (filterList d)"
    using assms by (simp_all add: desc_ok_def)
  show ?thesis
    using ok da.insert_ok[OF ok(1), of c] da.insert_ok[OF ok(2), of c] da.insert_ok[OF ok(3), of c] da.insert_ok[OF ok(4), of "resolve_alias d c"]
      da.insert_ok[OF ok(5), of c] da.insert_ok[OF ok(6), of "resolve_alias d c"]
    by (cases st) (auto simp: insert_by_status_def)
qed

lemma column_ok:
  assumes "addColumnInformation col table schema catalog whole q = Some q'" "desc_ok (NoDBQueryDesc q)"
  shows "desc_ok (NoDBQueryDesc q')"
proof -
  obtain r where r: "ensure_initialized q = Some r" using assms(1) by (auto simp: addColumnInformation_def bind_eq_Some_conv)
  let ?d = "NoDBQueryDesc r"
  let ?c = "\<lparr>columnName = col, tableName = table, schemaName = schema, catalogName = catalog, whole_row = whole\<rparr>"
  have d: "desc_ok ?d" using ensure_ok[OF r assms(2)] .
  obtain d' where d': "insert_by_status (PSStatus r) ?c ?d = Some d'" "aliasMap d' = aliasMap ?d" "allAttributes d' = allAttributes ?d"
      "d_ok (targetList d')" "d_ok (groupList d')" "d_ok (orderByList d')" "d_ok (whereList d')" "d_ok (havingList d')"
      "d_ok (filterList d')" "set (filter_cols d') \<subseteq> insert (resolve_alias ?d ?c) (set (filter_cols ?d))"
    using insert_by_status_ok[OF d, of "PSStatus r" ?c] by blast
  have all: "d_ok (allAttributes d')" "distinct (all_cols d')" using d d'(3) by (simp_all add: desc_ok_def)
  obtain a where a: "da.add_new equalColDesc (allAttributes d') ?c = Some a" "d_ok a" "set (d_elems a) = insert ?c (set (all_cols d'))"
      "distinct (d_elems a)"
    using da.add_new_ok[OF all(1) equalColDesc_iff all(2), of ?c] by blast
  have "NoDBQueryDesc q' = d'\<lparr>allAttributes := a\<rparr>"
  proof (cases "SearchArray (allAttributes d') ?c equalColDesc")
    case (Some b)
    then show ?thesis using a(1) assms(1) r d'(1) by (cases b) (auto simp: addColumnInformation_def da.add_new_def Let_def)
  qed (use a(1) in \<open>simp add: da.add_new_def\<close>)
  moreover have "\<exists>c' \<in> set (d_elems a). covers ?d c c'" if "c \<in> set (filter_cols d')" for c
  proof (cases "c \<in> set (filter_cols ?d)")
    case True
    then show ?thesis using d a(3) d'(3) by (auto simp: desc_ok_def)
  next
    case False
    then have "c = resolve_alias ?d ?c" using that d'(10) by auto
    then show ?thesis using resolve_covers[of ?d ?c] a(3) by auto
  qed
  ultimately show ?thesis using a(2,4) d d' by (simp add: desc_ok_def covers_def)
qed

lemma query_reach_ok: "query_reach q \<Longrightarrow> desc_ok (NoDBQueryDesc q)"
proof (induction rule: query_reach.induct)
  case start
  then show ?case by (simp add: query_start_def Let_def desc_empty)
next
  case (status q st)
  then show ?case by (simp add: changeParseStatus_def)
next
  case (set_limit q l)
  then show ?case by (simp add: setQueryLimit_def desc_ok_def covers_def)
qed (auto intro: alias_ok column_ok reset_ok)

section \<open>Which columns a scan reads\<close>

definition wants :: "QueryDescriptor \<Rightarrow> string \<Rightarrow> string \<Rightarrow> bool" where
  "wants d rel a \<longleftrightarrow> (\<exists>c \<in> set (all_cols d). of_relation d rel c \<and> (whole_row c \<or> columnName c = Some a))"

definition filters :: "QueryDescriptor \<Rightarrow> string \<Rightarrow> string \<Rightarrow> bool" where
  "filters d rel a \<longleftrightarrow> (\<exists>c \<in> set (filter_cols d). (tableName c = None \<or> tableName c = Some rel) \<and> columnName c = Some a)"

lemma query_loop_ok:
  assumes "d_ok (allAttributes d)" "distinct attrs" "\<forall>i \<in> set is. i < usedObjects (allAttributes d)"
  shows "query_loop d attrs rel is (marks attrs P) =
    Some (marks attrs (\<lambda>a. P a \<or> (\<exists>i \<in> set is. of_relation d rel (all_cols d ! i) \<and>
      (whole_row (all_cols d ! i) \<or> columnName (all_cols d ! i) = Some a))))"
  using assms(3)
proof (induction "is" arbitrary: P)
  case (Cons i "is")
  let ?c = "all_cols d ! i"
  have g: "GetObjectPos (allAttributes d) (int i) = Some ?c" using Cons.prems by (simp add: d_get[OF assms(1)])
  consider "\<not> of_relation d rel ?c" | "of_relation d rel ?c" "whole_row ?c" | "of_relation d rel ?c" "\<not> whole_row ?c" by blast
  then show ?case
  proof cases
    case 1
    then show ?thesis using Cons g by simp
  next
    case 2
    then show ?thesis using g by (simp add: marks_all)
  next
    case 3
    then have "query_loop d attrs rel (i # is) (marks attrs P) = query_loop d attrs rel is (marks attrs (\<lambda>a. columnName ?c = Some a \<or> P a))"
      using g by (simp add: mark_descriptor_marks[OF assms(2)])
    also have "\<dots> = Some (marks attrs (\<lambda>a. (columnName ?c = Some a \<or> P a) \<or> (\<exists>i \<in> set is. of_relation d rel (all_cols d ! i) \<and>
        (whole_row (all_cols d ! i) \<or> columnName (all_cols d ! i) = Some a))))"
      by (rule Cons.IH) (use Cons.prems in simp)
    finally show ?thesis using 3 by (auto intro: marks_cong)
  qed
qed simp

lemma filter_loop_ok:
  assumes "d_ok (filterList d)" "distinct attrs" "\<forall>i \<in> set is. i < usedObjects (filterList d)" "\<forall>c \<in> set (filter_cols d). \<not> whole_row c"
  shows "filter_loop d attrs rel is (marks attrs P) =
    Some (marks attrs (\<lambda>a. P a \<or> (\<exists>i \<in> set is. (tableName (filter_cols d ! i) = None \<or> tableName (filter_cols d ! i) = Some rel) \<and>
      columnName (filter_cols d ! i) = Some a)))"
  using assms(3)
proof (induction "is" arbitrary: P)
  case (Cons i "is")
  let ?c = "filter_cols d ! i"
  have g: "GetObjectPos (filterList d) (int i) = Some ?c" using Cons.prems by (simp add: d_get[OF assms(1)])
  have w: "\<not> whole_row ?c" using assms(4) Cons.prems d_length[OF assms(1)] by simp
  show ?case
  proof (cases "tableName ?c = None \<or> tableName ?c = Some rel")
    case False
    then show ?thesis using Cons g by (auto intro: marks_cong)
  next
    case True
    then have "filter_loop d attrs rel (i # is) (marks attrs P) = filter_loop d attrs rel is (marks attrs (\<lambda>a. columnName ?c = Some a \<or> P a))"
      using g w by (auto simp: mark_descriptor_marks[OF assms(2)])
    also have "\<dots> = Some (marks attrs (\<lambda>a. (columnName ?c = Some a \<or> P a) \<or> (\<exists>i \<in> set is. (tableName (filter_cols d ! i) = None \<or>
        tableName (filter_cols d ! i) = Some rel) \<and> columnName (filter_cols d ! i) = Some a)))"
      by (rule Cons.IH) (use Cons.prems in simp)
    finally show ?thesis using True by (auto intro: marks_cong)
  qed
qed simp

lemma ex_nth: "(\<exists>i \<in> {0..<length xs}. P (xs ! i)) \<longleftrightarrow> (\<exists>x \<in> set xs. P x)"
  by (metis atLeastLessThan_iff in_set_conv_nth le0)

lemma query_attributes_ok:
  assumes "desc_ok (NoDBQueryDesc q)" "distinct attrs"
  shows "getQueryAttributes q attrs rel = Some (map Some (marked attrs (wants (NoDBQueryDesc q) rel)))"
proof -
  let ?d = "NoDBQueryDesc q"
  have ok: "d_ok (allAttributes ?d)" using assms(1) by (simp add: desc_ok_def)
  have "query_loop ?d attrs rel [0..<usedObjects (allAttributes ?d)] (replicate (length attrs) 0, 0) = Some (marks attrs (wants ?d rel))"
    using query_loop_ok[OF ok assms(2), of "[0..<usedObjects (allAttributes ?d)]" rel "\<lambda>_. False"]
      ex_nth[of "all_cols ?d"] d_length[OF ok]
    by (simp add: marks_start) (rule marks_cong, simp add: wants_def)
  moreover obtain w k where m: "marks attrs (wants ?d rel) = (w, k)" by (cases "marks attrs (wants ?d rel)")
  ultimately show ?thesis using marked_vector_ok[of attrs "wants ?d rel"] by (simp add: getQueryAttributes_def Let_def)
qed

lemma filter_attributes_ok:
  assumes "desc_ok (NoDBQueryDesc q)" "distinct attrs" "\<forall>c \<in> set (filter_cols (NoDBQueryDesc q)). \<not> whole_row c"
  shows "getQueryFilterAttributes q attrs rel = Some (map Some (marked attrs (filters (NoDBQueryDesc q) rel)))"
proof -
  let ?d = "NoDBQueryDesc q"
  have ok: "d_ok (filterList ?d)" using assms(1) by (simp add: desc_ok_def)
  have "filter_loop ?d attrs rel [0..<usedObjects (filterList ?d)] (replicate (length attrs) 0, 0) = Some (marks attrs (filters ?d rel))"
    using filter_loop_ok[OF ok assms(2) _ assms(3), of "[0..<usedObjects (filterList ?d)]" rel "\<lambda>_. False"]
      ex_nth[of "filter_cols ?d"] d_length[OF ok]
    by (simp add: marks_start) (rule marks_cong, simp add: filters_def)
  moreover obtain w k where m: "marks attrs (filters ?d rel) = (w, k)" by (cases "marks attrs (filters ?d rel)")
  ultimately show ?thesis using marked_vector_ok[of attrs "filters ?d rel"] by (simp add: getQueryFilterAttributes_def Let_def)
qed

lemma filters_wants:
  assumes "desc_ok d" "rel \<noteq> []" "filters d rel a"
  shows "wants d rel a"
proof -
  obtain c where c: "c \<in> set (filter_cols d)" "tableName c = None \<or> tableName c = Some rel" "columnName c = Some a"
    using assms(3) by (auto simp: filters_def)
  then obtain c' where c': "c' \<in> set (all_cols d)" "covers d c c'" using assms(1) by (auto simp: desc_ok_def)
  have "hasTableAlias d rel al" if "\<lparr>am_table = rel, am_alias = al\<rparr> \<in> set (aliasMap d)" for al
    using that by (simp add: hasTableAlias_def find_alias_None) (metis AliasMapEntry.select_convs(1,2))
  then have "of_relation d rel c'" using c(2) c'(2) assms(2) by (auto simp: covers_def of_relation_def split: option.splits)
  then show ?thesis using c'(1,2) c(3) by (auto simp: wants_def covers_def)
qed

lemma ColVectorContains_Some: "NoDBColVectorContains (map Some xs) c = Some (c \<in> set xs)"
proof -
  have "NoDBColVectorContains_loop (map Some xs) c (int i) = Some (c \<in> set (drop i xs))" if "i \<le> length xs" for i
    using that
  proof (induction "length xs - i" arbitrary: i)
    case 0
    then show ?case by (simp add: NoDBColVectorContains_loop.simps)
  next
    case (Suc n)
    then have "i < length xs" by simp
    then have "drop i xs = xs ! i # drop (Suc i) xs" by (simp add: Cons_nth_drop_Suc)
    moreover have "NoDBColVectorContains_loop (map Some xs) c (int i + 1) = Some (c \<in> set (drop (Suc i) xs))"
      using Suc(1)[of "Suc i"] Suc(2,3) \<open>i < length xs\<close> by (simp add: add.commute)
    ultimately show ?case using \<open>i < length xs\<close>
      by (subst NoDBColVectorContains_loop.simps) (auto simp: NoDBColVectorGet_def)
  qed
  from this[of 0] show ?thesis by (simp add: NoDBColVectorContains_def)
qed

lemma rest_attributes_ok:
  assumes "set fs \<subseteq> set qs" "distinct qs" "distinct fs"
  shows "getQueryRestAttributes (map Some qs) (map Some fs) = Some (map Some (filter (\<lambda>c. c \<notin> set fs) qs))"
proof -
  have "length (filter (\<lambda>c. c \<in> set fs) qs) = length fs"
  proof -
    have "set (filter (\<lambda>c. c \<in> set fs) qs) = set fs" using assms(1) by auto
    then show ?thesis using distinct_card[OF distinct_filter[OF assms(2)], of "\<lambda>c. c \<in> set fs"] distinct_card[OF assms(3)] by simp
  qed
  moreover have "length (filter (\<lambda>c. c \<in> set fs) qs) + length (filter (\<lambda>c. c \<notin> set fs) qs) = length qs"
    by (rule sum_length_filter_compl)
  ultimately have n: "int (length qs) - int (length fs) = int (length (filter (\<lambda>c. c \<notin> set fs) qs))" by linarith
  let ?n = "length (filter (\<lambda>c. c \<notin> set fs) qs)"
  have "foldM (\<lambda>(v, j) i. do {
            col \<leftarrow> NoDBColVectorGet (map Some qs) (int i);
            f \<leftarrow> NoDBColVectorContains (map Some fs) col;
            (if f then Some (v, j) else map_option (\<lambda>v. (v, j + 1)) (NoDBColVectorSet v j col))
          }) (replicate ?n None, 0 :: int) [0..<length qs] =
      foldM (\<lambda>(v, j) col. if col \<notin> set fs then map_option (\<lambda>v. (v, j + 1)) (NoDBColVectorSet v j col) else Some (v, j))
        (replicate ?n None, 0) qs"
    by (rule foldM_index) (auto simp: NoDBColVectorGet_def ColVectorContains_Some split: if_splits)
  then show ?thesis using fill_vector[of "\<lambda>c. c \<notin> set fs" qs ?n "\<lambda>c. c"] n
    by (simp add: getQueryRestAttributes_def NoDBColVectorSize_def ColVectorInit_nat)
qed

text \<open>
  C21: The columns of a query are split without a gap. In every state of the query descriptor that the
  calls of the parser can lead to, for a relation with distinct column names and filters that name
  columns: the query attributes are, in increasing order, exactly the columns that some recorded
  descriptor wants (by name or as a whole row, under the name of the relation or one of its aliases); the
  filter attributes are among them; and the rest attributes, for which the code allocates only the
  difference of the two sizes, are computed within that array and are exactly the query attributes that
  are not filter attributes.
\<close>

theorem query_columns_split:
  assumes "query_reach q" "distinct attrs" "rel \<noteq> []" "\<forall>c \<in> set (d_elems (filterList (NoDBQueryDesc q))). \<not> whole_row c"
  shows "\<exists>qs fs rest. getQueryAttributes q attrs rel = Some (map Some qs) \<and> getQueryFilterAttributes q attrs rel = Some (map Some fs) \<and>
    getQueryRestAttributes (map Some qs) (map Some fs) = Some (map Some rest) \<and>
    set qs = {int j |j. j < length attrs \<and> wants (NoDBQueryDesc q) rel (attrs ! j)} \<and>
    set fs = {int j |j. j < length attrs \<and> filters (NoDBQueryDesc q) rel (attrs ! j)} \<and>
    set fs \<subseteq> set qs \<and> set rest = set qs - set fs \<and> sorted_wrt (<) qs \<and> sorted_wrt (<) fs \<and> sorted_wrt (<) rest"
proof -
  let ?d = "NoDBQueryDesc q"
  let ?q = "marked attrs (wants ?d rel)" and ?f = "marked attrs (filters ?d rel)"
  have ok: "desc_ok ?d" using assms(1) by (rule query_reach_ok)
  have sub: "set ?f \<subseteq> set ?q" using filters_wants[OF ok assms(3)] by (auto simp: marked_set)
  have dist: "distinct ?q" "distinct ?f" using marked_sorted by (auto intro: sorted_wrt_less_distinct)
  have rest: "getQueryRestAttributes (map Some ?q) (map Some ?f) = Some (map Some (marked attrs (\<lambda>a. wants ?d rel a \<and> \<not> filters ?d rel a)))"
    using rest_attributes_ok[OF sub dist] by (simp add: marked_filter)
  have "set (marked attrs (\<lambda>a. wants ?d rel a \<and> \<not> filters ?d rel a)) = set ?q - set ?f" by (auto simp: marked_set)
  then show ?thesis
    using query_attributes_ok[OF ok assms(2), of rel] filter_attributes_ok[OF ok assms(2,4), of rel] rest sub
    by (intro exI[of _ ?q] exI[of _ ?f] exI[of _ "marked attrs (\<lambda>a. wants ?d rel a \<and> \<not> filters ?d rel a)"]) (simp add: marked_sorted marked_set)
qed

text \<open>A query over relation \<open>t\<close> with the alias \<open>u\<close>: column \<open>b\<close> in its target list and a filter on \<open>u.a\<close>.\<close>

definition demo_query :: query_state where
  "demo_query =
     the (addColumnInformation (Some ''a'') (Some ''u'') None None False
       (changeParseStatus PS_filterList
         (the (addColumnInformation (Some ''b'') None None None False
           (changeParseStatus PS_targetList (the (addTableAliasInformation ''t'' ''u'' query_start)))))))"

lemma not_None_the: "x \<noteq> None \<Longrightarrow> x = Some (the x)"
  by (cases x) simp_all

lemma demo_query_reach: "query_reach demo_query"
proof -
  have a: "addTableAliasInformation ''t'' ''u'' query_start \<noteq> None" by code_simp
  let ?q1 = "the (addTableAliasInformation ''t'' ''u'' query_start)"
  have r1: "query_reach (changeParseStatus PS_targetList ?q1)"
    by (rule query_reach.status[OF query_reach.add_alias[OF query_reach.start not_None_the[OF a]]])
  have b: "addColumnInformation (Some ''b'') None None None False (changeParseStatus PS_targetList ?q1) \<noteq> None" by code_simp
  let ?q2 = "the (addColumnInformation (Some ''b'') None None None False (changeParseStatus PS_targetList ?q1))"
  have r2: "query_reach (changeParseStatus PS_filterList ?q2)"
    by (rule query_reach.status[OF query_reach.add_column[OF r1 not_None_the[OF b]]])
  have c: "addColumnInformation (Some ''a'') (Some ''u'') None None False (changeParseStatus PS_filterList ?q2) \<noteq> None" by code_simp
  show ?thesis unfolding demo_query_def by (rule query_reach.add_column[OF r2 not_None_the[OF c]])
qed

theorem query_columns_split_witness:
  "\<exists>qs fs rest. getQueryAttributes demo_query [''a'', ''b'', ''c''] ''t'' = Some (map Some qs) \<and>
     getQueryFilterAttributes demo_query [''a'', ''b'', ''c''] ''t'' = Some (map Some fs) \<and>
     getQueryRestAttributes (map Some qs) (map Some fs) = Some (map Some rest) \<and> set rest = set qs - set fs \<and> set fs = {0}"
proof -
  have w: "\<forall>c \<in> set (d_elems (filterList (NoDBQueryDesc demo_query))). \<not> whole_row c" by code_simp
  have f: "getQueryFilterAttributes demo_query [''a'', ''b'', ''c''] ''t'' = Some [Some 0]" by code_simp
  have d: "distinct [''a'', ''b'', ''c'']" "''t'' \<noteq> []" by simp_all
  obtain qs fs rest where r: "getQueryAttributes demo_query [''a'', ''b'', ''c''] ''t'' = Some (map Some qs)"
      "getQueryFilterAttributes demo_query [''a'', ''b'', ''c''] ''t'' = Some (map Some fs)"
      "getQueryRestAttributes (map Some qs) (map Some fs) = Some (map Some rest)" "set rest = set qs - set fs"
    using query_columns_split[OF demo_query_reach d w] by blast
  have "set fs = {0}" using r(2) f by auto
  then show ?thesis using r by blast
qed

end
