(* ===== verification/NoDB_Plan.thy ===== *)
theory NoDB_Plan
  imports NoDB_Replay NoDB_Strategy Snoop_Query
begin

text \<open>
  The execution of a scan: the four plans of
  \<open>src/postgresql-9.6.5/src/backend/noDB/NoDBExecutor.c\<close> that deliver one tuple each, and from
  \<open>NoDBScan.c\<close> the state of a plan, its set-up, its update when the rows of a strategy are used up, and
  the restart of a scan.

  The objects several scans share (caches, relation descriptors, the registry of end-of-line caches, the
  cache arena) form a \<open>nodb_world\<close>; the pointer \<open>plan->eolCache\<close> is an address in its heap, and the cache
  is loaded into the reader for a read and stored back after it. What PostgreSQL itself provides (input
  functions of the types, encoding conversion, the evaluation of the filter, malloc) is in the record
  \<open>externals\<close>. Counters of C type long are integers; a 64-bit unsigned value assigned to one is read as
  signed.
\<close>

section \<open>The state of a scan\<close>

record nodb_world =
  nw_heap :: nodb_heap
  nw_eol :: "NoDBEOLCache_t list option"
  nw_caches :: "nat NoDBList_t"
  nw_info :: "NoDBExecInfoVector_t option"
  nw_arena :: arena_state
  nw_mem :: "64 word \<rightharpoonup> byte list"

definition eol_view :: "nodb_world \<Rightarrow> eol_state" where
  "eol_view w = \<lparr>EOLCaches = nw_eol w, eol_heap = nw_heap w\<rparr>"

definition put_eol :: "eol_state \<Rightarrow> nodb_world \<Rightarrow> nodb_world" where
  "put_eol e w = w\<lparr>nw_heap := eol_heap e, nw_eol := EOLCaches e\<rparr>"

definition cache_view :: "nodb_world \<Rightarrow> cache_world" where
  "cache_view w = \<lparr>cw_heap = nw_heap w, NoDBCaches = nw_caches w\<rparr>"

definition put_caches :: "cache_world \<Rightarrow> nodb_world \<Rightarrow> nodb_world" where
  "put_caches c w = w\<lparr>nw_heap := cw_heap c, nw_caches := NoDBCaches c\<rparr>"

definition load_cache :: "nodb_world \<Rightarrow> cache_ptr \<Rightarrow> NoDBCache_t option" where
  "load_cache w p = p \<bind> h_caches (nw_heap w)"

definition store_cache :: "nodb_world \<Rightarrow> cache_ptr \<Rightarrow> NoDBCache_t \<Rightarrow> nodb_world" where
  "store_cache w p c = (case p of None \<Rightarrow> w | Some a \<Rightarrow> w\<lparr>nw_heap := upd_cache (nw_heap w) a c\<rparr>)"

text \<open>A pointer to the execution information is an index into the vector of all of them.\<close>

definition load_info :: "nodb_world \<Rightarrow> nat \<Rightarrow> NoDBExecInfo_t option" where
  "load_info w i = do { v \<leftarrow> nw_info w; oe \<leftarrow> arr_get (eiv_vector v) (int i); oe }"

definition store_info :: "nodb_world \<Rightarrow> nat \<Rightarrow> NoDBExecInfo_t \<Rightarrow> nodb_world" where
  "store_info w i e = w\<lparr>nw_info := map_option (\<lambda>v. v\<lparr>eiv_vector := (eiv_vector v)[i := Some e]\<rparr>) (nw_info w)\<rparr>"

record externals =
  pg_encoding_mblen :: "byte \<Rightarrow> nat"
  pg_client_to_server :: "byte list \<Rightarrow> byte list option"
  pg_verifymbstr :: "byte list \<Rightarrow> bool"
  input_fn :: "int \<Rightarrow> byte list \<Rightarrow> 64 word"
  input_mem :: "64 word \<rightharpoonup> byte list"
  ExecQual :: "64 word option list \<Rightarrow> bool option list \<Rightarrow> bool"
  file_size :: "string \<Rightarrow> int option"
  ext_malloc :: "64 word \<Rightarrow> region list \<Rightarrow> nat"
  datumGetSize :: "byte list \<Rightarrow> int \<Rightarrow> nat"

datatype read_fn = FromFile | FromFileWithEOL

datatype exec_fn = ExecPlan | ExecPlanWithFilters | ExecPlanCacheOnly | ExecPlanWithFiltersCacheOnly

record NoDBPlanState_t =
  p_eolCache :: cache_ptr
  readFile :: read_fn
  iterator :: NoDBScanStrategyIterator_t
  curStrategy :: NoDBScanStrategy_t
  tuplesToRead :: int
  nRows :: int
  nEOL :: int
  nMin :: int
  hasEOL :: bool

record scan_state =
  s_read :: read_format
  s_format :: line_format
  s_natts :: int
  s_attrlen :: "int list"
  s_qual :: bool
  s_relation :: string
  s_reader :: reader
  s_line :: line_state
  s_values :: value_state
  s_plan :: NoDBPlanState_t
  s_execInfo :: nat
  readAllAtts :: NoDBColVector_t
  readFilterAtts :: NoDBColVector_t
  readRestAtts :: NoDBColVector_t
  writeDataCols :: NoDBColVector_t
  writePositionCols :: NoDBColVector_t
  execNoDBPlan :: exec_fn

abbreviation s_row :: "scan_state \<Rightarrow> NoDBRow_t" where
  "s_row s \<equiv> of_nat (processed (s_reader s))"

section \<open>The tuple slot\<close>

record TupleTableSlot =
  tts_isempty :: bool
  tts_shouldFree :: bool
  tts_shouldFreeMin :: bool
  tts_nvalid :: int
  tts_values :: "64 word option list"
  tts_isnull :: "bool option list"

text \<open>The slot points to the arrays of the scan state; here it holds what they contain on return.\<close>

definition generateTupleTableSlot :: "int \<Rightarrow> 64 word option list \<Rightarrow> bool option list \<Rightarrow> TupleTableSlot" where
  "generateTupleTableSlot natts vs ns =
     \<lparr>tts_isempty = False, tts_shouldFree = False, tts_shouldFreeMin = False, tts_nvalid = natts, tts_values = vs, tts_isnull = ns\<rparr>"

definition slot_of :: "scan_state \<Rightarrow> TupleTableSlot" where
  "slot_of s = generateTupleTableSlot (s_natts s) (dvalues (s_values s)) (dnulls (s_values s))"

section \<open>Choosing how to read\<close>

definition NoDBReadFromCacheOnly :: "NoDBScanStrategy_t \<Rightarrow> bool" where
  "NoDBReadFromCacheOnly t \<longleftrightarrow>
     (length (readPostFilterWithPM t) = 0 \<and> length (readPreFilterWithPM t) = 0 \<and> NoDBColVectorSize (readPreFilterWithFile t) = 0) \<and>
     (length (readPostFilterWithPM t) = 0 \<and> length (readPostFilterViaPM t) = 0 \<and> NoDBColVectorSize (readPostFilterWithFile t) = 0) \<and>
     (length (readPostFilterWithCache t) > 0 \<or> length (readPreFilterWithCache t) > 0)"

definition NoDBGetExecPlan :: "scan_state \<Rightarrow> exec_fn" where
  "NoDBGetExecPlan s =
     (let filters = s_qual s \<and> NoDBColVectorSize (readFilterAtts s) > 0 in
      if \<not> NoDBReadFromCacheOnly (curStrategy (s_plan s))
      then (if filters then ExecPlanWithFilters else ExecPlan)
      else (if filters then ExecPlanWithFiltersCacheOnly else ExecPlanCacheOnly))"

definition NoDBGetReadFile :: "int \<Rightarrow> read_fn" where
  "NoDBGetReadFile neol = (if neol > 0 then FromFileWithEOL else FromFile)"

section \<open>The steps of a plan\<close>

text \<open>A read works on the end-of-line cache of the plan and stores it back.\<close>

definition readFile_call :: "externals \<Rightarrow> nodb_world \<times> scan_state \<Rightarrow> (nodb_world \<times> scan_state \<times> bool) res option" where
  "readFile_call x ws = (case ws of (w, s) \<Rightarrow>
     do {
       c \<leftarrow> load_cache w (p_eolCache (s_plan s));
       e \<leftarrow> load_info w (s_execInfo s);
       let rd = (s_reader s)\<lparr>eolCache := c\<rparr>;
       r \<leftarrow> (case readFile (s_plan s) of
          FromFile \<Rightarrow> NoDBGetNextTupleFromFile (s_read s) (pg_encoding_mblen x) e (pg_client_to_server x) rd
        | FromFileWithEOL \<Rightarrow> map_option Val (NoDBGetNextTupleFromFileWithEOL (s_read s) e (pg_client_to_server x) rd));
       Some (case r of
          Err e \<Rightarrow> Err e
        | Val (rd, dn) \<Rightarrow> Val (store_cache w (p_eolCache (s_plan s)) (eolCache rd), s\<lparr>s_reader := rd\<rparr>, dn))
     })"

definition read_with_cache :: "nodb_world \<Rightarrow> NoDBColumnsPerCache_t option list \<Rightarrow> scan_state \<Rightarrow> scan_state option" where
  "read_with_cache w cpcs s =
     foldM (\<lambda>s oc. do {
         cpc \<leftarrow> oc;
         c \<leftarrow> load_cache w (cpc_cache cpc);
         (vs, ns) \<leftarrow> NoDBCacheGetDatumVector c (dvalues (s_values s)) (dnulls (s_values s)) (cpc_cols cpc) (s_row s);
         Some (s\<lparr>s_values := \<lparr>dvalues = vs, dnulls = ns\<rparr>\<rparr>)
       }) s cpcs"

definition attr_of_pair :: "NoDBPMPair_t \<Rightarrow> attr_t" where
  "attr_of_pair p = \<lparr>a_ptr = Some (pointer p), a_width = Some (width p)\<rparr>"

definition pair_of_attr :: "attr_t \<Rightarrow> NoDBPMPair_t option" where
  "pair_of_attr a = do { p \<leftarrow> a_ptr a; w \<leftarrow> a_width a; Some \<lparr>pointer = p, width = w\<rparr> }"

definition put_attributes :: "attr_t list \<Rightarrow> scan_state \<Rightarrow> scan_state" where
  "put_attributes at s = s\<lparr>s_line := (s_line s)\<lparr>attributes := at\<rparr>\<rparr>"

definition read_with_pm :: "nodb_world \<Rightarrow> NoDBColumnsPerCache_t option list \<Rightarrow> scan_state \<Rightarrow> scan_state option" where
  "read_with_pm w cpcs s =
     foldM (\<lambda>s oc. do {
         cpc \<leftarrow> oc;
         c \<leftarrow> load_cache w (cpc_cache cpc);
         let at = attributes (s_line s);
         pv \<leftarrow> NoDBCacheGetPMPairVector c (replicate (length at) None) (cpc_cols cpc) (s_row s);
         Some (put_attributes (map2 (\<lambda>a op. case op of None \<Rightarrow> a | Some p \<Rightarrow> attr_of_pair p) at pv) s)
       }) s cpcs"

definition read_via_pm :: "NoDBReadViaPM_t option list \<Rightarrow> scan_state \<Rightarrow> scan_state option" where
  "read_via_pm vias s =
     foldM (\<lambda>s ov. do {
         via \<leftarrow> ov;
         at \<leftarrow> NoDBGetNextTupleViaPM (s_format s) (line_buf (s_reader s)) via (attributes (s_line s));
         Some (put_attributes at s)
       }) s vias"

text \<open>
  The values are converted from the strings of a full parse when some column is read from the file, and
  else cut out of the line at the known positions, which leaves NUL bytes in the line.
\<close>

definition values_from_file :: "externals \<Rightarrow> NoDBColVector_t \<Rightarrow> scan_state \<Rightarrow> scan_state res option" where
  "values_from_file x cols s =
     do {
       r \<leftarrow> full_parse (csv_mode (s_read s)) (s_format s) (pg_verifymbstr x) (line_buf (s_reader s)) (s_line s);
       (case r of
          Err e \<Rightarrow> Some (Err e)
        | Val l \<Rightarrow>
            do {
              v \<leftarrow> NoDBGetValues (input_fn x) (field_strings l) cols (s_values s);
              Some (Val (s\<lparr>s_line := l, s_values := v\<rparr>))
            })
     }"

definition values_from_pm :: "externals \<Rightarrow> NoDBColVector_t \<Rightarrow> scan_state \<Rightarrow> scan_state option" where
  "values_from_pm x cols s =
     do {
       (buf, v) \<leftarrow> NoDBGetValuesWithPM (input_fn x) (attributes (s_line s)) cols (line_buf (s_reader s) @ [0], s_values s);
       Some (s\<lparr>s_values := v, s_reader := (s_reader s)\<lparr>line_buf := butlast buf\<rparr>\<rparr>)
     }"

definition read_columns ::
    "externals \<Rightarrow> nodb_world \<Rightarrow> NoDBColumnsPerCache_t option list \<Rightarrow> NoDBColumnsPerCache_t option list \<Rightarrow> NoDBReadViaPM_t option list \<Rightarrow>
     NoDBColVector_t \<Rightarrow> NoDBColVector_t \<Rightarrow> NoDBColVector_t \<Rightarrow> scan_state \<Rightarrow> scan_state res option" where
  "read_columns x w withCache withPM viaPM withFile convFile convPM s =
     do {
       s \<leftarrow> read_with_cache w withCache s;
       s \<leftarrow> read_with_pm w withPM s;
       s \<leftarrow> read_via_pm viaPM s;
       (if NoDBColVectorSize withFile > 0 then values_from_file x convFile s
        else map_option Val (values_from_pm x convPM s))
     }"

text \<open>New values and positions go to the caches.\<close>

definition write_by_value :: "NoDBColumnsPerCache_t option list \<Rightarrow> scan_state \<Rightarrow> nodb_world \<Rightarrow> nodb_world option" where
  "write_by_value cpcs s w =
     foldM (\<lambda>w oc. do {
         cpc \<leftarrow> oc;
         c \<leftarrow> load_cache w (cpc_cache cpc);
         c \<leftarrow> NoDBCacheSetDatumVector c (dvalues (s_values s)) (dnulls (s_values s)) (cpc_cols cpc) (s_row s);
         Some (store_cache w (cpc_cache cpc) c)
       }) w cpcs"

definition write_by_ref :: "externals \<Rightarrow> NoDBColumnsPerCache_t option list \<Rightarrow> scan_state \<Rightarrow> nodb_world \<Rightarrow> nodb_world option" where
  "write_by_ref x cpcs s w =
     foldM (\<lambda>w oc. do {
         cpc \<leftarrow> oc;
         c \<leftarrow> load_cache w (cpc_cache cpc);
         (c, ar, m) \<leftarrow> NoDBCacheSetDatumRefVector (ext_malloc x) (datumGetSize x) (c, nw_arena w, nw_mem w ++ input_mem x)
            (dvalues (s_values s)) (dnulls (s_values s)) (s_attrlen s) (cpc_cols cpc) (s_row s);
         Some (store_cache (w\<lparr>nw_arena := ar, nw_mem := m\<rparr>) (cpc_cache cpc) c)
       }) w cpcs"

definition write_positions :: "NoDBColumnsPerCache_t option list \<Rightarrow> scan_state \<Rightarrow> nodb_world \<Rightarrow> nodb_world option" where
  "write_positions cpcs s w =
     foldM (\<lambda>w oc. do {
         cpc \<leftarrow> oc;
         c \<leftarrow> load_cache w (cpc_cache cpc);
         c \<leftarrow> NoDBCacheSetPMPairVector c (map pair_of_attr (attributes (s_line s))) (cpc_cols cpc) (s_row s);
         Some (store_cache w (cpc_cache cpc) c)
       }) w cpcs"

definition write_caches :: "externals \<Rightarrow> NoDBScanStrategy_t \<Rightarrow> scan_state \<Rightarrow> nodb_world \<Rightarrow> nodb_world option" where
  "write_caches x t s w =
     do {
       w \<leftarrow> write_by_value (writeToCacheByValue t) s w;
       w \<leftarrow> write_by_ref x (writeToCacheByRef t) s w;
       write_positions (writeToPM t) s w
     }"

section \<open>The end of a strategy\<close>

definition set_used_rows :: "NoDBColumnsPerCache_t option list \<Rightarrow> NoDBRow_t \<Rightarrow> nodb_world \<Rightarrow> nodb_world option" where
  "set_used_rows cpcs row w =
     foldM (\<lambda>w oc. do {
         cpc \<leftarrow> oc;
         c \<leftarrow> load_cache w (cpc_cache cpc);
         Some (store_cache w (cpc_cache cpc) (NoDBCacheSetUsedRows c (row - NoDBCacheGetBegin c)))
       }) w cpcs"

definition NoDBFinalizeStrategy :: "nodb_world \<times> scan_state \<Rightarrow> nodb_world option" where
  "NoDBFinalizeStrategy ws = (case ws of (w, s) \<Rightarrow>
     (let t = curStrategy (s_plan s) in
      do {
        w \<leftarrow> set_used_rows (writeToCacheByRef t) (s_row s) w;
        w \<leftarrow> set_used_rows (writeToCacheByValue t) (s_row s) w;
        w \<leftarrow> set_used_rows (writeToPM t) (s_row s) w;
        e \<leftarrow> load_info w (s_execInfo s);
        e \<leftarrow> NoDBExecSetNumberOffRows (eol_view w) e;
        Some (store_info w (s_execInfo s) e)
      }))"

definition NoDBComputeBytesToSeek :: "NoDBCache_t \<Rightarrow> nat \<Rightarrow> nat \<Rightarrow> 64 word option" where
  "NoDBComputeBytesToSeek cache firstTuple lastTuple =
     foldM (\<lambda>bytes i. if int i > INT_MAX then None
                      else do { l \<leftarrow> NoDBCacheGetShortInt cache 0 (of_nat i); Some (bytes + scast l) }) 0 [firstTuple..<lastTuple]"

text \<open>A relative \<open>fseek\<close>; before the start of the file it fails and moves nothing.\<close>

definition fseek_cur :: "64 word \<Rightarrow> reader \<Rightarrow> reader" where
  "fseek_cur bytes rd =
     (let pos = int (copy_pos rd) + sint bytes in if pos < 0 then rd else rd\<lparr>copy_pos := nat pos\<rparr>)"

definition eol_end :: "NoDBCache_t \<Rightarrow> NoDBRow_t" where
  "eol_end c = NoDBCacheGetBegin c + NoDBCacheGetUsedRows c"

text \<open>
  When rows were delivered from the caches only, the file is behind: the position moves by the lengths of
  the lines in between, plus the size of the header.
\<close>

definition seek_bytes :: "NoDBCache_t \<Rightarrow> reader \<Rightarrow> 64 word option" where
  "seek_bytes c rd =
     do {
       bytes \<leftarrow> NoDBComputeBytesToSeek c (tupleRead rd) (processed rd);
       (if header_line rd \<and> read_header rd then
          do { h \<leftarrow> NoDBCacheGetHeaderSize c; Some (bytes + h) }
        else if header_line rd then
          do { h \<leftarrow> NoDBCacheGetHeaderSize c; Some (if h > 0 then bytes + h else bytes) }
        else Some bytes)
     }"

definition seek_to_tuple :: "NoDBCache_t \<Rightarrow> reader \<Rightarrow> reader option" where
  "seek_to_tuple c rd =
     (if tupleRead rd \<noteq> processed rd then
        (if eol_end c \<ge> of_nat (processed rd) then
           do {
             bytes \<leftarrow> seek_bytes c rd;
             Some ((fseek_cur bytes rd)\<lparr>raw_buf := [], raw_buf_index := 0, tupleStored := 0, tupleRead := processed rd\<rparr>)
           }
         else None)
      else Some rd)"

definition extend_eol :: "NoDBRow_t \<Rightarrow> NoDBRow_t \<Rightarrow> NoDBCache_t \<Rightarrow> NoDBCache_t option" where
  "extend_eol row n c =
     do {
       m \<leftarrow> NoDBCacheGetMaxRows c;
       (if m - NoDBCacheGetUsedRows c < n then NoDBCacheSetMaxRows c (row + n) else Some c)
     }"

definition min_rows :: "NoDBScanStrategy_t \<Rightarrow> int \<Rightarrow> int \<Rightarrow> int" where
  "min_rows t neol nrow = (if \<not> NoDBReadFromCacheOnly t \<and> neol > 0 then (if neol < nrow then neol else nrow) else nrow)"

definition put_plan :: "NoDBPlanState_t \<Rightarrow> scan_state \<Rightarrow> scan_state" where
  "put_plan p s = s\<lparr>s_plan := p\<rparr>"

text \<open>The counters of the strategy that was just used.\<close>

definition count_rows :: "NoDBPlanState_t \<Rightarrow> NoDBPlanState_t" where
  "count_rows p =
     (let p = (if nEOL p > 0 then p\<lparr>nEOL := nEOL p - tuplesToRead p\<rparr> else p);
          p = (if nRows p > 0 then p\<lparr>nRows := nRows p - tuplesToRead p\<rparr> else p) in
      if nEOL p = 0 then p\<lparr>hasEOL := False, readFile := NoDBGetReadFile (nEOL p)\<rparr> else p)"

definition next_strategy :: "nodb_world \<times> scan_state \<Rightarrow> (nodb_world \<times> scan_state) option" where
  "next_strategy ws = (case ws of (w, s) \<Rightarrow>
     do {
       let p = s_plan s;
       (cw, it, t) \<leftarrow> NoDBScanStrategyIteratorGet (cache_view w) (NoDBScanStrategyIteratorNext (iterator p));
       let w = put_caches cw w;
       c \<leftarrow> load_cache w (p_eolCache p);
       c \<leftarrow> extend_eol (s_row s) (nrows t) c;
       let w = store_cache w (p_eolCache p) c;
       let n = sint (nrows t);
       let s = put_plan (p\<lparr>iterator := it, curStrategy := t, nRows := n, nMin := min_rows t (nEOL p) n\<rparr>) s;
       Some (w, s\<lparr>execNoDBPlan := NoDBGetExecPlan s\<rparr>)
     })"

definition set_tuplesToRead :: "scan_state \<Rightarrow> scan_state" where
  "set_tuplesToRead s = put_plan ((s_plan s)\<lparr>tuplesToRead := nMin (s_plan s)\<rparr>) s"

definition NoDBUpdateStrategy :: "nodb_world \<times> scan_state \<Rightarrow> (nodb_world \<times> scan_state) option" where
  "NoDBUpdateStrategy ws = (case ws of (w, s) \<Rightarrow>
     (let p = count_rows (s_plan s); s = put_plan p s in
      if nRows p = 0 then
        do {
          w \<leftarrow> NoDBFinalizeStrategy (w, s);
          c \<leftarrow> load_cache w (p_eolCache p);
          rd \<leftarrow> seek_to_tuple c ((s_reader s)\<lparr>eolCache := c\<rparr>);
          (rd, eof) \<leftarrow> (if of_nat (tupleRead rd) \<ge> eol_end c then NoDBTryReFillRawBuf rd else Some (rd, False));
          let s = s\<lparr>s_reader := rd\<rparr>;
          let w = store_cache w (p_eolCache p) (eolCache rd);
          (if eof then Some (w, put_plan (p\<lparr>readFile := NoDBGetReadFile (nEOL p)\<rparr>) (s\<lparr>execNoDBPlan := ExecPlan\<rparr>))
           else map_option (\<lambda>(w, s). (w, set_tuplesToRead s)) (next_strategy (w, s)))
        }
      else Some (w, set_tuplesToRead (put_plan (p\<lparr>nMin := nRows p\<rparr>) s))))"

text \<open>After every tuple the row counter advances, and the strategy is updated when its rows are used up.\<close>

definition finish_tuple :: "nodb_world \<times> scan_state \<Rightarrow> (nodb_world \<times> scan_state) option" where
  "finish_tuple ws = (case ws of (w, s) \<Rightarrow>
     (let s = s\<lparr>s_reader := (s_reader s)\<lparr>processed := processed (s_reader s) + 1\<rparr>,
                s_plan := (s_plan s)\<lparr>nMin := nMin (s_plan s) - 1\<rparr>\<rparr> in
      if nMin (s_plan s) = 0 then NoDBUpdateStrategy (w, s) else Some (w, s)))"

section \<open>The start of a scan\<close>

definition NoDBPlanStateInit ::
    "NoDBScanStrategy_t \<Rightarrow> NoDBScanStrategyIterator_t \<Rightarrow> string \<Rightarrow> nodb_world \<Rightarrow> (nodb_world \<times> NoDBPlanState_t) option" where
  "NoDBPlanStateInit t it relname w =
     do {
       (e, p) \<leftarrow> NoDBInitEOLCache (eol_view w) relname (nrows t);
       let w = put_eol e w;
       c \<leftarrow> load_cache w (Some p);
       let neol = sint (NoDBCacheGetUsedRows c);
       let n = sint (nrows t);
       let m = min_rows t neol n;
       Some (w, \<lparr>p_eolCache = Some p, readFile = NoDBGetReadFile neol, iterator = it, curStrategy = t, tuplesToRead = m, nRows = n,
                 nEOL = neol, nMin = m, hasEOL = (neol > 0)\<rparr>)
     }"

text \<open>The execution information of a relation is created with its first scan; a column takes a datum and its null flag.\<close>

definition sizeof_Datum :: int where "sizeof_Datum = 16"

definition exec_info_for ::
    "externals \<Rightarrow> string \<Rightarrow> string \<Rightarrow> int list \<Rightarrow> nodb_world \<Rightarrow> (nodb_world \<times> nat) option" where
  "exec_info_for x relname filename attbyval w =
     do {
       r \<leftarrow> NoDBGetExecInfo (nw_heap w) (nw_info w) relname;
       (case r of
          Some i \<Rightarrow> Some (w, i)
        | None \<Rightarrow>
            do {
              rel \<leftarrow> foldM (\<lambda>rel bv. NoDBRelationAddColumn rel sizeof_Datum bv) (NoDBRelationInit relname) attbyval;
              let (h, relp) = new_rel (nw_heap w) rel;
              let w = w\<lparr>nw_heap := h\<rparr>;
              (v, i) \<leftarrow> NoDBExecInfoInit h (nw_info w) relp filename 0 0;
              let w = w\<lparr>nw_info := Some v\<rparr>;
              e \<leftarrow> load_info w i;
              e \<leftarrow> NoDBExecSetNumberOffBlocks (file_size x) e;
              Some (store_info w i e, i)
            })
     }"

definition write_columns :: "nat \<Rightarrow> NoDBColVector_t \<Rightarrow> nodb_world \<Rightarrow> (nodb_world \<times> NoDBColVector_t \<times> NoDBColVector_t) option" where
  "write_columns i atts w =
     do {
       e \<leftarrow> load_info w i;
       (e, wd) \<leftarrow> NoDBAggressiveCachePolicy e atts;
       (e, wp) \<leftarrow> NoDBAggressivePMPolicy e atts;
       Some (store_info w i e, wd, wp)
     }"

definition first_strategy ::
    "query_state \<Rightarrow> nat \<Rightarrow> NoDBColVector_t \<Rightarrow> NoDBColVector_t \<Rightarrow> NoDBColVector_t \<Rightarrow> NoDBColVector_t \<Rightarrow> nodb_world \<Rightarrow>
     (nodb_world \<times> NoDBScanStrategyIterator_t \<times> NoDBScanStrategy_t) option" where
  "first_strategy q i flt rest wd wp w =
     do {
       e \<leftarrow> load_info w i;
       (cw, it) \<leftarrow> NoDBScanStrategyIterator (cache_view w) (ei_rel e) (of_int (getQueryLimit q)) flt rest wd wp;
       (cw, it, t) \<leftarrow> NoDBScanStrategyIteratorGet cw it;
       Some (put_caches cw w, it, t)
     }"

definition last_attribute :: "NoDBColVector_t \<Rightarrow> int option" where
  "last_attribute atts = (if NoDBColVectorSize atts > 0 then NoDBColVectorGet atts (NoDBColVectorSize atts - 1) else Some 0)"

text \<open>
  \<open>NoDBScanStateInit\<close> on a state whose format, tuple descriptor (\<open>attrs\<close>, \<open>attbyval\<close>) and reader were set up
  before.
\<close>

definition NoDBScanStateInit ::
    "externals \<Rightarrow> query_state \<Rightarrow> string list \<Rightarrow> int list \<Rightarrow> string \<Rightarrow> nodb_world \<Rightarrow> scan_state \<Rightarrow> (nodb_world \<times> scan_state) option" where
  "NoDBScanStateInit x q attrs attbyval filename w s =
     do {
       at \<leftarrow> getQueryAttributes q attrs (s_relation s);
       (flt, rest) \<leftarrow> (if s_qual s then
            do {
              flt \<leftarrow> getQueryFilterAttributes q attrs (s_relation s);
              rest \<leftarrow> getQueryRestAttributes at flt;
              Some (flt, rest)
            }
          else Some (NoDBColVectorInit 0, at));
       (w, i) \<leftarrow> exec_info_for x (s_relation s) filename attbyval w;
       lastf \<leftarrow> last_attribute at;
       (w, wd, wp) \<leftarrow> write_columns i at w;
       (w, it, t) \<leftarrow> first_strategy q i flt rest wd wp w;
       (w, p) \<leftarrow> NoDBPlanStateInit t it (s_relation s) w;
       let n = nat (s_natts s);
       let s = s\<lparr>s_line := (s_line s)\<lparr>attributes := \<lparr>a_ptr = Some 0, a_width = None\<rparr> # replicate n \<lparr>a_ptr = None, a_width = None\<rparr>\<rparr>,
                 s_values := \<lparr>dvalues = replicate n (Some 0), dnulls = replicate n (Some True)\<rparr>,
                 s_format := (s_format s)\<lparr>lastfield := lastf\<rparr>,
                 s_execInfo := i, readAllAtts := at, readFilterAtts := flt, readRestAtts := rest,
                 writeDataCols := wd, writePositionCols := wp, s_plan := p\<rparr>;
       Some (w, s\<lparr>execNoDBPlan := NoDBGetExecPlan s\<rparr>)
     }"

text \<open>
  A rescan first brings the running strategy to its end; if the file has lines that no scan has seen, it
  goes on from there and does not start again.
\<close>

definition rewrite_columns :: "nat \<Rightarrow> NoDBColVector_t \<Rightarrow> nodb_world \<Rightarrow> scan_state \<Rightarrow> (nodb_world \<times> scan_state) option" where
  "rewrite_columns i atts w s =
     do {
       e \<leftarrow> load_info w i;
       (e, changed) \<leftarrow> NoDBExecReleaseCacheLocks e atts;
       (e, wd) \<leftarrow> (if changed \<noteq> 0 then NoDBAggressiveCachePolicy e atts else Some (e, writeDataCols s));
       (e, changed) \<leftarrow> NoDBExecReleasePMLocks e atts;
       (e, wp) \<leftarrow> (if changed \<noteq> 0 then NoDBAggressivePMPolicy e atts else Some (e, writePositionCols s));
       Some (store_info w i e, s\<lparr>writeDataCols := wd, writePositionCols := wp\<rparr>)
     }"

definition restart_scan :: "query_state \<Rightarrow> nodb_world \<times> scan_state \<Rightarrow> (nodb_world \<times> scan_state) option" where
  "restart_scan q ws = (case ws of (w, s) \<Rightarrow>
     do {
       let s = s\<lparr>s_reader := restart_file (s_reader s)\<rparr>;
       (w, s) \<leftarrow> rewrite_columns (s_execInfo s) (readAllAtts s) w s;
       (w, it, t) \<leftarrow> first_strategy q (s_execInfo s) (readFilterAtts s) (readRestAtts s) (writeDataCols s) (writePositionCols s) w;
       let p = s_plan s;
       c \<leftarrow> load_cache w (p_eolCache p);
       c \<leftarrow> extend_eol (s_row s) (nrows (curStrategy p)) c;
       let w = store_cache w (p_eolCache p) c;
       (w, p) \<leftarrow> NoDBPlanStateInit t it (s_relation s) w;
       let s = put_plan p s;
       Some (w, s\<lparr>execNoDBPlan := NoDBGetExecPlan s\<rparr>)
     })"

definition NoDBScanStateReInit :: "query_state \<Rightarrow> nodb_world \<times> scan_state \<Rightarrow> (nodb_world \<times> scan_state) option" where
  "NoDBScanStateReInit q ws = (case ws of (w, s) \<Rightarrow>
     do {
       w \<leftarrow> NoDBFinalizeStrategy (w, s);
       let p = s_plan s;
       c \<leftarrow> load_cache w (p_eolCache p);
       rd \<leftarrow> seek_to_tuple c ((s_reader s)\<lparr>eolCache := c\<rparr>);
       (rd, more) \<leftarrow> (if of_nat (tupleRead rd) \<ge> eol_end c
                       then map_option (\<lambda>(rd, eof). (rd, \<not> eof)) (NoDBTryReFillRawBuf rd) else Some (rd, False));
       let s = s\<lparr>s_reader := rd\<rparr>;
       let w = store_cache w (p_eolCache p) (eolCache rd);
       (if more then Some (w, put_plan (p\<lparr>readFile := NoDBGetReadFile (nEOL p)\<rparr>) (s\<lparr>execNoDBPlan := NoDBGetExecPlan s\<rparr>))
        else restart_scan q (w, s))
     })"

section \<open>The plans\<close>

text \<open>A plan returns the slot (\<open>None\<close> for NULL at the end of the file) and the value of \<open>*pass\<close>.\<close>

type_synonym exec_result = "(nodb_world \<times> scan_state \<times> TupleTableSlot option \<times> bool) res option"

definition return_tuple :: "bool \<Rightarrow> nodb_world \<times> scan_state \<Rightarrow> exec_result" where
  "return_tuple pass ws = map_option (\<lambda>(w, s). Val (w, s, Some (slot_of s), pass)) (finish_tuple ws)"

definition NoDBExecPlan :: "externals \<Rightarrow> nodb_world \<Rightarrow> scan_state \<Rightarrow> bool \<Rightarrow> exec_result" where
  "NoDBExecPlan x w s pass =
     do {
       r \<leftarrow> readFile_call x (w, s);
       (case r of
          Err e \<Rightarrow> Some (Err e)
        | Val (w, s, True) \<Rightarrow> Some (Val (w, s, None, pass))
        | Val (w, s, False) \<Rightarrow>
            (let t = curStrategy (s_plan s) in
             do {
               r \<leftarrow> read_columns x w (readPostFilterWithCache t) (readPostFilterWithPM t) (readPostFilterViaPM t)
                      (readPostFilterWithFile t) (convertPostFilter t) (convertPostFilter t) s;
               (case r of
                  Err e \<Rightarrow> Some (Err e)
                | Val s \<Rightarrow> do { w \<leftarrow> write_caches x t s w; return_tuple pass (w, s) })
             }))
     }"

definition NoDBExecPlanWithFilters :: "externals \<Rightarrow> nodb_world \<Rightarrow> scan_state \<Rightarrow> exec_result" where
  "NoDBExecPlanWithFilters x w s =
     do {
       r \<leftarrow> readFile_call x (w, s);
       (case r of
          Err e \<Rightarrow> Some (Err e)
        | Val (w, s, True) \<Rightarrow> Some (Val (w, s, None, False))
        | Val (w, s, False) \<Rightarrow>
            (let t = curStrategy (s_plan s) in
             do {
               r \<leftarrow> read_columns x w (readPreFilterWithCache t) (readPreFilterWithPM t) (readPreFilterViaPM t)
                      (readPreFilterWithFile t) (convertPreFilter t) (convertPreFilter t) s;
               (case r of
                  Err e \<Rightarrow> Some (Err e)
                | Val s \<Rightarrow>
                    (let pass = ExecQual x (dvalues (s_values s)) (dnulls (s_values s)) in
                     do {
                       r \<leftarrow> (if pass then
                               read_columns x w (readPostFilterWithCache t) (readPostFilterWithPM t) (readPostFilterViaPM t)
                                 (readPostFilterWithFile t) (readPostFilterWithFile t) (convertPostFilter t) s
                             else Some (Val s));
                       (case r of
                          Err e \<Rightarrow> Some (Err e)
                        | Val s \<Rightarrow> do { w \<leftarrow> write_caches x t s w; return_tuple pass (w, s) })
                     }))
             }))
     }"

definition NoDBExecPlanCacheOnly :: "nodb_world \<Rightarrow> scan_state \<Rightarrow> bool \<Rightarrow> exec_result" where
  "NoDBExecPlanCacheOnly w s pass =
     do {
       s \<leftarrow> read_with_cache w (readPostFilterWithCache (curStrategy (s_plan s))) s;
       return_tuple pass (w, s)
     }"

definition NoDBExecPlanWithFiltersCacheOnly :: "externals \<Rightarrow> nodb_world \<Rightarrow> scan_state \<Rightarrow> exec_result" where
  "NoDBExecPlanWithFiltersCacheOnly x w s =
     (let t = curStrategy (s_plan s) in
      do {
        s \<leftarrow> read_with_cache w (readPreFilterWithCache t) s;
        let pass = ExecQual x (dvalues (s_values s)) (dnulls (s_values s));
        s \<leftarrow> (if pass then read_with_cache w (readPostFilterWithCache t) s else Some s);
        return_tuple pass (w, s)
      })"

fun execNoDBPlan_call :: "externals \<Rightarrow> nodb_world \<Rightarrow> scan_state \<Rightarrow> bool \<Rightarrow> exec_result" where
  "execNoDBPlan_call x w s pass =
     (case execNoDBPlan s of
        ExecPlan \<Rightarrow> NoDBExecPlan x w s pass
      | ExecPlanWithFilters \<Rightarrow> NoDBExecPlanWithFilters x w s
      | ExecPlanCacheOnly \<Rightarrow> NoDBExecPlanCacheOnly w s pass
      | ExecPlanWithFiltersCacheOnly \<Rightarrow> NoDBExecPlanWithFiltersCacheOnly x w s)"

end
