(* ===== verification/NoDB_Stores.thy ===== *)
theory NoDB_Stores
  imports NoDB_Plan
begin

text \<open>
  Writing a row to several caches: the contract of a plan with the data caches and with the positional
  maps, proved once for any representation of the cells and used for both.
\<close>

section \<open>Cells of the caches of a world\<close>

definition cell_room :: "nat \<Rightarrow> nodb_world \<Rightarrow> nat \<Rightarrow> NoDBCol_t \<Rightarrow> NoDBRow_t \<Rightarrow> bool" where
  "cell_room m w p col row \<longleftrightarrow> (\<exists>c. h_caches (nw_heap w) p = Some c \<and> cell_ok c col row m)"

definition cell_value :: "(byte list \<Rightarrow> 'v) \<Rightarrow> nat \<Rightarrow> nodb_world \<Rightarrow> nat \<Rightarrow> NoDBCol_t \<Rightarrow> NoDBRow_t \<Rightarrow> 'v option" where
  "cell_value dec m w p col row = do { c \<leftarrow> h_caches (nw_heap w) p; cell_get dec m c col row }"

text \<open>Columns \<open>cs\<close> for the cache at \<open>p\<close>, as an entry of a strategy.\<close>

definition cpc :: "nat \<times> NoDBCol_t list \<Rightarrow> NoDBColumnsPerCache_t option" where
  "cpc pc = Some \<lparr>cpc_cache = Some (fst pc), cpc_cols = map Some (snd pc)\<rparr>"

definition target :: "(nat \<times> NoDBCol_t list) list \<Rightarrow> nat \<Rightarrow> NoDBCol_t \<Rightarrow> bool" where
  "target pcs p col \<longleftrightarrow> (\<exists>cs. (p, cs) \<in> set pcs \<and> col \<in> set cs)"

definition targets_ok :: "(nat \<times> NoDBCol_t list) list \<Rightarrow> bool" where
  "targets_ok pcs \<longleftrightarrow> (\<forall>(p, cs) \<in> set pcs. distinct cs \<and> cs \<noteq> [])"

definition row_room :: "nat \<Rightarrow> (nat \<times> NoDBCol_t list) list \<Rightarrow> nodb_world \<Rightarrow> NoDBRow_t \<Rightarrow> bool" where
  "row_room m pcs w row \<longleftrightarrow> (\<forall>p col. target pcs p col \<longrightarrow> cell_room m w p col row)"

definition row_holds ::
    "(byte list \<Rightarrow> 'v) \<Rightarrow> nat \<Rightarrow> (nat \<times> NoDBCol_t list) list \<Rightarrow> nodb_world \<Rightarrow> NoDBRow_t \<Rightarrow> (NoDBCol_t \<Rightarrow> 'v) \<Rightarrow> bool" where
  "row_holds dec m pcs w row V \<longleftrightarrow> (\<forall>p col. target pcs p col \<longrightarrow> cell_value dec m w p col row = Some (V col))"

lemma target_fst: "target pcs p col \<Longrightarrow> p \<in> fst ` set pcs"
  by (force simp: target_def)

lemma target_Cons: "target ((p, cs) # pcs) q col \<longleftrightarrow> q = p \<and> col \<in> set cs \<or> target pcs q col"
  by (auto simp: target_def)

lemma targets_ok_Cons: "targets_ok ((p, cs) # pcs) \<longleftrightarrow> distinct cs \<and> cs \<noteq> [] \<and> targets_ok pcs"
  by (auto simp: targets_ok_def)

lemma store_cache_heap [simp]:
  "h_caches (nw_heap (store_cache w (Some p) c)) = (h_caches (nw_heap w))(p := Some c)"
  by (simp add: store_cache_def upd_cache_def)

lemma store_cache_info [simp]: "nw_info (store_cache w p c) = nw_info w"
  by (simp add: store_cache_def split: option.splits)

section \<open>Caches that stay as they are\<close>

definition keeps :: "nat set \<Rightarrow> nodb_world \<Rightarrow> nodb_world \<Rightarrow> bool" where
  "keeps D w w' \<longleftrightarrow> (\<forall>p \<in> D. h_caches (nw_heap w') p = h_caches (nw_heap w) p)"

lemma keeps_refl [simp]: "keeps D w w"
  by (simp add: keeps_def)

lemma keeps_trans: "keeps D w1 w2 \<Longrightarrow> keeps D w2 w3 \<Longrightarrow> keeps D w1 w3"
  by (simp add: keeps_def)

lemma keeps_mono: "keeps D w w' \<Longrightarrow> E \<subseteq> D \<Longrightarrow> keeps E w w'"
  by (auto simp: keeps_def)

lemma keeps_cells: "keeps D w w' \<Longrightarrow> p \<in> D \<Longrightarrow> cell_value dec m w' p col row = cell_value dec m w p col row \<and> cell_room m w' p col row = cell_room m w p col row"
  by (simp add: keeps_def cell_value_def cell_room_def)

lemma keeps_cache: "keeps D w w' \<Longrightarrow> p \<in> D \<Longrightarrow> load_cache w' (Some p) = load_cache w (Some p)"
  by (simp add: keeps_def load_cache_def)

lemma store_cache_keeps: "q \<notin> Some ` D \<Longrightarrow> keeps D w (store_cache w q c)"
  by (cases q) (auto simp: keeps_def store_cache_def upd_cache_def)

lemma keeps_rows:
  assumes "keeps (fst ` set pcs) w w'"
  shows "row_room m pcs w' row = row_room m pcs w row" "row_holds dec m pcs w' row V = row_holds dec m pcs w row V"
  using keeps_cells[OF assms target_fst] unfolding row_room_def row_holds_def by metis+

section \<open>Writing a row\<close>

definition write_all :: "('v \<Rightarrow> byte list) \<Rightarrow> (nat \<times> NoDBCol_t list) list \<Rightarrow> NoDBRow_t \<Rightarrow> (NoDBCol_t \<Rightarrow> 'v) \<Rightarrow> nodb_world \<Rightarrow> nodb_world option" where
  "write_all enc pcs row V w =
     foldM (\<lambda>w (p, cs). do {
         c \<leftarrow> h_caches (nw_heap w) p;
         c \<leftarrow> foldM (\<lambda>c col. cell_set enc c col row (V col)) c cs;
         Some (store_cache w (Some p) c)
       }) w pcs"

text \<open>What storing one row may change in the cells of size \<open>m\<close>.\<close>

definition stores :: "(byte list \<Rightarrow> 'v) \<Rightarrow> nat \<Rightarrow> NoDBRow_t \<Rightarrow> (NoDBCol_t \<Rightarrow> 'v) \<Rightarrow> nodb_world \<Rightarrow> nodb_world \<Rightarrow> bool" where
  "stores dec m row V w w' \<longleftrightarrow> (\<forall>p col row'. cell_room m w p col row' \<longrightarrow> cell_room m w' p col row' \<and>
     (cell_value dec m w' p col row' = cell_value dec m w p col row' \<or> row' = row \<and> cell_value dec m w' p col row' = Some (V col)))"

lemma stores_refl [simp]: "stores dec m row V w w"
  by (simp add: stores_def)

lemma stores_trans: "stores dec m row V w1 w2 \<Longrightarrow> stores dec m row V w2 w3 \<Longrightarrow> stores dec m row V w1 w3"
  unfolding stores_def by metis

context byte_codec
begin

lemma write_cache:
  assumes "h_caches (nw_heap w) p = Some c" "distinct cs" "\<forall>col \<in> set cs. cell_room n w p col row"
  obtains c' where "foldM (\<lambda>c col. cell_set enc c col row (V col)) c cs = Some c'" "stores dec n row V w (store_cache w (Some p) c')"
    "\<forall>col \<in> set cs. cell_value dec n (store_cache w (Some p) c') p col row = Some (V col)"
proof -
  have ok: "\<forall>col \<in> set cs. cell_ok c col row n" using assms(1,3) by (simp add: cell_room_def)
  obtain c' where c': "foldM (\<lambda>c col. cell_set enc c col row (V col)) c cs = Some c'" "same_dir c c'"
      "\<forall>col \<in> set cs. cell_get dec n c' col row = Some (V col)"
      "\<forall>col' row' m. cell_ok c col' row' m \<longrightarrow> row' \<noteq> row \<or> col' \<notin> set cs \<longrightarrow> cell_get dec m c' col' row' = cell_get dec m c col' row'"
    using set_vector[OF assms(2) ok, of V dec] by blast
  have "stores dec n row V w (store_cache w (Some p) c')"
    unfolding stores_def
  proof (intro allI impI)
    fix q col row' assume a: "cell_room n w q col row'"
    let ?w = "store_cache w (Some p) c'"
    show "cell_room n ?w q col row' \<and> (cell_value dec n ?w q col row' = cell_value dec n w q col row' \<or>
        row' = row \<and> cell_value dec n ?w q col row' = Some (V col))"
    proof (cases "q = p")
      case True
      then have "cell_ok c col row' n" using a assms(1) by (simp add: cell_room_def)
      then show ?thesis using True assms(1) c'(3,4) same_dir_cell_ok[OF c'(2)] by (auto simp: cell_room_def cell_value_def)
    qed (use a in \<open>simp add: cell_room_def cell_value_def\<close>)
  qed
  then show thesis using that[OF c'(1)] c'(3) by (simp add: cell_value_def)
qed

lemma write_all_stores:
  assumes "targets_ok pcs" "row_room n pcs w row"
  shows "\<exists>w'. write_all enc pcs row V w = Some w' \<and> row_holds dec n pcs w' row V \<and> stores dec n row V w w' \<and>
    keeps (- fst ` set pcs) w w' \<and> nw_info w' = nw_info w"
  using assms
proof (induction pcs arbitrary: w)
  case Nil
  then show ?case by (simp add: write_all_def row_holds_def target_def)
next
  case (Cons pc pcs)
  obtain p cs where pc: "pc = (p, cs)" by (cases pc)
  have ok: "distinct cs" "cs \<noteq> []" "targets_ok pcs" using Cons.prems(1) by (simp_all add: pc targets_ok_Cons)
  have room: "\<forall>col \<in> set cs. cell_room n w p col row" "row_room n pcs w row"
    using Cons.prems(2) unfolding pc row_room_def target_Cons by blast+
  obtain c where c: "h_caches (nw_heap w) p = Some c" using room(1) ok(2) by (cases cs) (auto simp: cell_room_def)
  obtain c' where c': "foldM (\<lambda>c col. cell_set enc c col row (V col)) c cs = Some c'" "stores dec n row V w (store_cache w (Some p) c')"
      "\<forall>col \<in> set cs. cell_value dec n (store_cache w (Some p) c') p col row = Some (V col)"
    by (rule write_cache[OF c ok(1) room(1)])
  let ?w = "store_cache w (Some p) c'"
  have "row_room n pcs ?w row" using room(2) c'(2) unfolding row_room_def stores_def by blast
  then obtain w' where w': "write_all enc pcs row V ?w = Some w'" "row_holds dec n pcs w' row V" "stores dec n row V ?w w'"
      "keeps (- fst ` set pcs) ?w w'" "nw_info w' = nw_info ?w"
    using Cons.IH[OF ok(3)] by blast
  have "cell_value dec n w' p col row = Some (V col)" if "col \<in> set cs" for col
    using w'(3) c'(2,3) room(1) that unfolding stores_def by metis
  then have "row_holds dec n (pc # pcs) w' row V" using w'(2) unfolding pc row_holds_def target_Cons by blast
  moreover have "keeps (- fst ` set (pc # pcs)) w w'" using w'(4) by (auto simp: keeps_def pc)
  moreover have "write_all enc (pc # pcs) row V w = Some w'" using w'(1) c c'(1) by (simp add: write_all_def pc)
  ultimately show ?case using stores_trans[OF c'(2) w'(3)] w'(5) by auto
qed

lemma stores_rows:
  assumes "stores dec n row V w w'"
  shows "row_room n pcs w row' \<Longrightarrow> row_room n pcs w' row'"
    "row' \<noteq> row \<Longrightarrow> row_room n pcs w row' \<Longrightarrow> row_holds dec n pcs w row' U \<Longrightarrow> row_holds dec n pcs w' row' U"
  using assms unfolding stores_def row_room_def row_holds_def by (blast, metis)

end

end
