(* ===== verification/NoDB_PlanSpec.thy ===== *)
theory NoDB_PlanSpec
  imports NoDB_Stores
begin

text \<open>
  What the plans do to the shared caches: tuples that a plan parsed and stored by value are delivered
  again by the plan that reads the caches only.
\<close>

lemma foldM_bind: "foldM f s (x # xs) = f s x \<bind> (\<lambda>s'. foldM f s' xs)"
  by (cases "f s x") simp_all

section \<open>Reading a line leaves the row counter alone\<close>

definition pass_row :: "nat \<Rightarrow> pass \<Rightarrow> bool" where
  "pass_row n q = (case q of Again rd s \<Rightarrow> processed rd = n | Stop rd p b \<Rightarrow> processed rd = n | Fail e \<Rightarrow> True)"

lemma not_end_row: "pass_row (processed rd) (not_end_of_copy fmt mb rd s c prev p)"
  by (simp add: not_end_of_copy_def pass_row_def refill_def Let_def)

lemma marker_row: "marker_end fmt mb rd s c prev p = Some q \<Longrightarrow> pass_row (processed rd) q"
  using not_end_row[of rd fmt mb s c prev] by (auto simp: marker_end_def refill_def bind_eq_Some_conv pass_row_def split: if_splits)

lemma backslash_row: "backslash fmt mb rd s c prev p = Some q \<Longrightarrow> pass_row (processed rd) q"
  using not_end_row[of rd fmt mb s c prev] marker_row[of fmt mb rd s c prev]
  by (auto simp: backslash_def end_marker_def refill_def bind_eq_Some_conv pass_row_def split: if_splits)

lemma return_row: "carriage_return rd s prev p = Some q \<Longrightarrow> pass_row (processed rd) q"
  by (auto simp: carriage_return_def refill_def bind_eq_Some_conv pass_row_def split: if_splits)

lemma newline_row: "pass_row (processed rd) (newline rd p)"
  by (simp add: newline_def pass_row_def)

lemma count_line_row [simp]: "processed (count_line fmt c s rd) = processed rd"
  by (simp add: count_line_def)

lemma read_pass_row: "read_pass fmt mb rd s = Some q \<Longrightarrow> pass_row (processed rd) q"
  using not_end_row[of "count_line fmt c (csv_state fmt c s) rd" fmt mb for c] backslash_row[of fmt mb "count_line fmt c (csv_state fmt c s) rd" for c]
    return_row[of "count_line fmt c (csv_state fmt c s) rd" for c] newline_row[of "count_line fmt c (csv_state fmt c s) rd" for c]
  by (auto simp: read_pass_def Let_def refill_def bind_eq_Some_conv pass_row_def split: if_splits)

lemma load_raw_row: "NoDBCopyLoadRawBuf rd = Some (rd', b) \<Longrightarrow> processed rd' = processed rd"
  by (auto simp: NoDBCopyLoadRawBuf_def NoDBCopyGetData_def fread_def Let_def bind_eq_Some_conv split: if_splits)

lemma refill_row: "REFILL_LINEBUF p rd = Some rd' \<Longrightarrow> processed rd' = processed rd"
  by (auto simp: REFILL_LINEBUF_def split: if_splits)

lemma load_more_row: "load_more rd s = Some (rd', s') \<Longrightarrow> processed rd' = processed rd"
  by (auto simp: load_more_def bind_eq_Some_conv dest!: load_raw_row refill_row)

lemma read_line_loop_row: "read_line_loop fmt mb rd s = Some (Val (rd', p, b)) \<Longrightarrow> processed rd' = processed rd"
proof (induction fmt mb rd s rule: read_line_loop.induct)
  case (1 fmt mb rd s)
  let ?l = "if length (raw_buf rd) \<le> ptr s \<or> need_data s then load_more rd s else Some (rd, s)"
  obtain r t where rt: "?l = Some (r, t)" using 1(2) by (cases ?l) (auto simp: read_line_loop.simps)
  have r: "processed r = processed rd" using rt by (auto dest: load_more_row split: if_splits)
  show ?case
  proof (cases "raw_buf r = []")
    case True
    then show ?thesis using 1(2) rt r by (simp add: read_line_loop.simps)
  next
    case False
    obtain q where q: "read_pass fmt mb r t = Some q" using 1(2) rt False by (cases "read_pass fmt mb r t") (simp_all add: read_line_loop.simps)
    show ?thesis
    proof (cases q)
      case (Again r' t')
      then show ?thesis using 1(1)[OF rt refl False q Again] 1(2) rt False q r read_pass_row[OF q]
        by (simp add: read_line_loop.simps[of fmt mb rd s] pass_row_def)
    qed (use 1(2) rt False q r read_pass_row[OF q] in \<open>simp_all add: read_line_loop.simps[of fmt mb rd s] pass_row_def\<close>)
  qed
qed

lemma read_line_row: "NoDBCopyReadLineText fmt mb rd = Some (Val (rd', b)) \<Longrightarrow> processed rd' = processed rd"
  by (auto simp: NoDBCopyReadLineText_def bind_eq_Some_conv dest!: read_line_loop_row refill_row split: option.splits res.splits)

lemma convert_row [simp]: "processed (convertToServerEncoding fmt e conv rd) = processed rd"
  by (simp add: convertToServerEncoding_def Let_def split: option.splits)

lemma from_file_row: "NoDBGetNextTupleFromFile fmt mb e conv rd = Some (Val (rd', b)) \<Longrightarrow> processed rd' = processed rd"
  by (auto simp: NoDBGetNextTupleFromFile_def strip_eol_def Let_def bind_eq_Some_conv dest!: read_line_row
      split: option.splits res.splits if_splits EolType.splits)

lemma read_block_row: "read_block rd = Some (rd', b) \<Longrightarrow> processed rd' = processed rd"
  by (auto simp: read_block_def skip_header_def fread_def Let_def bind_eq_Some_conv split: if_splits prod.splits)

lemma with_eol_row: "NoDBGetNextTupleFromFileWithEOL fmt e conv rd = Some (rd', b) \<Longrightarrow> processed rd' = processed rd"
  by (auto simp: NoDBGetNextTupleFromFileWithEOL_def NoDBCopyReadLineTextWithEOL_def Let_def bind_eq_Some_conv dest!: read_block_row
      split: if_splits)

lemma readFile_call_row:
  assumes "readFile_call x (w, s) = Some (Val (w', s', b))"
  shows "processed (s_reader s') = processed (s_reader s)" "s' = s\<lparr>s_reader := s_reader s'\<rparr>"
    "\<exists>c. w' = store_cache w (p_eolCache (s_plan s)) c"
proof -
  obtain c e r where r: "(case readFile (s_plan s) of
        FromFile \<Rightarrow> NoDBGetNextTupleFromFile (s_read s) (pg_encoding_mblen x) e (pg_client_to_server x) ((s_reader s)\<lparr>eolCache := c\<rparr>)
      | FromFileWithEOL \<Rightarrow> map_option Val (NoDBGetNextTupleFromFileWithEOL (s_read s) e (pg_client_to_server x) ((s_reader s)\<lparr>eolCache := c\<rparr>))) =
      Some (Val (r, b))" "w' = store_cache w (p_eolCache (s_plan s)) (eolCache r)" "s' = s\<lparr>s_reader := r\<rparr>"
    using assms unfolding readFile_call_def Let_def prod.case bind_eq_Some_conv option.inject
    by (elim exE conjE) (auto split: res.splits)
  have "processed r = processed (s_reader s)"
    using r(1) by (cases "readFile (s_plan s)") (auto dest!: from_file_row with_eol_row)
  then show "processed (s_reader s') = processed (s_reader s)" "s' = s\<lparr>s_reader := s_reader s'\<rparr>"
    "\<exists>c. w' = store_cache w (p_eolCache (s_plan s)) c"
    using r(2,3) by auto
qed

section \<open>The data the caches hold\<close>

abbreviation stored :: "nodb_world \<Rightarrow> nat \<Rightarrow> NoDBCol_t \<Rightarrow> NoDBRow_t \<Rightarrow> NoDBDatum_t option" where
  "stored \<equiv> cell_value dec_datum 9"

abbreviation cells_for :: "(nat \<times> NoDBCol_t list) list \<Rightarrow> nodb_world \<Rightarrow> NoDBRow_t \<Rightarrow> bool" where
  "cells_for \<equiv> row_room 9"

abbreviation holds_row :: "(nat \<times> NoDBCol_t list) list \<Rightarrow> nodb_world \<Rightarrow> NoDBRow_t \<Rightarrow> (NoDBCol_t \<Rightarrow> NoDBDatum_t) \<Rightarrow> bool" where
  "holds_row \<equiv> row_holds dec_datum 9"

definition datum_of :: "scan_state \<Rightarrow> NoDBCol_t \<Rightarrow> NoDBDatum_t" where
  "datum_of s col = \<lparr>datum = the (dvalues (s_values s) ! nat col), null = the (dnulls (s_values s) ! nat col)\<rparr>"

lemma foldM_Some_each: "foldM f s xs = Some t \<Longrightarrow> x \<in> set xs \<Longrightarrow> \<exists>u u'. f u x = Some u'"
  by (induction xs arbitrary: s) (auto split: option.splits)

lemma set_vector_values:
  assumes "NoDBCacheSetDatumVector c dv nv (map Some cs) row = Some c'" "col \<in> set cs"
  shows "arr_get dv col = Some (Some (the (dv ! nat col)))" "arr_get nv col = Some (Some (the (nv ! nat col)))"
proof -
  obtain i where i: "i < length cs" "cs ! i = col" using assms(2) by (auto simp: in_set_conv_nth)
  have "i \<in> set [0..<nat (NoDBColVectorSize (map Some cs))]" using i(1) by (simp add: NoDBColVectorSize_def)
  from foldM_Some_each[OF assms(1)[unfolded NoDBCacheSetDatumVector_def] this] i
  obtain d n where "arr_get dv col = Some (Some d)" "arr_get nv col = Some (Some n)"
    by (auto simp: bind_eq_Some_conv NoDBColVectorGet_def)
  then show "arr_get dv col = Some (Some (the (dv ! nat col)))" "arr_get nv col = Some (Some (the (nv ! nat col)))"
    by (auto simp: arr_get_Some_iff)
qed

lemma write_by_value_Cons:
  "write_by_value (cpc pc # cpcs) s w =
     do {
       c \<leftarrow> h_caches (nw_heap w) (fst pc);
       c \<leftarrow> NoDBCacheSetDatumVector c (dvalues (s_values s)) (dnulls (s_values s)) (map Some (snd pc)) (s_row s);
       write_by_value cpcs s (store_cache w (Some (fst pc)) c)
     }"
  by (simp add: write_by_value_def cpc_def load_cache_def foldM_bind del: foldM.simps(2))

lemma write_by_value_all:
  assumes "write_by_value (map cpc pcs) s w = Some w'"
  shows "write_all enc_datum pcs (s_row s) (datum_of s) w = Some w'"
  using assms
proof (induction pcs arbitrary: w)
  case (Cons pc pcs)
  obtain p cs where pc: "pc = (p, cs)" by (cases pc)
  obtain c c' where c: "h_caches (nw_heap w) p = Some c"
      "NoDBCacheSetDatumVector c (dvalues (s_values s)) (dnulls (s_values s)) (map Some cs) (s_row s) = Some c'"
      "write_by_value (map cpc pcs) s (store_cache w (Some p) c') = Some w'"
    using Cons.prems unfolding pc list.map write_by_value_Cons by (auto simp: bind_eq_Some_conv)
  have v: "\<forall>col \<in> set cs. arr_get (dvalues (s_values s)) col = Some (Some (datum (datum_of s col))) \<and>
      arr_get (dnulls (s_values s)) col = Some (Some (null (datum_of s col)))"
    using set_vector_values[OF c(2)] by (simp add: datum_of_def)
  then show ?case using c(1,2) Cons.IH[OF c(3)] NoDBCacheSetDatumVector_eq[OF v, of c "s_row s"] by (simp add: write_all_def pc)
qed (simp add: write_by_value_def write_all_def)

lemma write_by_value_eq:
  assumes "\<forall>p col. target pcs p col \<longrightarrow> arr_get (dvalues (s_values s)) col = Some (Some (datum (V col))) \<and>
      arr_get (dnulls (s_values s)) col = Some (Some (null (V col)))"
  shows "write_by_value (map cpc pcs) s w = write_all enc_datum pcs (s_row s) V w"
  using assms
proof (induction pcs arbitrary: w)
  case (Cons pc pcs)
  obtain p cs where pc: "pc = (p, cs)" by (cases pc)
  have v: "\<forall>col \<in> set cs. arr_get (dvalues (s_values s)) col = Some (Some (datum (V col))) \<and>
      arr_get (dnulls (s_values s)) col = Some (Some (null (V col)))"
    using Cons.prems unfolding pc target_Cons by blast
  have IH: "write_by_value (map cpc pcs) s w = write_all enc_datum pcs (s_row s) V w" for w
    using Cons.prems by (intro Cons.IH) (simp add: pc target_Cons)
  have "write_by_value (map cpc (pc # pcs)) s w = do {
       c \<leftarrow> h_caches (nw_heap w) p;
       c \<leftarrow> foldM (\<lambda>c col. cell_set enc_datum c col (s_row s) (V col)) c cs;
       write_all enc_datum pcs (s_row s) V (store_cache w (Some p) c) }"
    unfolding list.map pc write_by_value_Cons IH using NoDBCacheSetDatumVector_eq[OF v] by simp
  then show ?case by (simp add: write_all_def pc foldM_bind del: foldM.simps(2))
qed (simp add: write_by_value_def write_all_def)

section \<open>Reading the caches\<close>

text \<open>The values of a row after the columns \<open>cs\<close> were loaded as \<open>V\<close>.\<close>

definition loaded :: "(NoDBCol_t \<Rightarrow> NoDBDatum_t) \<Rightarrow> NoDBCol_t list \<Rightarrow> scan_state \<Rightarrow> scan_state" where
  "loaded V cs s = s\<lparr>s_values := \<lparr>dvalues = store_cols (dvalues (s_values s)) cs (\<lambda>col. datum (V col)),
     dnulls = store_cols (dnulls (s_values s)) cs (\<lambda>col. null (V col))\<rparr>\<rparr>"

lemma store_cols_append: "store_cols (store_cols xs cs f) ds f = store_cols xs (cs @ ds) f"
  by (auto simp: store_cols_def)

lemma loaded_append: "loaded V ds (loaded V cs s) = loaded V (cs @ ds) s"
  by (simp add: loaded_def store_cols_append)

lemma loaded_row [simp]: "s_reader (loaded V cs s) = s_reader s" "s_plan (loaded V cs s) = s_plan s" "s_natts (loaded V cs s) = s_natts s"
  by (simp_all add: loaded_def)

definition fits :: "scan_state \<Rightarrow> NoDBCol_t list \<Rightarrow> bool" where
  "fits s cs \<longleftrightarrow> (\<forall>col \<in> set cs. 0 \<le> col \<and> nat col < length (dvalues (s_values s)) \<and> nat col < length (dnulls (s_values s)))"

lemma fits_loaded [simp]: "fits (loaded V ds s) cs = fits s cs"
  by (simp add: fits_def loaded_def)

lemma read_with_cache_Cons:
  "read_with_cache w (cpc pc # cpcs) s =
     do {
       c \<leftarrow> h_caches (nw_heap w) (fst pc);
       (vs, ns) \<leftarrow> NoDBCacheGetDatumVector c (dvalues (s_values s)) (dnulls (s_values s)) (map Some (snd pc)) (s_row s);
       read_with_cache w cpcs (s\<lparr>s_values := \<lparr>dvalues = vs, dnulls = ns\<rparr>\<rparr>)
     }"
proof (cases "h_caches (nw_heap w) (fst pc)")
  case (Some c)
  then show ?thesis
    by (cases "NoDBCacheGetDatumVector c (dvalues (s_values s)) (dnulls (s_values s)) (map Some (snd pc)) (s_row s)")
       (auto simp: read_with_cache_def cpc_def load_cache_def)
qed (simp add: read_with_cache_def cpc_def load_cache_def)

lemma read_with_cache_ok:
  assumes "\<forall>(p, cs) \<in> set pcs. \<forall>col \<in> set cs. stored w p col (s_row s) = Some (V col)" "\<forall>(p, cs) \<in> set pcs. fits s cs"
    "\<forall>(p, cs) \<in> set pcs. h_caches (nw_heap w) p \<noteq> None"
  shows "read_with_cache w (map cpc pcs) s = Some (loaded V (concat (map snd pcs)) s)"
  using assms(1,2,3)
proof (induction pcs arbitrary: s)
  case Nil
  then show ?case by (simp add: read_with_cache_def loaded_def)
next
  case (Cons pc pcs)
  obtain p cs where pc: "pc = (p, cs)" by (cases pc)
  obtain c where c: "h_caches (nw_heap w) p = Some c" using Cons.prems(3) pc by auto
  have "\<forall>col \<in> set cs. cell_get dec_datum 9 c col (s_row s) = Some (V col) \<and> 0 \<le> col \<and> nat col < length (dvalues (s_values s)) \<and>
      nat col < length (dnulls (s_values s))"
    using Cons.prems(1,2) pc c by (auto simp: cell_value_def fits_def)
  note g = NoDBCacheGetDatumVector_eq[OF this]
  have "read_with_cache w (map cpc (pc # pcs)) s = read_with_cache w (map cpc pcs) (loaded V cs s)"
    unfolding list.map read_with_cache_Cons by (simp add: pc c g loaded_def)
  also have "\<dots> = Some (loaded V (concat (map snd pcs)) (loaded V cs s))"
    using Cons.prems by (intro Cons.IH) auto
  finally show ?case by (simp add: loaded_append pc)
qed

section \<open>One tuple\<close>

lemma write_positions_keeps:
  assumes "write_positions cpcs s w = Some w'" "\<forall>oc \<in> set cpcs. \<forall>c. oc = Some c \<longrightarrow> cpc_cache c \<notin> Some ` D"
  shows "keeps D w w'"
  using assms(1) unfolding write_positions_def
proof (rule foldM_inv)
  fix oc u u' assume oc: "oc \<in> set cpcs" "keeps D w u" "do {
         cpc \<leftarrow> oc;
         c \<leftarrow> load_cache u (cpc_cache cpc);
         c \<leftarrow> NoDBCacheSetPMPairVector c (map pair_of_attr (attributes (s_line s))) (cpc_cols cpc) (s_row s);
         Some (store_cache u (cpc_cache cpc) c)
       } = Some u'"
  then obtain c d where "oc = Some c" "u' = store_cache u (cpc_cache c) d" by (auto simp: bind_eq_Some_conv)
  then show "keeps D w u'" using oc(1,2) assms(2) keeps_trans[OF oc(2) store_cache_keeps] by blast
qed simp

text \<open>Reading columns only changes the values, the line and the positions.\<close>

definition same_scan :: "scan_state \<Rightarrow> scan_state \<Rightarrow> bool" where
  "same_scan s s' \<longleftrightarrow> processed (s_reader s') = processed (s_reader s) \<and> s_plan s' = s_plan s \<and> s_natts s' = s_natts s"

lemma same_scan_trans: "same_scan s s' \<Longrightarrow> same_scan s' s'' \<Longrightarrow> same_scan s s''"
  by (simp add: same_scan_def)

lemma same_scan_refl [simp]: "same_scan s s" "same_scan s (s\<lparr>s_values := v\<rparr>)" "same_scan s (s\<lparr>s_line := l, s_values := v\<rparr>)"
  "same_scan s (put_attributes at s)" "same_scan s (s\<lparr>s_values := v, s_reader := (s_reader s)\<lparr>line_buf := bs\<rparr>\<rparr>)"
  by (simp_all add: same_scan_def put_attributes_def)

lemma foldM_same_scan:
  assumes "foldM f s xs = Some s'" "\<And>u x u'. f u x = Some u' \<Longrightarrow> same_scan u u'"
  shows "same_scan s s'"
  using assms(1) by (rule foldM_inv) (auto dest: assms(2) intro: same_scan_trans)

lemma read_with_cache_frame: "read_with_cache w a s = Some s' \<Longrightarrow> same_scan s s'"
  unfolding read_with_cache_def by (erule foldM_same_scan) (auto simp: bind_eq_Some_conv)

lemma read_with_pm_frame: "read_with_pm w b s = Some s' \<Longrightarrow> same_scan s s'"
  unfolding read_with_pm_def by (erule foldM_same_scan) (auto simp: bind_eq_Some_conv Let_def)

lemma read_via_pm_frame: "read_via_pm c s = Some s' \<Longrightarrow> same_scan s s'"
  unfolding read_via_pm_def by (erule foldM_same_scan) (auto simp: bind_eq_Some_conv)

lemma values_from_pm_frame: "values_from_pm x cols s = Some s' \<Longrightarrow> same_scan s s'"
  by (auto simp: values_from_pm_def bind_eq_Some_conv)

lemma values_from_file_Val:
  assumes "values_from_file x cols s = Some (Val s')"
  obtains l v where "full_parse (csv_mode (s_read s)) (s_format s) (pg_verifymbstr x) (line_buf (s_reader s)) (s_line s) = Some (Val l)"
    "NoDBGetValues (input_fn x) (field_strings l) cols (s_values s) = Some v" "s' = s\<lparr>s_line := l, s_values := v\<rparr>"
proof -
  obtain r where r: "full_parse (csv_mode (s_read s)) (s_format s) (pg_verifymbstr x) (line_buf (s_reader s)) (s_line s) = Some r"
      "(case r of Err e \<Rightarrow> Some (Err e) | Val l \<Rightarrow> do { v \<leftarrow> NoDBGetValues (input_fn x) (field_strings l) cols (s_values s);
          Some (Val (s\<lparr>s_line := l, s_values := v\<rparr>)) }) = Some (Val s')"
    using assms unfolding values_from_file_def bind_eq_Some_conv by blast
  then show thesis using that by (cases r) (auto simp: bind_eq_Some_conv)
qed

lemma values_from_file_frame: "values_from_file x cols s = Some (Val s') \<Longrightarrow> same_scan s s'"
  by (erule values_from_file_Val) simp

lemma read_columns_frame:
  assumes "read_columns x w a b c d e f s = Some (Val s')"
  shows "same_scan s s'"
proof -
  obtain s1 s2 s3 where st: "read_with_cache w a s = Some s1" "read_with_pm w b s1 = Some s2" "read_via_pm c s2 = Some s3"
      "(if 0 < NoDBColVectorSize d then values_from_file x e s3 else map_option Val (values_from_pm x f s3)) = Some (Val s')"
    using assms unfolding read_columns_def bind_eq_Some_conv by blast
  have "same_scan s3 s'" using st(4) by (auto dest: values_from_file_frame values_from_pm_frame split: if_splits)
  then show ?thesis
    using read_with_cache_frame[OF st(1)] read_with_pm_frame[OF st(2)] read_via_pm_frame[OF st(3)] by (blast intro: same_scan_trans)
qed

lemma finish_inside:
  assumes "nMin (s_plan s) \<noteq> 1"
  shows "finish_tuple (w, s) = Some (w, s\<lparr>s_reader := (s_reader s)\<lparr>processed := processed (s_reader s) + 1\<rparr>,
    s_plan := (s_plan s)\<lparr>nMin := nMin (s_plan s) - 1\<rparr>\<rparr>)"
  using assms by (simp add: finish_tuple_def Let_def)

definition slot_datum :: "TupleTableSlot \<Rightarrow> NoDBCol_t \<Rightarrow> NoDBDatum_t" where
  "slot_datum t col = \<lparr>datum = the (tts_values t ! nat col), null = the (tts_isnull t ! nat col)\<rparr>"

text \<open>A tuple that a plan delivers inside a strategy, with the state in which its values are complete.\<close>

lemma exec_plan_tuple:
  assumes "NoDBExecPlan x w s pass = Some (Val (w', s', Some t, b))" "nMin (s_plan s) \<noteq> 1"
  obtains c s1 where "write_caches x (curStrategy (s_plan s)) s1 (store_cache w (p_eolCache (s_plan s)) c) = Some w'"
    "processed (s_reader s1) = processed (s_reader s)" "t = slot_of s1" "b = pass"
    "processed (s_reader s') = processed (s_reader s) + 1" "s_plan s' = (s_plan s)\<lparr>nMin := nMin (s_plan s) - 1\<rparr>"
proof -
  obtain r where r: "readFile_call x (w, s) = Some r" using assms(1) unfolding NoDBExecPlan_def bind_eq_Some_conv by blast
  obtain w1 u where v: "r = Val (w1, u, False)"
    using assms(1) r by (cases r) (auto simp: NoDBExecPlan_def split: bool.splits)
  have u: "processed (s_reader u) = processed (s_reader s)" "s_plan u = s_plan s" "\<exists>c. w1 = store_cache w (p_eolCache (s_plan s)) c"
    using readFile_call_row[of x w s w1 u False] r v by (metis scan_state.select_convs scan_state.surjective scan_state.update_convs(7))+
  let ?t = "curStrategy (s_plan s)"
  obtain q where q: "read_columns x w1 (readPostFilterWithCache ?t) (readPostFilterWithPM ?t) (readPostFilterViaPM ?t)
      (readPostFilterWithFile ?t) (convertPostFilter ?t) (convertPostFilter ?t) u = Some q"
    using assms(1) r v u(2) by (auto simp: NoDBExecPlan_def Let_def bind_eq_Some_conv)
  obtain s1 where s1: "q = Val s1" using assms(1) r v u(2) q by (cases q) (auto simp: NoDBExecPlan_def Let_def)
  have fr: "processed (s_reader s1) = processed (s_reader s)" "s_plan s1 = s_plan s"
    using read_columns_frame[of x w1] q s1 u by (auto simp: same_scan_def)
  have "write_caches x ?t s1 w1 \<bind> (\<lambda>w. return_tuple pass (w, s1)) = Some (Val (w', s', Some t, b))"
    using assms(1) r v u(2) q s1 by (simp add: NoDBExecPlan_def Let_def)
  then obtain w2 where w2: "write_caches x ?t s1 w1 = Some w2" "return_tuple pass (w2, s1) = Some (Val (w', s', Some t, b))"
    by (auto simp: bind_eq_Some_conv)
  moreover have "nMin (s_plan s1) \<noteq> 1" using assms(2) fr by simp
  ultimately have "w' = w2" "b = pass" "t = slot_of s1" "processed (s_reader s') = processed (s_reader s) + 1"
      "s_plan s' = (s_plan s)\<lparr>nMin := nMin (s_plan s) - 1\<rparr>"
    using fr by (auto simp: return_tuple_def finish_inside slot_of_def)
  then show thesis using that u(3) w2(1) fr(1) by auto
qed

lemma slot_datum_of: "slot_datum (slot_of s) = datum_of s"
  by (simp add: slot_datum_def slot_of_def datum_of_def generateTupleTableSlot_def fun_eq_iff)

text \<open>A strategy that writes its values by value to the caches \<open>pcs\<close> and its positions elsewhere.\<close>

definition caches_values :: "(nat \<times> NoDBCol_t list) list \<Rightarrow> NoDBPlanState_t \<Rightarrow> bool" where
  "caches_values pcs p \<longleftrightarrow> writeToCacheByValue (curStrategy p) = map cpc pcs \<and> writeToCacheByRef (curStrategy p) = [] \<and>
     (\<forall>oc \<in> set (writeToPM (curStrategy p)). \<forall>c. oc = Some c \<longrightarrow> cpc_cache c \<notin> Some ` fst ` set pcs) \<and>
     p_eolCache p \<notin> Some ` fst ` set pcs \<and> targets_ok pcs"

lemma write_by_value_rows:
  assumes "write_by_value (map cpc pcs) s w = Some w'" "targets_ok pcs" "cells_for pcs w (s_row s)"
  shows "holds_row pcs w' (s_row s) (datum_of s)" "cells_for pcs w row \<Longrightarrow> cells_for pcs w' row"
    "row \<noteq> s_row s \<Longrightarrow> cells_for pcs w row \<Longrightarrow> holds_row pcs w row V \<Longrightarrow> holds_row pcs w' row V"
proof -
  have st: "holds_row pcs w' (s_row s) (datum_of s)" "stores dec_datum 9 (s_row s) (datum_of s) w w'"
    using datum_codec.write_all_stores[OF assms(2,3), of "datum_of s"] write_by_value_all[OF assms(1)] by auto
  then show "holds_row pcs w' (s_row s) (datum_of s)" "cells_for pcs w row \<Longrightarrow> cells_for pcs w' row"
    "row \<noteq> s_row s \<Longrightarrow> cells_for pcs w row \<Longrightarrow> holds_row pcs w row V \<Longrightarrow> holds_row pcs w' row V"
    using datum_codec.stores_rows[OF st(2)] by blast+
qed

lemma exec_plan_stores:
  assumes "NoDBExecPlan x w s pass = Some (Val (w', s', Some t, b))" "nMin (s_plan s) \<noteq> 1" "caches_values pcs (s_plan s)"
    "cells_for pcs w (s_row s)"
  shows "holds_row pcs w' (s_row s) (slot_datum t)"
    "\<And>row. cells_for pcs w row \<Longrightarrow> cells_for pcs w' row"
    "\<And>row V. row \<noteq> s_row s \<Longrightarrow> cells_for pcs w row \<Longrightarrow> holds_row pcs w row V \<Longrightarrow> holds_row pcs w' row V"
proof -
  let ?t = "curStrategy (s_plan s)"
  obtain c s1 where s1: "write_caches x ?t s1 (store_cache w (p_eolCache (s_plan s)) c) = Some w'"
      "processed (s_reader s1) = processed (s_reader s)" "t = slot_of s1"
    using exec_plan_tuple[OF assms(1,2)] by blast
  let ?w = "store_cache w (p_eolCache (s_plan s)) c"
  have t: "writeToCacheByValue ?t = map cpc pcs" "writeToCacheByRef ?t = []" "p_eolCache (s_plan s) \<notin> Some ` fst ` set pcs"
      "targets_ok pcs"
    using assms(3) by (auto simp: caches_values_def)
  obtain w1 where w1: "write_by_value (map cpc pcs) s1 ?w = Some w1" "write_positions (writeToPM ?t) s1 w1 = Some w'"
    using s1(1) t(1,2) by (auto simp: write_caches_def write_by_ref_def bind_eq_Some_conv)
  note k0 = keeps_rows[OF store_cache_keeps[OF t(3), of w c]]
  have "keeps (fst ` set pcs) w1 w'" by (rule write_positions_keeps[OF w1(2)]) (use assms(3) in \<open>simp add: caches_values_def\<close>)
  note k1 = keeps_rows[OF this]
  have "cells_for pcs ?w (s_row s1)" using assms(4) k0(1) s1(2) by simp
  note wv = write_by_value_rows[OF w1(1) t(4) this]
  show "holds_row pcs w' (s_row s) (slot_datum t)" using wv(1) s1(2,3) by (simp add: slot_datum_of k1(2))
  show "\<And>row. cells_for pcs w row \<Longrightarrow> cells_for pcs w' row" using wv(2) k0(1) k1(1) by simp
  show "\<And>row V. row \<noteq> s_row s \<Longrightarrow> cells_for pcs w row \<Longrightarrow> holds_row pcs w row V \<Longrightarrow> holds_row pcs w' row V"
    using wv(3) s1(2) by (simp add: k0 k1(2))
qed

text \<open>What was stored had been set.\<close>

definition slot_set :: "TupleTableSlot \<Rightarrow> NoDBCol_t \<Rightarrow> bool" where
  "slot_set t col \<longleftrightarrow> tts_values t ! nat col \<noteq> None \<and> tts_isnull t ! nat col \<noteq> None"

lemma write_by_value_set:
  assumes "write_by_value (map cpc pcs) s w = Some w'" "target pcs p col"
  shows "slot_set (slot_of s) col"
  using assms
proof (induction pcs arbitrary: w)
  case (Cons pc pcs)
  obtain q cs where pc: "pc = (q, cs)" by (cases pc)
  obtain c c' where c: "NoDBCacheSetDatumVector c (dvalues (s_values s)) (dnulls (s_values s)) (map Some cs) (s_row s) = Some c'"
      "write_by_value (map cpc pcs) s (store_cache w (Some q) c') = Some w'"
    using Cons.prems(1) unfolding pc list.map write_by_value_Cons by (auto simp: bind_eq_Some_conv)
  show ?case
  proof (cases "target pcs p col")
    case True
    then show ?thesis using Cons.IH c(2) by blast
  next
    case False
    then have "col \<in> set cs" using Cons.prems(2) pc by (auto simp: target_def)
    from set_vector_values[OF c(1) this] show ?thesis
      by (auto simp: slot_set_def slot_of_def generateTupleTableSlot_def arr_get_Some_iff)
  qed
qed (simp add: target_def)

lemma exec_plan_set:
  assumes "NoDBExecPlan x w s pass = Some (Val (w', s', Some t, b))" "nMin (s_plan s) \<noteq> 1" "caches_values pcs (s_plan s)" "target pcs p col"
  shows "slot_set t col"
proof -
  let ?t = "curStrategy (s_plan s)"
  obtain c s1 where s1: "write_caches x ?t s1 (store_cache w (p_eolCache (s_plan s)) c) = Some w'" "t = slot_of s1"
    using exec_plan_tuple[OF assms(1,2)] by blast
  then obtain w1 where "write_by_value (map cpc pcs) s1 (store_cache w (p_eolCache (s_plan s)) c) = Some w1"
    using assms(3) by (auto simp: write_caches_def caches_values_def bind_eq_Some_conv)
  then show ?thesis using write_by_value_set assms(4) s1(2) by blast
qed

section \<open>Many tuples\<close>

fun deliver :: "(nodb_world \<Rightarrow> scan_state \<Rightarrow> exec_result) \<Rightarrow> nat \<Rightarrow> nodb_world \<Rightarrow> scan_state \<Rightarrow>
    (TupleTableSlot list \<times> nodb_world \<times> scan_state) option" where
  "deliver f 0 w s = Some ([], w, s)"
| "deliver f (Suc n) w s =
     (case f w s of
        Some (Val (w', s', Some t, b)) \<Rightarrow> map_option (\<lambda>(ts, ws). (t # ts, ws)) (deliver f n w' s')
      | _ \<Rightarrow> None)"

lemma deliver_Suc:
  assumes "deliver f (Suc n) w s = Some (ts, ws)"
  obtains w' s' t b us where "f w s = Some (Val (w', s', Some t, b))" "deliver f n w' s' = Some (us, ws)" "ts = t # us"
  using assms by (auto split: option.splits res.splits prod.splits)

lemma caches_values_nMin [simp]: "caches_values pcs (p\<lparr>nMin := k\<rparr>) = caches_values pcs p"
  by (simp add: caches_values_def)

lemma row_inj: "i < 2 ^ 64 \<Longrightarrow> j < 2 ^ 64 \<Longrightarrow> (of_nat i :: 64 word) = of_nat j \<Longrightarrow> i = j"
  by (drule arg_cong[of _ _ unat]) (simp add: unat_of_nat)

lemma deliver_stores:
  assumes "deliver (\<lambda>w s. NoDBExecPlan x w s pass) n w s = Some (ts, w', s')" "int n < nMin (s_plan s)" "caches_values pcs (s_plan s)"
    "\<forall>i < n. cells_for pcs w (of_nat (processed (s_reader s) + i))" "processed (s_reader s) + n \<le> 2 ^ 64"
  shows "length ts = n" "\<forall>i < n. holds_row pcs w' (of_nat (processed (s_reader s) + i)) (slot_datum (ts ! i))"
    "\<forall>i < n. \<forall>p col. target pcs p col \<longrightarrow> slot_set (ts ! i) col"
    "\<forall>row V. (\<forall>i < n. row \<noteq> of_nat (processed (s_reader s) + i)) \<longrightarrow> cells_for pcs w row \<longrightarrow> holds_row pcs w row V \<longrightarrow> holds_row pcs w' row V"
    "\<forall>row. cells_for pcs w row \<longrightarrow> cells_for pcs w' row"
proof -
  have "length ts = n \<and> (\<forall>i < n. holds_row pcs w' (of_nat (processed (s_reader s) + i)) (slot_datum (ts ! i))) \<and>
    (\<forall>i < n. \<forall>p col. target pcs p col \<longrightarrow> slot_set (ts ! i) col) \<and>
    (\<forall>row V. (\<forall>i < n. row \<noteq> of_nat (processed (s_reader s) + i)) \<longrightarrow> cells_for pcs w row \<longrightarrow> holds_row pcs w row V \<longrightarrow> holds_row pcs w' row V) \<and>
    (\<forall>row. cells_for pcs w row \<longrightarrow> cells_for pcs w' row)"
    using assms
  proof (induction n arbitrary: w s ts)
    case (Suc n)
    let ?k = "processed (s_reader s)"
    obtain w1 s1 t b us where d: "NoDBExecPlan x w s pass = Some (Val (w1, s1, Some t, b))"
        "deliver (\<lambda>w s. NoDBExecPlan x w s pass) n w1 s1 = Some (us, w', s')" "ts = t # us"
      using Suc.prems(1) by (rule deliver_Suc)
    have m: "nMin (s_plan s) \<noteq> 1" using Suc.prems(2) by simp
    have s1: "processed (s_reader s1) = Suc ?k" "s_plan s1 = (s_plan s)\<lparr>nMin := nMin (s_plan s) - 1\<rparr>"
      using exec_plan_tuple[OF d(1) m] by auto
    have c0: "cells_for pcs w (s_row s)" using Suc.prems(4)[rule_format, of 0] by simp
    note st = exec_plan_stores[OF d(1) m Suc.prems(3) c0]
    have c1: "\<forall>i < n. cells_for pcs w1 (of_nat (processed (s_reader s1) + i))"
    proof (intro allI impI)
      fix i assume "i < n"
      then show "cells_for pcs w1 (of_nat (processed (s_reader s1) + i))"
        using st(2)[OF Suc.prems(4)[rule_format, of "Suc i"]] s1(1) by simp
    qed
    have IH: "length us = n" "\<forall>i < n. holds_row pcs w' (of_nat (Suc ?k + i)) (slot_datum (us ! i))"
        "\<forall>i < n. \<forall>p col. target pcs p col \<longrightarrow> slot_set (us ! i) col"
        "\<forall>row V. (\<forall>i < n. row \<noteq> of_nat (Suc ?k + i)) \<longrightarrow> cells_for pcs w1 row \<longrightarrow> holds_row pcs w1 row V \<longrightarrow> holds_row pcs w' row V"
        "\<forall>row. cells_for pcs w1 row \<longrightarrow> cells_for pcs w' row"
      using Suc.IH[OF d(2) _ _ c1] Suc.prems(2,3,5) s1 by simp_all
    have ne: "(of_nat ?k :: 64 word) \<noteq> of_nat (Suc ?k + i)" if "i < n" for i
      using row_inj[of ?k "Suc ?k + i"] that Suc.prems(5) by linarith
    have h0: "holds_row pcs w' (of_nat ?k) (slot_datum t)" using IH(4) ne st(1,2) c0 by blast
    have "holds_row pcs w' (of_nat (?k + i)) (slot_datum (ts ! i)) \<and> (\<forall>p col. target pcs p col \<longrightarrow> slot_set (ts ! i) col)" if "i < Suc n" for i
      using that h0 IH(2,3) d(3) exec_plan_set[OF d(1) m Suc.prems(3)] by (cases i) auto
    moreover have "holds_row pcs w' row V" if "\<forall>i < Suc n. row \<noteq> of_nat (?k + i)" "cells_for pcs w row" "holds_row pcs w row V" for row V
    proof -
      have "row \<noteq> of_nat ?k" "\<forall>i < n. row \<noteq> of_nat (Suc ?k + i)" using that(1)[rule_format, of 0] that(1) by (simp, metis Suc_less_eq add_Suc_shift)
      then show ?thesis using IH(4) st(2,3) that(2,3) by blast
    qed
    ultimately show ?case using IH(1,5) d(3) st(2) by auto
  qed simp
  then show "length ts = n" "\<forall>i < n. holds_row pcs w' (of_nat (processed (s_reader s) + i)) (slot_datum (ts ! i))"
    "\<forall>i < n. \<forall>p col. target pcs p col \<longrightarrow> slot_set (ts ! i) col"
    "\<forall>row V. (\<forall>i < n. row \<noteq> of_nat (processed (s_reader s) + i)) \<longrightarrow> cells_for pcs w row \<longrightarrow> holds_row pcs w row V \<longrightarrow> holds_row pcs w' row V"
    "\<forall>row. cells_for pcs w row \<longrightarrow> cells_for pcs w' row" by blast+
qed

lemma cache_only_tuple:
  assumes "readPostFilterWithCache (curStrategy (s_plan s)) = map cpc pcs" "nMin (s_plan s) \<noteq> 1" "holds_row pcs w (s_row s) V"
    "\<forall>(p, cs) \<in> set pcs. fits s cs \<and> h_caches (nw_heap w) p \<noteq> None"
  shows "NoDBExecPlanCacheOnly w s pass =
    Some (Val (w, (loaded V (concat (map snd pcs)) s)\<lparr>s_reader := (s_reader s)\<lparr>processed := processed (s_reader s) + 1\<rparr>,
        s_plan := (s_plan s)\<lparr>nMin := nMin (s_plan s) - 1\<rparr>\<rparr>, Some (slot_of (loaded V (concat (map snd pcs)) s)), pass))"
proof -
  have "\<forall>(p, cs) \<in> set pcs. \<forall>col \<in> set cs. stored w p col (s_row s) = Some (V col)"
    using assms(3) unfolding row_holds_def target_def by blast
  then have "read_with_cache w (map cpc pcs) s = Some (loaded V (concat (map snd pcs)) s)"
    using assms(4) by (intro read_with_cache_ok) auto
  then show ?thesis
    using assms(1,2) by (simp add: NoDBExecPlanCacheOnly_def return_tuple_def finish_inside slot_of_def)
qed

lemma loaded_slot:
  assumes "\<forall>(p, cs) \<in> set pcs. fits s cs" "target pcs p col"
  shows "tts_values (slot_of (loaded V (concat (map snd pcs)) s)) ! nat col = Some (datum (V col))"
    "tts_isnull (slot_of (loaded V (concat (map snd pcs)) s)) ! nat col = Some (null (V col))"
proof -
  obtain cs where cs: "(p, cs) \<in> set pcs" "col \<in> set cs" using assms(2) by (auto simp: target_def)
  then have "fits s cs" using assms(1) by auto
  then have "0 \<le> col" "nat col < length (dvalues (s_values s))" "nat col < length (dnulls (s_values s))" using cs(2) by (auto simp: fits_def)
  moreover have "col \<in> set (concat (map snd pcs))" using cs by force
  ultimately show "tts_values (slot_of (loaded V (concat (map snd pcs)) s)) ! nat col = Some (datum (V col))"
    "tts_isnull (slot_of (loaded V (concat (map snd pcs)) s)) ! nat col = Some (null (V col))"
    by (simp_all add: slot_of_def generateTupleTableSlot_def loaded_def store_cols_def)
qed

lemma deliver_cached:
  assumes "readPostFilterWithCache (curStrategy (s_plan s)) = map cpc pcs" "int n < nMin (s_plan s)"
    "\<forall>i < n. holds_row pcs w (of_nat (processed (s_reader s) + i)) (V i)"
    "\<forall>(p, cs) \<in> set pcs. fits s cs \<and> h_caches (nw_heap w) p \<noteq> None"
  shows "\<exists>ts s'. deliver (\<lambda>w s. NoDBExecPlanCacheOnly w s pass) n w s = Some (ts, w, s') \<and> length ts = n \<and>
    (\<forall>i < n. \<forall>p col. target pcs p col \<longrightarrow> tts_values (ts ! i) ! nat col = Some (datum (V i col)) \<and> tts_isnull (ts ! i) ! nat col = Some (null (V i col)))"
  using assms
proof (induction n arbitrary: s V)
  case (Suc n)
  let ?l = "loaded (V 0) (concat (map snd pcs)) s"
  let ?s = "?l\<lparr>s_reader := (s_reader s)\<lparr>processed := processed (s_reader s) + 1\<rparr>, s_plan := (s_plan s)\<lparr>nMin := nMin (s_plan s) - 1\<rparr>\<rparr>"
  have "nMin (s_plan s) \<noteq> 1" "holds_row pcs w (s_row s) (V 0)" using Suc.prems(2,3) by (simp, fastforce)
  then have e: "NoDBExecPlanCacheOnly w s pass = Some (Val (w, ?s, Some (slot_of ?l), pass))"
    using cache_only_tuple[OF Suc.prems(1)] Suc.prems(4) by blast
  have f: "\<forall>(p, cs) \<in> set pcs. fits ?s cs \<and> h_caches (nw_heap w) p \<noteq> None"
    using Suc.prems(4) by (auto simp: fits_def loaded_def)
  have h: "\<forall>i < n. holds_row pcs w (of_nat (processed (s_reader ?s) + i)) (V (Suc i))"
    using Suc.prems(3) by fastforce
  have p: "readPostFilterWithCache (curStrategy (s_plan ?s)) = map cpc pcs" "int n < nMin (s_plan ?s)" using Suc.prems(1,2) by simp_all
  obtain ts s' where IH: "deliver (\<lambda>w s. NoDBExecPlanCacheOnly w s pass) n w ?s = Some (ts, w, s')" "length ts = n"
      "\<forall>i < n. \<forall>p col. target pcs p col \<longrightarrow> tts_values (ts ! i) ! nat col = Some (datum (V (Suc i) col)) \<and>
         tts_isnull (ts ! i) ! nat col = Some (null (V (Suc i) col))"
    using Suc.IH[OF p h f] by auto
  have fits: "\<forall>(p, cs) \<in> set pcs. fits s cs" using Suc.prems(4) by auto
  have "tts_values ((slot_of ?l # ts) ! i) ! nat col = Some (datum (V i col)) \<and> tts_isnull ((slot_of ?l # ts) ! i) ! nat col = Some (null (V i col))"
    if "i < Suc n" "target pcs p col" for i p col
    using that IH(3) loaded_slot[OF fits that(2)] by (cases i) auto
  then show ?case using IH(1,2) e by (intro exI[of _ "slot_of ?l # ts"] exI[of _ s']) simp
qed simp

text \<open>
  C6: The caches replay a scan. \<open>n\<close> tuples are delivered by \<open>NoDBExecPlan\<close> inside one strategy, which reads
  lines from the file (with or without known line ends), finds and converts columns and writes some of
  them by value to data caches that have room for these rows. Then a scan that starts at the same row and
  reads the same columns from these caches only delivers \<open>n\<close> tuples with the same values and null flags
  in all these columns, without touching the file or changing the caches.
\<close>

theorem cached_tuples_agree:
  assumes scan1: "deliver (\<lambda>w s. NoDBExecPlan x w s pass) n w s = Some (ts, w1, s1)" "int n < nMin (s_plan s)"
      "caches_values pcs (s_plan s)" "\<forall>i < n. cells_for pcs w (of_nat (processed (s_reader s) + i))" "processed (s_reader s) + n \<le> 2 ^ 64"
    and scan2: "processed (s_reader s2) = processed (s_reader s)" "readPostFilterWithCache (curStrategy (s_plan s2)) = map cpc pcs"
      "int n < nMin (s_plan s2)" "\<forall>(p, cs) \<in> set pcs. fits s2 cs"
  shows "\<exists>us s3. deliver (\<lambda>w s. NoDBExecPlanCacheOnly w s pass) n w1 s2 = Some (us, w1, s3) \<and> length us = n \<and> length ts = n \<and>
    (\<forall>i < n. \<forall>p col. target pcs p col \<longrightarrow> tts_values (us ! i) ! nat col = tts_values (ts ! i) ! nat col \<and>
       tts_isnull (us ! i) ! nat col = tts_isnull (ts ! i) ! nat col)"
proof (cases n)
  case 0
  then show ?thesis using scan1(1) by simp
next
  case (Suc m)
  note st = deliver_stores[OF scan1]
  have alive: "h_caches (nw_heap w1) p \<noteq> None" if "(p, cs) \<in> set pcs" for p cs
  proof -
    have "cs \<noteq> []" using that scan1(3) by (auto simp: caches_values_def targets_ok_def)
    then have "target pcs p (hd cs)" using that unfolding target_def by auto
    then show ?thesis using st(2) Suc by (fastforce simp: row_holds_def cell_value_def bind_eq_Some_conv)
  qed
  have h: "\<forall>i < n. holds_row pcs w1 (of_nat (processed (s_reader s2) + i)) (slot_datum (ts ! i))" using st(2) scan2(1) by simp
  have f: "\<forall>(p, cs) \<in> set pcs. fits s2 cs \<and> h_caches (nw_heap w1) p \<noteq> None" using scan2(4) alive by blast
  obtain us s3 where us: "deliver (\<lambda>w s. NoDBExecPlanCacheOnly w s pass) n w1 s2 = Some (us, w1, s3)" "length us = n"
      "\<forall>i < n. \<forall>p col. target pcs p col \<longrightarrow> tts_values (us ! i) ! nat col = Some (datum (slot_datum (ts ! i) col)) \<and>
         tts_isnull (us ! i) ! nat col = Some (null (slot_datum (ts ! i) col))"
    using deliver_cached[OF scan2(2,3) h f] by blast
  moreover have "Some (datum (slot_datum (ts ! i) col)) = tts_values (ts ! i) ! nat col" "Some (null (slot_datum (ts ! i) col)) = tts_isnull (ts ! i) ! nat col"
    if "i < n" "target pcs p col" for i p col
    using st(3) that by (auto simp: slot_set_def slot_datum_def)
  ultimately show ?thesis using st(1) by (intro exI[of _ us] exI[of _ s3]) simp
qed

text \<open>A file of three lines with three columns, their known lengths, and a data cache for the last two columns.\<close>

definition plan_data :: NoDBCache_t where
  "plan_data = demo_store\<lparr>c_startRow := 0, c_startOffset := 0\<rparr>"

definition plan_world :: nodb_world where
  "plan_world =
     \<lparr>nw_heap = \<lparr>h_caches = (\<lambda>_. None)(0 := Some demo_eol, 5 := Some plan_data), h_rels = (\<lambda>_. None), h_next = 6\<rparr>,
      nw_eol = None, nw_caches = [5],
      nw_info = Some \<lparr>eiv_size = 1, eiv_used = 1, eiv_vector = [Some demo_info]\<rparr>, nw_arena = arena_init, nw_mem = Map.empty\<rparr>"

definition plan_externals :: externals where
  "plan_externals =
     \<lparr>pg_encoding_mblen = (\<lambda>_. 1), pg_client_to_server = (\<lambda>_. None), pg_verifymbstr = (\<lambda>_. True),
      input_fn = (\<lambda>i bs. of_nat (length bs)), input_mem = Map.empty, ExecQual = (\<lambda>_ _. True), file_size = (\<lambda>_. None),
      ext_malloc = (\<lambda>_ _. 0), datumGetSize = (\<lambda>_ _. 0)\<rparr>"

definition plan_strategy :: NoDBScanStrategy_t where
  "plan_strategy =
     \<lparr>startRow = 0, nrows = 3, readPreFilterWithCache = [], readPreFilterWithPM = [], readPreFilterViaPM = [],
      readPreFilterWithFile = [], convertPreFilter = [], readPostFilterWithCache = [], readPostFilterWithPM = [],
      readPostFilterViaPM = [], readPostFilterWithFile = [Some 1, Some 2], convertPostFilter = [Some 1, Some 2],
      writeToCacheByValue = [cpc (5, [1, 2])], writeToCacheByRef = [], writeToPM = []\<rparr>"

definition plan_iterator :: NoDBScanStrategyIterator_t where
  "plan_iterator =
     \<lparr>queryInfo = \<lparr>qi_rel = 0, qi_limit = 0, qi_cols = [], qi_rows = [], readBitmap = demo_bitmap, readFilterBitmap = demo_bitmap,
        readRestBitmap = demo_bitmap, writeDataBitmap = demo_bitmap, writePositionsBitmap = demo_bitmap, readCols = []\<rparr>,
      strategy = [plan_strategy], it_len = 1, it_cur = 0\<rparr>"

definition plan_scan :: scan_state where
  "plan_scan =
     \<lparr>s_read = csv_format, s_format = \<lparr>delimc = 44, quotec = 34, escapec = 34, null_print = [], nfields = 3, lastfield = 2\<rparr>,
      s_natts = 3, s_attrlen = [4, 4, 4], s_qual = False, s_relation = ''t'',
      s_reader = (text_reader [97, 44, 44, 98, 10, 97, 98, 44, 99, 44, 100, 10, 44, 44, 120, 10]),
      s_line = \<lparr>field_strings = replicate 3 None, attributes = \<lparr>a_ptr = Some 0, a_width = None\<rparr> # replicate 3 \<lparr>a_ptr = None, a_width = None\<rparr>\<rparr>,
      s_values = \<lparr>dvalues = replicate 3 (Some 0), dnulls = replicate 3 (Some True)\<rparr>,
      s_plan = \<lparr>p_eolCache = Some 0, readFile = FromFileWithEOL, iterator = plan_iterator, curStrategy = plan_strategy,
        tuplesToRead = 3, nRows = 3, nEOL = 3, nMin = 3, hasEOL = True\<rparr>,
      s_execInfo = 0, readAllAtts = [Some 1, Some 2], readFilterAtts = [], readRestAtts = [Some 1, Some 2],
      writeDataCols = [Some 1, Some 2], writePositionCols = [], execNoDBPlan = ExecPlan\<rparr>"

definition plan_slots :: "TupleTableSlot list" where
  "plan_slots = [generateTupleTableSlot 3 [Some 0, Some 0, Some 1] [Some True, Some True, Some False],
     generateTupleTableSlot 3 [Some 0, Some 1, Some 1] [Some True, Some False, Some False]]"

lemma plan_run: "map_option fst (deliver (\<lambda>w s. NoDBExecPlan plan_externals w s True) 2 plan_world plan_scan) = Some plan_slots"
  by code_simp

lemma plan_data_cells: "cell_ok plan_data 1 0 9" "cell_ok plan_data 1 1 9" "cell_ok plan_data 2 0 9" "cell_ok plan_data 2 1 9"
proof -
  have u: "used_cols plan_data = [1, 2]" by (simp add: used_cols_def plan_data_def demo_store_def)
  have o: "col_off plan_data 1 = 0" "col_off plan_data 2 = 16" by (simp_all add: col_off_def plan_data_def demo_store_def)
  have "cache_ok plan_data"
    unfolding cache_ok_def u using o
    by (simp add: plan_data_def demo_store_def inj_on_def) (auto simp: nth_Cons' split: if_splits)
  moreover have "buf_ok plan_data" by (simp add: buf_ok_def plan_data_def demo_store_def)
  moreover have "row_in_buf plan_data 0" "row_in_buf plan_data 1" by (simp_all add: row_in_buf_def plan_data_def demo_store_def)
  moreover have "col_size plan_data 1 = Some 16" "col_size plan_data 2 = Some 16"
    using u o by (simp_all add: col_size_def) (simp_all add: plan_data_def demo_store_def)
  ultimately show "cell_ok plan_data 1 0 9" "cell_ok plan_data 1 1 9" "cell_ok plan_data 2 0 9" "cell_ok plan_data 2 1 9"
    by (simp_all add: cell_ok_def)
qed

definition plan_rescan :: scan_state where
  "plan_rescan = plan_scan\<lparr>s_plan := (s_plan plan_scan)\<lparr>curStrategy := plan_strategy\<lparr>readPostFilterWithCache := [cpc (5, [1, 2])]\<rparr>\<rparr>\<rparr>"

theorem cached_tuples_agree_witness:
  "\<exists>w1 s1 us s3. deliver (\<lambda>w s. NoDBExecPlan plan_externals w s True) 2 plan_world plan_scan = Some (plan_slots, w1, s1) \<and>
     deliver (\<lambda>w s. NoDBExecPlanCacheOnly w s True) 2 w1 plan_rescan = Some (us, w1, s3) \<and>
     tts_values (us ! 0) ! 2 = Some 1 \<and> tts_isnull (us ! 0) ! 1 = Some True \<and> tts_isnull (us ! 1) ! 1 = Some False"
proof -
  obtain w1 s1 where r: "deliver (\<lambda>w s. NoDBExecPlan plan_externals w s True) 2 plan_world plan_scan = Some (plan_slots, w1, s1)"
    using plan_run by auto
  have m: "int 2 < nMin (s_plan plan_scan)" "processed (s_reader plan_scan) + 2 \<le> 2 ^ 64"
      "processed (s_reader plan_rescan) = processed (s_reader plan_scan)" "int 2 < nMin (s_plan plan_rescan)"
    by (simp_all add: plan_scan_def plan_rescan_def text_reader_def)
  have cv: "caches_values [(5, [1, 2])] (s_plan plan_scan)" by (simp add: caches_values_def targets_ok_def plan_scan_def plan_strategy_def)
  have t: "target [(5, [1, 2])] p col \<longleftrightarrow> p = 5 \<and> (col = 1 \<or> col = 2)" for p col by (auto simp: target_def)
  have c: "\<forall>i < 2. cells_for [(5, [1, 2])] plan_world (of_nat (processed (s_reader plan_scan) + i))"
    using plan_data_cells by (auto simp: row_room_def t cell_room_def plan_world_def plan_scan_def text_reader_def less_2_cases_iff)
  have rd: "readPostFilterWithCache (curStrategy (s_plan plan_rescan)) = map cpc [(5, [1, 2])]" "\<forall>(p, cs) \<in> set [(5 :: nat, [1, 2])]. fits plan_rescan cs"
    by (simp_all add: plan_rescan_def plan_scan_def fits_def)
  obtain us s3 where us: "deliver (\<lambda>w s. NoDBExecPlanCacheOnly w s True) 2 w1 plan_rescan = Some (us, w1, s3)"
      "\<forall>i < 2. \<forall>p col. target [(5, [1, 2])] p col \<longrightarrow> tts_values (us ! i) ! nat col = tts_values (plan_slots ! i) ! nat col \<and>
       tts_isnull (us ! i) ! nat col = tts_isnull (plan_slots ! i) ! nat col"
    using cached_tuples_agree[OF r m(1) cv c m(2,3) rd(1) m(4) rd(2)] by blast
  have "tts_values (us ! 0) ! 2 = Some 1" "tts_isnull (us ! 0) ! 1 = Some True" "tts_isnull (us ! 1) ! 1 = Some False"
    using us(2)[rule_format, of 0 5 2] us(2)[rule_format, of 0 5 1] us(2)[rule_format, of 1 5 1]
    by (simp_all add: t plan_slots_def generateTupleTableSlot_def)
  then show ?thesis using r us(1) by blast
qed

end
