(* ===== verification/NoDB_TableScan.thy ===== *)
theory NoDB_TableScan
  imports NoDB_PlanSpec
begin

text \<open>
  The reader, the parser, the conversion and the plan together: a scan over a CSV file delivers the
  table the file was written from.
\<close>

section \<open>Rows as lines\<close>

text \<open>The quoting state behind a piece of a line; \<open>None\<close> if a line end outside quotes or a NUL byte occurs.\<close>

fun quote_state :: "byte \<Rightarrow> bool \<Rightarrow> byte list \<Rightarrow> bool option" where
  "quote_state q inq [] = Some inq"
| "quote_state q inq (c # cs) =
     (if c = 0 \<or> (c = 10 \<or> c = 13) \<and> \<not> inq then None else quote_state q (if c = q then \<not> inq else inq) cs)"

lemma quote_state_append: "quote_state q inq (xs @ ys) = quote_state q inq xs \<bind> (\<lambda>b. quote_state q b ys)"
  by (induction q inq xs rule: quote_state.induct) auto

definition csv_config :: "read_format \<Rightarrow> line_format \<Rightarrow> bool" where
  "csv_config rf lf \<longleftrightarrow> plain_read rf \<and> csv_mode rf \<and> rquote rf = quotec lf \<and> rescape rf = quotec lf \<and> escapec lf = quotec lf \<and>
     quotec lf \<notin> {0, 10, 13, 92} \<and> delimc lf \<notin> {0, 10, 13, quotec lf}"

lemma csv_flags_quote:
  assumes "csv_config rf lf" "c \<noteq> 0"
  shows "csv_flags rf c inq False = (if c = quotec lf then \<not> inq else inq, False)"
  using assms by (auto simp: csv_config_def csv_flags_def csv_state_def Let_def)

lemma line_spec_quoted:
  assumes "csv_config rf lf" "eol = EOL_UNKNOWN \<or> eol = EOL_NL"
  shows "quote_state (quotec lf) inq l = Some False \<Longrightarrow> (fi \<longrightarrow> l = [] \<or> hd l \<noteq> 92) \<Longrightarrow>
    line_spec rf eol fi inq False (l @ 10 # rest) = Val (l @ [10], rest, EOL_NL, False)"
proof (induction l arbitrary: inq fi)
  case Nil
  have "csv_mode rf" "(10 :: byte) \<noteq> quotec lf" using assms(1) by (auto simp: csv_config_def)
  then show ?case using Nil csv_flags_quote[OF assms(1), of 10 inq] assms(2) by (auto simp: line_spec.simps)
next
  case (Cons c l)
  have c: "c \<noteq> 0" "\<not> ((c = 10 \<or> c = 13) \<and> \<not> inq)" "quote_state (quotec lf) (if c = quotec lf then \<not> inq else inq) l = Some False"
    using Cons.prems(1) by (auto split: if_splits)
  have q: "csv_mode rf" "quotec lf \<noteq> 10" "quotec lf \<noteq> 13" using assms(1) by (auto simp: csv_config_def)
  have "line_spec rf eol False (if c = quotec lf then \<not> inq else inq) False (l @ 10 # rest) = Val (l @ [10], rest, EOL_NL, False)"
    using Cons.IH[OF c(3), of False] by simp
  then show ?case using csv_flags_quote[OF assms(1) c(1), of inq] c(2) q Cons.prems(2) by (auto simp: line_spec.simps split: if_splits)
qed

fun item_bytes :: "line_format \<Rightarrow> csv_item \<Rightarrow> bool" where
  "item_bytes lf CNull \<longleftrightarrow> set (null_print lf) \<inter> {0, 10, 13} = {}"
| "item_bytes lf (CPlain v) \<longleftrightarrow> set v \<inter> {0, 10, 13} = {}"
| "item_bytes lf (CQuoted v) \<longleftrightarrow> 0 \<notin> set v"

definition row_line :: "line_format \<Rightarrow> csv_item list \<Rightarrow> byte list" where
  "row_line lf vs = join_fields (delimc lf) (map (csv_write lf) vs)"

text \<open>A row that can be written: quoted fields may hold delimiters, quotes and line ends.\<close>

definition csv_row_ok :: "line_format \<Rightarrow> csv_item list \<Rightarrow> bool" where
  "csv_row_ok lf vs \<longleftrightarrow> lastfield lf < int (length vs) \<and> (\<forall>v \<in> set vs. csv_writable lf v \<and> item_bytes lf v) \<and>
     (row_line lf vs = [] \<or> hd (row_line lf vs) \<noteq> 92)"

lemma quote_state_plain: "q \<notin> set v \<Longrightarrow> set v \<inter> {0, 10, 13} = {} \<Longrightarrow> quote_state q False v = Some False"
  by (induction v) auto

lemma quote_state_escape: "q \<notin> {0, 10, 13} \<Longrightarrow> 0 \<notin> set v \<Longrightarrow> quote_state q True (csv_escape q q v) = Some True"
  by (induction v) (auto simp: csv_escape_def)

lemma quote_state_item:
  assumes "csv_config rf lf" "csv_writable lf v" "item_bytes lf v"
  shows "quote_state (quotec lf) False (csv_write lf v) = Some False"
proof -
  have q: "quotec lf \<noteq> 0" "quotec lf \<noteq> 10" "quotec lf \<noteq> 13" "escapec lf = quotec lf" using assms(1) by (auto simp: csv_config_def)
  show ?thesis
    using assms(2,3) q quote_state_escape[of "quotec lf"]
    by (cases v) (auto simp: quote_state_append intro: quote_state_plain)
qed

lemma quote_state_row:
  assumes "csv_config rf lf" "\<forall>v \<in> set vs. csv_writable lf v \<and> item_bytes lf v"
  shows "quote_state (quotec lf) False (row_line lf vs) = Some False"
  unfolding row_line_def using assms(2)
proof (induction vs)
  case (Cons v vs)
  have "delimc lf \<noteq> 0" "delimc lf \<noteq> 10" "delimc lf \<noteq> 13" "delimc lf \<noteq> quotec lf" using assms(1) by (auto simp: csv_config_def)
  then show ?case using Cons quote_state_item[OF assms(1)] by (simp add: join_fields_Cons quote_state_append)
qed simp

lemma line_spec_row:
  assumes "csv_config rf lf" "csv_row_ok lf vs" "eol = EOL_UNKNOWN \<or> eol = EOL_NL"
  shows "line_spec rf eol True False False (row_line lf vs @ terminator EOL_NL @ rest) = Val (row_line lf vs @ terminator EOL_NL, rest, EOL_NL, False)"
  using line_spec_quoted[OF assms(1,3) quote_state_row[OF assms(1)], of vs True rest] assms(2) by (simp add: csv_row_ok_def)

section \<open>Conversion of a row\<close>

definition item_datum :: "(int \<Rightarrow> byte list \<Rightarrow> 64 word) \<Rightarrow> csv_item list \<Rightarrow> NoDBCol_t \<Rightarrow> NoDBDatum_t" where
  "item_datum f vs c = (case csv_value (vs ! nat c) of None \<Rightarrow> \<lparr>datum = 0, null = True\<rparr> | Some bs \<Rightarrow> \<lparr>datum = f c bs, null = False\<rparr>)"

lemma cstring_item: "item_bytes lf v \<Longrightarrow> csv_value v = Some bs \<Longrightarrow> cstring bs = bs"
  by (cases v) (auto simp: cstring_def takeWhile_eq_all_conv)

lemma NoDBGetValues_row:
  assumes "\<forall>c \<in> set cs. 0 \<le> c \<and> nat c < length fv \<and> fv ! nat c = Some (csv_value (vs ! nat c)) \<and> item_bytes lf (vs ! nat c) \<and>
      nat c < length (dvalues st) \<and> nat c < length (dnulls st)"
  shows "NoDBGetValues f fv (map Some cs) st = Some \<lparr>dvalues = store_cols (dvalues st) cs (\<lambda>c. datum (item_datum f vs c)),
    dnulls = store_cols (dnulls st) cs (\<lambda>c. null (item_datum f vs c))\<rparr>"
proof -
  let ?g = "\<lambda>st c. set_value c (datum (item_datum f vs c)) (null (item_datum f vs c)) st"
  have "NoDBGetValues f fv (map Some cs) st = foldM ?g st cs"
    unfolding NoDBGetValues_def vector_size length_map nat_int
  proof (rule foldM_index)
    fix u i assume i: "i < length cs"
    then have c: "0 \<le> cs ! i" "nat (cs ! i) < length fv" "fv ! nat (cs ! i) = Some (csv_value (vs ! nat (cs ! i)))" "item_bytes lf (vs ! nat (cs ! i))"
      using assms by auto
    show "(do {
         i \<leftarrow> NoDBColVectorGet (map Some cs) (int i);
         o1 \<leftarrow> arr_get fv i;
         str \<leftarrow> o1;
         (case str of None \<Rightarrow> set_value i 0 True u | Some bs \<Rightarrow> set_value i (f i (cstring bs)) False u)
       }) = ?g u (cs ! i)"
      using i c cstring_item[OF c(4)] by (auto simp: NoDBColVectorGet_def arr_get_in item_datum_def split: option.splits)
  qed
  also have "\<dots> = Some \<lparr>dvalues = store_cols (dvalues st) cs (\<lambda>c. datum (item_datum f vs c)),
    dnulls = store_cols (dnulls st) cs (\<lambda>c. null (item_datum f vs c))\<rparr>"
    using assms
  proof (induction cs rule: rev_induct)
    case (snoc x xs)
    then have x: "0 \<le> x" "nat x < length (dvalues st)" "nat x < length (dnulls st)" by auto
    show ?case using snoc.IH snoc.prems
        store_cols_snoc[OF x(1,2), of xs "\<lambda>c. datum (item_datum f vs c)"] store_cols_snoc[OF x(1,3), of xs "\<lambda>c. null (item_datum f vs c)"]
      by (simp add: foldM_snoc set_value_def)
  qed simp
  finally show ?thesis .
qed

section \<open>The scan\<close>

text \<open>A strategy that writes the columns \<open>pcs\<close> by value to data caches and the positions \<open>pms\<close> to positional maps.\<close>

definition strategy_writes :: "(nat \<times> NoDBCol_t list) list \<Rightarrow> (nat \<times> NoDBCol_t list) list \<Rightarrow> NoDBPlanState_t \<Rightarrow> bool" where
  "strategy_writes pcs pms p \<longleftrightarrow> writeToCacheByValue (curStrategy p) = map cpc pcs \<and> writeToCacheByRef (curStrategy p) = [] \<and>
     writeToPM (curStrategy p) = map cpc pms \<and> targets_ok pcs \<and> targets_ok pms \<and> fst ` set pcs \<inter> fst ` set pms = {} \<and>
     p_eolCache p \<notin> Some ` (fst ` set pcs \<union> fst ` set pms)"

text \<open>A strategy that reads the columns \<open>cs\<close> from the file.\<close>

definition file_strategy :: "NoDBCol_t list \<Rightarrow> (nat \<times> NoDBCol_t list) list \<Rightarrow> (nat \<times> NoDBCol_t list) list \<Rightarrow> NoDBPlanState_t \<Rightarrow> bool" where
  "file_strategy cs pcs pms p \<longleftrightarrow> readPostFilterWithCache (curStrategy p) = [] \<and> readPostFilterWithPM (curStrategy p) = [] \<and>
     readPostFilterViaPM (curStrategy p) = [] \<and> readPostFilterWithFile (curStrategy p) \<noteq> [] \<and> convertPostFilter (curStrategy p) = map Some cs \<and>
     readFile p = FromFile \<and> strategy_writes pcs pms p \<and> (\<forall>q col. target pcs q col \<or> target pms q col \<longrightarrow> col \<in> set cs)"

definition columns_ok :: "NoDBCol_t list \<Rightarrow> scan_state \<Rightarrow> bool" where
  "columns_ok cs s \<longleftrightarrow> 0 \<le> lastfield (s_format s) \<and> lastfield (s_format s) < nfields (s_format s) \<and>
     (\<forall>c \<in> set cs. c \<le> lastfield (s_format s)) \<and> fits s cs \<and> line_start (s_format s) (s_line s)"

definition eol_ready :: "nat \<Rightarrow> nodb_world \<Rightarrow> scan_state \<Rightarrow> bool" where
  "eol_ready n w s \<longleftrightarrow> (\<exists>e. load_cache w (p_eolCache (s_plan s)) = Some e \<and> eol_room e n) \<and> load_info w (s_execInfo s) \<noteq> None"

text \<open>The reader stands before the lines of \<open>rows\<close>.\<close>

definition before_rows :: "csv_item list list \<Rightarrow> scan_state \<Rightarrow> bool" where
  "before_rows rows s \<longleftrightarrow> csv_config (s_read s) (s_format s) \<and> buf_inv (s_reader s) \<and>
     unread (s_reader s) = file_of EOL_NL (map (row_line (s_format s)) rows) \<and>
     (eol_type (s_reader s) = EOL_UNKNOWN \<or> eol_type (s_reader s) = EOL_NL) \<and> (\<forall>vs \<in> set rows. csv_row_ok (s_format s) vs)"

definition scan_ready :: "NoDBCol_t list \<Rightarrow> nat \<Rightarrow> csv_item list list \<Rightarrow> nodb_world \<Rightarrow> scan_state \<Rightarrow> bool" where
  "scan_ready cs n rows w s \<longleftrightarrow> columns_ok cs s \<and> eol_ready n w s \<and> before_rows rows s \<and>
     processed (s_reader s) + length rows \<le> n \<and> int (length rows) < nMin (s_plan s)"

definition scans_rows ::
    "NoDBCol_t list \<Rightarrow> (nat \<times> NoDBCol_t list) list \<Rightarrow> (nat \<times> NoDBCol_t list) list \<Rightarrow> nat \<Rightarrow> csv_item list list \<Rightarrow> nodb_world \<Rightarrow> scan_state \<Rightarrow> bool" where
  "scans_rows cs pcs pms n rows w s \<longleftrightarrow> file_strategy cs pcs pms (s_plan s) \<and> scan_ready cs n rows w s"

lemmas scan_defs = scans_rows_def scan_ready_def

lemma eol_cache_frame [simp]: "unread (rd\<lparr>eolCache := c\<rparr>) = unread rd" "buf_inv (rd\<lparr>eolCache := c\<rparr>) = buf_inv rd"
  by (simp_all add: stored_simps)

lemma read_row:
  assumes "before_rows (vs # rows) s" "eol_ready n w s" "readFile (s_plan s) = FromFile" "processed (s_reader s) < n"
  obtains c rd where "readFile_call x (w, s) = Some (Val (store_cache w (p_eolCache (s_plan s)) c, s\<lparr>s_reader := rd\<rparr>, False))"
    "line_buf rd = row_line (s_format s) vs" "before_rows rows (s\<lparr>s_reader := rd\<rparr>)" "processed rd = processed (s_reader s)" "eol_room c n"
proof -
  obtain e i where e: "load_cache w (p_eolCache (s_plan s)) = Some e" "eol_room e n" "load_info w (s_execInfo s) = Some i"
    using assms(2) by (auto simp: eol_ready_def)
  let ?rd = "(s_reader s)\<lparr>eolCache := e\<rparr>"
  have b: "csv_config (s_read s) (s_format s)" "buf_inv ?rd" "csv_row_ok (s_format s) vs" "eol_type ?rd = EOL_UNKNOWN \<or> eol_type ?rd = EOL_NL"
      "unread ?rd = row_line (s_format s) vs @ terminator EOL_NL @ file_of EOL_NL (map (row_line (s_format s)) rows)" "eol_room (eolCache ?rd) n"
      "processed ?rd < n"
    using assms(1,4) e(2) by (auto simp: before_rows_def)
  have p: "plain_read (s_read s)" using b(1) by (simp add: csv_config_def)
  obtain rd where rd: "NoDBGetNextTupleFromFile (s_read s) (pg_encoding_mblen x) i (pg_client_to_server x) ?rd = Some (Val (rd, False))"
      "first_step_ok ?rd EOL_NL n (row_line (s_format s) vs) (file_of EOL_NL (map (row_line (s_format s)) rows)) rd"
    using first_step_line[OF p b(2) _ _ b(6,7)] line_spec_row[OF b(1,3,4)] unfolding b(5) by blast
  show thesis
  proof (rule that)
    show "readFile_call x (w, s) = Some (Val (store_cache w (p_eolCache (s_plan s)) (eolCache rd), s\<lparr>s_reader := rd\<rparr>, False))"
      using e rd(1) assms(3) by (simp add: readFile_call_def)
  qed (use rd(2) assms(1) in \<open>auto simp: first_step_ok_def before_rows_def\<close>)
qed

text \<open>Where the fields of a row are in its line.\<close>

definition item_pos :: "line_format \<Rightarrow> csv_item list \<Rightarrow> NoDBCol_t \<Rightarrow> NoDBPMPair_t" where
  "item_pos lf vs c = \<lparr>pointer = of_nat (field_start (map (csv_write lf) vs) (nat c)), width = of_nat (length (csv_write lf (vs ! nat c)))\<rparr>"

definition placed :: "line_format \<Rightarrow> csv_item list \<Rightarrow> line_state \<Rightarrow> bool" where
  "placed lf vs l \<longleftrightarrow> (\<forall>k. 0 \<le> k \<and> k \<le> lastfield lf \<longrightarrow> arr_get (map pair_of_attr (attributes l)) k = Some (Some (item_pos lf vs k)))"

lemma placed_fields:
  assumes "fields_read lf 0 0 (map (csv_write lf) vs) (map csv_value vs) l l'" "line_start lf l" "lastfield lf < int (length vs)" "lastfield lf < nfields lf"
  shows "placed lf vs l'"
  unfolding placed_def
proof (intro allI impI)
  fix k assume k: "0 \<le> k \<and> k \<le> lastfield lf"
  then have n: "nat k < length vs" "int (nat k) \<le> lastfield lf" using assms(3) by linarith+
  have "nat k < length (attributes l')" using assms(1,2,4) k unfolding fields_read_def line_start_def by linarith
  moreover have "a_ptr (attributes l' ! nat k) = Some (of_nat (field_start (map (csv_write lf) vs) (nat k)))"
      "a_width (attributes l' ! nat k) = Some (of_nat (length (csv_write lf (vs ! nat k))))"
    using assms(1) n by (simp_all add: fields_read_def)
  ultimately show "arr_get (map pair_of_attr (attributes l')) k = Some (Some (item_pos lf vs k))"
    using k by (simp add: arr_get_in pair_of_attr_def item_pos_def)
qed

lemma convert_row_values:
  assumes "columns_ok cs s" "csv_config (s_read s) (s_format s)" "csv_row_ok (s_format s) vs" "line_buf (s_reader s) = row_line (s_format s) vs"
  obtains l where "values_from_file x (map Some cs) s = Some (Val ((loaded (item_datum (input_fn x) vs) cs s)\<lparr>s_line := l\<rparr>))"
    "line_start (s_format s) l" "placed (s_format s) vs l"
proof -
  let ?f = "s_format s"
  have c: "0 \<le> lastfield ?f" "lastfield ?f < nfields ?f" "line_start ?f (s_line s)" "\<forall>c \<in> set cs. c \<le> lastfield ?f" "fits s cs"
    using assms(1) by (simp_all add: columns_ok_def)
  have v: "delimc ?f \<noteq> quotec ?f" "\<forall>v \<in> set vs. csv_writable ?f v" "vs \<noteq> []" "lastfield ?f < int (length vs)" "csv_mode (s_read s)"
      "\<forall>v \<in> set vs. item_bytes ?f v"
    using assms(2,3) c(1) by (auto simp: csv_config_def csv_row_ok_def)
  obtain l where l: "NoDBCopyReadAttributesCSV ?f (row_line ?f vs) (s_line s) = Some (Val l)"
      "fields_read ?f 0 0 (map (csv_write ?f) vs) (map csv_value vs) (s_line s) l"
    using csv_read_ok[OF c(3) v(1-3) c(1,2)] by (auto simp: row_line_def)
  have ls: "line_start ?f l" using c(3) l(2) by (simp add: line_start_def fields_read_def)
  have "\<forall>c \<in> set cs. 0 \<le> c \<and> nat c < length (field_strings l) \<and> field_strings l ! nat c = Some (csv_value (vs ! nat c)) \<and> item_bytes ?f (vs ! nat c) \<and>
      nat c < length (dvalues (s_values s)) \<and> nat c < length (dnulls (s_values s))"
  proof
    fix k assume k: "k \<in> set cs"
    then have b: "0 \<le> k" "k \<le> lastfield ?f" "nat k < length (dvalues (s_values s))" "nat k < length (dnulls (s_values s))"
      using c(4,5) by (auto simp: fits_def)
    have "nat k < length vs" using b v(4) by linarith
    moreover have "nat k < length (field_strings l)" using ls b c(2) unfolding line_start_def by linarith
    ultimately show "0 \<le> k \<and> nat k < length (field_strings l) \<and> field_strings l ! nat k = Some (csv_value (vs ! nat k)) \<and> item_bytes ?f (vs ! nat k) \<and>
      nat k < length (dvalues (s_values s)) \<and> nat k < length (dnulls (s_values s))"
      using l(2) b v(6) by (simp add: fields_read_def)
  qed
  from NoDBGetValues_row[OF this] have "values_from_file x (map Some cs) s = Some (Val ((loaded (item_datum (input_fn x) vs) cs s)\<lparr>s_line := l\<rparr>))"
    using l(1) v(5) assms(4) by (simp add: values_from_file_def full_parse_def loaded_def)
  then show thesis using that ls placed_fields[OF l(2) c(3) v(4) c(2)] by blast
qed

lemma load_info_cong: "nw_info w' = nw_info w \<Longrightarrow> load_info w' i = load_info w i"
  by (simp add: load_info_def)

lemma loaded_values:
  assumes "fits s cs" "col \<in> set cs"
  shows "arr_get (dvalues (s_values (loaded V cs s))) col = Some (Some (datum (V col)))"
    "arr_get (dnulls (s_values (loaded V cs s))) col = Some (Some (null (V col)))"
  using assms by (auto simp: fits_def loaded_def store_cols_def arr_get_in)

text \<open>Between reading the line of the row \<open>vs\<close> and storing its values.\<close>

definition row_open :: "NoDBCol_t list \<Rightarrow> nat \<Rightarrow> csv_item list list \<Rightarrow> csv_item list \<Rightarrow> nodb_world \<Rightarrow> scan_state \<Rightarrow> bool" where
  "row_open cs n rows vs w s \<longleftrightarrow> columns_ok cs s \<and> eol_ready n w s \<and> before_rows rows s \<and> csv_row_ok (s_format s) vs \<and>
     line_buf (s_reader s) = row_line (s_format s) vs \<and> Suc (processed (s_reader s) + length rows) \<le> n \<and>
     int (length rows) < nMin (s_plan s) - 1"

lemma open_row:
  assumes "scan_ready cs n (vs # rows) w s" "readFile (s_plan s) = FromFile" "p_eolCache (s_plan s) \<notin> Some ` D"
  obtains w' rd where "readFile_call x (w, s) = Some (Val (w', s\<lparr>s_reader := rd\<rparr>, False))" "row_open cs n rows vs w' (s\<lparr>s_reader := rd\<rparr>)"
    "processed rd = processed (s_reader s)" "keeps D w w'"
proof -
  let ?p = "s_plan s"
  have a: "columns_ok cs s" "eol_ready n w s" "before_rows (vs # rows) s" "processed (s_reader s) < n" "int (length rows) < nMin ?p - 1"
      "Suc (processed (s_reader s)) + length rows \<le> n"
    using assms(1) by (auto simp: scan_ready_def)
  obtain c rd where r: "readFile_call x (w, s) = Some (Val (store_cache w (p_eolCache ?p) c, s\<lparr>s_reader := rd\<rparr>, False))"
      "line_buf rd = row_line (s_format s) vs" "before_rows rows (s\<lparr>s_reader := rd\<rparr>)" "processed rd = processed (s_reader s)" "eol_room c n"
    using read_row[OF a(3,2) assms(2) a(4)] by blast
  obtain q where q: "p_eolCache ?p = Some q" using a(2) by (cases "p_eolCache ?p") (auto simp: eol_ready_def load_cache_def)
  have e: "eol_ready n (store_cache w (p_eolCache ?p) c) (s\<lparr>s_reader := rd\<rparr>)"
    using a(2) r(5) q load_info_cong[of "store_cache w (p_eolCache ?p) c" w] by (simp add: eol_ready_def load_cache_def)
  have "csv_row_ok (s_format s) vs" using a(3) by (simp add: before_rows_def)
  then have "row_open cs n rows vs (store_cache w (p_eolCache ?p) c) (s\<lparr>s_reader := rd\<rparr>)"
    using a r e by (simp add: row_open_def columns_ok_def fits_def)
  then show thesis using that r(1,4) store_cache_keeps[OF assms(3)] by blast
qed

lemma convert_open:
  assumes "row_open cs n rows vs w s" "set ds \<subseteq> set cs"
  obtains l where "values_from_file x (map Some ds) s = Some (Val ((loaded (item_datum (input_fn x) vs) ds s)\<lparr>s_line := l\<rparr>))"
    "row_open cs n rows vs w ((loaded (item_datum (input_fn x) vs) ds s)\<lparr>s_line := l\<rparr>)" "placed (s_format s) vs l"
proof -
  have a: "columns_ok ds s" "csv_config (s_read s) (s_format s)" "csv_row_ok (s_format s) vs" "line_buf (s_reader s) = row_line (s_format s) vs"
    using assms by (auto simp: row_open_def columns_ok_def before_rows_def fits_def)
  obtain l where l: "values_from_file x (map Some ds) s = Some (Val ((loaded (item_datum (input_fn x) vs) ds s)\<lparr>s_line := l\<rparr>))"
      "line_start (s_format s) l" "placed (s_format s) vs l"
    using convert_row_values[OF a] by blast
  have "row_open cs n rows vs w ((loaded (item_datum (input_fn x) vs) ds s)\<lparr>s_line := l\<rparr>)"
    using assms(1) l(2) by (simp add: row_open_def columns_ok_def eol_ready_def before_rows_def fits_def loaded_def)
  then show thesis using that l(1,3) by blast
qed

text \<open>The columns \<open>cs\<close> of the row have their values \<open>V\<close>.\<close>

definition has_values :: "NoDBCol_t list \<Rightarrow> (NoDBCol_t \<Rightarrow> NoDBDatum_t) \<Rightarrow> scan_state \<Rightarrow> bool" where
  "has_values cs V s \<longleftrightarrow> (\<forall>col \<in> set cs. arr_get (dvalues (s_values s)) col = Some (Some (datum (V col))) \<and>
     arr_get (dnulls (s_values s)) col = Some (Some (null (V col))))"

lemma has_values_datum: "has_values cs V s \<Longrightarrow> col \<in> set cs \<Longrightarrow> datum_of s col = V col"
  by (simp add: has_values_def datum_of_def arr_get_Some_iff)

lemma has_values_slot:
  "has_values cs V s \<Longrightarrow> \<forall>c \<in> set cs. tts_values (slot_of s) ! nat c = Some (datum (V c)) \<and> tts_isnull (slot_of s) ! nat c = Some (null (V c))"
  by (simp add: has_values_def slot_of_def generateTupleTableSlot_def arr_get_Some_iff)

lemma has_values_loaded: "fits s cs \<Longrightarrow> has_values cs V ((loaded V cs s)\<lparr>s_line := l\<rparr>)"
  using loaded_values[of s cs _ V] by (simp add: has_values_def)

section \<open>Storing a row\<close>

text \<open>Room for a row in the data caches and the positional maps, and what they hold of it.\<close>

definition caches_room :: "(nat \<times> NoDBCol_t list) list \<Rightarrow> (nat \<times> NoDBCol_t list) list \<Rightarrow> nodb_world \<Rightarrow> NoDBRow_t \<Rightarrow> bool" where
  "caches_room pcs pms w row \<longleftrightarrow> row_room 9 pcs w row \<and> row_room 4 pms w row"

definition caches_hold ::
    "(int \<Rightarrow> byte list \<Rightarrow> 64 word) \<Rightarrow> line_format \<Rightarrow> (nat \<times> NoDBCol_t list) list \<Rightarrow> (nat \<times> NoDBCol_t list) list \<Rightarrow> nodb_world \<Rightarrow> NoDBRow_t \<Rightarrow>
     csv_item list \<Rightarrow> bool" where
  "caches_hold f lf pcs pms w row vs \<longleftrightarrow> row_holds dec_datum 9 pcs w row (item_datum f vs) \<and> row_holds dec_pair 4 pms w row (item_pos lf vs)"

lemma caches_keep:
  assumes "keeps (fst ` set pcs \<union> fst ` set pms) w w'"
  shows "caches_room pcs pms w' row = caches_room pcs pms w row" "caches_hold f lf pcs pms w' row vs = caches_hold f lf pcs pms w row vs"
proof -
  have k: "keeps (fst ` set pcs) w w'" "keeps (fst ` set pms) w w'" using assms by (auto intro: keeps_mono)
  show "caches_room pcs pms w' row = caches_room pcs pms w row" "caches_hold f lf pcs pms w' row vs = caches_hold f lf pcs pms w row vs"
    unfolding caches_room_def caches_hold_def keeps_rows[OF k(1)] keeps_rows[OF k(2)] by simp_all
qed

lemma write_positions_eq:
  assumes "\<forall>p col. target pms p col \<longrightarrow> arr_get (map pair_of_attr (attributes (s_line s))) col = Some (Some (P col))"
  shows "write_positions (map cpc pms) s w = write_all enc_pair pms (s_row s) P w"
  using assms
proof (induction pms arbitrary: w)
  case (Cons pc pms)
  obtain p cs where pc: "pc = (p, cs)" by (cases pc)
  have v: "\<forall>col \<in> set cs. arr_get (map pair_of_attr (attributes (s_line s))) col = Some (Some (P col))"
    using Cons.prems unfolding pc target_Cons by blast
  have IH: "write_positions (map cpc pms) s w = write_all enc_pair pms (s_row s) P w" for w
    using Cons.prems by (intro Cons.IH) (simp add: pc target_Cons)
  have "write_positions (map cpc (pc # pms)) s w = do {
       c \<leftarrow> h_caches (nw_heap w) p;
       c \<leftarrow> foldM (\<lambda>c col. cell_set enc_pair c col (s_row s) (P col)) c cs;
       write_positions (map cpc pms) s (store_cache w (Some p) c) }"
    by (simp add: write_positions_def pc cpc_def load_cache_def NoDBCacheSetPMPairVector_eq[OF v] foldM_bind del: foldM.simps(2))
  then show ?case unfolding IH by (simp add: write_all_def pc foldM_bind del: foldM.simps(2))
qed (simp add: write_positions_def write_all_def)

lemma write_caches_row:
  assumes "strategy_writes pcs pms (s_plan s)" "caches_room pcs pms w (s_row s)" "has_values ds (item_datum f vs) s"
    "\<forall>q col. target pcs q col \<longrightarrow> col \<in> set ds" "placed lf vs (s_line s)" "\<forall>q col. target pms q col \<longrightarrow> 0 \<le> col \<and> col \<le> lastfield lf"
  obtains w' where "write_caches x (curStrategy (s_plan s)) s w = Some w'" "caches_hold f lf pcs pms w' (s_row s) vs"
    "keeps (- (fst ` set pcs \<union> fst ` set pms)) w w'" "nw_info w' = nw_info w"
    "\<forall>row. caches_room pcs pms w row \<longrightarrow> caches_room pcs pms w' row"
    "\<forall>row us. row \<noteq> s_row s \<longrightarrow> caches_room pcs pms w row \<longrightarrow> caches_hold f lf pcs pms w row us \<longrightarrow> caches_hold f lf pcs pms w' row us"
proof -
  let ?V = "item_datum f vs" and ?P = "item_pos lf vs"
  have st: "writeToCacheByValue (curStrategy (s_plan s)) = map cpc pcs" "writeToCacheByRef (curStrategy (s_plan s)) = []"
      "writeToPM (curStrategy (s_plan s)) = map cpc pms" "targets_ok pcs" "targets_ok pms" "fst ` set pcs \<inter> fst ` set pms = {}"
    using assms(1) by (simp_all add: strategy_writes_def)
  have room: "row_room 9 pcs w (s_row s)" "row_room 4 pms w (s_row s)" using assms(2) by (simp_all add: caches_room_def)
  have v: "\<forall>p col. target pcs p col \<longrightarrow> arr_get (dvalues (s_values s)) col = Some (Some (datum (?V col))) \<and>
      arr_get (dnulls (s_values s)) col = Some (Some (null (?V col)))"
    using assms(3,4) by (simp add: has_values_def)
  have a: "\<forall>p col. target pms p col \<longrightarrow> arr_get (map pair_of_attr (attributes (s_line s))) col = Some (Some (?P col))"
    using assms(5,6) unfolding placed_def by blast
  obtain w1 where w1: "write_all enc_datum pcs (s_row s) ?V w = Some w1" "row_holds dec_datum 9 pcs w1 (s_row s) ?V"
      "stores dec_datum 9 (s_row s) ?V w w1" "keeps (- fst ` set pcs) w w1" "nw_info w1 = nw_info w"
    using datum_codec.write_all_stores[OF st(4) room(1), of ?V] by blast
  have k1: "keeps (fst ` set pms) w w1" using w1(4) st(6) by (auto intro: keeps_mono)
  have "row_room 4 pms w1 (s_row s)" using room(2) keeps_rows(1)[OF k1] by simp
  then obtain w' where w': "write_all enc_pair pms (s_row s) ?P w1 = Some w'" "row_holds dec_pair 4 pms w' (s_row s) ?P"
      "stores dec_pair 4 (s_row s) ?P w1 w'" "keeps (- fst ` set pms) w1 w'" "nw_info w' = nw_info w1"
    using pair_codec.write_all_stores[OF st(5), of w1 "s_row s" ?P] by blast
  have k2: "keeps (fst ` set pcs) w1 w'" using w'(4) st(6) by (auto intro: keeps_mono)
  show thesis
  proof (rule that)
    show "write_caches x (curStrategy (s_plan s)) s w = Some w'"
      using st(1-3) w1(1) w'(1) by (simp add: write_caches_def write_by_value_eq[OF v] write_positions_eq[OF a] write_by_ref_def)
    show "caches_hold f lf pcs pms w' (s_row s) vs" using w1(2) w'(2) keeps_rows(2)[OF k2, of dec_datum] by (simp add: caches_hold_def)
    show "keeps (- (fst ` set pcs \<union> fst ` set pms)) w w'" using w1(4) w'(4) by (auto simp: keeps_def)
    show "nw_info w' = nw_info w" using w1(5) w'(5) by simp
    show "\<forall>row. caches_room pcs pms w row \<longrightarrow> caches_room pcs pms w' row"
      using datum_codec.stores_rows(1)[OF w1(3)] pair_codec.stores_rows(1)[OF w'(3)] keeps_rows(1)[OF k1] keeps_rows(1)[OF k2]
      by (simp add: caches_room_def)
    show "\<forall>row us. row \<noteq> s_row s \<longrightarrow> caches_room pcs pms w row \<longrightarrow> caches_hold f lf pcs pms w row us \<longrightarrow> caches_hold f lf pcs pms w' row us"
    proof (intro allI impI)
      fix row us assume h: "row \<noteq> s_row s" "caches_room pcs pms w row" "caches_hold f lf pcs pms w row us"
      have "row_holds dec_datum 9 pcs w1 row (item_datum f us)" using h datum_codec.stores_rows(2)[OF w1(3) h(1)] by (simp add: caches_room_def caches_hold_def)
      moreover have "row_room 4 pms w1 row" "row_holds dec_pair 4 pms w1 row (item_pos lf us)"
        using h keeps_rows(1)[OF k1] keeps_rows(2)[OF k1, of dec_pair] by (simp_all add: caches_room_def caches_hold_def)
      ultimately show "caches_hold f lf pcs pms w' row us"
        using pair_codec.stores_rows(2)[OF w'(3) h(1)] keeps_rows(2)[OF k2, of dec_datum] by (simp add: caches_hold_def)
    qed
  qed
qed

section \<open>One row of a scan\<close>

text \<open>What a plan has done when it has delivered the row \<open>vs\<close>.\<close>

definition row_stored ::
    "externals \<Rightarrow> (nat \<times> NoDBCol_t list) list \<Rightarrow> (nat \<times> NoDBCol_t list) list \<Rightarrow> csv_item list \<Rightarrow> nodb_world \<Rightarrow> scan_state \<Rightarrow> nodb_world \<Rightarrow> scan_state \<Rightarrow> bool" where
  "row_stored x pcs pms vs w s w' s' \<longleftrightarrow> processed (s_reader s') = Suc (processed (s_reader s)) \<and> s_format s' = s_format s \<and>
     caches_hold (input_fn x) (s_format s) pcs pms w' (s_row s) vs \<and> (\<forall>row. caches_room pcs pms w row \<longrightarrow> caches_room pcs pms w' row) \<and>
     (\<forall>row us. row \<noteq> s_row s \<longrightarrow> caches_room pcs pms w row \<longrightarrow> caches_hold (input_fn x) (s_format s) pcs pms w row us \<longrightarrow>
        caches_hold (input_fn x) (s_format s) pcs pms w' row us)"

abbreviation next_row :: "scan_state \<Rightarrow> scan_state" where
  "next_row s \<equiv> s\<lparr>s_reader := (s_reader s)\<lparr>processed := processed (s_reader s) + 1\<rparr>, s_plan := (s_plan s)\<lparr>nMin := nMin (s_plan s) - 1\<rparr>\<rparr>"

lemma close_row:
  assumes "row_open cs n rows vs w s" "strategy_writes pcs pms (s_plan s)" "caches_room pcs pms w (s_row s)"
    "has_values ds (item_datum (input_fn x) vs) s" "\<forall>q col. target pcs q col \<longrightarrow> col \<in> set ds" "placed (s_format s) vs (s_line s)"
    "\<forall>q col. target pms q col \<longrightarrow> col \<in> set cs"
  obtains w' where "write_caches x (curStrategy (s_plan s)) s w = Some w'"
    "return_tuple pass (w', s) = Some (Val (w', next_row s, Some (slot_of s), pass))" "scan_ready cs n rows w' (next_row s)"
    "row_stored x pcs pms vs w s w' (next_row s)"
proof -
  let ?p = "s_plan s"
  have o: "columns_ok cs s" "eol_ready n w s" "before_rows rows s" "Suc (processed (s_reader s)) + length rows \<le> n"
      "int (length rows) < nMin ?p - 1"
    using assms(1) by (simp_all add: row_open_def)
  have pm: "\<forall>q col. target pms q col \<longrightarrow> 0 \<le> col \<and> col \<le> lastfield (s_format s)"
    using assms(7) o(1) by (auto simp: columns_ok_def fits_def)
  obtain w' where w': "write_caches x (curStrategy ?p) s w = Some w'" "caches_hold (input_fn x) (s_format s) pcs pms w' (s_row s) vs"
      "keeps (- (fst ` set pcs \<union> fst ` set pms)) w w'" "nw_info w' = nw_info w"
      "\<forall>row. caches_room pcs pms w row \<longrightarrow> caches_room pcs pms w' row"
      "\<forall>row us. row \<noteq> s_row s \<longrightarrow> caches_room pcs pms w row \<longrightarrow> caches_hold (input_fn x) (s_format s) pcs pms w row us \<longrightarrow>
         caches_hold (input_fn x) (s_format s) pcs pms w' row us"
    by (rule write_caches_row[OF assms(2-6) pm, of x])
  have "return_tuple pass (w', s) = Some (Val (w', next_row s, Some (slot_of s), pass))"
    using o(5) by (simp add: return_tuple_def finish_inside slot_of_def)
  moreover have "scan_ready cs n rows w' (next_row s)"
  proof -
    obtain q e where q: "p_eolCache ?p = Some q" "load_cache w (Some q) = Some e" "eol_room e n"
      using o(2) by (cases "p_eolCache ?p") (auto simp: eol_ready_def load_cache_def)
    moreover have "q \<in> - (fst ` set pcs \<union> fst ` set pms)" using assms(2) q(1) by (auto simp: strategy_writes_def)
    ultimately have "load_cache w' (Some q) = Some e" using keeps_cache[OF w'(3)] by simp
    then have "eol_ready n w' (next_row s)" using o(2) q load_info_cong[OF w'(4)] by (simp add: eol_ready_def)
    then show ?thesis using o by (simp add: scan_ready_def columns_ok_def before_rows_def fits_def)
  qed
  moreover have "row_stored x pcs pms vs w s w' (next_row s)" using w'(2,5,6) by (simp add: row_stored_def)
  ultimately show thesis using that[OF w'(1)] by blast
qed

definition row_slot :: "externals \<Rightarrow> NoDBCol_t list \<Rightarrow> csv_item list \<Rightarrow> TupleTableSlot \<Rightarrow> bool" where
  "row_slot x cs vs t \<longleftrightarrow> \<not> tts_isempty t \<and> (\<forall>c \<in> set cs. tts_values t ! nat c = Some (datum (item_datum (input_fn x) vs c)) \<and>
     tts_isnull t ! nat c = Some (null (item_datum (input_fn x) vs c)))"

lemma row_slot_of: "has_values cs (item_datum (input_fn x) vs) s \<Longrightarrow> row_slot x cs vs (slot_of s)"
  using has_values_slot[of cs "item_datum (input_fn x) vs" s] by (simp add: row_slot_def slot_of_def generateTupleTableSlot_def)

lemma scan_row:
  assumes "scans_rows cs pcs pms n (vs # rows) w s" "caches_room pcs pms w (s_row s)"
  shows "\<exists>w' s' t. NoDBExecPlan x w s pass = Some (Val (w', s', Some t, pass)) \<and> scans_rows cs pcs pms n rows w' s' \<and>
    row_slot x cs vs t \<and> row_stored x pcs pms vs w s w' s'"
proof -
  let ?V = "item_datum (input_fn x) vs"
  let ?p = "s_plan s"
  have a: "file_strategy cs pcs pms ?p" "scan_ready cs n (vs # rows) w s" using assms(1) by (simp_all add: scans_rows_def)
  have str: "readFile ?p = FromFile" "strategy_writes pcs pms ?p" "\<forall>q col. target pcs q col \<longrightarrow> col \<in> set cs"
      "p_eolCache ?p \<notin> Some ` (fst ` set pcs \<union> fst ` set pms)" "\<forall>q col. target pms q col \<longrightarrow> col \<in> set cs"
    using a(1) unfolding file_strategy_def strategy_writes_def by blast+
  obtain w1 rd where r: "readFile_call x (w, s) = Some (Val (w1, s\<lparr>s_reader := rd\<rparr>, False))" "row_open cs n rows vs w1 (s\<lparr>s_reader := rd\<rparr>)"
      "processed rd = processed (s_reader s)" "keeps (fst ` set pcs \<union> fst ` set pms) w w1"
    by (rule open_row[OF a(2) str(1,4)])
  obtain l where l: "values_from_file x (map Some cs) (s\<lparr>s_reader := rd\<rparr>) = Some (Val ((loaded ?V cs (s\<lparr>s_reader := rd\<rparr>))\<lparr>s_line := l\<rparr>))"
      "row_open cs n rows vs w1 ((loaded ?V cs (s\<lparr>s_reader := rd\<rparr>))\<lparr>s_line := l\<rparr>)" "placed (s_format (s\<lparr>s_reader := rd\<rparr>)) vs l"
    by (rule convert_open[OF r(2) subset_refl])
  let ?u = "(loaded ?V cs (s\<lparr>s_reader := rd\<rparr>))\<lparr>s_line := l\<rparr>"
  have hv: "has_values cs ?V ?u" using r(2) by (intro has_values_loaded) (simp add: row_open_def columns_ok_def)
  have fr: "s_row ?u = s_row s" "s_format ?u = s_format s" "processed (s_reader ?u) = processed (s_reader s)" using r(3) by (simp_all add: loaded_def)
  have room: "caches_room pcs pms w1 (s_row ?u)" using caches_keep(1)[OF r(4)] assms(2) fr by simp
  have u: "strategy_writes pcs pms (s_plan ?u)" "placed (s_format ?u) vs (s_line ?u)" using str l(3) by (simp_all add: loaded_def)
  obtain w' where w': "write_caches x (curStrategy (s_plan ?u)) ?u w1 = Some w'"
      "return_tuple pass (w', ?u) = Some (Val (w', next_row ?u, Some (slot_of ?u), pass))" "scan_ready cs n rows w' (next_row ?u)"
      "row_stored x pcs pms vs w1 ?u w' (next_row ?u)"
    by (rule close_row[OF l(2) u(1) room hv str(3) u(2) str(5)])
  have "read_columns x w1 [] [] [] (readPostFilterWithFile (curStrategy ?p)) (map Some cs) (map Some cs) (s\<lparr>s_reader := rd\<rparr>) = Some (Val ?u)"
    using l(1) a(1) by (simp add: read_columns_def read_with_cache_def read_with_pm_def read_via_pm_def file_strategy_def NoDBColVectorSize_def)
  then have "NoDBExecPlan x w s pass = Some (Val (w', next_row ?u, Some (slot_of ?u), pass))"
    using r(1) w'(1,2) a(1) by (simp add: NoDBExecPlan_def file_strategy_def)
  moreover have "scans_rows cs pcs pms n rows w' (next_row ?u)"
    using w'(3) a(1) by (simp add: scans_rows_def file_strategy_def strategy_writes_def)
  moreover have "row_stored x pcs pms vs w s w' (next_row ?u)"
    using w'(4) fr caches_keep[OF r(4)] by (simp add: row_stored_def)
  ultimately show ?thesis using row_slot_of[OF hv] by blast
qed

lemma read_end:
  assumes "scan_ready cs n [] w s" "readFile (s_plan s) = FromFile" "p_eolCache (s_plan s) \<notin> Some ` D"
  shows "\<exists>w' s'. readFile_call x (w, s) = Some (Val (w', s', True)) \<and> keeps D w w'"
proof -
  obtain e i where e: "load_cache w (p_eolCache (s_plan s)) = Some e" "load_info w (s_execInfo s) = Some i"
    using assms by (auto simp: scan_ready_def eol_ready_def)
  let ?rd = "(s_reader s)\<lparr>eolCache := e\<rparr>"
  have b: "plain_read (s_read s)" "buf_inv ?rd" "unread ?rd = []"
    using assms by (auto simp: scan_ready_def before_rows_def csv_config_def)
  obtain rd where "NoDBGetNextTupleFromFile (s_read s) (pg_encoding_mblen x) i (pg_client_to_server x) ?rd = Some (Val (rd, True))"
    using first_end[OF b(1-3)] by blast
  then show ?thesis using e assms(2) store_cache_keeps[OF assms(3)] by (simp add: readFile_call_def)
qed

section \<open>All rows of a scan\<close>

text \<open>
  The contract between a plan and the operators above it: a call delivers the next row, stores it and keeps
  what earlier calls stored; after the last row a call reports the end.
\<close>

locale row_plan =
  fixes x :: externals and plan :: "nodb_world \<Rightarrow> scan_state \<Rightarrow> exec_result"
    and ready :: "csv_item list list \<Rightarrow> nodb_world \<Rightarrow> scan_state \<Rightarrow> bool"
    and pcs pms :: "(nat \<times> NoDBCol_t list) list" and good :: "csv_item list \<Rightarrow> TupleTableSlot \<Rightarrow> bool \<Rightarrow> bool"
  assumes step: "ready (vs # rows) w s \<Longrightarrow> caches_room pcs pms w (s_row s) \<Longrightarrow>
      \<exists>w' s' t b. plan w s = Some (Val (w', s', Some t, b)) \<and> ready rows w' s' \<and> good vs t b \<and> row_stored x pcs pms vs w s w' s'"
    and stop: "ready [] w s \<Longrightarrow> \<exists>w' s' b. plan w s = Some (Val (w', s', None, b)) \<and> keeps (fst ` set pcs \<union> fst ` set pms) w w'"
    and rows_bound: "ready rows w s \<Longrightarrow> processed (s_reader s) + length rows < 2 ^ 64"
begin

definition room_for :: "csv_item list list \<Rightarrow> nodb_world \<Rightarrow> scan_state \<Rightarrow> bool" where
  "room_for rows w s \<longleftrightarrow> (\<forall>i < length rows. caches_room pcs pms w (of_nat (processed (s_reader s) + i)))"

lemma room_step:
  assumes "room_for (vs # rows) w s" "row_stored x pcs pms vs w s w' s'"
  shows "room_for rows w' s'"
  unfolding room_for_def
proof (intro allI impI)
  fix i assume "i < length rows"
  then have "caches_room pcs pms w (of_nat (processed (s_reader s) + Suc i))" using assms(1) unfolding room_for_def by (metis Suc_less_eq length_Cons)
  then show "caches_room pcs pms w' (of_nat (processed (s_reader s') + i))" using assms(2) by (simp add: row_stored_def)
qed

text \<open>The rows a scan has stored.\<close>

definition stored_rows :: "csv_item list list \<Rightarrow> nodb_world \<Rightarrow> scan_state \<Rightarrow> nodb_world \<Rightarrow> bool" where
  "stored_rows rows w s w' \<longleftrightarrow>
     (\<forall>i < length rows. caches_hold (input_fn x) (s_format s) pcs pms w' (of_nat (processed (s_reader s) + i)) (rows ! i)) \<and>
     (\<forall>row us. (\<forall>i < length rows. row \<noteq> of_nat (processed (s_reader s) + i)) \<longrightarrow> caches_room pcs pms w row \<longrightarrow>
        caches_hold (input_fn x) (s_format s) pcs pms w row us \<longrightarrow> caches_hold (input_fn x) (s_format s) pcs pms w' row us)"

lemma stored_rows_keeps:
  assumes "stored_rows rows w s w'" "keeps (fst ` set pcs \<union> fst ` set pms) w' w''"
  shows "stored_rows rows w s w''"
  using assms(1) unfolding stored_rows_def caches_keep[OF assms(2)] .

lemma stored_rows_Nil: "stored_rows [] w s w"
  by (simp add: stored_rows_def)

lemma stored_rows_Cons:
  assumes "row_stored x pcs pms vs w s w1 s1" "stored_rows rows w1 s1 w'" "caches_room pcs pms w (s_row s)"
    "processed (s_reader s) + Suc (length rows) < 2 ^ 64"
  shows "stored_rows (vs # rows) w s w'"
proof -
  let ?k = "processed (s_reader s)"
  have r: "processed (s_reader s1) = Suc ?k" "s_format s1 = s_format s" "caches_hold (input_fn x) (s_format s) pcs pms w1 (of_nat ?k) vs"
      "\<forall>row. caches_room pcs pms w row \<longrightarrow> caches_room pcs pms w1 row"
      "\<forall>row us. row \<noteq> of_nat ?k \<longrightarrow> caches_room pcs pms w row \<longrightarrow> caches_hold (input_fn x) (s_format s) pcs pms w row us \<longrightarrow>
         caches_hold (input_fn x) (s_format s) pcs pms w1 row us"
    using assms(1) by (simp_all add: row_stored_def)
  have t: "\<forall>i < length rows. caches_hold (input_fn x) (s_format s) pcs pms w' (of_nat (Suc ?k + i)) (rows ! i)"
      "\<forall>row us. (\<forall>i < length rows. row \<noteq> of_nat (Suc ?k + i)) \<longrightarrow> caches_room pcs pms w1 row \<longrightarrow>
        caches_hold (input_fn x) (s_format s) pcs pms w1 row us \<longrightarrow> caches_hold (input_fn x) (s_format s) pcs pms w' row us"
    using assms(2) unfolding stored_rows_def r(1,2) by blast+
  have ne: "(of_nat ?k :: 64 word) \<noteq> of_nat (Suc ?k + i)" if "i < length rows" for i
    using row_inj[of ?k "Suc ?k + i"] that assms(4) by linarith
  have h0: "caches_hold (input_fn x) (s_format s) pcs pms w' (of_nat ?k) vs" using t(2) ne r(3,4) assms(3) by blast
  have "caches_hold (input_fn x) (s_format s) pcs pms w' (of_nat (?k + i)) ((vs # rows) ! i)" if "i < Suc (length rows)" for i
    using that h0 t(1) by (cases i) auto
  moreover have "caches_hold (input_fn x) (s_format s) pcs pms w' row us"
    if "\<forall>i < Suc (length rows). row \<noteq> of_nat (?k + i)" "caches_room pcs pms w row" "caches_hold (input_fn x) (s_format s) pcs pms w row us" for row us
  proof -
    have "row \<noteq> of_nat ?k" "\<forall>i < length rows. row \<noteq> of_nat (Suc ?k + i)" using that(1)[rule_format, of 0] that(1) by (simp, metis Suc_less_eq add_Suc_shift)
    then show ?thesis using t(2) r(4,5) that(2,3) by blast
  qed
  ultimately show ?thesis unfolding stored_rows_def by auto
qed

lemma deliver_rows:
  assumes "ready rows w s" "room_for rows w s"
  shows "\<exists>ts w' s'. deliver plan (length rows) w s = Some (ts, w', s') \<and> length ts = length rows \<and> ready [] w' s' \<and>
    (\<forall>i < length rows. \<exists>b. good (rows ! i) (ts ! i) b) \<and> stored_rows rows w s w'"
  using assms
proof (induction rows arbitrary: w s)
  case Nil
  then show ?case by (simp add: stored_rows_Nil)
next
  case (Cons vs rows)
  have room: "caches_room pcs pms w (s_row s)" using Cons.prems(2) by (auto simp: room_for_def)
  obtain w1 s1 t b where t: "plan w s = Some (Val (w1, s1, Some t, b))" "ready rows w1 s1" "good vs t b" "row_stored x pcs pms vs w s w1 s1"
    using step[OF Cons.prems(1) room] by blast
  obtain ts w' s' where IH: "deliver plan (length rows) w1 s1 = Some (ts, w', s')" "length ts = length rows" "ready [] w' s'"
      "\<forall>i < length rows. \<exists>b. good (rows ! i) (ts ! i) b" "stored_rows rows w1 s1 w'"
    using Cons.IH[OF t(2) room_step[OF Cons.prems(2) t(4)]] by blast
  have "\<exists>b. good ((vs # rows) ! i) ((t # ts) ! i) b" if "i < Suc (length rows)" for i
    using that t(3) IH(4) by (cases i) auto
  moreover have "stored_rows (vs # rows) w s w'"
    using stored_rows_Cons[OF t(4) IH(5) room] rows_bound[OF Cons.prems(1)] by simp
  ultimately show ?case using t(1) IH(1-3) by (intro exI[of _ "t # ts"] exI[of _ w'] exI[of _ s']) simp
qed

end

lemma scan_ready_bound: "scan_ready cs n rows w s \<Longrightarrow> processed (s_reader s) + length rows < 2 ^ 64"
  by (auto simp: scan_ready_def eol_ready_def eol_room_def)

interpretation file_plan: row_plan x "\<lambda>w s. NoDBExecPlan x w s pass" "scans_rows cs pcs pms n" pcs pms "\<lambda>vs t b. row_slot x cs vs t"
  for x pass cs pcs pms n
proof
  fix vs rows w s assume "scans_rows cs pcs pms n (vs # rows) w s" "caches_room pcs pms w (s_row s)"
  then show "\<exists>w' s' t b. NoDBExecPlan x w s pass = Some (Val (w', s', Some t, b)) \<and> scans_rows cs pcs pms n rows w' s' \<and>
      row_slot x cs vs t \<and> row_stored x pcs pms vs w s w' s'"
    using scan_row by blast
next
  fix w s assume "scans_rows cs pcs pms n [] w s"
  then have "scan_ready cs n [] w s" "readFile (s_plan s) = FromFile" "p_eolCache (s_plan s) \<notin> Some ` (fst ` set pcs \<union> fst ` set pms)"
    by (simp_all add: scans_rows_def file_strategy_def strategy_writes_def)
  from read_end[OF this, of x] show "\<exists>w' s' b. NoDBExecPlan x w s pass = Some (Val (w', s', None, b)) \<and> keeps (fst ` set pcs \<union> fst ` set pms) w w'"
    by (auto simp: NoDBExecPlan_def)
next
  fix rows w s assume "scans_rows cs pcs pms n rows w s"
  then show "processed (s_reader s) + length rows < 2 ^ 64" using scan_ready_bound by (auto simp: scans_rows_def)
qed

text \<open>
  C4: A first scan delivers the table. The file holds the rows of a table as CSV lines, with nulls, plain
  fields and quoted fields that may contain delimiters, quotes and line ends; the end-of-line cache, the
  data caches and the positional maps have room. Then \<open>NoDBExecPlan\<close>, called once per row, never fails: the
  i-th call returns a slot whose wanted columns hold the converted values of row i and its null flags.
  Afterwards the data caches hold these values in the rows of the scan, the positional maps hold where
  each of their columns starts in its line and how long it is, and the next call returns no slot, the
  end of the table.
\<close>

theorem table_scan:
  assumes "scans_rows cs pcs pms n rows w s" "\<forall>i < length rows. caches_room pcs pms w (of_nat (processed (s_reader s) + i))"
  shows "\<exists>ts w' s'. deliver (\<lambda>w s. NoDBExecPlan x w s pass) (length rows) w s = Some (ts, w', s') \<and> length ts = length rows \<and>
    (\<forall>i < length rows. \<forall>c \<in> set cs. tts_values (ts ! i) ! nat c = Some (datum (item_datum (input_fn x) (rows ! i) c)) \<and>
       tts_isnull (ts ! i) ! nat c = Some (null (item_datum (input_fn x) (rows ! i) c))) \<and>
    (\<forall>i < length rows. caches_hold (input_fn x) (s_format s) pcs pms w' (of_nat (processed (s_reader s) + i)) (rows ! i)) \<and>
    (\<exists>w'' s'' b. NoDBExecPlan x w' s' pass = Some (Val (w'', s'', None, b)))"
proof -
  have room: "file_plan.room_for pcs pms rows w s" using assms(2) by (simp add: file_plan.room_for_def)
  obtain ts w' s' where d: "deliver (\<lambda>w s. NoDBExecPlan x w s pass) (length rows) w s = Some (ts, w', s')" "length ts = length rows"
      "scans_rows cs pcs pms n [] w' s'" "\<forall>i < length rows. row_slot x cs (rows ! i) (ts ! i)" "file_plan.stored_rows x pcs pms rows w s w'"
    using file_plan.deliver_rows[OF assms(1) room] by blast
  then show ?thesis using file_plan.stop[OF d(3), of x pass] by (auto simp: file_plan.stored_rows_def row_slot_def)
qed

text \<open>Two rows with a quoted line end and a quoted quote, and a positional map for the last column.\<close>

definition table_rows :: "csv_item list list" where
  "table_rows = [[CPlain [97], CQuoted [98, 10, 44], CNull], [CNull, CPlain [99], CQuoted [34]]]"

definition table_world :: nodb_world where
  "table_world = plan_world\<lparr>nw_heap := (nw_heap plan_world)\<lparr>h_caches := (h_caches (nw_heap plan_world))(7 \<mapsto> plan_data)\<rparr>\<rparr>"

definition table_start :: scan_state where
  "table_start = plan_scan\<lparr>s_reader := text_reader (file_of EOL_NL (map (row_line (s_format plan_scan)) table_rows)),
     s_plan := (s_plan plan_scan)\<lparr>readFile := FromFile, curStrategy := plan_strategy\<lparr>writeToPM := [cpc (7, [2])]\<rparr>\<rparr>\<rparr>"

lemma table_ready: "scan_ready [1, 2] 2 table_rows table_world table_start"
proof -
  have "columns_ok [1, 2] table_start"
    by (simp add: columns_ok_def fits_def line_start_def table_start_def plan_scan_def)
  moreover have "eol_ready 2 table_world table_start"
    using demo_eol_cells
    by (auto simp: eol_ready_def eol_room_def load_cache_def load_info_def arr_get_in table_world_def plan_world_def table_start_def
        plan_scan_def less_2_cases_iff)
  moreover have "csv_config (s_read table_start) (s_format table_start)"
    using csv_format_read by (simp add: csv_config_def table_start_def plan_scan_def) (simp add: csv_format_def)
  then have "before_rows table_rows table_start"
    by (simp add: before_rows_def table_start_def text_reader_inv)
       (simp add: csv_row_ok_def row_line_def csv_escape_def plan_scan_def table_rows_def)
  ultimately show ?thesis by (simp add: scan_ready_def table_start_def plan_scan_def text_reader_def table_rows_def)
qed

lemma table_targets: "target [(5, [1, 2])] p col \<longleftrightarrow> p = 5 \<and> (col = 1 \<or> col = 2)" "target [(7, [2])] p col \<longleftrightarrow> p = 7 \<and> col = 2"
  by (auto simp: target_def)

lemma table_writes: "strategy_writes [(5, [1, 2])] [(7, [2])] (s_plan table_start)"
  by (simp add: strategy_writes_def targets_ok_def table_start_def plan_scan_def plan_strategy_def)

lemma table_room: "\<forall>i < 2. caches_room [(5, [1, 2])] [(7, [2])] table_world (of_nat (processed (s_reader table_start) + i))"
  using plan_data_cells cell_ok_smaller[OF plan_data_cells(3), of 4] cell_ok_smaller[OF plan_data_cells(4), of 4]
  by (auto simp: caches_room_def row_room_def table_targets cell_room_def table_world_def plan_world_def table_start_def text_reader_def less_2_cases_iff)

theorem table_scan_witness:
  "\<exists>ts w' s'. deliver (\<lambda>w s. NoDBExecPlan plan_externals w s True) 2 table_world table_start = Some (ts, w', s') \<and>
     tts_values (ts ! 0) ! 1 = Some 3 \<and> tts_isnull (ts ! 0) ! 2 = Some True \<and> stored w' 5 2 1 = Some \<lparr>datum = 1, null = False\<rparr> \<and>
     cell_value dec_pair 4 w' 7 2 1 = Some \<lparr>pointer = 3, width = 4\<rparr> \<and>
     (\<exists>w'' s'' b. NoDBExecPlan plan_externals w' s' True = Some (Val (w'', s'', None, b)))"
proof -
  have l: "length table_rows = 2" by (simp add: table_rows_def)
  have "scans_rows [1, 2] [(5, [1, 2])] [(7, [2])] 2 table_rows table_world table_start"
    using table_ready table_writes
    by (auto simp: scans_rows_def file_strategy_def table_targets) (simp_all add: table_start_def plan_scan_def plan_strategy_def)
  then obtain ts w' s' where d: "deliver (\<lambda>w s. NoDBExecPlan plan_externals w s True) 2 table_world table_start = Some (ts, w', s')"
      "\<forall>i < 2. \<forall>c \<in> set [1, 2]. tts_values (ts ! i) ! nat c = Some (datum (item_datum (input_fn plan_externals) (table_rows ! i) c)) \<and>
         tts_isnull (ts ! i) ! nat c = Some (null (item_datum (input_fn plan_externals) (table_rows ! i) c))"
      "\<forall>i < 2. caches_hold (input_fn plan_externals) (s_format table_start) [(5, [1, 2])] [(7, [2])] w' (of_nat (processed (s_reader table_start) + i)) (table_rows ! i)"
      "\<exists>w'' s'' b. NoDBExecPlan plan_externals w' s' True = Some (Val (w'', s'', None, b))"
    using table_scan[of "[1, 2]" "[(5, [1, 2])]" "[(7, [2])]" 2 table_rows table_world table_start plan_externals True] table_room unfolding l by blast
  have i: "item_datum (input_fn plan_externals) (table_rows ! 0) 1 = \<lparr>datum = 3, null = False\<rparr>"
      "item_datum (input_fn plan_externals) (table_rows ! 0) 2 = \<lparr>datum = 0, null = True\<rparr>"
      "item_datum (input_fn plan_externals) (table_rows ! 1) 2 = \<lparr>datum = 1, null = False\<rparr>"
      "item_pos (s_format table_start) (table_rows ! 1) 2 = \<lparr>pointer = 3, width = 4\<rparr>"
    by (simp_all add: item_datum_def item_pos_def table_rows_def plan_externals_def table_start_def plan_scan_def field_start_def csv_escape_def)
  have "tts_values (ts ! 0) ! 1 = Some 3" "tts_isnull (ts ! 0) ! 2 = Some True"
    using d(2)[rule_format, of 0 1] d(2)[rule_format, of 0 2] i(1,2) by simp_all
  moreover have "stored w' 5 2 1 = Some \<lparr>datum = 1, null = False\<rparr>" "cell_value dec_pair 4 w' 7 2 1 = Some \<lparr>pointer = 3, width = 4\<rparr>"
    using d(3)[rule_format, of 1] i(3,4) by (simp_all add: caches_hold_def row_holds_def table_targets) (simp_all add: table_start_def text_reader_def)
  ultimately show ?thesis using d(1,4) by blast
qed

end
