(* ===== verification/NoDB_ExecScan.thy ===== *)
theory NoDB_ExecScan
  imports NoDB_TableScan
begin

text \<open>
  The scan node of the executor: the branch of \<open>ExecScan\<close> in
  \<open>src/postgresql-9.6.5/src/backend/executor/execScan.c\<close> that runs a NoDB plan until a tuple passes the
  filter, the rescan, and the end of a scan in \<open>ExecutePlan2\<close> of \<open>execMain.c\<close>.

  The projection of PostgreSQL (\<open>ExecProject\<close>) is a parameter with a state of its own, because it may
  return several results for one tuple. The result \<open>None\<close> of the loop stands for undefined behaviour
  and for a loop that does not end.
\<close>

section \<open>The scan node\<close>

datatype ExprDoneCond = ExprSingleResult | ExprMultipleResult | ExprEndResult

record 'p ProjectionInfo =
  pi_slot :: TupleTableSlot
  ExecProject :: "'p \<Rightarrow> TupleTableSlot option \<Rightarrow> 'p \<times> TupleTableSlot \<times> ExprDoneCond"

record 'p scan_node =
  sn_world :: nodb_world
  sn_scan :: scan_state
  ps_TupFromTlist :: bool
  ecxt_scantuple :: "TupleTableSlot option"
  sn_project :: 'p

fun TupIsNull :: "TupleTableSlot option \<Rightarrow> bool" where
  "TupIsNull None = True"
| "TupIsNull (Some t) = tts_isempty t"

definition ExecClearTuple :: "TupleTableSlot \<Rightarrow> TupleTableSlot" where
  "ExecClearTuple t = t\<lparr>tts_shouldFree := False, tts_shouldFreeMin := False, tts_isempty := True, tts_nvalid := 0\<rparr>"

type_synonym 'p node_result = "('p scan_node \<times> TupleTableSlot option) res option"

definition call_plan :: "externals \<Rightarrow> bool \<Rightarrow> 'p scan_node \<Rightarrow> ('p scan_node \<times> TupleTableSlot option \<times> bool) res option" where
  "call_plan x pass nd =
     do {
       r \<leftarrow> execNoDBPlan_call x (sn_world nd) (sn_scan nd) pass;
       Some (case r of
          Err e \<Rightarrow> Err e
        | Val (w, s, slot, pass) \<Rightarrow> Val (nd\<lparr>sn_world := w, sn_scan := s\<rparr>, slot, pass))
     }"

text \<open>The rest of a set that an earlier projection has begun.\<close>

definition project_again :: "'p ProjectionInfo option \<Rightarrow> 'p scan_node \<Rightarrow> ('p scan_node \<times> TupleTableSlot option) option" where
  "project_again proj nd =
     (if ps_TupFromTlist nd then
        do {
          pr \<leftarrow> proj;
          let (st, slot, isDone) = ExecProject pr (sn_project nd) (ecxt_scantuple nd);
          let nd = nd\<lparr>sn_project := st\<rparr>;
          Some (if isDone = ExprMultipleResult then (nd, Some slot) else (nd\<lparr>ps_TupFromTlist := False\<rparr>, None))
        }
      else Some (nd, None))"

partial_function (option) scan_loop :: "externals \<Rightarrow> 'p ProjectionInfo option \<Rightarrow> 'p scan_node \<Rightarrow> 'p node_result" where
  "scan_loop x proj nd =
     do {
       r \<leftarrow> call_plan x True nd;
       (case r of
          Err e \<Rightarrow> Some (Err e)
        | Val (nd, slot, pass) \<Rightarrow>
            if TupIsNull slot then
              Some (Val (nd, case proj of None \<Rightarrow> slot | Some pr \<Rightarrow> Some (ExecClearTuple (pi_slot pr))))
            else
              (let nd = nd\<lparr>ecxt_scantuple := slot\<rparr> in
               if pass then
                 (case proj of
                    None \<Rightarrow> Some (Val (nd, slot))
                  | Some pr \<Rightarrow>
                      (case ExecProject pr (sn_project nd) slot of
                         (st, res, isDone) \<Rightarrow>
                           (let nd = nd\<lparr>sn_project := st\<rparr> in
                            if isDone \<noteq> ExprEndResult
                            then Some (Val (nd\<lparr>ps_TupFromTlist := (isDone = ExprMultipleResult)\<rparr>, Some res))
                            else scan_loop x proj nd)))
               else scan_loop x proj nd))
     }"

definition ExecScan :: "externals \<Rightarrow> 'p ProjectionInfo option \<Rightarrow> 'p scan_node \<Rightarrow> 'p node_result" where
  "ExecScan x proj nd =
     (if \<not> s_qual (sn_scan nd) \<and> proj = None then
        do {
          r \<leftarrow> call_plan x False nd;
          Some (case r of Err e \<Rightarrow> Err e | Val (nd, slot, pass) \<Rightarrow> Val (nd, slot))
        }
      else
        do {
          (nd, again) \<leftarrow> project_again proj nd;
          (case again of Some slot \<Rightarrow> Some (Val (nd, Some slot)) | None \<Rightarrow> scan_loop x proj nd)
        })"

definition ExecScanReScan :: "query_state \<Rightarrow> 'p scan_node \<Rightarrow> 'p scan_node option" where
  "ExecScanReScan q nd =
     do {
       (w, s) \<leftarrow> NoDBScanStateReInit q (sn_world nd, sn_scan nd);
       Some (nd\<lparr>ps_TupFromTlist := False, sn_world := w, sn_scan := s\<rparr>)
     }"

text \<open>When the query has no more tuples: the caches get their sizes and the write locks are released.\<close>

definition finish_scan :: "nodb_world \<times> scan_state \<Rightarrow> nodb_world option" where
  "finish_scan ws =
     do {
       w \<leftarrow> NoDBFinalizeStrategy ws;
       let s = snd ws;
       e \<leftarrow> load_info w (s_execInfo s);
       (e, _) \<leftarrow> NoDBExecReleasePMLocks e (readAllAtts s);
       (e, _) \<leftarrow> NoDBExecReleaseCacheLocks e (readAllAtts s);
       Some (store_info w (s_execInfo s) (NoDBExecIntegrityCheckCompleted e))
     }"

section \<open>A filtered row\<close>

text \<open>
  A strategy with a filter that works on the file: \<open>pre\<close> is converted before the filter and \<open>post\<close> after it; only
  columns of \<open>pre\<close> are cached.
\<close>

definition filter_strategy ::
    "NoDBCol_t list \<Rightarrow> NoDBCol_t list \<Rightarrow> (nat \<times> NoDBCol_t list) list \<Rightarrow> (nat \<times> NoDBCol_t list) list \<Rightarrow> NoDBPlanState_t \<Rightarrow> bool" where
  "filter_strategy pre post pcs pms p \<longleftrightarrow>
     readPreFilterWithCache (curStrategy p) = [] \<and> readPreFilterWithPM (curStrategy p) = [] \<and> readPreFilterViaPM (curStrategy p) = [] \<and>
     readPreFilterWithFile (curStrategy p) \<noteq> [] \<and> convertPreFilter (curStrategy p) = map Some pre \<and>
     readPostFilterWithCache (curStrategy p) = [] \<and> readPostFilterWithPM (curStrategy p) = [] \<and> readPostFilterViaPM (curStrategy p) = [] \<and>
     readPostFilterWithFile (curStrategy p) = map Some post \<and> (post = [] \<longrightarrow> convertPostFilter (curStrategy p) = []) \<and>
     readFile p = FromFile \<and> strategy_writes pcs pms p \<and> (\<forall>q col. target pcs q col \<longrightarrow> col \<in> set pre) \<and>
     (\<forall>q col. target pms q col \<longrightarrow> col \<in> set (pre @ post))"

definition filters_rows ::
    "NoDBCol_t list \<Rightarrow> NoDBCol_t list \<Rightarrow> (nat \<times> NoDBCol_t list) list \<Rightarrow> (nat \<times> NoDBCol_t list) list \<Rightarrow> nat \<Rightarrow> csv_item list list \<Rightarrow>
     nodb_world \<Rightarrow> scan_state \<Rightarrow> bool" where
  "filters_rows pre post pcs pms n rows w s \<longleftrightarrow> filter_strategy pre post pcs pms (s_plan s) \<and> execNoDBPlan s = ExecPlanWithFilters \<and>
     s_qual s \<and> scan_ready (pre @ post) n rows w s"

text \<open>The filter looks at the columns \<open>pre\<close> only.\<close>

definition filter_reads :: "externals \<Rightarrow> NoDBCol_t list \<Rightarrow> ((NoDBCol_t \<Rightarrow> NoDBDatum_t) \<Rightarrow> bool) \<Rightarrow> bool" where
  "filter_reads x pre Q \<longleftrightarrow> (\<forall>dv nv V. (\<forall>c \<in> set pre. arr_get dv c = Some (Some (datum (V c))) \<and> arr_get nv c = Some (Some (null (V c)))) \<longrightarrow>
     ExecQual x dv nv = Q V)"

lemma filter_value: "filter_reads x pre Q \<Longrightarrow> has_values pre V s \<Longrightarrow> ExecQual x (dvalues (s_values s)) (dnulls (s_values s)) = Q V"
  by (simp add: filter_reads_def has_values_def)

lemma read_columns_file: "d \<noteq> [] \<Longrightarrow> read_columns x w [] [] [] d e f s = values_from_file x e s"
  by (simp add: read_columns_def read_with_cache_def read_with_pm_def read_via_pm_def NoDBColVectorSize_def)

lemma read_columns_none: "read_columns x w [] [] [] [] e [] s = Some (Val s)"
  by (simp add: read_columns_def read_with_cache_def read_with_pm_def read_via_pm_def NoDBColVectorSize_def values_from_pm_def
      NoDBGetValuesWithPM_def)

lemma post_columns:
  assumes "row_open cs n rows vs w s" "set post \<subseteq> set cs" "post = [] \<longrightarrow> f = []" "has_values pre (item_datum (input_fn x) vs) s"
    "placed (s_format s) vs (s_line s)"
  obtains u where "read_columns x w [] [] [] (map Some post) (map Some post) f s = Some (Val u)" "row_open cs n rows vs w u"
    "has_values (pre @ post) (item_datum (input_fn x) vs) u" "placed (s_format s) vs (s_line u)" "s_plan u = s_plan s" "s_reader u = s_reader s"
    "s_format u = s_format s" "execNoDBPlan u = execNoDBPlan s" "s_qual u = s_qual s"
proof (cases "post = []")
  case True
  then show ?thesis using that[of s] assms read_columns_none[of x w _ s] by simp
next
  case False
  let ?V = "item_datum (input_fn x) vs"
  obtain l where l: "values_from_file x (map Some post) s = Some (Val ((loaded ?V post s)\<lparr>s_line := l\<rparr>))"
      "row_open cs n rows vs w ((loaded ?V post s)\<lparr>s_line := l\<rparr>)" "placed (s_format s) vs l"
    by (rule convert_open[OF assms(1,2)])
  have "fits s post" using assms(1,2) by (auto simp: row_open_def columns_ok_def fits_def)
  then have "has_values post ?V ((loaded ?V post s)\<lparr>s_line := l\<rparr>)" by (rule has_values_loaded)
  moreover have "has_values pre ?V ((loaded ?V post s)\<lparr>s_line := l\<rparr>)"
    using assms(4) by (auto simp: has_values_def loaded_def store_cols_def arr_get_Some_iff)
  ultimately have "has_values (pre @ post) ?V ((loaded ?V post s)\<lparr>s_line := l\<rparr>)" by (auto simp: has_values_def)
  then show ?thesis using that[OF _ l(2)] l(1,3) False by (simp add: read_columns_file loaded_def)
qed

lemma close_filtered:
  assumes "row_open cs n rows vs w s" "strategy_writes pcs pms (s_plan s)" "caches_room pcs pms w (s_row s)"
    "has_values ds (item_datum (input_fn x) vs) s" "\<forall>q col. target pcs q col \<longrightarrow> col \<in> set ds" "placed (s_format s) vs (s_line s)"
    "\<forall>q col. target pms q col \<longrightarrow> col \<in> set cs"
  shows "\<exists>w'. write_caches x (curStrategy (s_plan s)) s w \<bind> (\<lambda>w. return_tuple pass (w, s)) = Some (Val (w', next_row s, Some (slot_of s), pass)) \<and>
    scan_ready cs n rows w' (next_row s) \<and> row_slot x ds vs (slot_of s) \<and> row_stored x pcs pms vs w s w' (next_row s)"
proof -
  obtain w' where "write_caches x (curStrategy (s_plan s)) s w = Some w'"
      "return_tuple pass (w', s) = Some (Val (w', next_row s, Some (slot_of s), pass))" "scan_ready cs n rows w' (next_row s)"
      "row_stored x pcs pms vs w s w' (next_row s)"
    by (rule close_row[OF assms])
  then show ?thesis using row_slot_of[OF assms(4)] by auto
qed

lemma filter_row:
  assumes "filters_rows pre post pcs pms n (vs # rows) w s" "caches_room pcs pms w (s_row s)" "filter_reads x pre Q"
  defines "b \<equiv> Q (item_datum (input_fn x) vs)"
  shows "\<exists>w' s' t. NoDBExecPlanWithFilters x w s = Some (Val (w', s', Some t, b)) \<and> filters_rows pre post pcs pms n rows w' s' \<and>
    row_slot x (if b then pre @ post else pre) vs t \<and> row_stored x pcs pms vs w s w' s'"
proof -
  let ?V = "item_datum (input_fn x) vs" and ?p = "s_plan s" and ?cs = "pre @ post"
  have a: "filter_strategy pre post pcs pms ?p" "scan_ready ?cs n (vs # rows) w s" "execNoDBPlan s = ExecPlanWithFilters" "s_qual s"
    using assms(1) by (simp_all add: filters_rows_def)
  have str: "readFile ?p = FromFile" "strategy_writes pcs pms ?p" "\<forall>q col. target pcs q col \<longrightarrow> col \<in> set pre"
      "\<forall>q col. target pms q col \<longrightarrow> col \<in> set ?cs" "post = [] \<longrightarrow> convertPostFilter (curStrategy ?p) = []"
    using a(1) unfolding filter_strategy_def by blast+
  have eol: "p_eolCache ?p \<notin> Some ` (fst ` set pcs \<union> fst ` set pms)" using str(2) by (simp add: strategy_writes_def)
  obtain w1 rd where r: "readFile_call x (w, s) = Some (Val (w1, s\<lparr>s_reader := rd\<rparr>, False))" "row_open ?cs n rows vs w1 (s\<lparr>s_reader := rd\<rparr>)"
      "processed rd = processed (s_reader s)" "keeps (fst ` set pcs \<union> fst ` set pms) w w1"
    by (rule open_row[OF a(2) str(1) eol])
  have "set pre \<subseteq> set ?cs" by simp
  then obtain l where l: "values_from_file x (map Some pre) (s\<lparr>s_reader := rd\<rparr>) = Some (Val ((loaded ?V pre (s\<lparr>s_reader := rd\<rparr>))\<lparr>s_line := l\<rparr>))"
      "row_open ?cs n rows vs w1 ((loaded ?V pre (s\<lparr>s_reader := rd\<rparr>))\<lparr>s_line := l\<rparr>)" "placed (s_format (s\<lparr>s_reader := rd\<rparr>)) vs l"
    by (rule convert_open[OF r(2)])
  define u where "u = (loaded ?V pre (s\<lparr>s_reader := rd\<rparr>))\<lparr>s_line := l\<rparr>"
  note l = l[folded u_def]
  have uf: "s_plan u = ?p" "s_reader u = rd" "s_format u = s_format s" "execNoDBPlan u = execNoDBPlan s" "s_qual u = s_qual s" "s_line u = l"
    by (simp_all add: u_def loaded_def)
  have "fits (s\<lparr>s_reader := rd\<rparr>) pre" using r(2) by (auto simp: row_open_def columns_ok_def fits_def)
  then have hv: "has_values pre ?V u" unfolding u_def by (rule has_values_loaded)
  have b: "ExecQual x (dvalues (s_values u)) (dnulls (s_values u)) = b" unfolding b_def by (rule filter_value[OF assms(3) hv])
  have pl: "placed (s_format u) vs (s_line u)" using l(3) uf by simp
  obtain v where v: "(if b then read_columns x w1 [] [] [] (map Some post) (map Some post) (convertPostFilter (curStrategy ?p)) u
        else Some (Val u)) = Some (Val v)" "row_open ?cs n rows vs w1 v"
      "has_values (if b then pre @ post else pre) ?V v" "placed (s_format u) vs (s_line v)" "s_plan v = ?p" "s_reader v = rd"
      "s_format v = s_format s" "execNoDBPlan v = execNoDBPlan s" "s_qual v = s_qual s"
  proof (cases b)
    case True
    have "set post \<subseteq> set ?cs" by simp
    from post_columns[OF l(2) this str(5) hv pl] True show ?thesis using that uf by auto
  next
    case False
    then show ?thesis using that[of u] l(2) hv pl uf by simp
  qed
  have room: "caches_room pcs pms w1 (s_row v)" using caches_keep(1)[OF r(4)] assms(2) r(3) v(6) by simp
  have up: "strategy_writes pcs pms (s_plan v)" "\<forall>q col. target pcs q col \<longrightarrow> col \<in> set (if b then pre @ post else pre)"
      "placed (s_format v) vs (s_line v)"
    using str v uf by auto
  obtain w' where w': "write_caches x (curStrategy ?p) v w1 \<bind> (\<lambda>w. return_tuple b (w, v)) = Some (Val (w', next_row v, Some (slot_of v), b))"
      "scan_ready ?cs n rows w' (next_row v)" "row_slot x (if b then pre @ post else pre) vs (slot_of v)" "row_stored x pcs pms vs w1 v w' (next_row v)"
    using close_filtered[OF v(2) up(1) room v(3) up(2,3) str(4), of b] v(5) by auto
  have pre: "read_columns x w1 [] [] [] (readPreFilterWithFile (curStrategy ?p)) (map Some pre) (map Some pre) (s\<lparr>s_reader := rd\<rparr>) = Some (Val u)"
    using l(1) a(1) by (simp add: read_columns_file filter_strategy_def)
  have "NoDBExecPlanWithFilters x w s = Some (Val (w', next_row v, Some (slot_of v), b))"
    using r(1) a(1) pre b v(1) w'(1) by (cases b) (simp_all add: NoDBExecPlanWithFilters_def filter_strategy_def Let_def)
  moreover have "filters_rows pre post pcs pms n rows w' (next_row v)"
    using w'(2) a v(5,8,9) by (simp add: filters_rows_def filter_strategy_def strategy_writes_def)
  moreover have "row_stored x pcs pms vs w s w' (next_row v)"
    using w'(4) r(3) v(6,7) caches_keep[OF r(4)] by (simp add: row_stored_def)
  ultimately show ?thesis using w'(3) by blast
qed

section \<open>The result of a query\<close>

text \<open>Tuples are fetched until an empty slot reports the end.\<close>

fun fetch :: "externals \<Rightarrow> 'p ProjectionInfo option \<Rightarrow> nat \<Rightarrow> 'p scan_node \<Rightarrow> (TupleTableSlot list \<times> 'p scan_node) res option" where
  "fetch x proj 0 nd = Some (Val ([], nd))"
| "fetch x proj (Suc n) nd =
     (case ExecScan x proj nd of
        None \<Rightarrow> None
      | Some (Err e) \<Rightarrow> Some (Err e)
      | Some (Val (nd', slot)) \<Rightarrow>
          if TupIsNull slot then Some (Val ([], nd'))
          else
            (case fetch x proj n nd' of
               None \<Rightarrow> None
             | Some (Err e) \<Rightarrow> Some (Err e)
             | Some (Val (ts, nd'')) \<Rightarrow> Some (Val (the slot # ts, nd''))))"

text \<open>No projection, or one that computes one non-empty result \<open>f\<close> from every tuple.\<close>

definition projects :: "'p ProjectionInfo option \<Rightarrow> (TupleTableSlot \<Rightarrow> TupleTableSlot) \<Rightarrow> bool" where
  "projects proj f \<longleftrightarrow> (case proj of
     None \<Rightarrow> f = id
   | Some pr \<Rightarrow> \<forall>st t. snd (ExecProject pr st (Some t)) = (f t, ExprSingleResult) \<and> \<not> tts_isempty (f t))"

text \<open>What the scan node relies on: a plan whose flag says whether the row passes.\<close>

locale scan_plan = row_plan x "\<lambda>w s. execNoDBPlan_call x w s True" ready pcs pms good
  for x ready pcs pms good +
  fixes passes :: "csv_item list \<Rightarrow> bool"
  assumes filtered: "ready rows w s \<Longrightarrow> s_qual s"
    and flag: "good vs t b \<Longrightarrow> b = passes vs \<and> \<not> tts_isempty t"
begin

definition node_ready :: "csv_item list list \<Rightarrow> 'p scan_node \<Rightarrow> bool" where
  "node_ready rows nd \<longleftrightarrow> ready rows (sn_world nd) (sn_scan nd) \<and> room_for rows (sn_world nd) (sn_scan nd) \<and> \<not> ps_TupFromTlist nd"

lemma exec_loop: "node_ready rows nd \<Longrightarrow> ExecScan x proj nd = scan_loop x proj nd"
  using filtered by (auto simp: node_ready_def ExecScan_def project_again_def)

lemma call_row:
  assumes "node_ready (vs # rows) nd"
  obtains w s t where "call_plan x True nd = Some (Val (nd\<lparr>sn_world := w, sn_scan := s\<rparr>, Some t, passes vs))" "good vs t (passes vs)"
    "\<not> tts_isempty t" "node_ready rows (nd\<lparr>sn_world := w, sn_scan := s\<rparr>)" "row_stored x pcs pms vs (sn_world nd) (sn_scan nd) w s"
proof -
  have r: "ready (vs # rows) (sn_world nd) (sn_scan nd)" "room_for (vs # rows) (sn_world nd) (sn_scan nd)" "\<not> ps_TupFromTlist nd"
    using assms by (simp_all add: node_ready_def)
  have "caches_room pcs pms (sn_world nd) (s_row (sn_scan nd))" using r(2) by (auto simp: room_for_def)
  from step[OF r(1) this] obtain w s t b where t: "execNoDBPlan_call x (sn_world nd) (sn_scan nd) True = Some (Val (w, s, Some t, b))"
      "ready rows w s" "good vs t b" "row_stored x pcs pms vs (sn_world nd) (sn_scan nd) w s"
    by blast
  have b: "b = passes vs" "\<not> tts_isempty t" using flag[OF t(3)] by auto
  have "call_plan x True nd = Some (Val (nd\<lparr>sn_world := w, sn_scan := s\<rparr>, Some t, passes vs))" using t(1) b(1) by (simp add: call_plan_def)
  moreover have "node_ready rows (nd\<lparr>sn_world := w, sn_scan := s\<rparr>)" using t(2) room_step[OF r(2) t(4)] r(3) by (simp add: node_ready_def)
  ultimately show thesis using that t(3,4) b by blast
qed

lemma scan_skip:
  assumes "node_ready (vs # rows) nd" "\<not> passes vs"
  obtains nd' where "ExecScan x proj nd = ExecScan x proj nd'" "node_ready rows nd'"
    "row_stored x pcs pms vs (sn_world nd) (sn_scan nd) (sn_world nd') (sn_scan nd')"
proof -
  obtain w s t where c: "call_plan x True nd = Some (Val (nd\<lparr>sn_world := w, sn_scan := s\<rparr>, Some t, passes vs))"
      "good vs t (passes vs)" "\<not> tts_isempty t" "node_ready rows (nd\<lparr>sn_world := w, sn_scan := s\<rparr>)"
      "row_stored x pcs pms vs (sn_world nd) (sn_scan nd) w s"
    by (rule call_row[OF assms(1)])
  let ?n = "nd\<lparr>sn_world := w, sn_scan := s, ecxt_scantuple := Some t\<rparr>"
  have "node_ready rows ?n" using c(4) by (simp add: node_ready_def)
  moreover have "scan_loop x proj nd = scan_loop x proj ?n" using c(1,3) assms(2) by (simp add: scan_loop.simps[of x proj nd])
  ultimately show thesis using that[of ?n] exec_loop[OF assms(1)] exec_loop[of rows ?n] c(5) by simp
qed

lemma scan_pass:
  assumes "node_ready (vs # rows) nd" "passes vs" "projects proj f"
  obtains nd' t where "ExecScan x proj nd = Some (Val (nd', Some (f t)))" "\<not> tts_isempty (f t)" "good vs t True" "node_ready rows nd'"
    "row_stored x pcs pms vs (sn_world nd) (sn_scan nd) (sn_world nd') (sn_scan nd')"
proof -
  obtain w s t where c: "call_plan x True nd = Some (Val (nd\<lparr>sn_world := w, sn_scan := s\<rparr>, Some t, passes vs))"
      "good vs t (passes vs)" "\<not> tts_isempty t" "node_ready rows (nd\<lparr>sn_world := w, sn_scan := s\<rparr>)"
      "row_stored x pcs pms vs (sn_world nd) (sn_scan nd) w s"
    by (rule call_row[OF assms(1)])
  show thesis
  proof (cases proj)
    case None
    then show thesis
      using that[of "nd\<lparr>sn_world := w, sn_scan := s, ecxt_scantuple := Some t\<rparr>" t] c assms(2,3) exec_loop[OF assms(1)]
      by (simp add: scan_loop.simps[of x None nd] projects_def node_ready_def)
  next
    case (Some pr)
    have pr: "snd (ExecProject pr (sn_project nd) (Some t)) = (f t, ExprSingleResult)" "\<not> tts_isempty (f t)"
      using assms(3) Some by (simp_all add: projects_def)
    obtain st where st: "ExecProject pr (sn_project nd) (Some t) = (st, f t, ExprSingleResult)" using pr(1) by (metis prod.collapse)
    show thesis
      using that[of "nd\<lparr>sn_world := w, sn_scan := s, ecxt_scantuple := Some t, sn_project := st, ps_TupFromTlist := False\<rparr>" t] c assms(2) Some pr(2) st
        exec_loop[OF assms(1)]
      by (simp add: scan_loop.simps[of x "Some pr" nd] node_ready_def)
  qed
qed

lemma scan_stop:
  assumes "node_ready [] nd"
  obtains nd' slot where "ExecScan x proj nd = Some (Val (nd', slot))" "TupIsNull slot"
    "keeps (fst ` set pcs \<union> fst ` set pms) (sn_world nd) (sn_world nd')"
proof -
  obtain w s b where c: "execNoDBPlan_call x (sn_world nd) (sn_scan nd) True = Some (Val (w, s, None, b))"
      "keeps (fst ` set pcs \<union> fst ` set pms) (sn_world nd) w"
    using stop assms unfolding node_ready_def by blast
  then have "call_plan x True nd = Some (Val (nd\<lparr>sn_world := w, sn_scan := s\<rparr>, None, b))" by (simp add: call_plan_def)
  then show thesis
    using that[of "nd\<lparr>sn_world := w, sn_scan := s\<rparr>"] c(2) exec_loop[OF assms]
    by (simp add: scan_loop.simps[of x proj nd] ExecClearTuple_def split: option.splits)
qed

lemma fetch_rows:
  assumes "node_ready rows nd" "projects proj f"
  shows "\<exists>ts nd'. fetch x proj (Suc (length (filter passes rows))) nd = Some (Val (map f ts, nd')) \<and>
    list_all2 (\<lambda>vs t. good vs t True) (filter passes rows) ts \<and> stored_rows rows (sn_world nd) (sn_scan nd) (sn_world nd')"
  using assms(1)
proof (induction rows arbitrary: nd)
  case Nil
  obtain nd' slot where "ExecScan x proj nd = Some (Val (nd', slot))" "TupIsNull slot"
      "keeps (fst ` set pcs \<union> fst ` set pms) (sn_world nd) (sn_world nd')"
    by (rule scan_stop[OF Nil])
  then show ?case using stored_rows_keeps[OF stored_rows_Nil] by (intro exI[of _ "[]"] exI[of _ nd']) simp
next
  case (Cons vs rows)
  have r: "ready (vs # rows) (sn_world nd) (sn_scan nd)" "room_for (vs # rows) (sn_world nd) (sn_scan nd)" using Cons.prems by (simp_all add: node_ready_def)
  have room: "caches_room pcs pms (sn_world nd) (s_row (sn_scan nd))" using r(2) by (auto simp: room_for_def)
  have b: "processed (s_reader (sn_scan nd)) + Suc (length rows) < 2 ^ 64" using rows_bound[OF r(1)] by simp
  show ?case
  proof (cases "passes vs")
    case False
    obtain nd1 where n: "ExecScan x proj nd = ExecScan x proj nd1" "node_ready rows nd1"
        "row_stored x pcs pms vs (sn_world nd) (sn_scan nd) (sn_world nd1) (sn_scan nd1)"
      by (rule scan_skip[OF Cons.prems False])
    have "fetch x proj (Suc k) nd = fetch x proj (Suc k) nd1" for k using n(1) by simp
    then show ?thesis using Cons.IH[OF n(2)] stored_rows_Cons[OF n(3) _ room b] False by auto
  next
    case True
    obtain nd1 t where n: "ExecScan x proj nd = Some (Val (nd1, Some (f t)))" "\<not> tts_isempty (f t)" "good vs t True" "node_ready rows nd1"
        "row_stored x pcs pms vs (sn_world nd) (sn_scan nd) (sn_world nd1) (sn_scan nd1)"
      by (rule scan_pass[OF Cons.prems True assms(2)])
    obtain ts nd' where IH: "fetch x proj (Suc (length (filter passes rows))) nd1 = Some (Val (map f ts, nd'))"
        "list_all2 (\<lambda>vs t. good vs t True) (filter passes rows) ts" "stored_rows rows (sn_world nd1) (sn_scan nd1) (sn_world nd')"
      using Cons.IH[OF n(4)] by blast
    have "fetch x proj (Suc (length (filter passes (vs # rows)))) nd = Some (Val (map f (t # ts), nd'))"
      using n(1,2) IH(1) True by (simp del: fetch.simps add: fetch.simps(2)[of x proj "Suc (length (filter passes rows))"])
    then show ?thesis using IH(2) n(3) True stored_rows_Cons[OF n(5) IH(3) room b] by (intro exI[of _ "t # ts"] exI[of _ nd']) simp
  qed
qed

end

interpretation filter_plan: scan_plan x "\<lambda>rows w s. filter_reads x pre Q \<and> filters_rows pre post pcs pms n rows w s" pcs pms
    "\<lambda>vs t b. b = Q (item_datum (input_fn x) vs) \<and> row_slot x (if b then pre @ post else pre) vs t"
    "\<lambda>vs. Q (item_datum (input_fn x) vs)"
  for x pre Q post pcs pms n
proof
  fix vs rows w s assume a: "filter_reads x pre Q \<and> filters_rows pre post pcs pms n (vs # rows) w s" and "caches_room pcs pms w (s_row s)"
  then have "execNoDBPlan_call x w s True = NoDBExecPlanWithFilters x w s" by (simp add: filters_rows_def)
  then show "\<exists>w' s' t b. execNoDBPlan_call x w s True = Some (Val (w', s', Some t, b)) \<and> (filter_reads x pre Q \<and> filters_rows pre post pcs pms n rows w' s') \<and>
      (b = Q (item_datum (input_fn x) vs) \<and> row_slot x (if b then pre @ post else pre) vs t) \<and> row_stored x pcs pms vs w s w' s'"
    using filter_row[of pre post pcs pms n vs rows w s x Q] a \<open>caches_room pcs pms w (s_row s)\<close> by metis
next
  fix w s assume a: "filter_reads x pre Q \<and> filters_rows pre post pcs pms n [] w s"
  then have "scan_ready (pre @ post) n [] w s" "readFile (s_plan s) = FromFile" "p_eolCache (s_plan s) \<notin> Some ` (fst ` set pcs \<union> fst ` set pms)"
    by (simp_all add: filters_rows_def filter_strategy_def strategy_writes_def)
  from read_end[OF this, of x] a
  show "\<exists>w' s' b. execNoDBPlan_call x w s True = Some (Val (w', s', None, b)) \<and> keeps (fst ` set pcs \<union> fst ` set pms) w w'"
    by (auto simp: filters_rows_def NoDBExecPlanWithFilters_def)
next
  fix rows w s assume a: "filter_reads x pre Q \<and> filters_rows pre post pcs pms n rows w s"
  then show "processed (s_reader s) + length rows < 2 ^ 64" "s_qual s" using scan_ready_bound by (auto simp: filters_rows_def)
qed (simp add: row_slot_def)

lemma query_rows:
  assumes "filters_rows pre post pcs pms n rows (sn_world nd) (sn_scan nd)" "filter_reads x pre Q" "projects proj f" "\<not> ps_TupFromTlist nd"
    "\<forall>i < length rows. caches_room pcs pms (sn_world nd) (of_nat (processed (s_reader (sn_scan nd)) + i))"
  shows "\<exists>ts nd'. fetch x proj (Suc (length (filter (\<lambda>vs. Q (item_datum (input_fn x) vs)) rows))) nd = Some (Val (map f ts, nd')) \<and>
    list_all2 (\<lambda>vs t. row_slot x (pre @ post) vs t) (filter (\<lambda>vs. Q (item_datum (input_fn x) vs)) rows) ts \<and>
    (\<forall>i < length rows. caches_hold (input_fn x) (s_format (sn_scan nd)) pcs pms (sn_world nd')
        (of_nat (processed (s_reader (sn_scan nd)) + i)) (rows ! i))"
proof -
  have "filter_plan.node_ready x pre Q post pcs pms n rows nd"
    unfolding filter_plan.node_ready_def filter_plan.room_for_def using assms(1,2,4,5) by blast
  then obtain ts nd' where t: "fetch x proj (Suc (length (filter (\<lambda>vs. Q (item_datum (input_fn x) vs)) rows))) nd = Some (Val (map f ts, nd'))"
      "list_all2 (\<lambda>vs t. True = Q (item_datum (input_fn x) vs) \<and> row_slot x (if True then pre @ post else pre) vs t)
         (filter (\<lambda>vs. Q (item_datum (input_fn x) vs)) rows) ts"
      "filter_plan.stored_rows x pcs pms rows (sn_world nd) (sn_scan nd) (sn_world nd')"
    using filter_plan.fetch_rows[OF _ assms(3)] by blast
  have "list_all2 (\<lambda>vs t. row_slot x (pre @ post) vs t) (filter (\<lambda>vs. Q (item_datum (input_fn x) vs)) rows) ts"
    by (rule list_all2_mono[OF t(2)]) simp
  then show ?thesis using t(1,3) unfolding filter_plan.stored_rows_def by blast
qed


text \<open>The rows of the first scan, a filter on column 1 and a projection on column 2.\<close>

definition query_externals :: externals where
  "query_externals = plan_externals\<lparr>ExecQual := \<lambda>dv nv. arr_get dv 1 = Some (Some 1) \<and> arr_get nv 1 = Some (Some False)\<rparr>"

definition query_projection :: "unit ProjectionInfo" where
  "query_projection = \<lparr>pi_slot = generateTupleTableSlot 1 [None] [None],
     ExecProject = (\<lambda>st t. case t of None \<Rightarrow> (st, generateTupleTableSlot 1 [None] [None], ExprEndResult)
       | Some t \<Rightarrow> (st, generateTupleTableSlot 1 [tts_values t ! 2] [tts_isnull t ! 2], ExprSingleResult))\<rparr>"

definition query_node :: "unit scan_node" where
  "query_node = \<lparr>sn_world = table_world,
     sn_scan = table_start\<lparr>s_qual := True, execNoDBPlan := ExecPlanWithFilters, s_plan := (s_plan table_start)\<lparr>curStrategy :=
       (curStrategy (s_plan table_start))\<lparr>readPreFilterWithFile := [Some 1], convertPreFilter := [Some 1],
         readPostFilterWithFile := [Some 2], convertPostFilter := [Some 2], writeToCacheByValue := [cpc (5, [1])]\<rparr>\<rparr>\<rparr>,
     ps_TupFromTlist = False, ecxt_scantuple = None, sn_project = ()\<rparr>"

lemma query_targets: "target [(5, [1])] p col \<longleftrightarrow> p = 5 \<and> col = 1"
  by (auto simp: target_def)

lemma query_ready: "filters_rows [1] [2] [(5, [1])] [(7, [2])] 2 table_rows (sn_world query_node) (sn_scan query_node)"
proof -
  have "scan_ready [1, 2] 2 table_rows (sn_world query_node) (sn_scan query_node)"
    using table_ready by (simp add: query_node_def scan_ready_def columns_ok_def fits_def eol_ready_def before_rows_def line_start_def)
  moreover have "filter_strategy [1] [2] [(5, [1])] [(7, [2])] (s_plan (sn_scan query_node))"
    by (auto simp: filter_strategy_def table_targets query_targets)
       (simp_all add: strategy_writes_def targets_ok_def query_node_def table_start_def plan_scan_def plan_strategy_def)
  ultimately show ?thesis by (simp add: filters_rows_def) (simp add: query_node_def)
qed

lemma query_room: "\<forall>i < 2. caches_room [(5, [1])] [(7, [2])] (sn_world query_node) (of_nat (processed (s_reader (sn_scan query_node)) + i))"
  using table_room by (simp add: caches_room_def row_room_def table_targets query_targets query_node_def)

lemma query_filter: "filter_reads query_externals [1] (\<lambda>V. datum (V 1) = 1 \<and> \<not> null (V 1))"
  by (auto simp: filter_reads_def query_externals_def)

lemma query_selects: "filter (\<lambda>vs. datum (item_datum (input_fn query_externals) vs 1) = 1 \<and> \<not> null (item_datum (input_fn query_externals) vs 1)) table_rows = [table_rows ! 1]"
  by (simp add: table_rows_def item_datum_def query_externals_def plan_externals_def)


end
