(* ===== verification/NoDB_Filter.thy ===== *)
theory NoDB_Filter
  imports NoDB_FillRow NoDB_ExecScan
begin

text \<open>
  The strategies that \<open>BuildStrategy\<close> of \<open>src/postgresql-9.6.5/src/backend/noDB/NoDBScanStrategy.c\<close> builds for a
  query with a filter, and the scan node that executes such a strategy.
\<close>

section \<open>The columns that remain after the filter\<close>

lemma remaining_bitmap_ok:
  assumes "qi_cols q = map Some cs" "bm_ok (length cs) (readRestBitmap q)" "bm_ok (length cs) (readFilterBitmap q)"
  shows "\<exists>b. remaining_bitmap q (map Some pre) = Some b \<and> bm_ok (length cs) b \<and>
    bm_set b = {j. j < length cs \<and> j \<in> bm_set (readRestBitmap q) \<and> j \<notin> bm_set (readFilterBitmap q) \<and> cs ! j \<notin> set pre}"
proof -
  let ?n = "length cs"
  let ?rest = "\<lambda>j. j \<in> bm_set (readRestBitmap q) \<and> j \<notin> bm_set (readFilterBitmap q) \<and> cs ! j \<notin> set pre"
  define f where "f = (\<lambda>b colIdx. do {
           col \<leftarrow> NoDBColVectorGet (qi_cols q) (int colIdx);
           rest \<leftarrow> NoDBBitmapIsSet (readRestBitmap q) (int colIdx);
           (if rest then
              do {
                flt \<leftarrow> NoDBBitmapIsSet (readFilterBitmap q) (int colIdx);
                (if flt then Some b
                 else do {
                   done \<leftarrow> NoDBColVectorContains (map Some pre) col;
                   (if done then Some b else NoDBBitmapSet b (int colIdx))
                 })
              }
            else Some b)
         })"
  obtain b0 where b0: "NoDBBitmapArenaInit (int ?n) = Some b0" "bm_ok ?n b0" "bm_set b0 = {}" using NoDBBitmapInit_ok(2) by blast
  have step: "\<exists>b'. f b k = Some b' \<and> bm_ok ?n b' \<and> bm_set b' = (if ?rest k then insert k (bm_set b) else bm_set b)"
    if "bm_ok ?n b" "k < ?n" for b k
    using that assms NoDBBitmapSet_ok[OF that] by (auto simp: f_def NoDBBitmapIsSet_ok ColVectorContains_Some arr_get_in)
  have "\<exists>b. foldM f b0 [0..<?n] = Some b \<and> bm_ok ?n b \<and> bm_set b = {j. j < length [0..<?n] \<and> ?rest j}"
  proof (rule foldM_rule)
    show "bm_ok ?n b0 \<and> bm_set b0 = {j. j < 0 \<and> ?rest j}" using b0 by simp
  next
    fix i t assume "i < length [0..<?n]" "bm_ok ?n t \<and> bm_set t = {j. j < i \<and> ?rest j}"
    then obtain b' where "f t i = Some b'" "bm_ok ?n b'" "bm_set b' = (if ?rest i then insert i (bm_set t) else bm_set t)"
      using step[of t i] by auto
    then show "\<exists>t'. f t ([0..<?n] ! i) = Some t' \<and> bm_ok ?n t' \<and> bm_set t' = {j. j < Suc i \<and> ?rest j}"
      using \<open>i < length [0..<?n]\<close> \<open>bm_ok ?n t \<and> bm_set t = {j. j < i \<and> ?rest j}\<close>
      by (intro exI[of _ b']) (auto simp: less_Suc_eq)
  qed
  then show ?thesis using b0(1) assms(1) by (simp add: remaining_bitmap_def NoDBColVectorSize_def f_def)
qed

section \<open>A strategy with a filter\<close>

text \<open>The columns, the bitmaps of the query and a row of the matrix, as \<open>BuildMatrix\<close> leaves them.\<close>

definition filter_query :: "NoDBQueryInfo_t \<Rightarrow> NoDBRelation_t \<Rightarrow> NoDBCol_t list \<Rightarrow> Node_t list \<Rightarrow> bool" where
  "filter_query q rel cs ns \<longleftrightarrow> qi_cols q = map Some cs \<and> row_ok rel cs ns \<and>
     bm_ok (length cs) (readFilterBitmap q) \<and> bm_ok (length cs) (readRestBitmap q) \<and>
     bm_ok (length cs) (writeDataBitmap q) \<and> bm_ok (length cs) (writePositionsBitmap q) \<and>
     (\<exists>natts. NoDBRelationGetNumberColumns rel = int natts \<and>
        (pm_usable ns \<longrightarrow> (\<forall>j < length cs. want_position (readFilterBitmap q) (writeDataBitmap q) (writePositionsBitmap q) ns j \<or>
           want_read (readRestBitmap q) ns j \<longrightarrow> node_pm_ok natts (ns ! j))))"

text \<open>The two replies of \<open>FillRow\<close> a strategy is made of.\<close>

definition filter_replies ::
    "NoDBQueryInfo_t \<Rightarrow> NoDBRelation_t \<Rightarrow> NoDBCol_t list \<Rightarrow> Node_t list \<Rightarrow> FillRowReply_t \<Rightarrow> NoDBBitmap_t \<Rightarrow> FillRowReply_t \<Rightarrow> bool" where
  "filter_replies q rel cs ns r b r' \<longleftrightarrow>
     reply_columns rel cs ns (readFilterBitmap q) (writeDataBitmap q) (writePositionsBitmap q) r \<and>
     bm_set b = {j. j < length cs \<and> j \<in> bm_set (readRestBitmap q) \<and> j \<notin> bm_set (readFilterBitmap q) \<and> cs ! j \<notin> set (convert r)} \<and>
     (\<exists>e. bm_set e = {} \<and> reply_columns rel cs ns b e e r') \<and>
     (pm_usable ns \<longrightarrow> collectFromFile r = [] \<and> collectFromFile r' = []) \<and>
     (\<not> pm_usable ns \<longrightarrow>
        set (collectFromFile r) = pick cs (length cs) (want_position (readFilterBitmap q) (writeDataBitmap q) (writePositionsBitmap q) ns) \<and>
        set (collectFromFile r') = pick cs (length cs) (want_read b ns) \<and> readViaPM r = [] \<and> readViaPM r' = [] \<and>
        mapReadFromPM r = NoDBMapArenaInit \<and> mapReadFromPM r' = NoDBMapArenaInit)"

definition filter_fields :: "FillRowReply_t \<Rightarrow> FillRowReply_t \<Rightarrow> NoDBScanStrategy_t \<Rightarrow> bool" where
  "filter_fields r r' t \<longleftrightarrow>
     SetColsPerCache (mapDataHit r) = Some (readPreFilterWithCache t) \<and> SetColsPerCache (mapDataHit r') = Some (readPostFilterWithCache t) \<and>
     SetColsPerCache (mapReadFromPM r) = Some (readPreFilterWithPM t) \<and> SetColsPerCache (mapReadFromPM r') = Some (readPostFilterWithPM t) \<and>
     readPreFilterViaPM t = readViaPM r \<and> readPostFilterViaPM t = readViaPM r' \<and>
     readPreFilterWithFile t = map Some (collectFromFile r) \<and> readPostFilterWithFile t = map Some (collectFromFile r') \<and>
     convertPreFilter t = map Some (convert r) \<and> convertPostFilter t = map Some (convert r') \<and>
     SetColsPerCache (mapDataAddByValue r) = Some (writeToCacheByValue t) \<and> SetColsPerCache (mapDataAddByRef r) = Some (writeToCacheByRef t) \<and>
     SetColsPerCache (mapPositionsAdd r) = Some (writeToPM t)"

lemma FillRow_reply:
  assumes "row_ok rel cs (mx ! i)" "i < length mx" "NoDBRelationGetNumberColumns rel = int natts"
    "bm_ok (length cs) R" "bm_ok (length cs) D" "bm_ok (length cs) P"
    "pm_usable (mx ! i) \<longrightarrow> (\<forall>j < length cs. want_position R D P (mx ! i) j \<longrightarrow> node_pm_ok natts (mx ! i ! j))"
  obtains r where "FillRow mx i rel (map Some cs) R D P = Some r" "reply_columns rel cs (mx ! i) R D P r"
    "pm_usable (mx ! i) \<longrightarrow> collectFromFile r = []"
    "\<not> pm_usable (mx ! i) \<longrightarrow> set (collectFromFile r) = pick cs (length cs) (want_position R D P (mx ! i)) \<and> readViaPM r = [] \<and>
       mapReadFromPM r = NoDBMapArenaInit"
  using FillRow_ok[OF assms] by (auto split: if_splits)

lemma strategy_with_filter_ok:
  assumes "filter_query q rel cs (mx ! i)" "i < length mx" "strategy_rows q i = Some sn"
  obtains t r b r' where "strategy_with_filter q rel mx i = Some t" "filter_replies q rel cs (mx ! i) r b r'" "filter_fields r r' t"
proof -
  let ?ns = "mx ! i" and ?F = "readFilterBitmap q" and ?D = "writeDataBitmap q" and ?P = "writePositionsBitmap q"
  obtain natts where q: "qi_cols q = map Some cs" "row_ok rel cs ?ns" "bm_ok (length cs) ?F" "bm_ok (length cs) (readRestBitmap q)"
      "bm_ok (length cs) ?D" "bm_ok (length cs) ?P" "NoDBRelationGetNumberColumns rel = int natts"
      "pm_usable ?ns \<longrightarrow> (\<forall>j < length cs. want_position ?F ?D ?P ?ns j \<or> want_read (readRestBitmap q) ?ns j \<longrightarrow> node_pm_ok natts (?ns ! j))"
    using assms(1) unfolding filter_query_def by blast
  have "pm_usable ?ns \<longrightarrow> (\<forall>j < length cs. want_position ?F ?D ?P ?ns j \<longrightarrow> node_pm_ok natts (?ns ! j))" using q(8) by blast
  then obtain r where r: "FillRow mx i rel (map Some cs) ?F ?D ?P = Some r" "reply_columns rel cs ?ns ?F ?D ?P r"
      "pm_usable ?ns \<longrightarrow> collectFromFile r = []"
      "\<not> pm_usable ?ns \<longrightarrow> set (collectFromFile r) = pick cs (length cs) (want_position ?F ?D ?P ?ns) \<and> readViaPM r = [] \<and>
         mapReadFromPM r = NoDBMapArenaInit"
    by (rule FillRow_reply[OF q(2) assms(2) q(7,3,5,6)])
  obtain b where b: "remaining_bitmap q (map Some (convert r)) = Some b" "bm_ok (length cs) b"
      "bm_set b = {j. j < length cs \<and> j \<in> bm_set (readRestBitmap q) \<and> j \<notin> bm_set ?F \<and> cs ! j \<notin> set (convert r)}"
    using remaining_bitmap_ok[OF q(1,4,3)] by blast
  obtain e where e: "NoDBBitmapArenaInit (int (length cs)) = Some e" "bm_ok (length cs) e" "bm_set e = {}" using NoDBBitmapInit_ok(2) by blast
  have want: "want_position b e e ?ns = want_read b ?ns" using e(3) by (simp add: fun_eq_iff want_position_def want_data_def want_pos_def)
  have "pm_usable ?ns \<longrightarrow> (\<forall>j < length cs. want_position b e e ?ns j \<longrightarrow> node_pm_ok natts (?ns ! j))"
    using q(8) b(3) unfolding want by (auto simp: want_read_def)
  then obtain r' where r': "FillRow mx i rel (map Some cs) b e e = Some r'" "reply_columns rel cs ?ns b e e r'"
      "pm_usable ?ns \<longrightarrow> collectFromFile r' = []"
      "\<not> pm_usable ?ns \<longrightarrow> set (collectFromFile r') = pick cs (length cs) (want_position b e e ?ns) \<and> readViaPM r' = [] \<and>
         mapReadFromPM r' = NoDBMapArenaInit"
    by (rule FillRow_reply[OF q(2) assms(2) q(7) b(2) e(2,2)])
  have rep: "filter_replies q rel cs ?ns r b r'"
    using r(2-) b(3) r'(2-) e(3) unfolding filter_replies_def want by blast
  have "cm_ok (mapDataHit r)" "cm_ok (mapDataHit r')" "cm_ok (mapReadFromPM r)" "cm_ok (mapReadFromPM r')" "cm_ok (mapDataAddByValue r)"
      "cm_ok (mapDataAddByRef r)" "cm_ok (mapPositionsAdd r)"
    using r(2) r'(2) by (simp_all add: reply_columns_def)
  note v = this[THEN SetColsPerCache_eq]
  obtain x y where "sn = (x, y)" by (cases sn)
  then show thesis
    using that rep assms(3) q(1) r(1) b(1) e(1) r'(1) v by (simp add: strategy_with_filter_def filter_fields_def NoDBColVectorSize_def)
qed

lemma cpc_rel_eq: "cm_ok m \<Longrightarrow> SetColsPerCache m = Some v \<Longrightarrow> cpc_rel v k = cm_cols m k"
  using cpc_rel_SetColsPerCache[of m] by auto

lemma filter_columns:
  assumes "filter_replies q rel cs ns r b r'" "filter_fields r r' t"
  defines "W \<equiv> pick cs (length cs) (\<lambda>j. want_read (readFilterBitmap q) ns j \<or> want_data (writeDataBitmap q) ns j)"
  shows "set (convert r) = W" "set (convert r') = pick cs (length cs) (want_read b ns)"
    "cpc_rel (readPreFilterWithCache t) p = pick cs (length cs) (\<lambda>j. want_hit (readFilterBitmap q) ns j \<and> dataCache (ns ! j) = p)"
    "cpc_rel (readPostFilterWithCache t) p = pick cs (length cs) (\<lambda>j. want_hit b ns j \<and> dataCache (ns ! j) = p)"
    "cpc_rel (writeToCacheByValue t) p =
       pick cs (length cs) (\<lambda>j. want_data (writeDataBitmap q) ns j \<and> by_value rel (cs ! j) \<and> dataCache (ns ! j) = p)"
    "cpc_rel (writeToCacheByRef t) p =
       pick cs (length cs) (\<lambda>j. want_data (writeDataBitmap q) ns j \<and> \<not> by_value rel (cs ! j) \<and> dataCache (ns ! j) = p)"
    "cpc_rel (writeToPM t) p = pick cs (length cs) (\<lambda>j. want_pos (writePositionsBitmap q) ns j \<and> pmCache (ns ! j) = p)"
proof -
  obtain e where r: "reply_columns rel cs ns (readFilterBitmap q) (writeDataBitmap q) (writePositionsBitmap q) r" "bm_set e = {}"
      "reply_columns rel cs ns b e e r'"
    using assms(1) unfolding filter_replies_def by blast
  have "\<not> want_data e ns j" for j using r(2) by (simp add: want_data_def)
  then show "set (convert r) = W" "set (convert r') = pick cs (length cs) (want_read b ns)"
    using r(1,3) by (simp_all add: reply_columns_def W_def)
  have f: "SetColsPerCache (mapDataHit r) = Some (readPreFilterWithCache t)" "SetColsPerCache (mapDataHit r') = Some (readPostFilterWithCache t)"
      "SetColsPerCache (mapDataAddByValue r) = Some (writeToCacheByValue t)" "SetColsPerCache (mapDataAddByRef r) = Some (writeToCacheByRef t)"
      "SetColsPerCache (mapPositionsAdd r) = Some (writeToPM t)"
    using assms(2) by (simp_all add: filter_fields_def)
  show "cpc_rel (readPreFilterWithCache t) p = pick cs (length cs) (\<lambda>j. want_hit (readFilterBitmap q) ns j \<and> dataCache (ns ! j) = p)"
    "cpc_rel (readPostFilterWithCache t) p = pick cs (length cs) (\<lambda>j. want_hit b ns j \<and> dataCache (ns ! j) = p)"
    "cpc_rel (writeToCacheByValue t) p =
       pick cs (length cs) (\<lambda>j. want_data (writeDataBitmap q) ns j \<and> by_value rel (cs ! j) \<and> dataCache (ns ! j) = p)"
    "cpc_rel (writeToCacheByRef t) p =
       pick cs (length cs) (\<lambda>j. want_data (writeDataBitmap q) ns j \<and> \<not> by_value rel (cs ! j) \<and> dataCache (ns ! j) = p)"
    "cpc_rel (writeToPM t) p = pick cs (length cs) (\<lambda>j. want_pos (writePositionsBitmap q) ns j \<and> pmCache (ns ! j) = p)"
    using r(1,3) f[THEN cpc_rel_eq[rotated]] by (simp_all add: reply_columns_def)
qed

lemma pick_mem: "distinct cs \<Longrightarrow> j < length cs \<Longrightarrow> cs ! j \<in> pick cs (length cs) Q \<longleftrightarrow> Q j"
  by (auto simp: pick_def nth_eq_iff_index_eq)

text \<open>
  C17: A strategy with a filter plans every column of the query. The columns of the filter are read from their data
  cache or converted before the filter; every other column of the query is read or converted before or after it. A
  column that is written to a data cache is converted before the filter, so that the caches get the values of the
  rows that fail the filter too; no column is converted twice; and when the row range is parsed from the file, the
  columns read from the file after the filter are those converted after it.
\<close>

theorem filter_strategy_sound:
  assumes "filter_query q rel cs (mx ! i)" "i < length mx" "strategy_rows q i = Some sn"
  shows "\<exists>t. strategy_with_filter q rel mx i = Some t \<and>
    (\<forall>j \<in> bm_set (readFilterBitmap q).
       if dataHit (mx ! i ! j) = CACHE_HIT then cs ! j \<in> cpc_rel (readPreFilterWithCache t) (dataCache (mx ! i ! j))
       else Some (cs ! j) \<in> set (convertPreFilter t)) \<and>
    (\<forall>j \<in> bm_set (readRestBitmap q) - bm_set (readFilterBitmap q). Some (cs ! j) \<in> set (convertPreFilter t) \<or>
       (if dataHit (mx ! i ! j) = CACHE_HIT then cs ! j \<in> cpc_rel (readPostFilterWithCache t) (dataCache (mx ! i ! j))
        else Some (cs ! j) \<in> set (convertPostFilter t))) \<and>
    (\<forall>p. Some ` (cpc_rel (writeToCacheByValue t) p \<union> cpc_rel (writeToCacheByRef t) p) \<subseteq> set (convertPreFilter t)) \<and>
    set (convertPreFilter t) \<inter> set (convertPostFilter t) = {} \<and>
    (if pm_usable (mx ! i) then readPreFilterWithFile t = [] \<and> readPostFilterWithFile t = []
     else set (convertPreFilter t) \<subseteq> set (readPreFilterWithFile t) \<and> set (readPostFilterWithFile t) = set (convertPostFilter t))"
proof -
  let ?ns = "mx ! i" and ?F = "readFilterBitmap q" and ?R = "readRestBitmap q"
  obtain t r b r' where t: "strategy_with_filter q rel mx i = Some t" and rep: "filter_replies q rel cs ?ns r b r'" and f: "filter_fields r r' t"
    by (rule strategy_with_filter_ok[OF assms])
  note cols = filter_columns[OF rep f]
  have d: "distinct cs" and F: "bm_set ?F \<subseteq> {0..<length cs}" and R: "bm_set ?R \<subseteq> {0..<length cs}"
    using assms(1) bm_set_sub by (auto simp: filter_query_def row_ok_def)
  have b: "bm_set b = {j. j < length cs \<and> j \<in> bm_set ?R \<and> j \<notin> bm_set ?F \<and> cs ! j \<notin> set (convert r)}"
    using rep by (simp add: filter_replies_def)
  have conv: "convertPreFilter t = map Some (convert r)" "convertPostFilter t = map Some (convert r')"
      "readPreFilterWithFile t = map Some (collectFromFile r)" "readPostFilterWithFile t = map Some (collectFromFile r')"
    using f by (simp_all add: filter_fields_def)
  have 1: "\<forall>j \<in> bm_set ?F. if dataHit (?ns ! j) = CACHE_HIT then cs ! j \<in> cpc_rel (readPreFilterWithCache t) (dataCache (?ns ! j))
      else Some (cs ! j) \<in> set (convertPreFilter t)"
    using F d by (auto simp: cols conv pick_mem want_hit_def want_read_def)
  have 2: "\<forall>j \<in> bm_set ?R - bm_set ?F. Some (cs ! j) \<in> set (convertPreFilter t) \<or>
      (if dataHit (?ns ! j) = CACHE_HIT then cs ! j \<in> cpc_rel (readPostFilterWithCache t) (dataCache (?ns ! j))
       else Some (cs ! j) \<in> set (convertPostFilter t))"
    using R d b by (auto simp: conv cols(2,4) pick_mem inj_image_mem_iff want_hit_def want_read_def)
  have 3: "\<forall>p. Some ` (cpc_rel (writeToCacheByValue t) p \<union> cpc_rel (writeToCacheByRef t) p) \<subseteq> set (convertPreFilter t)"
    by (auto simp: conv cols(1,5,6) pick_def)
  have 4: "set (convertPreFilter t) \<inter> set (convertPostFilter t) = {}"
    using b by (auto simp: conv cols(2) pick_def want_read_def)
  have 5: "if pm_usable ?ns then readPreFilterWithFile t = [] \<and> readPostFilterWithFile t = []
     else set (convertPreFilter t) \<subseteq> set (readPreFilterWithFile t) \<and> set (readPostFilterWithFile t) = set (convertPostFilter t)"
    using rep by (auto simp: conv cols(1,2) filter_replies_def pick_def want_position_def)
  show ?thesis using t 1 2 3 4 5 by blast
qed

section \<open>From the strategy to the result of the query\<close>

text \<open>The cells of the caches a strategy writes.\<close>

definition data_target :: "NoDBQueryInfo_t \<Rightarrow> NoDBCol_t list \<Rightarrow> Node_t list \<Rightarrow> nat \<Rightarrow> NoDBCol_t \<Rightarrow> bool" where
  "data_target q cs ns p col \<longleftrightarrow> col \<in> pick cs (length cs) (\<lambda>j. want_data (writeDataBitmap q) ns j \<and> dataCache (ns ! j) = Some p)"

definition pos_target :: "NoDBQueryInfo_t \<Rightarrow> NoDBCol_t list \<Rightarrow> Node_t list \<Rightarrow> nat \<Rightarrow> NoDBCol_t \<Rightarrow> bool" where
  "pos_target q cs ns p col \<longleftrightarrow> col \<in> pick cs (length cs) (\<lambda>j. want_pos (writePositionsBitmap q) ns j \<and> pmCache (ns ! j) = Some p)"

text \<open>
  A range of rows that no cache covers yet: nothing is read from a cache, and the columns with a fixed size that the
  query may write go to data caches that are neither positional maps nor the end-of-line cache.
\<close>

definition new_range :: "NoDBQueryInfo_t \<Rightarrow> NoDBRelation_t \<Rightarrow> NoDBCol_t list \<Rightarrow> Node_t list \<Rightarrow> nat option \<Rightarrow> bool" where
  "new_range q rel cs ns eol \<longleftrightarrow> \<not> pm_usable ns \<and>
     (\<forall>j < length cs. dataHit (ns ! j) \<noteq> CACHE_HIT \<and> (want_data (writeDataBitmap q) ns j \<longrightarrow> by_value rel (cs ! j))) \<and>
     bm_set (readFilterBitmap q) \<noteq> {} \<and> bm_set (writePositionsBitmap q) \<subseteq> bm_set (readFilterBitmap q) \<union> bm_set (readRestBitmap q) \<and>
     (\<forall>p col. data_target q cs ns p col \<or> pos_target q cs ns p col \<longrightarrow> eol \<noteq> Some p) \<and>
     (\<forall>p col col'. data_target q cs ns p col \<longrightarrow> \<not> pos_target q cs ns p col')"

lemma cpc_rel_targets: "cpc_rel (map cpc pcs) (Some p) = {col. target pcs p col}"
  by (force simp: cpc_rel_def cpc_def target_def image_iff)

lemma col_map_targets:
  assumes "cm_ok m" "SetColsPerCache m = Some v" "cm_cols m None = {}"
  obtains pcs where "v = map cpc pcs" "targets_ok pcs" "\<forall>p col. target pcs p col \<longleftrightarrow> col \<in> cm_cols m (Some p)"
proof
  let ?pcs = "map (\<lambda>(k, l). (the k, l)) (head m)"
  have ne: "k \<noteq> None \<and> l \<noteq> [] \<and> distinct l" if "(k, l) \<in> set (head m)" for k l
  proof -
    have l: "l \<noteq> []" "distinct l" using assms(1) that by (force simp: cm_ok_def)+
    have "map_of (head m) k = Some l" using assms(1) that by (simp add: cm_ok_def nmap_ok_def map_of_eq_Some_iff)
    then show ?thesis using l assms(3) by (cases k) (auto simp: cm_cols_def NoDBMapGetPtrPtr_def)
  qed
  have v: "v = map (\<lambda>(k, cs). Some \<lparr>cpc_cache = k, cpc_cols = map Some cs\<rparr>) (head m)" using SetColsPerCache_eq[OF assms(1)] assms(2) by simp
  show "v = map cpc ?pcs" unfolding v using ne by (fastforce simp: cpc_def)
  show "targets_ok ?pcs" using ne by (fastforce simp: targets_ok_def)
  have "cpc_rel v (Some p) = {col. target ?pcs p col}" for p unfolding \<open>v = map cpc ?pcs\<close> by (rule cpc_rel_targets)
  then show "\<forall>p col. target ?pcs p col \<longleftrightarrow> col \<in> cm_cols m (Some p)" using cpc_rel_eq[OF assms(1,2)] by auto
qed

lemma SetColsPerCache_none:
  assumes "cm_ok m" "SetColsPerCache m = Some v" "\<forall>k. cm_cols m k = {}"
  shows "v = []"
proof -
  have "head m = []"
  proof (rule ccontr)
    assume "head m \<noteq> []"
    then obtain k l where kl: "(k, l) \<in> set (head m)" by (metis list.set_intros(1) neq_Nil_conv surj_pair)
    then have "l \<noteq> []" "map_of (head m) k = Some l" using assms(1) by (force simp: cm_ok_def nmap_ok_def map_of_eq_Some_iff)+
    then show False using assms(3)[rule_format, of k] by (simp add: cm_cols_def NoDBMapGetPtrPtr_def)
  qed
  then show ?thesis using SetColsPerCache_eq[OF assms(1)] assms(2) by simp
qed

lemma new_range_writes:
  assumes new: "new_range q rel cs ns eol" and rep: "filter_replies q rel cs ns r b r'" and f: "filter_fields r r' t" and row: "row_ok rel cs ns"
  shows "readPreFilterWithCache t = []" "readPostFilterWithCache t = []" "writeToCacheByRef t = []" "readPreFilterWithPM t = []" "readPostFilterWithPM t = []"
    "\<exists>pcs. writeToCacheByValue t = map cpc pcs \<and> targets_ok pcs \<and> (\<forall>p col. target pcs p col \<longleftrightarrow> data_target q cs ns p col)"
    "\<exists>pms. writeToPM t = map cpc pms \<and> targets_ok pms \<and> (\<forall>p col. target pms p col \<longleftrightarrow> pos_target q cs ns p col)"
proof -
  note cols = filter_columns[OF rep f]
  have n: "\<not> pm_usable ns" "\<forall>j < length cs. dataHit (ns ! j) \<noteq> CACHE_HIT \<and> (want_data (writeDataBitmap q) ns j \<longrightarrow> by_value rel (cs ! j))"
    using new unfolding new_range_def by blast+
  have cm: "cm_ok (mapDataHit r)" "cm_ok (mapDataHit r')" "cm_ok (mapDataAddByValue r)" "cm_ok (mapDataAddByRef r)" "cm_ok (mapPositionsAdd r)"
    using rep by (auto simp: filter_replies_def reply_columns_def)
  have v: "SetColsPerCache (mapDataHit r) = Some (readPreFilterWithCache t)" "SetColsPerCache (mapDataHit r') = Some (readPostFilterWithCache t)"
      "SetColsPerCache (mapDataAddByValue r) = Some (writeToCacheByValue t)" "SetColsPerCache (mapDataAddByRef r) = Some (writeToCacheByRef t)"
      "SetColsPerCache (mapPositionsAdd r) = Some (writeToPM t)"
    using f by (simp_all add: filter_fields_def)
  note eq = cpc_rel_eq[OF cm(1) v(1)] cpc_rel_eq[OF cm(2) v(2)] cpc_rel_eq[OF cm(3) v(3)] cpc_rel_eq[OF cm(4) v(4)] cpc_rel_eq[OF cm(5) v(5)]
  note sets = cols(3)[unfolded eq(1)] cols(4)[unfolded eq(2)] cols(5)[unfolded eq(3)] cols(6)[unfolded eq(4)] cols(7)[unfolded eq(5)]
  show "readPreFilterWithCache t = []" by (rule SetColsPerCache_none[OF cm(1) v(1)]) (use n(2) in \<open>auto simp: sets pick_def want_hit_def\<close>)
  show "readPostFilterWithCache t = []" by (rule SetColsPerCache_none[OF cm(2) v(2)]) (use n(2) in \<open>auto simp: sets pick_def want_hit_def\<close>)
  show "writeToCacheByRef t = []" by (rule SetColsPerCache_none[OF cm(4) v(4)]) (use n(2) in \<open>auto simp: sets pick_def\<close>)
  show "readPreFilterWithPM t = []" "readPostFilterWithPM t = []"
    using f rep n(1) SetColsPerCache_none[OF cm_init(1)] by (auto simp: filter_fields_def filter_replies_def)
  have "cm_cols (mapDataAddByValue r) None = {}" "cm_cols (mapPositionsAdd r) None = {}"
    using row by (auto simp: sets pick_def want_data_def want_pos_def row_ok_def)
  then obtain pcs pms where w: "writeToCacheByValue t = map cpc pcs" "targets_ok pcs" "\<forall>a col. target pcs a col \<longleftrightarrow> col \<in> cm_cols (mapDataAddByValue r) (Some a)"
      "writeToPM t = map cpc pms" "targets_ok pms" "\<forall>a col. target pms a col \<longleftrightarrow> col \<in> cm_cols (mapPositionsAdd r) (Some a)"
    using col_map_targets[OF cm(3) v(3)] col_map_targets[OF cm(5) v(5)] by metis
  have "\<forall>a col. target pcs a col \<longleftrightarrow> data_target q cs ns a col" using w(3) n(2) by (auto simp: sets data_target_def pick_def)
  then show "\<exists>pcs. writeToCacheByValue t = map cpc pcs \<and> targets_ok pcs \<and> (\<forall>p col. target pcs p col \<longleftrightarrow> data_target q cs ns p col)"
    using w(1,2) by blast
  have "\<forall>a col. target pms a col \<longleftrightarrow> pos_target q cs ns a col" using w(6) by (simp add: sets pos_target_def)
  then show "\<exists>pms. writeToPM t = map cpc pms \<and> targets_ok pms \<and> (\<forall>p col. target pms p col \<longleftrightarrow> pos_target q cs ns p col)"
    using w(4,5) by blast
qed

text \<open>Every column of the query is converted, those of the filter before it.\<close>

lemma new_range_reads:
  assumes new: "new_range q rel cs ns eol" and rep: "filter_replies q rel cs ns r b r'" and f: "filter_fields r r' t" and q: "filter_query q rel cs ns"
  shows "\<forall>j \<in> bm_set (readFilterBitmap q). cs ! j \<in> set (convert r)"
    "\<forall>j \<in> bm_set (readRestBitmap q). cs ! j \<in> set (convert r) \<union> set (collectFromFile r')"
    "set (convert r) \<union> set (collectFromFile r') \<subseteq> set cs" "collectFromFile r \<noteq> []" "set (convert r') = set (collectFromFile r')"
    "data_target q cs ns p col \<Longrightarrow> col \<in> set (convert r)" "pos_target q cs ns p col \<Longrightarrow> col \<in> set (convert r) \<union> set (collectFromFile r')"
proof -
  let ?F = "readFilterBitmap q" and ?R = "readRestBitmap q"
  note cols = filter_columns(1,2)[OF rep f]
  have d: "distinct cs" and F: "bm_set ?F \<subseteq> {0..<length cs}" and R: "bm_set ?R \<subseteq> {0..<length cs}"
    using q bm_set_sub by (auto simp: filter_query_def row_ok_def)
  have n: "\<not> pm_usable ns" "\<forall>j < length cs. dataHit (ns ! j) \<noteq> CACHE_HIT" "bm_set ?F \<noteq> {}" "bm_set (writePositionsBitmap q) \<subseteq> bm_set ?F \<union> bm_set ?R"
    using new unfolding new_range_def by blast+
  have files: "set (collectFromFile r) = pick cs (length cs) (want_position ?F (writeDataBitmap q) (writePositionsBitmap q) ns)"
      "set (collectFromFile r') = pick cs (length cs) (want_read b ns)"
      "bm_set b = {j. j < length cs \<and> j \<in> bm_set ?R \<and> j \<notin> bm_set ?F \<and> cs ! j \<notin> set (convert r)}"
    using rep n(1) by (simp_all add: filter_replies_def)
  show F_in: "\<forall>j \<in> bm_set ?F. cs ! j \<in> set (convert r)" using F n(2) d by (auto simp: cols(1) pick_mem want_read_def)
  show R_in: "\<forall>j \<in> bm_set ?R. cs ! j \<in> set (convert r) \<union> set (collectFromFile r')"
  proof
    fix j assume j: "j \<in> bm_set ?R"
    then have "j < length cs" using R by auto
    then show "cs ! j \<in> set (convert r) \<union> set (collectFromFile r')"
      using j F_in n(2) d files(3) by (cases "j \<in> bm_set ?F \<or> cs ! j \<in> set (convert r)") (auto simp: files(2) pick_mem want_read_def)
  qed
  show "set (convert r) \<union> set (collectFromFile r') \<subseteq> set cs" "set (convert r') = set (collectFromFile r')" by (auto simp: cols files(2) pick_def)
  obtain j where j: "j \<in> bm_set ?F" using n(3) by blast
  moreover have "j < length cs" using F j by auto
  ultimately have "cs ! j \<in> set (collectFromFile r)" using n(2) d by (simp add: files(1) pick_mem want_position_def want_read_def)
  then show "collectFromFile r \<noteq> []" by auto
  show "data_target q cs ns p col \<Longrightarrow> col \<in> set (convert r)" by (auto simp: data_target_def cols(1) pick_def)
  show "pos_target q cs ns p col \<Longrightarrow> col \<in> set (convert r) \<union> set (collectFromFile r')"
    using F_in R_in n(4) by (auto simp: pos_target_def pick_def want_pos_def)
qed

lemma planned_filter_strategy:
  assumes q: "filter_query q rel cs (mx ! i)" "i < length mx" "strategy_rows q i = Some sn"
    and t: "strategy_with_filter q rel mx i = Some (curStrategy p)" and new: "new_range q rel cs (mx ! i) (p_eolCache p)" and p: "readFile p = FromFile"
  obtains pre post pcs pms where "filter_strategy pre post pcs pms p" "set (pre @ post) \<subseteq> set cs"
    "\<forall>j \<in> bm_set (readFilterBitmap q). cs ! j \<in> set pre" "\<forall>j \<in> bm_set (readRestBitmap q). cs ! j \<in> set (pre @ post)"
    "\<forall>p col. target pcs p col \<longleftrightarrow> data_target q cs (mx ! i) p col" "\<forall>p col. target pms p col \<longleftrightarrow> pos_target q cs (mx ! i) p col"
proof -
  let ?t = "curStrategy p"
  obtain r b r' where rep: "filter_replies q rel cs (mx ! i) r b r'" and f: "filter_fields r r' ?t"
    using strategy_with_filter_ok[OF q] t by (metis option.inject)
  have row: "row_ok rel cs (mx ! i)" using q(1) by (simp add: filter_query_def)
  note reads = new_range_reads[OF new rep f q(1)] and writes = new_range_writes[OF new rep f row]
  obtain pcs pms where w: "writeToCacheByValue ?t = map cpc pcs" "targets_ok pcs" "\<forall>a col. target pcs a col \<longleftrightarrow> data_target q cs (mx ! i) a col"
      "writeToPM ?t = map cpc pms" "targets_ok pms" "\<forall>a col. target pms a col \<longleftrightarrow> pos_target q cs (mx ! i) a col"
    using writes(6,7) by blast
  have in_target: "\<exists>col. target xs a col" if "a \<in> fst ` set xs" "targets_ok xs" for a xs
    using that by (fastforce simp: targets_ok_def target_def neq_Nil_conv)
  have sep: "\<forall>a col. data_target q cs (mx ! i) a col \<or> pos_target q cs (mx ! i) a col \<longrightarrow> p_eolCache p \<noteq> Some a"
      "\<forall>a col col'. data_target q cs (mx ! i) a col \<longrightarrow> \<not> pos_target q cs (mx ! i) a col'"
    using new by (simp_all add: new_range_def)
  have "a \<notin> fst ` set pms" if "a \<in> fst ` set pcs" for a using in_target[OF that w(2)] in_target[OF _ w(5), of a] w(3,6) sep(2) by metis
  moreover have "p_eolCache p \<noteq> Some a" if "a \<in> fst ` set pcs \<or> a \<in> fst ` set pms" for a
    using that in_target[OF _ w(2), of a] in_target[OF _ w(5), of a] w(3,6) sep(1) by metis
  ultimately have "fst ` set pcs \<inter> fst ` set pms = {}" "p_eolCache p \<notin> Some ` (fst ` set pcs \<union> fst ` set pms)" by blast+
  then have "strategy_writes pcs pms p" using w writes(3) by (simp add: strategy_writes_def)
  moreover have "convertPreFilter ?t = map Some (convert r)" "readPostFilterWithFile ?t = map Some (collectFromFile r')"
      "readPreFilterWithFile ?t \<noteq> []" "collectFromFile r' = [] \<longrightarrow> convertPostFilter ?t = []" "readPreFilterViaPM ?t = []" "readPostFilterViaPM ?t = []"
    using f reads(4,5) rep new by (auto simp: filter_fields_def filter_replies_def new_range_def)
  ultimately have "filter_strategy (convert r) (collectFromFile r') pcs pms p"
    using writes(1,2,4,5) p reads(6,7) w(3,6) by (simp add: filter_strategy_def)
  then show thesis using that reads(1-3) w(3,6) by (metis set_append)
qed

text \<open>The scan runs the strategy that was built for row \<open>i\<close> of the matrix.\<close>

definition planned_scan :: "NoDBQueryInfo_t \<Rightarrow> NoDBRelation_t \<Rightarrow> NoDBCol_t list \<Rightarrow> matrix \<Rightarrow> nat \<Rightarrow> scan_state \<Rightarrow> bool" where
  "planned_scan q rel cs mx i s \<longleftrightarrow> filter_query q rel cs (mx ! i) \<and> i < length mx \<and>
     strategy_with_filter q rel mx i = Some (curStrategy (s_plan s)) \<and> new_range q rel cs (mx ! i) (p_eolCache (s_plan s)) \<and>
     readFile (s_plan s) = FromFile \<and> execNoDBPlan s = ExecPlanWithFilters \<and> s_qual s"

lemma filter_reads_mono: "filter_reads x fs Q \<Longrightarrow> set fs \<subseteq> set pre \<Longrightarrow> filter_reads x pre Q"
  unfolding filter_reads_def by blast

lemma scan_ready_mono: "scan_ready cs n rows w s \<Longrightarrow> set ds \<subseteq> set cs \<Longrightarrow> scan_ready ds n rows w s"
  by (auto simp: scan_ready_def columns_ok_def fits_def)

lemma planned_rows:
  assumes "planned_scan q rel cs mx i s" "scan_ready cs n rows w s"
  obtains pre post pcs pms where "filters_rows pre post pcs pms n rows w s" "\<forall>j \<in> bm_set (readFilterBitmap q). cs ! j \<in> set pre"
    "\<forall>j \<in> bm_set (readRestBitmap q). cs ! j \<in> set (pre @ post)"
    "\<forall>p col. target pcs p col \<longleftrightarrow> data_target q cs (mx ! i) p col" "\<forall>p col. target pms p col \<longleftrightarrow> pos_target q cs (mx ! i) p col"
proof -
  have a: "filter_query q rel cs (mx ! i)" "i < length mx" "strategy_with_filter q rel mx i = Some (curStrategy (s_plan s))"
      "new_range q rel cs (mx ! i) (p_eolCache (s_plan s))" "readFile (s_plan s) = FromFile" "execNoDBPlan s = ExecPlanWithFilters" "s_qual s"
    using assms(1) by (simp_all add: planned_scan_def)
  obtain sn where sn: "strategy_rows q i = Some sn" using a(3) by (auto simp: strategy_with_filter_def bind_eq_Some_conv)
  obtain pre post pcs pms where p: "filter_strategy pre post pcs pms (s_plan s)" "set (pre @ post) \<subseteq> set cs"
      "\<forall>j \<in> bm_set (readFilterBitmap q). cs ! j \<in> set pre" "\<forall>j \<in> bm_set (readRestBitmap q). cs ! j \<in> set (pre @ post)"
      "\<forall>p col. target pcs p col \<longleftrightarrow> data_target q cs (mx ! i) p col" "\<forall>p col. target pms p col \<longleftrightarrow> pos_target q cs (mx ! i) p col"
    by (rule planned_filter_strategy[OF a(1,2) sn a(3-5)])
  have "filters_rows pre post pcs pms n rows w s" using p(1) a(6,7) scan_ready_mono[OF assms(2) p(2)] by (simp add: filters_rows_def)
  then show thesis using that p(3-6) by blast
qed

text \<open>
  C3: The planner and the executor agree. A query with a filter runs, over the rows of a table in a CSV file that
  no cache covers yet, the strategy that \<open>BuildStrategy\<close> built for it. Then \<open>ExecScan\<close> returns exactly the rows that
  pass the filter, in order, each projected from a tuple with the converted values of all columns of the query;
  and afterwards the caches that the matrix names for writing hold, for every row of the table, the values and
  the positions of their columns.
\<close>

theorem planned_query:
  assumes "planned_scan q rel cs mx i (sn_scan nd)" "scan_ready cs n rows (sn_world nd) (sn_scan nd)" "\<not> ps_TupFromTlist nd" "projects proj f"
    "filter_reads x fs Q" "set fs \<subseteq> (!) cs ` bm_set (readFilterBitmap q)"
    "\<forall>k < length rows. \<forall>p col. (data_target q cs (mx ! i) p col \<longrightarrow> cell_room 9 (sn_world nd) p col (of_nat (processed (s_reader (sn_scan nd)) + k))) \<and>
       (pos_target q cs (mx ! i) p col \<longrightarrow> cell_room 4 (sn_world nd) p col (of_nat (processed (s_reader (sn_scan nd)) + k)))"
  shows "\<exists>ts nd'. fetch x proj (Suc (length (filter (\<lambda>vs. Q (item_datum (input_fn x) vs)) rows))) nd = Some (Val (map f ts, nd')) \<and>
    list_all2 (\<lambda>vs t. \<forall>j \<in> bm_set (readFilterBitmap q) \<union> bm_set (readRestBitmap q).
        tts_values t ! nat (cs ! j) = Some (datum (item_datum (input_fn x) vs (cs ! j))) \<and>
        tts_isnull t ! nat (cs ! j) = Some (null (item_datum (input_fn x) vs (cs ! j))))
      (filter (\<lambda>vs. Q (item_datum (input_fn x) vs)) rows) ts \<and>
    (\<forall>k < length rows. \<forall>p col.
       (data_target q cs (mx ! i) p col \<longrightarrow> cell_value dec_datum 9 (sn_world nd') p col (of_nat (processed (s_reader (sn_scan nd)) + k)) =
          Some (item_datum (input_fn x) (rows ! k) col)) \<and>
       (pos_target q cs (mx ! i) p col \<longrightarrow> cell_value dec_pair 4 (sn_world nd') p col (of_nat (processed (s_reader (sn_scan nd)) + k)) =
          Some (item_pos (s_format (sn_scan nd)) (rows ! k) col)))"
proof -
  obtain pre post pcs pms where p: "filters_rows pre post pcs pms n rows (sn_world nd) (sn_scan nd)" "\<forall>j \<in> bm_set (readFilterBitmap q). cs ! j \<in> set pre"
      "\<forall>j \<in> bm_set (readRestBitmap q). cs ! j \<in> set (pre @ post)"
      "\<forall>p col. target pcs p col \<longleftrightarrow> data_target q cs (mx ! i) p col" "\<forall>p col. target pms p col \<longleftrightarrow> pos_target q cs (mx ! i) p col"
    by (rule planned_rows[OF assms(1,2)])
  have Q: "filter_reads x pre Q" using filter_reads_mono[OF assms(5)] assms(6) p(2) by blast
  have room: "\<forall>k < length rows. caches_room pcs pms (sn_world nd) (of_nat (processed (s_reader (sn_scan nd)) + k))"
    using assms(7) p(4,5) unfolding caches_room_def row_room_def by blast
  obtain ts nd' where t: "fetch x proj (Suc (length (filter (\<lambda>vs. Q (item_datum (input_fn x) vs)) rows))) nd = Some (Val (map f ts, nd'))"
      "list_all2 (\<lambda>vs t. row_slot x (pre @ post) vs t) (filter (\<lambda>vs. Q (item_datum (input_fn x) vs)) rows) ts"
      "\<forall>k < length rows. caches_hold (input_fn x) (s_format (sn_scan nd)) pcs pms (sn_world nd') (of_nat (processed (s_reader (sn_scan nd)) + k)) (rows ! k)"
    using query_rows[OF p(1) Q assms(4,3) room] by blast
  show ?thesis
  proof (intro exI conjI)
    show "fetch x proj (Suc (length (filter (\<lambda>vs. Q (item_datum (input_fn x) vs)) rows))) nd = Some (Val (map f ts, nd'))" by (rule t(1))
    show "list_all2 (\<lambda>vs t. \<forall>j \<in> bm_set (readFilterBitmap q) \<union> bm_set (readRestBitmap q).
        tts_values t ! nat (cs ! j) = Some (datum (item_datum (input_fn x) vs (cs ! j))) \<and>
        tts_isnull t ! nat (cs ! j) = Some (null (item_datum (input_fn x) vs (cs ! j))))
      (filter (\<lambda>vs. Q (item_datum (input_fn x) vs)) rows) ts"
      by (rule list_all2_mono[OF t(2)]) (use p(2,3) in \<open>auto simp: row_slot_def\<close>)
    show "\<forall>k < length rows. \<forall>p col.
       (data_target q cs (mx ! i) p col \<longrightarrow> cell_value dec_datum 9 (sn_world nd') p col (of_nat (processed (s_reader (sn_scan nd)) + k)) =
          Some (item_datum (input_fn x) (rows ! k) col)) \<and>
       (pos_target q cs (mx ! i) p col \<longrightarrow> cell_value dec_pair 4 (sn_world nd') p col (of_nat (processed (s_reader (sn_scan nd)) + k)) =
          Some (item_pos (s_format (sn_scan nd)) (rows ! k) col))"
      using t(3) p(4,5) unfolding caches_hold_def row_holds_def by blast
  qed
qed

text \<open>Two columns of a relation: one is filtered and cached, of the other the position is recorded.\<close>

definition range_rel :: NoDBRelation_t where
  "range_rel = demo_rel\<lparr>rel_attrs := replicate 20 (Some \<lparr>attr_size = 4, byValue = 1\<rparr>)\<rparr>"

definition range_bits :: "bool \<Rightarrow> bool \<Rightarrow> NoDBBitmap_t" where
  "range_bits a b = \<lparr>bits = [Some (of_bool a), Some (of_bool b)], size_bm = 2\<rparr>"

definition range_row :: "Node_t list" where
  "range_row = [init_node\<lparr>dataHit := CACHE_ADD, dataCache := Some 5, pmHit := CACHE_MISS\<rparr>,
     init_node\<lparr>dataHit := CACHE_MISS, pmHit := CACHE_ADD, pmCache := Some 7\<rparr>]"

definition range_query :: NoDBQueryInfo_t where
  "range_query = (queryInfo plan_iterator)\<lparr>qi_cols := [Some 1, Some 2], qi_rows := [Some 0, Some 10], readFilterBitmap := range_bits True False,
     readRestBitmap := range_bits True True, writeDataBitmap := range_bits True False, writePositionsBitmap := range_bits False True\<rparr>"

lemma range_bits_ok: "bm_ok (Suc (Suc 0)) (range_bits a b)" "bm_set (range_bits a b) = {i. i = 0 \<and> a \<or> i = 1 \<and> b}"
  by (cases a; cases b; auto simp: bm_ok_def bm_set_def range_bits_def less_Suc_eq nth_Cons' numeral_2_eq_2)+

lemma range_row_nth: "range_row ! 0 = init_node\<lparr>dataHit := CACHE_ADD, dataCache := Some 5, pmHit := CACHE_MISS\<rparr>"
  "range_row ! Suc 0 = init_node\<lparr>dataHit := CACHE_MISS, pmHit := CACHE_ADD, pmCache := Some 7\<rparr>" "length range_row = 2"
  by (simp_all add: range_row_def)

lemma range_query_fields [simp]: "qi_cols range_query = map Some [1, 2]" "qi_rows range_query = [Some 0, Some 10]" "readFilterBitmap range_query = range_bits True False"
  "readRestBitmap range_query = range_bits True True" "writeDataBitmap range_query = range_bits True False"
  "writePositionsBitmap range_query = range_bits False True"
  by (simp_all add: range_query_def)

lemma range_attributes: "NoDBRelationIsColumnByValue range_rel 1 = Some 1" "NoDBRelationIsColumnByValue range_rel 2 = Some 1"
  "NoDBRelationGetNumberColumns range_rel = int 3"
  by (simp_all add: range_rel_def demo_rel_def NoDBRelationIsColumnByValue_def NoDBRelationGetNumberColumns_def rel_attr_def arr_get_def)

lemma range_ok: "filter_query range_query range_rel [1, 2] range_row" "\<not> pm_usable range_row" "strategy_rows range_query 0 = Some (0, 10)"
proof -
  show u: "\<not> pm_usable range_row" by (simp add: pm_usable_def range_row_def init_node_def)
  have "row_ok range_rel [1, 2] range_row"
    by (auto simp: row_ok_def range_row_def init_node_def less_Suc_eq range_attributes)
  then show "filter_query range_query range_rel [1, 2] range_row" using u by (simp add: filter_query_def range_bits_ok range_attributes)
  show "strategy_rows range_query 0 = Some (0, 10)" by (simp add: strategy_rows_def NoDBRowVectorGet_def arr_get_def)
qed

theorem filter_strategy_sound_witness:
  "\<exists>t. strategy_with_filter range_query range_rel [range_row] 0 = Some t \<and> Some 1 \<in> set (convertPreFilter t) \<and>
     Some 2 \<in> set (convertPreFilter t) \<union> set (convertPostFilter t) \<and> set (readPostFilterWithFile t) = set (convertPostFilter t)"
proof -
  have a: "filter_query range_query range_rel [1, 2] ([range_row] ! 0)" "0 < length [range_row]" using range_ok(1) by simp_all
  obtain t where t: "strategy_with_filter range_query range_rel [range_row] 0 = Some t"
      "\<forall>j \<in> bm_set (readFilterBitmap range_query).
         if dataHit ([range_row] ! 0 ! j) = CACHE_HIT then [1, 2] ! j \<in> cpc_rel (readPreFilterWithCache t) (dataCache ([range_row] ! 0 ! j))
         else Some ([1, 2] ! j) \<in> set (convertPreFilter t)"
      "\<forall>j \<in> bm_set (readRestBitmap range_query) - bm_set (readFilterBitmap range_query). Some ([1, 2] ! j) \<in> set (convertPreFilter t) \<or>
         (if dataHit ([range_row] ! 0 ! j) = CACHE_HIT then [1, 2] ! j \<in> cpc_rel (readPostFilterWithCache t) (dataCache ([range_row] ! 0 ! j))
          else Some ([1, 2] ! j) \<in> set (convertPostFilter t))"
      "if pm_usable ([range_row] ! 0) then readPreFilterWithFile t = [] \<and> readPostFilterWithFile t = []
       else set (convertPreFilter t) \<subseteq> set (readPreFilterWithFile t) \<and> set (readPostFilterWithFile t) = set (convertPostFilter t)"
    using filter_strategy_sound[OF a range_ok(3)] by blast
  have "Some 1 \<in> set (convertPreFilter t)" using t(2) by (simp add: range_bits_ok range_row_nth)
  moreover have "Some 2 \<in> set (convertPreFilter t) \<union> set (convertPostFilter t)"
    using t(3)[rule_format, of 1] by (simp add: range_bits_ok range_row_nth)
  ultimately show ?thesis using t(1,4) range_ok(2) by (intro exI[of _ t]) simp
qed

definition planned_node :: "unit scan_node" where
  "planned_node = query_node\<lparr>sn_scan := (sn_scan query_node)\<lparr>s_plan := (s_plan (sn_scan query_node))\<lparr>curStrategy :=
     the (strategy_with_filter range_query range_rel [range_row] 0)\<rparr>\<rparr>\<rparr>"

lemma range_targets: "data_target range_query [1, 2] range_row p col \<longleftrightarrow> p = 5 \<and> col = 1" "pos_target range_query [1, 2] range_row p col \<longleftrightarrow> p = 7 \<and> col = 2"
  by (auto simp: data_target_def pos_target_def pick_def want_data_def want_pos_def range_bits_ok range_row_nth init_node_def)

lemma planned_node_ready: "planned_scan range_query range_rel [1, 2] [range_row] 0 (sn_scan planned_node)"
  "scan_ready [1, 2] 2 table_rows (sn_world planned_node) (sn_scan planned_node)"
proof -
  have "filter_query range_query range_rel [1, 2] ([range_row] ! 0)" "0 < length [range_row]" using range_ok(1) by simp_all
  from strategy_with_filter_ok[OF this range_ok(3)] obtain t where t: "strategy_with_filter range_query range_rel [range_row] 0 = Some t" .
  have "new_range range_query range_rel [1, 2] range_row (Some 0)"
    using range_ok(2)
    by (auto simp: new_range_def range_targets range_bits_ok less_Suc_eq by_value_def range_attributes range_row_nth init_node_def)
  then show "planned_scan range_query range_rel [1, 2] [range_row] 0 (sn_scan planned_node)"
    using t range_ok(1) by (simp add: planned_scan_def planned_node_def query_node_def table_start_def plan_scan_def)
  show "scan_ready [1, 2] 2 table_rows (sn_world planned_node) (sn_scan planned_node)"
    using table_ready by (simp add: planned_node_def query_node_def scan_ready_def columns_ok_def fits_def eol_ready_def before_rows_def line_start_def)
qed

theorem planned_query_witness:
  "\<exists>nd'. fetch query_externals (Some query_projection) 2 planned_node = Some (Val ([generateTupleTableSlot 1 [Some 1] [Some False]], nd')) \<and>
     cell_value dec_datum 9 (sn_world nd') 5 1 0 = Some \<lparr>datum = 3, null = False\<rparr>"
proof -
  let ?f = "\<lambda>t :: TupleTableSlot. generateTupleTableSlot 1 [tts_values t ! 2] [tts_isnull t ! 2]"
  have l: "length table_rows = 2" and c: "Suc (length [table_rows ! 1]) = 2" by (simp_all add: table_rows_def)
  have p: "projects (Some query_projection) ?f" by (simp add: projects_def query_projection_def generateTupleTableSlot_def)
  have e: "\<not> ps_TupFromTlist planned_node" by (simp add: planned_node_def query_node_def)
  have fs: "set [1] \<subseteq> (!) [1, 2] ` bm_set (readFilterBitmap range_query)" by (auto simp: range_bits_ok)
  have room: "\<forall>k < 2. \<forall>p col.
      (data_target range_query [1, 2] ([range_row] ! 0) p col \<longrightarrow> cell_room 9 (sn_world planned_node) p col (of_nat (processed (s_reader (sn_scan planned_node)) + k))) \<and>
      (pos_target range_query [1, 2] ([range_row] ! 0) p col \<longrightarrow> cell_room 4 (sn_world planned_node) p col (of_nat (processed (s_reader (sn_scan planned_node)) + k)))"
    using query_room by (simp add: caches_room_def row_room_def query_targets table_targets range_targets planned_node_def)
  obtain ts nd' where t: "fetch query_externals (Some query_projection) 2 planned_node = Some (Val (map ?f ts, nd'))"
      "list_all2 (\<lambda>vs t. \<forall>j \<in> bm_set (readFilterBitmap range_query) \<union> bm_set (readRestBitmap range_query).
        tts_values t ! nat ([1, 2] ! j) = Some (datum (item_datum (input_fn query_externals) vs ([1, 2] ! j))) \<and>
        tts_isnull t ! nat ([1, 2] ! j) = Some (null (item_datum (input_fn query_externals) vs ([1, 2] ! j)))) [table_rows ! 1] ts"
      "\<forall>k < 2. \<forall>p col. (data_target range_query [1, 2] ([range_row] ! 0) p col \<longrightarrow>
         cell_value dec_datum 9 (sn_world nd') p col (of_nat (processed (s_reader (sn_scan planned_node)) + k)) =
           Some (item_datum (input_fn query_externals) (table_rows ! k) col))"
    using planned_query[OF planned_node_ready e p query_filter fs, unfolded l query_selects, OF room] unfolding c by blast
  have i: "item_datum (input_fn query_externals) (table_rows ! 0) 1 = \<lparr>datum = 3, null = False\<rparr>"
      "item_datum (input_fn query_externals) (table_rows ! 1) 2 = \<lparr>datum = 1, null = False\<rparr>"
    by (simp_all add: item_datum_def table_rows_def plan_externals_def query_externals_def)
  obtain u where ts: "ts = [u]" "tts_values u ! 2 = Some 1" "tts_isnull u ! 2 = Some False"
    using t(2) i(2) by (auto simp: list_all2_Cons1 range_bits_ok)
  have "cell_value dec_datum 9 (sn_world nd') 5 1 0 = Some \<lparr>datum = 3, null = False\<rparr>"
    using t(3)[rule_format, of 0 5 1] i(1) by (simp add: range_targets) (simp add: planned_node_def query_node_def table_start_def text_reader_def)
  then show ?thesis using t(1) ts by auto
qed

section \<open>A filter that spoils the columns behind it\<close>

text \<open>
  A scan without write locks over a relation with four columns. A positional map has column 0; the filter reads
  column 1 and the query column 2.
\<close>

definition cut_row :: "Node_t list" where
  "cut_row = [init_node\<lparr>dataHit := CACHE_MISS, pmHit := CACHE_MISS, closestPMCache := Some 7, closestColumn := Some 0, distance := Some 1\<rparr>,
     init_node\<lparr>dataHit := CACHE_MISS, pmHit := CACHE_MISS, closestPMCache := Some 7, closestColumn := Some 0, distance := Some 2\<rparr>]"

definition cut_query :: NoDBQueryInfo_t where
  "cut_query = range_query\<lparr>readRestBitmap := range_bits False True, writeDataBitmap := range_bits False False,
     writePositionsBitmap := range_bits False False\<rparr>"

definition cut_rel :: NoDBRelation_t where
  "cut_rel = range_rel\<lparr>rel_used := 4\<rparr>"

definition cut_strategy :: NoDBScanStrategy_t where
  "cut_strategy = the (strategy_with_filter cut_query cut_rel [cut_row] 0)"

definition cut_positions :: NoDBCache_t where
  "cut_positions = \<lparr>c_rel = 1, c_type = NODB_POSITIONS_CACHE, c_startRow = 0, c_usedRows = 1, c_nRows = Some 1, c_startOffset = 0, c_rowSize = 4,
     c_rowFree = 0, c_cols = [Some 0], c_usedCols = 1, c_offset = [0], c_map = [1], c_list = [\<lparr>used = True, psize = 4\<rparr>],
     c_buf = Some (map Some [0, 0, 1, 0]), c_sizeOfHeader = None\<rparr>"

definition cut_world :: nodb_world where
  "cut_world = plan_world\<lparr>nw_heap := (nw_heap plan_world)\<lparr>h_caches := (h_caches (nw_heap plan_world))
     (0 \<mapsto> demo_eol\<lparr>c_buf := Some (map Some [10, 0, 10, 0, 10, 0])\<rparr>, 7 \<mapsto> cut_positions)\<rparr>\<rparr>"

text \<open>Three lines \<open>a,b,c,ddd\<close>, with their lengths in the end-of-line cache.\<close>

definition cut_scan :: scan_state where
  "cut_scan = plan_scan\<lparr>s_natts := 4, s_qual := True, execNoDBPlan := ExecPlanWithFilters,
     s_format := (s_format plan_scan)\<lparr>nfields := 4, lastfield := 3\<rparr>, s_reader := text_reader (concat (replicate 3 [97, 44, 98, 44, 99, 44, 100, 100, 100, 10])),
     s_line := \<lparr>field_strings = replicate 4 None, attributes = \<lparr>a_ptr = Some 0, a_width = None\<rparr> # replicate 4 \<lparr>a_ptr = None, a_width = None\<rparr>\<rparr>,
     s_values := \<lparr>dvalues = replicate 4 (Some 0), dnulls = replicate 4 (Some True)\<rparr>,
     s_plan := (s_plan plan_scan)\<lparr>curStrategy := cut_strategy\<rparr>\<rparr>"


end
