(* ===== verification/NoDB_Types.thy ===== *)
theory NoDB_Types
  imports NoDB_PlanSpec
begin

text \<open>
  The types of a running scan: the arrays that \<open>NoDBScanStateInit\<close> allocates for a relation keep their sizes and stay
  initialised through every call of a plan and every rescan, whatever other scans do to the shared caches in between.
\<close>

section \<open>Well-typed states\<close>

definition full :: "nat \<Rightarrow> 'a option list \<Rightarrow> bool" where
  "full n xs \<longleftrightarrow> length xs = n \<and> None \<notin> set xs"

definition typed_values :: "nat \<Rightarrow> value_state \<Rightarrow> bool" where
  "typed_values n v \<longleftrightarrow> full n (dvalues v) \<and> full n (dnulls v)"

definition typed_scan :: "int \<Rightarrow> scan_state \<Rightarrow> bool" where
  "typed_scan n s \<longleftrightarrow> s_natts s = n \<and> typed_values (nat n) (s_values s) \<and> length (attributes (s_line s)) = Suc (nat n)"

definition typed_slot :: "int \<Rightarrow> TupleTableSlot \<Rightarrow> bool" where
  "typed_slot n t \<longleftrightarrow> \<not> tts_isempty t \<and> tts_nvalid t = n \<and> full (nat n) (tts_values t) \<and> full (nat n) (tts_isnull t)"

lemma full_set: "arr_set xs i (Some v) = Some ys \<Longrightarrow> full n xs \<Longrightarrow> full n ys"
  by (auto simp: full_def arr_set_Some_iff dest: subsetD[OF set_update_subset_insert])

lemma set_value_typed: "set_value i v b st = Some st' \<Longrightarrow> typed_values n st \<Longrightarrow> typed_values n st'"
  by (auto simp: set_value_def typed_values_def bind_eq_Some_conv dest: full_set)

lemma typed_scan_update:
  "typed_scan n (s\<lparr>s_values := v\<rparr>) \<longleftrightarrow> s_natts s = n \<and> typed_values (nat n) v \<and> length (attributes (s_line s)) = Suc (nat n)"
  "typed_scan n (put_attributes at s) \<longleftrightarrow> s_natts s = n \<and> typed_values (nat n) (s_values s) \<and> length at = Suc (nat n)"
  "typed_scan n (s\<lparr>s_reader := rd\<rparr>) = typed_scan n s" "typed_scan n (s\<lparr>s_plan := p\<rparr>) = typed_scan n s"
  "typed_scan n (s\<lparr>execNoDBPlan := e\<rparr>) = typed_scan n s" "typed_scan n (put_plan p s) = typed_scan n s"
  by (simp_all add: typed_scan_def put_attributes_def put_plan_def)

section \<open>Values and positions\<close>

lemma get_values_typed:
  "NoDBGetValues f fv cols st = Some st' \<Longrightarrow> typed_values n st \<Longrightarrow> typed_values n st'"
  unfolding NoDBGetValues_def
  by (erule foldM_inv) (auto simp: bind_eq_Some_conv split: option.splits dest: set_value_typed)

lemma get_values_pm_typed:
  assumes "NoDBGetValuesWithPM f at cols (buf, st) = Some (buf', st')" "typed_values n st"
  shows "typed_values n st'"
proof -
  have "typed_values n (snd (buf', st'))"
    using assms(1) unfolding NoDBGetValuesWithPM_def
    by (rule foldM_inv) (use assms(2) in \<open>auto simp: bind_eq_Some_conv Let_def split: if_splits dest: set_value_typed\<close>)
  then show ?thesis by simp
qed

lemma datum_vector_typed:
  assumes "NoDBCacheGetDatumVector c dv nv cols row = Some (dv', nv')" "full n dv" "full n nv"
  shows "full n dv' \<and> full n nv'"
proof -
  have "full n (fst (dv', nv')) \<and> full n (snd (dv', nv'))"
    using assms(1) unfolding NoDBCacheGetDatumVector_def
    by (rule foldM_inv) (use assms(2,3) in \<open>auto simp: bind_eq_Some_conv dest: full_set\<close>)
  then show ?thesis by simp
qed

lemma pair_vector_length: "NoDBCacheGetPMPairVector c pv cols row = Some pv' \<Longrightarrow> length pv' = length pv"
  unfolding NoDBCacheGetPMPairVector_def by (erule foldM_inv) (auto simp: bind_eq_Some_conv dest: arr_set_length)

lemma attribute_lengths:
  "set_ptr at i v = Some at' \<Longrightarrow> length at' = length at" "upd_width at i = Some at' \<Longrightarrow> length at' = length at"
  by (auto simp: set_ptr_def upd_width_def bind_eq_Some_conv dest: arr_set_length)

lemma upd_widths_length: "upd_widths at js = Some at' \<Longrightarrow> length at' = length at"
  unfolding upd_widths_def by (erule foldM_inv) (auto dest: attribute_lengths)

lemma read_fields_length: "read_fields field fmt i cur k st = Some (Val st') \<Longrightarrow> length (attributes st') = length (attributes st)"
proof (induction field fmt i cur k st rule: read_fields.induct)
  case (1 field fmt i cur k st)
  from 1(2) show ?case
    by (subst (asm) read_fields.simps) (auto simp: bind_eq_Some_conv Let_def attribute_lengths split: if_splits res.splits dest!: 1(1))
qed

lemma full_parse_length: "full_parse m fmt v line st = Some (Val st') \<Longrightarrow> length (attributes st') = length (attributes st)"
  by (auto simp: full_parse_def NoDBCopyReadAttributesText_def NoDBCopyReadAttributesCSV_def split: if_splits dest: read_fields_length)

lemma forward_loop_length: "forward_loop d cs pos h i start at = Some (at', r) \<Longrightarrow> length at' = length at"
proof (induction "length cs" arbitrary: cs pos h i start at rule: less_induct)
  case less
  show ?case
  proof (cases cs)
    case Nil
    then show ?thesis using less(2) by simp
  next
    case (Cons c xs)
    let ?rest = "\<lambda>at1 h1 i1 s1 stop. if stop then Some (at1, h1, i1, s1, pos) else if c = 92 then
        (case xs of [] \<Rightarrow> Some (at1, h1, i1, s1, pos)
         | c' # cs' \<Rightarrow> (case unescape c' cs' of (ch, k, rest, f) \<Rightarrow> forward_loop d rest (pos + 2 + k) h1 i1 s1 at1))
        else forward_loop d xs (pos + 1) h1 i1 s1 at1"
    obtain q where q: "(if c = d then do { at' \<leftarrow> set_ptr at (i + 1) (of_nat (pos + 1));
          Some (at', h - 1, i + 1, if h - 1 = 0 then start else pos + 1, h - 1 = 0) } else Some (at, h, i, start, False)) = Some q"
        "(case q of (at1, h1, i1, s1, stop) \<Rightarrow> ?rest at1 h1 i1 s1 stop) = Some (at', r)"
      using bind_eq_Some_conv[THEN iffD1, OF less(2)[unfolded Cons forward_loop.simps(2)]] by blast
    obtain at1 h1 i1 s1 stop where e: "q = (at1, h1, i1, s1, stop)" by (cases q)
    have l: "length at1 = length at" using q(1) e by (auto simp: bind_eq_Some_conv split: if_splits dest: attribute_lengths)
    have rest: "?rest at1 h1 i1 s1 stop = Some (at', r)" using q(2) e by simp
    show ?thesis
    proof (cases "stop \<or> c = 92 \<and> xs = []")
      case True
      then show ?thesis using rest l by (cases stop) simp_all
    next
      case False
      have "\<exists>ys p. length ys < length cs \<and> forward_loop d ys p h1 i1 s1 at1 = Some (at', r)"
      proof (cases "c = 92")
        case True
        obtain c' cs' where xs: "xs = c' # cs'" using True False by (cases xs) auto
        obtain ch k ys f where u: "unescape c' cs' = (ch, k, ys, f)" by (cases "unescape c' cs'")
        have "forward_loop d ys (pos + 2 + k) h1 i1 s1 at1 = Some (at', r)" using rest True False by (simp add: xs u del: forward_loop.simps)
        then show ?thesis using xs Cons unescape_length[OF u] by (intro exI[of _ ys] exI[of _ "pos + 2 + k"]) simp
      next
        case c: False
        then have "forward_loop d xs (pos + 1) h1 i1 s1 at1 = Some (at', r)" using rest False by (simp del: forward_loop.simps)
        then show ?thesis using Cons by (intro exI[of _ xs] exI[of _ "pos + 1"]) simp
      qed
      then obtain ys p where "length ys < length cs" "forward_loop d ys p h1 i1 s1 at1 = Some (at', r)" by blast
      from less(1)[OF this] l show ?thesis by simp
    qed
  qed
qed

lemma backward_loop_length: "backward_loop d line pos h i at = Some (at', r) \<Longrightarrow> length at' = length at"
proof (induction "nat (pos + 1)" arbitrary: pos h i at rule: less_induct)
  case less
  show ?case
  proof (cases "pos < 0")
    case True
    then show ?thesis using less(2) by (simp add: backward_loop.simps)
  next
    case False
    obtain c where c: "arr_get line pos = Some c" using less(2) False by (subst (asm) backward_loop.simps) (auto split: option.splits)
    obtain q where q: "(if c = d then map_option (\<lambda>at'. (at', h - 1, if h - 1 = 0 then i else i - 1, h - 1 = 0)) (set_ptr at i (word_of_int (pos + 1)))
        else Some (at, h, i, False)) = Some q" and r: "(case q of (at1, h1, i1, stop) \<Rightarrow> if stop then Some (at1, h1, i1, pos) else if c = 92 then
        (if pos - 1 < 0 then Some (at1, h1, i1, pos) else (case arr_get line (pos - 1) of None \<Rightarrow> None
          | Some c' \<Rightarrow> (case backward_escape line c' (pos - 2) of None \<Rightarrow> None | Some cur \<Rightarrow> backward_loop d line cur h1 i1 at1)))
        else backward_loop d line (pos - 1) h1 i1 at1) = Some (at', r)"
      using less(2) False c by (subst (asm) backward_loop.simps) (simp only: if_False option.case split: option.splits, blast)
    obtain at1 h1 i1 stop where e: "q = (at1, h1, i1, stop)" by (cases q)
    have l: "length at1 = length at" using q e by (auto split: if_splits dest: attribute_lengths)
    have "(at', r) = (at1, h1, i1, pos) \<or> (\<exists>p < pos. backward_loop d line p h1 i1 at1 = Some (at', r))"
      using r e by (auto split: if_splits option.splits dest!: backward_escape_le intro: exI[of _ "pos - 1"])
    then show ?thesis
    proof
      assume "\<exists>p < pos. backward_loop d line p h1 i1 at1 = Some (at', r)"
      then obtain p where p: "p < pos" "backward_loop d line p h1 i1 at1 = Some (at', r)" by blast
      have "nat (p + 1) < nat (pos + 1)" using p(1) False by simp
      from less(1)[OF this p(2)] l show ?thesis by simp
    qed (use l in simp)
  qed
qed

lemma parseLineForward_length: "parseLineForward fmt line at cur h i = Some (at', r) \<Longrightarrow> length at' = length at"
  by (auto simp: parseLineForward_def bind_eq_Some_conv Let_def split: if_splits dest!: forward_loop_length attribute_lengths(1))

lemma parseLineBackward_length: "parseLineBackward fmt line at cur h i = Some (at', r) \<Longrightarrow> length at' = length at"
  by (auto simp: parseLineBackward_def bind_eq_Some_conv Let_def split: if_splits dest!: backward_loop_length attribute_lengths(1))

lemma via_length:
  assumes "NoDBGetNextTupleViaPM fmt line via at = Some at'"
  shows "length at' = length at"
proof -
  obtain at1 where f: "(if forward via > 0 then do {
            a \<leftarrow> arr_get at (via_col via);
            p \<leftarrow> a_ptr a;
            wd \<leftarrow> a_width a;
            at \<leftarrow> set_ptr at (via_col via + 1) (of_nat (unat p + unat wd + 1));
            (at, r) \<leftarrow> parseLineForward fmt line at (unat p + unat wd + 1) (forward via) (via_col via + 1);
            upd_widths at [via_col via + 1..via_col via + forward via]
          } else Some at) = Some at1"
      and b: "(if backward via < 0 then do {
            a \<leftarrow> arr_get at1 (via_col via);
            p \<leftarrow> a_ptr a;
            (at, r) \<leftarrow> parseLineBackward fmt line at1 (int (unat p) - 1 - 1) \<bar>backward via\<bar> (via_col via - 1);
            upd_widths at (rev [via_col via + backward via..via_col via - 1])
          } else Some at1) = Some at'"
    using bind_eq_Some_conv[THEN iffD1, OF assms[unfolded NoDBGetNextTupleViaPM_def Let_def]] by (elim exE conjE) (rule that)
  have "length at1 = length at"
    using f by (auto simp: bind_eq_Some_conv simp del: upto.simps split: if_splits dest!: parseLineForward_length attribute_lengths(1) upd_widths_length)
  with b show ?thesis
    by (auto simp: bind_eq_Some_conv simp del: upto.simps split: if_splits dest!: parseLineBackward_length upd_widths_length)
qed

section \<open>The operations of a scan\<close>

lemma read_with_cache_typed: "read_with_cache w a s = Some s' \<Longrightarrow> typed_scan n s \<Longrightarrow> typed_scan n s'"
  unfolding read_with_cache_def
  by (erule foldM_inv) (auto simp: bind_eq_Some_conv typed_scan_def typed_values_def dest: datum_vector_typed)

lemma read_with_pm_typed: "read_with_pm w b s = Some s' \<Longrightarrow> typed_scan n s \<Longrightarrow> typed_scan n s'"
  unfolding read_with_pm_def
  by (erule foldM_inv) (auto simp: bind_eq_Some_conv Let_def typed_scan_def put_attributes_def dest!: pair_vector_length)

lemma read_via_pm_typed: "read_via_pm c s = Some s' \<Longrightarrow> typed_scan n s \<Longrightarrow> typed_scan n s'"
  unfolding read_via_pm_def
  by (erule foldM_inv) (auto simp: bind_eq_Some_conv typed_scan_def put_attributes_def dest!: via_length)

lemma read_columns_typed:
  assumes "read_columns x w a b c d e f s = Some (Val s')" "typed_scan n s"
  shows "typed_scan n s'"
proof -
  obtain s1 s2 s3 where st: "read_with_cache w a s = Some s1" "read_with_pm w b s1 = Some s2" "read_via_pm c s2 = Some s3"
      "(if 0 < NoDBColVectorSize d then values_from_file x e s3 else map_option Val (values_from_pm x f s3)) = Some (Val s')"
    using assms(1) unfolding read_columns_def bind_eq_Some_conv by blast
  have t: "typed_scan n s3" using assms(2) read_with_cache_typed[OF st(1)] read_with_pm_typed[OF st(2)] read_via_pm_typed[OF st(3)] by blast
  show ?thesis
  proof (cases "0 < NoDBColVectorSize d")
    case True
    then have "values_from_file x e s3 = Some (Val s')" using st(4) by simp
    then show ?thesis
      by (rule values_from_file_Val) (use t in \<open>auto simp: typed_scan_def dest: full_parse_length get_values_typed\<close>)
  next
    case False
    then have "values_from_pm x f s3 = Some s'" using st(4) by auto
    then show ?thesis using t by (auto simp: values_from_pm_def bind_eq_Some_conv typed_scan_def dest: get_values_pm_typed)
  qed
qed

lemma readFile_call_typed: "readFile_call x (w, s) = Some (Val (w', s', eof)) \<Longrightarrow> typed_scan n s' = typed_scan n s"
  by (drule readFile_call_row(2)) (metis typed_scan_update(3))

lemma next_strategy_typed: "next_strategy (w, s) = Some (w', s') \<Longrightarrow> typed_scan n s' = typed_scan n s"
  by (auto simp: next_strategy_def bind_eq_Some_conv Let_def typed_scan_update split: prod.split_asm)

lemma update_strategy_typed:
  assumes "NoDBUpdateStrategy (w, s) = Some (w', s')"
  shows "typed_scan n s' = typed_scan n s"
proof (cases "nRows (count_rows (s_plan s)) = 0")
  case False
  then show ?thesis using assms by (auto simp: NoDBUpdateStrategy_def Let_def typed_scan_update set_tuplesToRead_def)
next
  case True
  obtain w1 rd eof where "(if eof then Some (w1, put_plan ((count_rows (s_plan s))\<lparr>readFile := NoDBGetReadFile (nEOL (count_rows (s_plan s)))\<rparr>)
        ((put_plan (count_rows (s_plan s)) s)\<lparr>s_reader := rd, execNoDBPlan := ExecPlan\<rparr>))
      else map_option (\<lambda>(w, s). (w, set_tuplesToRead s)) (next_strategy (w1, (put_plan (count_rows (s_plan s)) s)\<lparr>s_reader := rd\<rparr>))) = Some (w', s')"
    using assms unfolding NoDBUpdateStrategy_def Let_def prod.case if_P[OF True] True
    by (simp only: refl if_True bind_eq_Some_conv) (elim exE conjE, simp only: split: prod.split_asm)
  then show ?thesis
    using next_strategy_typed[of w1 "(put_plan (count_rows (s_plan s)) s)\<lparr>s_reader := rd\<rparr>" _ _ n]
    by (cases eof) (auto simp: typed_scan_update set_tuplesToRead_def)
qed

lemma finish_tuple_typed: "finish_tuple (w, s) = Some (w', s') \<Longrightarrow> typed_scan n s' = typed_scan n s"
  by (auto simp: finish_tuple_def Let_def typed_scan_update split: if_splits dest!: update_strategy_typed[of _ _ _ _ n])

lemma slot_of_typed: "typed_scan n s \<Longrightarrow> typed_slot n (slot_of s)"
  by (simp add: typed_scan_def typed_values_def typed_slot_def slot_of_def generateTupleTableSlot_def)

lemma return_tuple_typed:
  assumes "return_tuple pass (w, s) = Some (Val (w', s', slot, b))" "typed_scan n s"
  shows "typed_scan n s' \<and> (\<forall>t. slot = Some t \<longrightarrow> typed_slot n t)"
proof -
  obtain v where f: "finish_tuple (w, s) = Some v" "(w', s', slot, b) = (fst v, snd v, Some (slot_of (snd v)), pass)"
    using assms(1) by (cases "finish_tuple (w, s)") (auto simp: return_tuple_def)
  have "typed_scan n (snd v)" using finish_tuple_typed[of w s "fst v" "snd v" n] f(1) assms(2) by simp
  then show ?thesis using f(2) slot_of_typed by auto
qed

lemma exec_plan_typed:
  assumes "NoDBExecPlan x w s pass = Some (Val (w', s', slot, b))" "typed_scan n s"
  shows "typed_scan n s' \<and> (\<forall>t. slot = Some t \<longrightarrow> typed_slot n t)"
proof -
  obtain r where r: "readFile_call x (w, s) = Some r" using assms(1) by (cases "readFile_call x (w, s)") (auto simp: NoDBExecPlan_def)
  obtain w1 s1 eof where r1: "r = Val (w1, s1, eof)" using assms(1) r by (cases r) (auto simp: NoDBExecPlan_def)
  have t1: "typed_scan n s1" using readFile_call_typed[of x w s w1 s1 eof n] r r1 assms(2) by simp
  show ?thesis
  proof (cases eof)
    case True
    then show ?thesis using assms(1) r r1 t1 by (auto simp: NoDBExecPlan_def)
  next
    case False
    let ?t = "curStrategy (s_plan s1)"
    obtain r2 where r2: "read_columns x w1 (readPostFilterWithCache ?t) (readPostFilterWithPM ?t) (readPostFilterViaPM ?t)
        (readPostFilterWithFile ?t) (convertPostFilter ?t) (convertPostFilter ?t) s1 = Some r2"
        "(case r2 of Err e \<Rightarrow> Some (Err e) | Val s \<Rightarrow> do { w \<leftarrow> write_caches x ?t s w1; return_tuple pass (w, s) }) = Some (Val (w', s', slot, b))"
      using assms(1) r r1 False unfolding NoDBExecPlan_def by (auto simp: bind_eq_Some_conv Let_def)
    then obtain s2 w2 where s2: "r2 = Val s2" "return_tuple pass (w2, s2) = Some (Val (w', s', slot, b))" by (cases r2) (auto simp: bind_eq_Some_conv)
    show ?thesis using return_tuple_typed[OF s2(2)] read_columns_typed r2(1) s2(1) t1 by blast
  qed
qed

lemma write_return_typed:
  assumes "(case r of Err e \<Rightarrow> Some (Err e) | Val s \<Rightarrow> do { w \<leftarrow> write_caches x t s w; return_tuple pass (w, s) }) = Some (Val (w', s', slot, b))"
    "\<And>s. r = Val s \<Longrightarrow> typed_scan n s"
  shows "typed_scan n s' \<and> (\<forall>t. slot = Some t \<longrightarrow> typed_slot n t)"
proof -
  obtain s2 w2 where "r = Val s2" "return_tuple pass (w2, s2) = Some (Val (w', s', slot, b))" using assms(1) by (cases r) (auto simp: bind_eq_Some_conv)
  then show ?thesis using return_tuple_typed assms(2) by blast
qed

lemma exec_filter_typed:
  assumes "NoDBExecPlanWithFilters x w s = Some (Val (w', s', slot, b))" "typed_scan n s"
  shows "typed_scan n s' \<and> (\<forall>t. slot = Some t \<longrightarrow> typed_slot n t)"
proof -
  obtain r where r: "readFile_call x (w, s) = Some r" using assms(1) by (cases "readFile_call x (w, s)") (auto simp: NoDBExecPlanWithFilters_def)
  obtain w1 s1 eof where r1: "r = Val (w1, s1, eof)" using assms(1) r by (cases r) (auto simp: NoDBExecPlanWithFilters_def)
  have t1: "typed_scan n s1" using readFile_call_typed[of x w s w1 s1 eof n] r r1 assms(2) by simp
  show ?thesis
  proof (cases eof)
    case True
    then show ?thesis using assms(1) r r1 t1 by (auto simp: NoDBExecPlanWithFilters_def)
  next
    case False
    let ?t = "curStrategy (s_plan s1)"
    obtain r2 where r2: "read_columns x w1 (readPreFilterWithCache ?t) (readPreFilterWithPM ?t) (readPreFilterViaPM ?t)
        (readPreFilterWithFile ?t) (convertPreFilter ?t) (convertPreFilter ?t) s1 = Some r2"
      using assms(1) r r1 False unfolding NoDBExecPlanWithFilters_def by (auto simp: bind_eq_Some_conv Let_def)
    obtain s2 where s2: "r2 = Val s2" using assms(1) r r1 r2 False by (cases r2) (auto simp: NoDBExecPlanWithFilters_def Let_def)
    have t2: "typed_scan n s2" using read_columns_typed r2 s2 t1 by blast
    let ?pass = "ExecQual x (dvalues (s_values s2)) (dnulls (s_values s2))"
    obtain r3 where r3: "(if ?pass then read_columns x w1 (readPostFilterWithCache ?t) (readPostFilterWithPM ?t) (readPostFilterViaPM ?t)
          (readPostFilterWithFile ?t) (readPostFilterWithFile ?t) (convertPostFilter ?t) s2 else Some (Val s2)) = Some r3"
        "(case r3 of Err e \<Rightarrow> Some (Err e) | Val s \<Rightarrow> do { w \<leftarrow> write_caches x ?t s w1; return_tuple ?pass (w, s) }) = Some (Val (w', s', slot, b))"
      using assms(1) r r1 r2 s2 False unfolding NoDBExecPlanWithFilters_def Let_def by (auto simp: bind_eq_Some_conv)
    have "typed_scan n s3" if "r3 = Val s3" for s3 using r3(1) t2 that by (auto split: if_splits dest: read_columns_typed)
    then show ?thesis by (rule write_return_typed[OF r3(2)])
  qed
qed

lemma cache_only_typed:
  assumes "NoDBExecPlanCacheOnly w s pass = Some (Val (w', s', slot, b))" "typed_scan n s"
  shows "typed_scan n s' \<and> (\<forall>t. slot = Some t \<longrightarrow> typed_slot n t)"
proof -
  obtain s1 where s1: "read_with_cache w (readPostFilterWithCache (curStrategy (s_plan s))) s = Some s1" "return_tuple pass (w, s1) = Some (Val (w', s', slot, b))"
    using assms(1) by (auto simp: NoDBExecPlanCacheOnly_def bind_eq_Some_conv)
  show ?thesis by (rule return_tuple_typed[OF s1(2) read_with_cache_typed[OF s1(1) assms(2)]])
qed

lemma filter_cache_only_typed:
  assumes "NoDBExecPlanWithFiltersCacheOnly x w s = Some (Val (w', s', slot, b))" "typed_scan n s"
  shows "typed_scan n s' \<and> (\<forall>t. slot = Some t \<longrightarrow> typed_slot n t)"
proof -
  let ?t = "curStrategy (s_plan s)"
  obtain s1 s2 pass where s1: "read_with_cache w (readPreFilterWithCache ?t) s = Some s1" "return_tuple pass (w, s2) = Some (Val (w', s', slot, b))"
      "(if pass then read_with_cache w (readPostFilterWithCache ?t) s1 else Some s1) = Some s2"
    using assms(1) unfolding NoDBExecPlanWithFiltersCacheOnly_def Let_def bind_eq_Some_conv by (elim exE conjE) (rule that)
  have "typed_scan n s1" by (rule read_with_cache_typed[OF s1(1) assms(2)])
  then have "typed_scan n s2" using s1(3) read_with_cache_typed[of w "readPostFilterWithCache ?t" s1 s2 n] by (simp split: if_splits)
  then show ?thesis by (rule return_tuple_typed[OF s1(2)])
qed

lemma exec_call_typed:
  assumes "execNoDBPlan_call x w s pass = Some (Val (w', s', slot, b))" "typed_scan n s"
  shows "typed_scan n s' \<and> (\<forall>t. slot = Some t \<longrightarrow> typed_slot n t)"
  using assms(1) exec_plan_typed[OF _ assms(2)] exec_filter_typed[OF _ assms(2)] cache_only_typed[OF _ assms(2)] filter_cache_only_typed[OF _ assms(2)]
  by (cases "execNoDBPlan s") simp_all

lemma rewrite_columns_typed: "rewrite_columns i atts w s = Some (w', s') \<Longrightarrow> typed_scan n s' = typed_scan n s"
  by (auto simp: rewrite_columns_def bind_eq_Some_conv typed_scan_def)

lemma restart_scan_typed:
  assumes "restart_scan q (w, s) = Some (w', s')"
  shows "typed_scan n s' = typed_scan n s"
proof -
  obtain w1 s1 p where "rewrite_columns (s_execInfo s) (readAllAtts s) w (s\<lparr>s_reader := restart_file (s_reader s)\<rparr>) = Some (w1, s1)"
      "s' = (put_plan p s1)\<lparr>execNoDBPlan := NoDBGetExecPlan (put_plan p s1)\<rparr>"
    using assms by (auto simp: restart_scan_def bind_eq_Some_conv Let_def)
  then show ?thesis using rewrite_columns_typed by (simp add: typed_scan_update)
qed

lemma reinit_typed:
  assumes "NoDBScanStateReInit q (w, s) = Some (w', s')"
  shows "typed_scan n s' = typed_scan n s"
proof -
  obtain w1 rd p where "s' = put_plan p (s\<lparr>s_reader := rd, execNoDBPlan := NoDBGetExecPlan (s\<lparr>s_reader := rd\<rparr>)\<rparr>) \<or>
      restart_scan q (w1, s\<lparr>s_reader := rd\<rparr>) = Some (w', s')"
    using assms by (auto simp: NoDBScanStateReInit_def bind_eq_Some_conv Let_def split: if_split_asm)
  then show ?thesis using restart_scan_typed[of q w1 "s\<lparr>s_reader := rd\<rparr>" w' s' n] by (auto simp: typed_scan_update)
qed

lemma init_typed:
  assumes "NoDBScanStateInit x q attrs attbyval filename w s = Some (w', s')"
  shows "typed_scan (s_natts s) s'"
  using assms by (auto simp: NoDBScanStateInit_def bind_eq_Some_conv Let_def typed_scan_def typed_values_def full_def)

section \<open>Runs of a scan\<close>

text \<open>The states of a scan of a relation with \<open>n\<close> columns; between two of its steps other scans change the shared world.\<close>

inductive scan_run :: "externals \<Rightarrow> int \<Rightarrow> nodb_world \<Rightarrow> scan_state \<Rightarrow> bool" for x n where
  start: "NoDBScanStateInit x q attrs attbyval filename w s = Some (w', s') \<Longrightarrow> s_natts s = n \<Longrightarrow> scan_run x n w' s'"
| tuple: "scan_run x n w s \<Longrightarrow> execNoDBPlan_call x w s pass = Some (Val (w', s', slot, b)) \<Longrightarrow> scan_run x n w' s'"
| rescan: "scan_run x n w s \<Longrightarrow> NoDBScanStateReInit q (w, s) = Some (w', s') \<Longrightarrow> scan_run x n w' s'"
| other: "scan_run x n w s \<Longrightarrow> scan_run x n w' s"

lemma scan_run_typed: "scan_run x n w s \<Longrightarrow> typed_scan n s"
  by (induction rule: scan_run.induct) (auto simp: init_typed reinit_typed simp del: execNoDBPlan_call.simps dest: exec_call_typed)

text \<open>
  C18: Every tuple of a scan is well typed. In every state that a scan reaches from \<open>NoDBScanStateInit\<close> by calls of its
  plans and by rescans, with any changes of the shared caches in between, the arrays of values and of null flags have one
  initialised entry per column of the relation and the array of positions has one entry more; and a slot that a
  plan returns from such a state is not empty, reports that number of columns, and has all its values and null flags set.
\<close>

theorem scan_types:
  assumes "scan_run x n w s" "execNoDBPlan_call x w s pass = Some (Val (w', s', slot, b))"
  shows "typed_scan n s \<and> typed_scan n s' \<and> (\<forall>t. slot = Some t \<longrightarrow> typed_slot n t)"
  using scan_run_typed[OF assms(1)] exec_call_typed[OF assms(2)] by blast

text \<open>A scan of a file whose end-of-line cache is filled, while another scan holds the write locks of all columns.\<close>

definition types_rel :: NoDBRelation_t where
  "types_rel = \<lparr>rel_name = ''t'', rel_used = 3, rel_max = 3, rel_attrs = replicate 3 (Some \<lparr>attr_size = 16, byValue = 1\<rparr>)\<rparr>"

definition types_world :: nodb_world where
  "types_world = plan_world\<lparr>nw_heap := (nw_heap plan_world)\<lparr>h_rels := (\<lambda>_. None)(1 := Some types_rel)\<rparr>,
     nw_eol := Some [\<lparr>relation = ''t'', EOLCache = Some 0\<rparr>], nw_caches := [],
     nw_info := Some \<lparr>eiv_size = 1, eiv_used = 1, eiv_vector = [Some (demo_info\<lparr>CacheLock := [1, 1, 1], PMLock := [1, 1, 1]\<rparr>)]\<rparr>\<rparr>"

definition types_start :: "(nodb_world \<times> scan_state) option" where
  "types_start = NoDBScanStateInit plan_externals demo_query [''a'', ''b'', ''c''] [1, 1, 1] ''t.csv'' types_world plan_scan"

lemma types_first: "(case types_start of None \<Rightarrow> False
    | Some (w, s) \<Rightarrow> (case execNoDBPlan_call plan_externals w s True of Some (Val (w', s', Some t, b)) \<Rightarrow> tts_values t = [Some 1, Some 0, Some 0] | _ \<Rightarrow> False))"
  by code_simp

theorem scan_types_witness:
  "\<exists>w s w' s' t b. types_start = Some (w, s) \<and> execNoDBPlan_call plan_externals w s True = Some (Val (w', s', Some t, b)) \<and>
     tts_values t = [Some 1, Some 0, Some 0] \<and> typed_slot 3 t \<and> typed_scan 3 s'"
proof -
  obtain w s where s: "types_start = Some (w, s)" using types_first by (cases types_start) auto
  note f = types_first[unfolded s option.case prod.case]
  obtain r where r: "execNoDBPlan_call plan_externals w s True = Some r"
    using f by (cases "execNoDBPlan_call plan_externals w s True") (simp_all only: option.case)
  note f = f[unfolded r option.case]
  obtain v where v: "r = Val v" using f by (cases r) simp_all
  obtain w' s' slot b where e: "v = (w', s', slot, b)" by (cases v)
  obtain t where c: "execNoDBPlan_call plan_externals w s True = Some (Val (w', s', Some t, b))" "tts_values t = [Some 1, Some 0, Some 0]"
    using f r v e by (cases slot) simp_all
  have "s_natts plan_scan = 3" by (simp add: plan_scan_def)
  then have "scan_run plan_externals 3 w s" using s scan_run.start by (simp add: types_start_def)
  from scan_types[OF this c(1)] show ?thesis using s c by blast
qed

end
