(* ===== verification/NoDB_Rescan.thy ===== *)
theory NoDB_Rescan
  imports NoDB_ExecScan NoDB_Types
begin

text \<open>
  Where a scan stands after \<open>ExecScanReScan\<close>, that is after \<open>NoDBScanStateReInit\<close> of
  \<open>src/postgresql-9.6.5/src/backend/noDB/NoDBScan.c\<close>.
\<close>

section \<open>Looking for more lines\<close>

lemma fread_unread:
  assumes "0 < n" "fread n rd = (rd', bs)"
  shows "bs @ drop (copy_pos rd') (copy_file rd') = drop (copy_pos rd) (copy_file rd)" "bs = [] \<longleftrightarrow> drop (copy_pos rd) (copy_file rd) = []"
    "rd' = rd\<lparr>copy_pos := copy_pos rd'\<rparr>"
proof -
  let ?d = "drop (copy_pos rd) (copy_file rd)"
  have r: "bs = take n ?d" "rd' = rd\<lparr>copy_pos := copy_pos rd + length (take n ?d)\<rparr>" using assms(2) by (auto simp: fread_def Let_def)
  have "drop (copy_pos rd + length (take n ?d)) (copy_file rd) = drop (length (take n ?d)) ?d" by (simp only: drop_drop add.commute)
  then show "bs @ drop (copy_pos rd') (copy_file rd') = ?d" using r take_split[of ?d n] by simp
  show "bs = [] \<longleftrightarrow> ?d = []" using r(1) assms(1) by (simp only: take_eq_Nil) auto
  show "rd' = rd\<lparr>copy_pos := copy_pos rd'\<rparr>" using r(2) by simp
qed

lemma try_refill:
  assumes "buf_inv rd"
  shows "\<exists>rd'. NoDBTryReFillRawBuf rd = Some (rd', unread rd = []) \<and> unread rd' = unread rd \<and> processed rd' = processed rd \<and>
    copy_file rd' = copy_file rd \<and> eolCache rd' = eolCache rd"
proof (cases "raw_buf_index rd \<ge> length (raw_buf rd)")
  case True
  then have i: "raw_buf_index rd = length (raw_buf rd)" "header_pending rd = 0" using assms by (auto simp: buf_inv_def)
  obtain rd1 bs where f: "fread RAW_BUF_SIZE rd = (rd1, bs)" by (cases "fread RAW_BUF_SIZE rd")
  have pos: "RAW_BUF_SIZE > 0" by (simp add: RAW_BUF_SIZE_def)
  note u = fread_unread[OF pos f]
  have r: "rd1 = rd\<lparr>copy_pos := copy_pos rd1\<rparr>" by (rule u(3))
  have "unread rd = drop (copy_pos rd) (copy_file rd)" using i(1) by (simp add: unread_def stream_def)
  moreover have "unread (rd1\<lparr>raw_buf := bs, raw_buf_index := 0\<rparr>) = drop (copy_pos rd) (copy_file rd)" using u(1) by (simp add: unread_def stream_def)
  moreover have "NoDBTryReFillRawBuf rd = Some (rd1\<lparr>raw_buf := bs, raw_buf_index := 0\<rparr>, bs = [])"
    using i f by (simp add: NoDBTryReFillRawBuf_def REFILL_LINEBUF_def NoDBCopyLoadRawBuf_def NoDBCopyGetData_plain Let_def)
  moreover have "processed rd1 = processed rd" "copy_file rd1 = copy_file rd" "eolCache rd1 = eolCache rd" by (subst r, simp)+
  ultimately show ?thesis using u(2) by (intro exI[of _ "rd1\<lparr>raw_buf := bs, raw_buf_index := 0\<rparr>"]) simp
next
  case False
  then show ?thesis by (auto simp: NoDBTryReFillRawBuf_def unread_def stream_def)
qed

section \<open>Rescans\<close>

lemma restart_scan_reader:
  assumes "restart_scan q (w, s) = Some (w', s')"
  shows "s_reader s' = restart_file (s_reader s)"
proof -
  obtain w1 s1 p where r: "rewrite_columns (s_execInfo s) (readAllAtts s) w (s\<lparr>s_reader := restart_file (s_reader s)\<rparr>) = Some (w1, s1)"
      "s' = (put_plan p s1)\<lparr>execNoDBPlan := NoDBGetExecPlan (put_plan p s1)\<rparr>"
    using assms by (auto simp: restart_scan_def bind_eq_Some_conv Let_def)
  have "s_reader s1 = restart_file (s_reader s)" using r(1) by (auto simp: rewrite_columns_def bind_eq_Some_conv)
  then show ?thesis using r(2) by (simp add: put_plan_def)
qed

text \<open>
  C33: A rescan that comes too early does not start again. Let a scan have read all the lines it has delivered, and let the
  end-of-line cache know no line behind them. If the file has more bytes, \<open>ExecScanReScan\<close> leaves the scan where it is: the row counter and
  the unread bytes do not change, and the rows before them are not delivered again. Only at the end of the file, or when a former
  scan has recorded more lines, does it go back to the first byte and to row 0.
\<close>

theorem rescan_position:
  assumes "NoDBFinalizeStrategy (sn_world nd, sn_scan nd) = Some w1" "load_cache w1 (p_eolCache (s_plan (sn_scan nd))) = Some c"
    "tupleRead (s_reader (sn_scan nd)) = processed (s_reader (sn_scan nd))" "buf_inv (s_reader (sn_scan nd))" "ExecScanReScan q nd = Some nd'"
  shows "if eol_end c \<le> of_nat (processed (s_reader (sn_scan nd))) \<and> unread (s_reader (sn_scan nd)) \<noteq> []
    then processed (s_reader (sn_scan nd')) = processed (s_reader (sn_scan nd)) \<and> unread (s_reader (sn_scan nd')) = unread (s_reader (sn_scan nd))
    else processed (s_reader (sn_scan nd')) = 0 \<and> unread (s_reader (sn_scan nd')) = copy_file (s_reader (sn_scan nd))"
proof -
  let ?s = "sn_scan nd" and ?rd = "(s_reader (sn_scan nd))\<lparr>eolCache := c\<rparr>"
  obtain w' s' where r: "NoDBScanStateReInit q (sn_world nd, ?s) = Some (w', s')" "sn_scan nd' = s'"
    using assms(5) by (auto simp: ExecScanReScan_def bind_eq_Some_conv)
  have u: "unread ?rd = unread (s_reader ?s)" by (simp add: unread_def stream_def)
  have "buf_inv ?rd" using assms(4) by (simp add: buf_inv_def header_pending_def)
  then obtain rd where rd: "NoDBTryReFillRawBuf ?rd = Some (rd, unread (s_reader ?s) = [])" "unread rd = unread (s_reader ?s)"
      "processed rd = processed (s_reader ?s)" "copy_file rd = copy_file (s_reader ?s)"
    using try_refill[of ?rd] u by auto
  have seek: "seek_to_tuple c ?rd = Some ?rd" using assms(3) by (simp add: seek_to_tuple_def)
  have start: "unread (restart_file rd') = copy_file rd'" "processed (restart_file rd') = 0" for rd'
    by (simp_all add: restart_file_def unread_def stream_def)
  show ?thesis
    using r(1) assms(1-3) seek rd start[of rd] start[of ?rd] unfolding r(2)
    by (auto simp: NoDBScanStateReInit_def Let_def put_plan_def split: if_splits dest!: restart_scan_reader)
qed

text \<open>One of three lines is delivered; the block with the others is in the buffer.\<close>

definition rescan_world :: nodb_world where
  "rescan_world = types_world\<lparr>nw_heap := (nw_heap types_world)\<lparr>h_caches := (h_caches (nw_heap types_world))(0 \<mapsto> demo_eol\<lparr>c_usedRows := 1\<rparr>)\<rparr>\<rparr>"

definition rescan_node :: "unit scan_node" where
  "rescan_node = \<lparr>sn_world = rescan_world,
     sn_scan = plan_scan\<lparr>s_reader := (s_reader plan_scan)\<lparr>copy_pos := 16, raw_buf := copy_file (s_reader plan_scan), raw_buf_index := 5,
       processed := 1, tupleRead := 1\<rparr>\<rparr>,
     ps_TupFromTlist = False, ecxt_scantuple = None, sn_project = ()\<rparr>"

lemma rescan_run:
  "(case NoDBFinalizeStrategy (sn_world rescan_node, sn_scan rescan_node) of None \<Rightarrow> False
    | Some w \<Rightarrow> (case load_cache w (p_eolCache (s_plan (sn_scan rescan_node))) of None \<Rightarrow> False | Some c \<Rightarrow> eol_end c = 1))"
  "ExecScanReScan demo_query rescan_node \<noteq> None"
  by code_simp+

theorem rescan_position_witness:
  "\<exists>nd'. ExecScanReScan demo_query rescan_node = Some nd' \<and> processed (s_reader (sn_scan nd')) = 1 \<and>
     unread (s_reader (sn_scan nd')) = [97, 98, 44, 99, 44, 100, 10, 44, 44, 120, 10]"
proof -
  obtain w1 c where w1: "NoDBFinalizeStrategy (sn_world rescan_node, sn_scan rescan_node) = Some w1"
      "load_cache w1 (p_eolCache (s_plan (sn_scan rescan_node))) = Some c" "eol_end c = 1"
    using rescan_run(1) by (auto split: option.split_asm)
  obtain nd' where nd': "ExecScanReScan demo_query rescan_node = Some nd'" using rescan_run(2) by blast
  have s: "processed (s_reader (sn_scan rescan_node)) = 1" "tupleRead (s_reader (sn_scan rescan_node)) = processed (s_reader (sn_scan rescan_node))"
      "unread (s_reader (sn_scan rescan_node)) = [97, 98, 44, 99, 44, 100, 10, 44, 44, 120, 10]" "buf_inv (s_reader (sn_scan rescan_node))"
    by (simp_all add: rescan_node_def plan_scan_def text_reader_def unread_def stream_def buf_inv_def header_pending_def RAW_BUF_SIZE_def)
  from rescan_position[OF w1(1,2) s(2,4) nd'] show ?thesis using nd' s(1,3) w1(3) by simp
qed

end
