(* ===== verification/Snoop_Config.thy ===== *)
theory Snoop_Config
  imports Snoop_Query NoDB_Parse
begin

text \<open>
  The configuration file that tells which relations are read from which raw files:
  \<open>src/postgresql-9.6.5/src/backend/snooping/auxiliary/common.c\<close>, its use when a session starts
  (\<open>backend/tcop/postgres.c\<close>), and the command that \<open>NoDBScanOperatorInit\<close> of \<open>backend/noDB/NoDBScan.c\<close> builds from it.

  The working directory, the variable \<open>PGDATA\<close>, the name of the file and the files themselves are the
  \<open>environment\<close>. A character array holds a string that must fit; \<open>None\<close> stands for a write outside an array, for a read through a null
  pointer and for a failed assertion.
\<close>

section \<open>The configuration\<close>

record InputFile =
  in_filename :: string
  in_relation :: string
  in_delimiter :: string
  in_header :: bool
  in_id :: int

record ConfigurationFile =
  cf_files :: "InputFile list"
  conf_file :: string
  cf_how_many :: int
  cf_loaded :: bool

definition MAX_PATH_LENGTH :: nat where "MAX_PATH_LENGTH = 128"

definition MAX_FILENAME :: nat where "MAX_FILENAME = 128"

definition delimiter_size :: nat where "delimiter_size = 5"

record environment =
  env_files :: "string \<Rightarrow> string option"
  env_cwd :: string
  env_PGDATA :: "string option"
  configuration_filename :: string

text \<open>The configuration before it is loaded, in memory that is zero at the start of the process.\<close>

definition empty_file :: InputFile where
  "empty_file = \<lparr>in_filename = [], in_relation = [], in_delimiter = [], in_header = False, in_id = -1\<rparr>"

definition CF_start :: ConfigurationFile where
  "CF_start = \<lparr>cf_files = replicate NUMBER_OF_RELATIONS (empty_file\<lparr>in_id := 0\<rparr>), conf_file = [], cf_how_many = 0, cf_loaded = False\<rparr>"

definition initialiazeConfiguration :: "ConfigurationFile \<Rightarrow> ConfigurationFile" where
  "initialiazeConfiguration cf =
     cf\<lparr>cf_files := map (\<lambda>f. f\<lparr>in_filename := [], in_relation := [], in_delimiter := [], in_id := -1\<rparr>) (cf_files cf),
        cf_how_many := 0, cf_loaded := False\<rparr>"

text \<open>The loop that all lookups share.\<close>

fun find_file :: "string \<Rightarrow> InputFile list \<Rightarrow> InputFile option" where
  "find_file rel [] = None"
| "find_file rel (f # fs) = (if in_id f \<noteq> -1 \<and> in_relation f = rel then Some f else find_file rel fs)"

definition getInputFilename :: "ConfigurationFile \<Rightarrow> string \<Rightarrow> string option" where
  "getInputFilename cf rel = (if \<not> cf_loaded cf then None else map_option in_filename (find_file rel (cf_files cf)))"

definition getDelimiter :: "ConfigurationFile \<Rightarrow> string \<Rightarrow> string option" where
  "getDelimiter cf rel = (if \<not> cf_loaded cf then None else map_option in_delimiter (find_file rel (cf_files cf)))"

definition getHeader :: "ConfigurationFile \<Rightarrow> string \<Rightarrow> bool" where
  "getHeader cf rel =
     (if \<not> cf_loaded cf then False else (case find_file rel (cf_files cf) of None \<Rightarrow> False | Some f \<Rightarrow> in_header f))"

definition isLoaded :: "ConfigurationFile \<Rightarrow> bool" where
  "isLoaded cf = cf_loaded cf"

definition isInConfigFile :: "ConfigurationFile \<Rightarrow> string \<Rightarrow> bool" where
  "isInConfigFile cf rel = (find_file rel (cf_files cf) \<noteq> None)"

definition configurationExists :: "environment \<Rightarrow> bool option" where
  "configurationExists env =
     (if length (env_cwd env) < MAX_PATH_LENGTH
      then Some (env_files env (take (MAX_PATH_LENGTH - 1) (env_cwd env @ ''/'' @ configuration_filename env)) \<noteq> None)
      else None)"

definition checkConfiguration :: "ConfigurationFile \<Rightarrow> int" where
  "checkConfiguration cf =
     (if \<exists>f \<in> set (cf_files cf). in_id f \<noteq> -1 \<and> (in_filename f = [] \<or> in_relation f = [] \<or> in_delimiter f = []) then -1 else 1)"

fun first_id :: "int \<Rightarrow> InputFile list \<Rightarrow> nat option" where
  "first_id v [] = None"
| "first_id v (f # fs) = (if in_id f = v then Some 0 else map_option Suc (first_id v fs))"

definition searchSlotInConfiguration :: "int \<Rightarrow> ConfigurationFile \<Rightarrow> ConfigurationFile \<times> int" where
  "searchSlotInConfiguration v cf =
     (case first_id v (cf_files cf) of
        Some i \<Rightarrow> (cf, int i)
      | None \<Rightarrow>
          (case first_id (-1) (cf_files cf) of
             Some i \<Rightarrow> (cf\<lparr>cf_how_many := cf_how_many cf + 1\<rparr>, int i)
           | None \<Rightarrow> (cf, -1)))"

section \<open>Lines and tokens\<close>

text \<open>The lines of a file with their line ends, as \<open>fgets\<close> and \<open>strdup\<close> return them.\<close>

definition nl :: char where "nl = CHR 0x0A"

function file_lines :: "string \<Rightarrow> string list" where
  "file_lines s =
     (if s = [] then []
      else (let l = takeWhile (\<lambda>c. c \<noteq> nl) s in
            if length l < length s then (l @ [nl]) # file_lines (drop (Suc (length l)) s) else [l]))"
  by pat_completeness auto
termination
  by (relation "measure length") auto

declare file_lines.simps [simp del]

definition c_string :: "string \<Rightarrow> string" where
  "c_string = takeWhile (\<lambda>c. c \<noteq> CHR 0x00)"

text \<open>The outer option is the failure of the \<open>int\<close> counters, the inner one a file that cannot be opened.\<close>

definition readfile :: "environment \<Rightarrow> string \<Rightarrow> string list option option" where
  "readfile env path =
     (case env_files env path of
        None \<Rightarrow> Some None
      | Some s \<Rightarrow> if int (length s) > INT_MAX then None else Some (Some (map c_string (file_lines s))))"

definition is_sep :: "char \<Rightarrow> bool" where
  "is_sep c \<longleftrightarrow> c = CHR 0x20 \<or> c = CHR 0x09 \<or> c = nl"

function tokens :: "string \<Rightarrow> string list" where
  "tokens buf =
     (if buf = [] then []
      else (let b = dropWhile is_sep buf in
            takeWhile (\<lambda>c. \<not> is_sep c) b # tokens (dropWhile (\<lambda>c. \<not> is_sep c) b)))"
  by pat_completeness auto

lemma tokens_rest: "buf \<noteq> [] \<Longrightarrow> length (dropWhile (\<lambda>c. \<not> is_sep c) (dropWhile is_sep buf)) < length buf"
proof -
  assume ne: "buf \<noteq> []"
  show ?thesis
  proof (cases "is_sep (hd buf)")
    case True
    then have "length (dropWhile is_sep buf) < length buf" using ne by (cases buf) (auto simp: le_imp_less_Suc length_dropWhile_le)
    then show ?thesis using length_dropWhile_le le_less_trans by blast
  next
    case False
    then have "dropWhile is_sep buf = buf" "dropWhile (\<lambda>c. \<not> is_sep c) buf = dropWhile (\<lambda>c. \<not> is_sep c) (tl buf)" using ne by (cases buf; simp)+
    then show ?thesis using ne by (cases buf) (auto simp: le_imp_less_Suc length_dropWhile_le)
  qed
qed

termination tokens
  by (relation "measure length") (auto simp: tokens_rest)

declare tokens.simps [simp del]

text \<open>The array \<open>args\<close> has 16 elements; the last token that was stored is dropped again.\<close>

definition parse :: "string \<Rightarrow> string list option" where
  "parse buf = (let ts = tokens buf in if ts = [] \<or> length ts > 16 then None else Some (butlast ts))"

definition c_isdigit :: "char \<Rightarrow> bool" where
  "c_isdigit c \<longleftrightarrow> 48 \<le> (of_char c :: nat) \<and> (of_char c :: nat) \<le> 57"

definition isspace :: "char \<Rightarrow> bool" where
  "isspace c \<longleftrightarrow> c = CHR 0x20 \<or> (9 \<le> (of_char c :: nat) \<and> (of_char c :: nat) \<le> 13)"

definition digits_value :: "string \<Rightarrow> int" where
  "digits_value = foldl (\<lambda>n c. 10 * n + (int (of_char c) - 48)) 0"

definition atoi :: "string \<Rightarrow> int option" where
  "atoi s =
     (let s = dropWhile isspace s;
          neg = (s \<noteq> [] \<and> hd s = CHR 0x2D);
          s = (if s \<noteq> [] \<and> (hd s = CHR 0x2D \<or> hd s = CHR 0x2B) then tl s else s);
          v = digits_value (takeWhile c_isdigit s) in
      if v > INT_MAX then None else Some (if neg then - v else v))"

definition to_lower :: "char \<Rightarrow> char" where
  "to_lower c = (if 65 \<le> (of_char c :: nat) \<and> (of_char c :: nat) \<le> 90 then char_of ((of_char c :: nat) + 32) else c)"

section \<open>Loading\<close>

text \<open>A value between quotes: all but its first character is copied, and the last of these becomes the end of the string.\<close>

definition unquote :: "nat \<Rightarrow> string \<Rightarrow> string option" where
  "unquote cap arg =
     (if length arg < 2 \<or> cap < length arg - 1 then None else Some (take (length arg - 2) (tl arg)))"

definition put_setting :: "string \<Rightarrow> (InputFile \<Rightarrow> InputFile option) \<Rightarrow> ConfigurationFile \<Rightarrow> ConfigurationFile option" where
  "put_setting num upd cf =
     do {
       v \<leftarrow> atoi num;
       let (cf, pos) = searchSlotInConfiguration v cf;
       (if pos = -1 then Some cf
        else do {
          f \<leftarrow> arr_get (cf_files cf) pos;
          f \<leftarrow> upd f;
          fs \<leftarrow> arr_set (cf_files cf) pos (f\<lparr>in_id := v\<rparr>);
          Some (cf\<lparr>cf_files := fs\<rparr>)
        })
     }"

definition set_filename :: "string \<Rightarrow> InputFile \<Rightarrow> InputFile option" where
  "set_filename arg f = do { v \<leftarrow> unquote MAX_FILENAME arg; Some (f\<lparr>in_filename := v\<rparr>) }"

definition set_relation :: "string \<Rightarrow> InputFile \<Rightarrow> InputFile option" where
  "set_relation arg f = do { v \<leftarrow> unquote MAX_NAME arg; Some (f\<lparr>in_relation := map to_lower v\<rparr>) }"

definition set_delimiter :: "string \<Rightarrow> InputFile \<Rightarrow> InputFile option" where
  "set_delimiter arg f = do { v \<leftarrow> unquote delimiter_size arg; Some (f\<lparr>in_delimiter := v\<rparr>) }"

definition set_header :: "string \<Rightarrow> InputFile \<Rightarrow> InputFile option" where
  "set_header arg f = do { v \<leftarrow> unquote (length arg - 1) arg; Some (f\<lparr>in_header := (v = ''True'')\<rparr>) }"

definition load_line :: "ConfigurationFile \<Rightarrow> string \<Rightarrow> ConfigurationFile option" where
  "load_line cf line =
     (if length line > 1 then
        do {
          args \<leftarrow> parse line;
          (case args of
             [a0, a1, a2] \<Rightarrow>
               if take 9 a0 = ''filename-'' \<and> a1 = ''='' then put_setting (drop 9 a0) (set_filename a2) cf
               else if take 9 a0 = ''relation-'' \<and> a1 = ''='' then put_setting (drop 9 a0) (set_relation a2) cf
               else if take 10 a0 = ''delimiter-'' \<and> a1 = ''='' then put_setting (drop 10 a0) (set_delimiter a2) cf
               else if take 7 a0 = ''header-'' \<and> a1 = ''='' then put_setting (drop 7 a0) (set_header a2) cf
               else Some cf
           | _ \<Rightarrow> Some cf)
        }
      else Some cf)"

text \<open>Where the file is: \<open>PGDATA\<close> is cut off the end of the working directory and put behind it again.\<close>

definition conf_path :: "environment \<Rightarrow> string option" where
  "conf_path env =
     do {
       pg \<leftarrow> env_PGDATA env;
       let cwd = env_cwd env;
       (if length cwd < MAX_PATH_LENGTH \<and> length pg \<le> length cwd
        then Some (take (MAX_PATH_LENGTH - 1) (take (length cwd - length pg) cwd @ ''/'' @ pg @ ''/'' @ configuration_filename env))
        else None)
     }"

definition loadEnvironment :: "environment \<Rightarrow> ConfigurationFile \<Rightarrow> ConfigurationFile option" where
  "loadEnvironment env cf =
     do {
       let cf = initialiazeConfiguration cf;
       path \<leftarrow> conf_path env;
       let cf = cf\<lparr>conf_file := path\<rparr>;
       r \<leftarrow> readfile env path;
       cf \<leftarrow> (case r of None \<Rightarrow> Some cf | Some ls \<Rightarrow> foldM load_line cf ls);
       let cf = cf\<lparr>cf_loaded := True\<rparr>;
       (if cf_how_many cf < int NUMBER_OF_RELATIONS \<and> checkConfiguration cf \<noteq> -1 then Some cf else None)
     }"

text \<open>The start of a session: \<open>enable_invisible_db\<close> and the configuration.\<close>

definition start_session :: "environment \<Rightarrow> bool \<times> ConfigurationFile \<Rightarrow> (bool \<times> ConfigurationFile) option" where
  "start_session env = (\<lambda>(enable_invisible_db, cf).
     if enable_invisible_db \<and> \<not> isLoaded cf then
       do {
         e \<leftarrow> configurationExists env;
         (if e then map_option (Pair True) (loadEnvironment env cf) else Some (False, cf))
       }
     else Some (enable_invisible_db, cf))"

text \<open>The first free position of a map of integers.\<close>

fun getFirstFreeFromMap_loop :: "int list \<Rightarrow> int \<Rightarrow> int" where
  "getFirstFreeFromMap_loop [] i = -1"
| "getFirstFreeFromMap_loop (x # xs) i = (if x = -1 then i else getFirstFreeFromMap_loop xs (i + 1))"

definition getFirstFreeFromMap :: "int list \<Rightarrow> int" where
  "getFirstFreeFromMap m = getFirstFreeFromMap_loop m 0"

text \<open>The \<open>COPY\<close> command a scan starts from; the buffers hold 50 and 512 characters.\<close>

definition MAX_COMMAND_SIZE :: nat where "MAX_COMMAND_SIZE = 512"

definition MAX_OPTION_SIZE :: nat where "MAX_OPTION_SIZE = 50"

definition fits_buffer :: "nat \<Rightarrow> string \<Rightarrow> string option" where
  "fits_buffer n s = (if length s < n then Some s else None)"

definition delimiter_option :: "string \<Rightarrow> string option" where
  "delimiter_option d =
     fits_buffer MAX_OPTION_SIZE
       ((if d = [CHR 0x5C, CHR 0x74] \<or> d = [CHR 0x5C, CHR 0x72] \<or> d = [CHR 0x5C, CHR 0x6E] then ''DELIMITER E'' else ''DELIMITER '')
        @ [CHR 0x27] @ d @ [CHR 0x27])"

definition copy_command :: "ConfigurationFile \<Rightarrow> string \<Rightarrow> string option" where
  "copy_command cf rel =
     (if \<not> isLoaded cf then None
      else do {
        file \<leftarrow> getInputFilename cf rel;
        d \<leftarrow> getDelimiter cf rel;
        opt \<leftarrow> delimiter_option d;
        let hdr = (if getHeader cf rel then ''HEADER TRUE'' else ''HEADER FALSE'');
        fits_buffer MAX_COMMAND_SIZE
          (''COPY '' @ rel @ '' FROM '' @ [CHR 0x27] @ file @ [CHR 0x27] @ '' WITH (FORMAT csv, '' @ opt @ '', '' @ hdr @ '');'')
      })"

section \<open>What a file says\<close>

text \<open>Comments and settings, one per line.\<close>

datatype setting = SFilename | SRelation | SDelimiter | SHeader

datatype conf_line = Comment string | Setting setting string string

fun key_text :: "setting \<Rightarrow> string" where
  "key_text SFilename = ''filename-''"
| "key_text SRelation = ''relation-''"
| "key_text SDelimiter = ''delimiter-''"
| "key_text SHeader = ''header-''"

fun line_text :: "conf_line \<Rightarrow> string" where
  "line_text (Comment c) = CHR 0x23 # c"
| "line_text (Setting k num v) = key_text k @ num @ '' = '' @ [CHR 0x27] @ v @ [CHR 0x27]"

definition conf_text :: "conf_line list \<Rightarrow> string" where
  "conf_text ls = concat (map (\<lambda>l. line_text l @ [nl]) ls)"

fun setting_room :: "setting \<Rightarrow> nat option" where
  "setting_room SFilename = Some MAX_FILENAME"
| "setting_room SRelation = Some MAX_NAME"
| "setting_room SDelimiter = Some delimiter_size"
| "setting_room SHeader = None"

fun line_ok :: "conf_line \<Rightarrow> bool" where
  "line_ok (Comment c) \<longleftrightarrow> nl \<notin> set c \<and> CHR 0x00 \<notin> set c \<and> length (tokens (CHR 0x23 # c @ [nl])) \<le> 16"
| "line_ok (Setting k num v) \<longleftrightarrow> num \<noteq> [] \<and> list_all c_isdigit num \<and> digits_value num \<le> INT_MAX \<and> list_all (\<lambda>c. \<not> is_sep c \<and> c \<noteq> CHR 0x00) v \<and>
     (case setting_room k of None \<Rightarrow> True | Some n \<Rightarrow> length v < n)"

fun set_entry :: "setting \<Rightarrow> string \<Rightarrow> InputFile \<Rightarrow> InputFile" where
  "set_entry SFilename v f = f\<lparr>in_filename := v\<rparr>"
| "set_entry SRelation v f = f\<lparr>in_relation := map to_lower v\<rparr>"
| "set_entry SDelimiter v f = f\<lparr>in_delimiter := v\<rparr>"
| "set_entry SHeader v f = f\<lparr>in_header := (v = ''True'')\<rparr>"

text \<open>The entries of a file: one per number, in the order in which the numbers first occur.\<close>

fun put_entry :: "int \<Rightarrow> (InputFile \<Rightarrow> InputFile) \<Rightarrow> InputFile list \<Rightarrow> InputFile list" where
  "put_entry i f [] = [(f empty_file)\<lparr>in_id := i\<rparr>]"
| "put_entry i f (e # es) = (if in_id e = i then (f e)\<lparr>in_id := i\<rparr> # es else e # put_entry i f es)"

fun add_line :: "InputFile list \<Rightarrow> conf_line \<Rightarrow> InputFile list" where
  "add_line es (Comment c) = es"
| "add_line es (Setting k num v) = put_entry (digits_value num) (set_entry k v) es"

definition conf_entries :: "conf_line list \<Rightarrow> InputFile list" where
  "conf_entries ls = foldl add_line [] ls"

definition complete :: "InputFile \<Rightarrow> bool" where
  "complete e \<longleftrightarrow> in_filename e \<noteq> [] \<and> in_relation e \<noteq> [] \<and> in_delimiter e \<noteq> []"

section \<open>Reading the lines back\<close>

lemma file_lines_line: "nl \<notin> set l \<Longrightarrow> file_lines (l @ nl # s) = (l @ [nl]) # file_lines s"
proof -
  assume a: "nl \<notin> set l"
  have "takeWhile (\<lambda>c. c \<noteq> nl) (l @ nl # s) = l" using a by (subst takeWhile_append2) auto
  then show ?thesis by (subst file_lines.simps) (simp add: Let_def)
qed

lemma file_lines_text: "\<forall>l \<in> set ls. nl \<notin> set (line_text l) \<Longrightarrow> file_lines (conf_text ls) = map (\<lambda>l. line_text l @ [nl]) ls"
proof (induction ls)
  case Nil
  then show ?case by (simp add: conf_text_def file_lines.simps)
next
  case (Cons l ls)
  have "conf_text (l # ls) = line_text l @ nl # conf_text ls" by (simp add: conf_text_def)
  then show ?case using Cons file_lines_line[of "line_text l" "conf_text ls"] by simp
qed

lemma tokens_word:
  assumes "w \<noteq> []" "list_all (\<lambda>c. \<not> is_sep c) w" "list_all is_sep sp" "rest = [] \<or> is_sep (hd rest)"
  shows "tokens (sp @ w @ rest) = w # tokens rest"
proof -
  have d: "dropWhile is_sep (sp @ w @ rest) = w @ rest"
    using assms(1-3) by (induction sp) (auto simp: dropWhile_append2 neq_Nil_conv)
  have t: "takeWhile (\<lambda>c. \<not> is_sep c) (w @ rest) = w" "dropWhile (\<lambda>c. \<not> is_sep c) (w @ rest) = rest"
    using assms(2,4) by (induction w) (cases rest; auto)+
  show ?thesis using assms(1) by (subst tokens.simps) (simp add: d t)
qed

lemma tokens_end: "tokens [nl] = [[]]"
  by (simp add: tokens.simps is_sep_def)

lemma digit_plain: "c_isdigit c \<Longrightarrow> \<not> is_sep c \<and> c \<noteq> CHR 0x00 \<and> c \<noteq> nl \<and> \<not> isspace c \<and> c \<noteq> CHR 0x2D \<and> c \<noteq> CHR 0x2B"
  by (auto simp: c_isdigit_def is_sep_def nl_def isspace_def)

lemma key_plain: "list_all (\<lambda>c. \<not> is_sep c \<and> c \<noteq> CHR 0x00) (key_text k)" "key_text k \<noteq> []"
  by (cases k; simp add: is_sep_def nl_def)+

lemma setting_words:
  assumes "line_ok (Setting k num v)"
  shows "list_all (\<lambda>c. \<not> is_sep c) (key_text k @ num)" "list_all (\<lambda>c. \<not> is_sep c) ([CHR 0x27] @ v @ [CHR 0x27])"
proof -
  have "list_all (\<lambda>c. \<not> is_sep c) num" using assms digit_plain by (simp add: list_all_iff)
  then show "list_all (\<lambda>c. \<not> is_sep c) (key_text k @ num)" using key_plain(1)[of k] by (auto simp: list_all_iff)
  show "list_all (\<lambda>c. \<not> is_sep c) ([CHR 0x27] @ v @ [CHR 0x27])" using assms by (simp add: list_all_iff) (simp add: is_sep_def nl_def)
qed

lemma setting_tokens:
  assumes "line_ok (Setting k num v)"
  shows "parse (line_text (Setting k num v) @ [nl]) = Some [key_text k @ num, ''='', [CHR 0x27] @ v @ [CHR 0x27]]"
proof -
  have p: "list_all (\<lambda>c. \<not> is_sep c) (key_text k @ num)" "list_all (\<lambda>c. \<not> is_sep c) ([CHR 0x27] @ v @ [CHR 0x27])"
    by (rule setting_words[OF assms])+
  have s: "is_sep CHR 0x20" "is_sep nl" "\<not> is_sep CHR 0x3D" by (simp_all add: is_sep_def nl_def)
  let ?v = "[CHR 0x27] @ v @ [CHR 0x27]"
  have "tokens ([] @ (key_text k @ num) @ (CHR 0x20 # ''='' @ CHR 0x20 # ?v @ [nl])) = (key_text k @ num) # tokens (CHR 0x20 # ''='' @ CHR 0x20 # ?v @ [nl])"
    by (rule tokens_word) (use key_plain(2)[of k] p(1) s in simp_all)
  moreover have "tokens ([CHR 0x20] @ ''='' @ (CHR 0x20 # ?v @ [nl])) = ''='' # tokens (CHR 0x20 # ?v @ [nl])"
    by (rule tokens_word) (use s in simp_all)
  moreover have "tokens ([CHR 0x20] @ ?v @ [nl]) = ?v # tokens [nl]" by (rule tokens_word) (use p(2) s in simp_all)
  ultimately show ?thesis by (simp add: parse_def tokens_end)
qed

lemma atoi_digits: "num \<noteq> [] \<Longrightarrow> list_all c_isdigit num \<Longrightarrow> digits_value num \<le> INT_MAX \<Longrightarrow> atoi num = Some (digits_value num)"
proof -
  assume a: "num \<noteq> []" "list_all c_isdigit num" "digits_value num \<le> INT_MAX"
  have h: "c_isdigit (hd num)" using a(1,2) by (cases num) auto
  have "dropWhile isspace num = num" using a(1) digit_plain[OF h] by (cases num) auto
  moreover have t: "takeWhile c_isdigit num = num" using a(2) by (simp add: takeWhile_eq_all_conv list_all_iff)
  ultimately show ?thesis using a(3) digit_plain[OF h] by (simp add: atoi_def Let_def t del: takeWhile_eq_all_conv)
qed

lemma digits_value_nonneg: "list_all c_isdigit num \<Longrightarrow> 0 \<le> digits_value num"
proof -
  have "0 \<le> n \<Longrightarrow> list_all c_isdigit num \<Longrightarrow> 0 \<le> foldl (\<lambda>n c. 10 * n + (int (of_char c) - 48)) n num" for n
    by (induction num arbitrary: n) (auto simp: c_isdigit_def)
  then show "list_all c_isdigit num \<Longrightarrow> 0 \<le> digits_value num" by (simp add: digits_value_def)
qed

lemma unquote_quoted: "length v < cap \<Longrightarrow> unquote cap ([CHR 0x27] @ v @ [CHR 0x27]) = Some v"
  by (simp add: unquote_def)

lemma setting_value:
  assumes "line_ok (Setting k num v)"
  defines "a \<equiv> [CHR 0x27] @ v @ [CHR 0x27]"
  shows "(case k of SFilename \<Rightarrow> set_filename a | SRelation \<Rightarrow> set_relation a | SDelimiter \<Rightarrow> set_delimiter a | SHeader \<Rightarrow> set_header a) =
    (\<lambda>f. Some (set_entry k v f))"
  using assms unquote_quoted[of v]
  by (cases k) (simp_all add: fun_eq_iff set_filename_def set_relation_def set_delimiter_def set_header_def)

lemma load_setting:
  assumes "line_ok (Setting k num v)"
  shows "load_line cf (line_text (Setting k num v) @ [nl]) = put_setting num (\<lambda>f. Some (set_entry k v f)) cf"
proof -
  have l: "length (line_text (Setting k num v) @ [nl]) > 1" by simp
  show ?thesis
    using setting_value[OF assms] setting_tokens[OF assms] l
    by (cases k) (simp_all add: load_line_def del: line_text.simps)
qed

lemma load_comment:
  assumes "line_ok (Comment c)"
  shows "load_line cf (line_text (Comment c) @ [nl]) = Some cf"
proof -
  obtain ts where ts: "tokens (CHR 0x23 # c @ [nl]) = ts" "length ts \<le> 16" using assms by simp
  have h: "ts = takeWhile (\<lambda>c. \<not> is_sep c) (CHR 0x23 # c @ [nl]) # tl ts"
    using ts(1) by (subst (asm) tokens.simps) (auto simp: is_sep_def nl_def)
  have p: "parse (line_text (Comment c) @ [nl]) = Some (butlast ts)" using ts h by (auto simp: parse_def)
  have "\<exists>w. a0 = CHR 0x23 # w" if "butlast ts = a0 # r" for a0 r
    using h that by (cases "tl ts") (auto simp: is_sep_def nl_def)
  then have "take 9 a0 \<noteq> ''filename-'' \<and> take 9 a0 \<noteq> ''relation-'' \<and> take 10 a0 \<noteq> ''delimiter-'' \<and> take 7 a0 \<noteq> ''header-''"
    if "butlast ts = a0 # r" for a0 r using that by force
  then show ?thesis using p by (auto simp: load_line_def split: list.splits)
qed

section \<open>The slots and the entries\<close>

definition slots_of :: "InputFile list \<Rightarrow> InputFile list" where
  "slots_of es = es @ replicate (NUMBER_OF_RELATIONS - length es) empty_file"

definition holds_entries :: "InputFile list \<Rightarrow> ConfigurationFile \<Rightarrow> bool" where
  "holds_entries es cf \<longleftrightarrow> cf_files cf = slots_of es \<and> cf_how_many cf = int (length es) \<and> length es \<le> NUMBER_OF_RELATIONS \<and> (\<forall>e \<in> set es. in_id e \<noteq> -1)"

lemma first_id_append: "first_id v (es @ fs) = (case first_id v es of Some i \<Rightarrow> Some i | None \<Rightarrow> map_option (\<lambda>i. length es + i) (first_id v fs))"
proof (induction es)
  case Nil
  show ?case by (cases "first_id v fs") simp_all
next
  case (Cons e es)
  then show ?case by (cases "first_id v fs") (auto split: option.split)
qed

lemma first_id_Some: "first_id v es = Some i \<Longrightarrow> i < length es \<and> in_id (es ! i) = v"
  by (induction es arbitrary: i) (auto split: if_splits)

lemma first_id_None: "first_id v es = None \<longleftrightarrow> v \<notin> in_id ` set es"
  by (induction es) auto

lemma put_entry_eq:
  "put_entry v f es = (case first_id v es of Some i \<Rightarrow> es[i := (f (es ! i))\<lparr>in_id := v\<rparr>] | None \<Rightarrow> es @ [(f empty_file)\<lparr>in_id := v\<rparr>])"
  by (induction es) (auto split: option.split)

lemma put_entry_length: "length es \<le> length (put_entry v f es)"
  by (induction es) auto

lemma put_setting_ok:
  assumes "holds_entries es cf" "atoi num = Some v" "v \<noteq> -1" "length (put_entry v f es) \<le> NUMBER_OF_RELATIONS"
  shows "\<exists>cf'. put_setting num (\<lambda>e. Some (f e)) cf = Some cf' \<and> holds_entries (put_entry v f es) cf' \<and> conf_file cf' = conf_file cf"
proof (cases "first_id v es")
  case (Some i)
  have i: "i < length es" "in_id (es ! i) = v" using first_id_Some[OF Some] by auto
  have cf: "cf_files cf = slots_of es" "cf_how_many cf = int (length es)" "length es \<le> NUMBER_OF_RELATIONS" "\<forall>e \<in> set es. in_id e \<noteq> -1"
    using assms(1) by (auto simp: holds_entries_def)
  have s: "searchSlotInConfiguration v cf = (cf, int i)" using Some by (simp add: searchSlotInConfiguration_def cf slots_of_def first_id_append)
  have g: "arr_get (slots_of es) (int i) = Some (es ! i)" using i(1) by (simp add: arr_get_in slots_of_def nth_append)
  have u: "arr_set (slots_of es) (int i) x = Some (slots_of (es[i := x]))" for x using i(1) by (simp add: arr_set_in slots_of_def list_update_append1)
  have "\<forall>e \<in> set (es[i := (f (es ! i))\<lparr>in_id := v\<rparr>]). in_id e \<noteq> -1" using cf(4) assms(3) by (auto dest!: subsetD[OF set_update_subset_insert])
  then show ?thesis using assms(2) Some cf s g u by (simp add: put_setting_def put_entry_eq holds_entries_def)
next
  case None
  have cf: "cf_files cf = slots_of es" "cf_how_many cf = int (length es)" "\<forall>e \<in> set es. in_id e \<noteq> -1"
    using assms(1) by (auto simp: holds_entries_def)
  have l: "length es < NUMBER_OF_RELATIONS" using assms(4) None by (simp add: put_entry_eq)
  then obtain k where k: "NUMBER_OF_RELATIONS - length es = Suc k" by (metis Suc_diff_Suc)
  have none: "first_id (-1) es = None" using cf(3) by (auto simp: first_id_None)
  have rep: "first_id v (replicate n empty_file) = None" "first_id (-1) (replicate (Suc n) empty_file) = Some 0" for n
    using assms(3) by (auto simp: first_id_None empty_file_def)
  have s: "searchSlotInConfiguration v cf = (cf\<lparr>cf_how_many := cf_how_many cf + 1\<rparr>, int (length es))"
    using None none rep by (simp add: searchSlotInConfiguration_def cf slots_of_def first_id_append k del: replicate.simps)
  have g: "arr_get (slots_of es) (int (length es)) = Some empty_file" by (simp add: arr_get_in slots_of_def nth_append k)
  have u: "arr_set (slots_of es) (int (length es)) x = Some (slots_of (es @ [x]))" for x
  proof -
    have "NUMBER_OF_RELATIONS - Suc (length es) = k" using k by linarith
    then show ?thesis by (simp add: arr_set_in slots_of_def k)
  qed
  have "\<forall>e \<in> set (es @ [(f empty_file)\<lparr>in_id := v\<rparr>]). in_id e \<noteq> -1" using cf(3) assms(3) by auto
  then show ?thesis using assms(2) None cf s g u l by (simp add: put_setting_def put_entry_eq holds_entries_def)
qed

lemma load_lines:
  assumes "holds_entries es cf" "\<forall>l \<in> set ls. line_ok l" "length (foldl add_line es ls) \<le> NUMBER_OF_RELATIONS"
  shows "\<exists>cf'. foldM load_line cf (map (\<lambda>l. line_text l @ [nl]) ls) = Some cf' \<and> holds_entries (foldl add_line es ls) cf'"
  using assms
proof (induction ls arbitrary: es cf)
  case Nil
  then show ?case by simp
next
  case (Cons l ls)
  have mono: "length es \<le> length (foldl add_line es ks)" for es ks
  proof (induction ks arbitrary: es)
    case (Cons k ks)
    have "length es \<le> length (add_line es k)" using put_entry_length by (cases k) auto
    then show ?case using Cons[of "add_line es k"] by (metis foldl_Cons le_trans)
  qed simp
  have "\<exists>cf1. load_line cf (line_text l @ [nl]) = Some cf1 \<and> holds_entries (add_line es l) cf1"
  proof (cases l)
    case (Comment c)
    then show ?thesis using load_comment[of c cf] Cons.prems by (simp del: line_text.simps)
  next
    case (Setting k num v)
    have ok: "line_ok (Setting k num v)" using Cons.prems(2) Setting by simp
    have n: "atoi num = Some (digits_value num)" "digits_value num \<noteq> -1" using atoi_digits[of num] digits_value_nonneg[of num] ok by auto
    have "length (add_line es l) \<le> NUMBER_OF_RELATIONS" using mono[of "add_line es l" ls] Cons.prems(3) by simp
    then have "length (put_entry (digits_value num) (set_entry k v) es) \<le> NUMBER_OF_RELATIONS" using Setting by simp
    from put_setting_ok[OF Cons.prems(1) n this] show ?thesis unfolding Setting load_setting[OF ok] by auto
  qed
  then obtain cf1 where "load_line cf (line_text l @ [nl]) = Some cf1" "holds_entries (add_line es l) cf1" by blast
  then show ?case using Cons.IH[of "add_line es l" cf1] Cons.prems by simp
qed

lemma find_file_slots: "\<forall>e \<in> set es. in_id e \<noteq> -1 \<Longrightarrow> find_file rel (slots_of es) = find (\<lambda>e. in_relation e = rel) es"
proof -
  have "find_file rel (replicate n empty_file) = None" for n by (induction n) (auto simp: empty_file_def)
  moreover have "find_file rel (es @ fs) = (case find_file rel es of None \<Rightarrow> find_file rel fs | Some f \<Rightarrow> Some f)" for fs by (induction es) auto
  moreover have "\<forall>e \<in> set es. in_id e \<noteq> -1 \<Longrightarrow> find_file rel es = find (\<lambda>e. in_relation e = rel) es" by (induction es) auto
  ultimately show "\<forall>e \<in> set es. in_id e \<noteq> -1 \<Longrightarrow> find_file rel (slots_of es) = find (\<lambda>e. in_relation e = rel) es"
    by (auto simp: slots_of_def split: option.split)
qed

lemma line_text_plain: "line_ok l \<Longrightarrow> nl \<notin> set (line_text l) \<and> CHR 0x00 \<notin> set (line_text l)"
proof (cases l)
  case (Comment c)
  assume "line_ok l"
  then show ?thesis using Comment by (simp add: nl_def)
next
  case (Setting k num v)
  assume ok: "line_ok l"
  have "nl \<notin> set num \<and> CHR 0x00 \<notin> set num" using ok Setting digit_plain by (auto simp: list_all_iff)
  moreover have "nl \<notin> set v \<and> CHR 0x00 \<notin> set v" using ok Setting by (auto simp: list_all_iff is_sep_def)
  moreover have "nl \<notin> set (key_text k) \<and> CHR 0x00 \<notin> set (key_text k)" by (cases k) (auto simp: nl_def)
  ultimately show ?thesis using Setting by (simp add: nl_def)
qed


text \<open>The example of the README, with a header for the first file.\<close>

definition readme_lines :: "conf_line list" where
  "readme_lines = [Comment '' Link to data file'', Setting SFilename ''1'' ''/home/NoDB/datafiles/load.txt'',
     Comment '' Table name (dummy table in the database)'', Setting SRelation ''1'' ''Persons'', Comment '' Delimiter for the file'',
     Setting SDelimiter ''1'' '','', Setting SHeader ''1'' ''True'', Setting SFilename ''2'' ''/home/NoDB/datafiles/load2.txt'',
     Setting SRelation ''2'' ''persons2'', Setting SDelimiter ''2'' '';'']"

definition readme_environment :: environment where
  "readme_environment = \<lparr>env_files = (\<lambda>p. if p = ''/home/NoDB//data/snoop.conf'' then Some (conf_text readme_lines) else None),
     env_cwd = ''/home/NoDB/data'', env_PGDATA = Some ''data'', configuration_filename = ''snoop.conf''\<rparr>"


section \<open>A last line without a line end\<close>

lemma load_unended:
  assumes "line_ok (Setting k num v)"
  shows "load_line cf (line_text (Setting k num v)) = Some cf"
proof -
  let ?v = "[CHR 0x27] @ v @ [CHR 0x27]"
  have p: "list_all (\<lambda>c. \<not> is_sep c) (key_text k @ num)" "list_all (\<lambda>c. \<not> is_sep c) ?v" by (rule setting_words[OF assms])+
  have s: "is_sep CHR 0x20" "\<not> is_sep CHR 0x3D" by (simp_all add: is_sep_def nl_def)
  have "tokens ([] @ (key_text k @ num) @ (CHR 0x20 # ''='' @ CHR 0x20 # ?v)) = (key_text k @ num) # tokens (CHR 0x20 # ''='' @ CHR 0x20 # ?v)"
    by (rule tokens_word) (use key_plain(2)[of k] p(1) s in simp_all)
  moreover have "tokens ([CHR 0x20] @ ''='' @ (CHR 0x20 # ?v)) = ''='' # tokens (CHR 0x20 # ?v)" by (rule tokens_word) (use s in simp_all)
  moreover have "tokens ([CHR 0x20] @ ?v @ []) = ?v # tokens []" by (rule tokens_word) (use p(2) s in simp_all)
  moreover have "tokens [] = []" by (simp add: tokens.simps)
  ultimately show ?thesis by (simp add: load_line_def parse_def)
qed

lemma file_lines_unended:
  assumes "\<forall>l \<in> set ls. nl \<notin> set (line_text l)" "nl \<notin> set t" "t \<noteq> []"
  shows "file_lines (conf_text ls @ t) = map (\<lambda>l. line_text l @ [nl]) ls @ [t]"
  using assms(1)
proof (induction ls)
  case Nil
  have "takeWhile (\<lambda>c. c \<noteq> nl) t = t" using assms(2) by (auto simp: takeWhile_eq_all_conv)
  then show ?case using assms(3) by (simp add: conf_text_def file_lines.simps del: takeWhile_eq_all_conv)
next
  case (Cons l ls)
  have "conf_text (l # ls) @ t = line_text l @ nl # (conf_text ls @ t)" by (simp add: conf_text_def)
  then show ?case using Cons file_lines_line[of "line_text l" "conf_text ls @ t"] by simp
qed

text \<open>
  C38: A setting on a last line without a line end is lost. \<open>parse\<close> drops the last token it stored, which is the empty one
  behind the line end; without a line end it drops the value. So \<open>loadEnvironment\<close> has the same result, success or failure, as
  without that line, although \<open>readfile\<close> takes care to return such a line.
\<close>

theorem last_line_ignored:
  assumes "\<forall>l \<in> set ls. line_ok l" "line_ok (Setting k num v)" "conf_path env = Some path"
    "int (length (conf_text ls @ line_text (Setting k num v))) \<le> INT_MAX"
  shows "loadEnvironment (env\<lparr>env_files := (env_files env)(path \<mapsto> conf_text ls @ line_text (Setting k num v))\<rparr>) cf =
    loadEnvironment (env\<lparr>env_files := (env_files env)(path \<mapsto> conf_text ls)\<rparr>) cf"
proof -
  let ?t = "line_text (Setting k num v)" and ?ls = "map (\<lambda>l. line_text l @ [nl]) ls"
  have plain: "\<forall>l \<in> set ls. nl \<notin> set (line_text l) \<and> CHR 0x00 \<notin> set (line_text l)" "nl \<notin> set ?t \<and> CHR 0x00 \<notin> set ?t" "?t \<noteq> []"
    using assms(1,2) line_text_plain by (blast, blast, simp)
  have c: "map c_string (?ls @ [?t]) = ?ls @ [?t]" "map c_string ?ls = ?ls"
    using plain by (auto simp: c_string_def takeWhile_eq_all_conv nl_def simp del: line_text.simps)
  have p: "conf_path (env\<lparr>env_files := f\<rparr>) = Some path" for f using assms(3) by (simp add: conf_path_def Let_def cong: if_cong)
  have r: "readfile (env\<lparr>env_files := (env_files env)(path \<mapsto> conf_text ls @ ?t)\<rparr>) path = Some (Some (?ls @ [?t]))"
      "readfile (env\<lparr>env_files := (env_files env)(path \<mapsto> conf_text ls)\<rparr>) path = Some (Some ?ls)"
    using assms(4) c plain file_lines_unended[of ls ?t] file_lines_text[of ls] by (simp_all add: readfile_def del: line_text.simps)
  have "foldM load_line cf0 (?ls @ [?t]) = foldM load_line cf0 ?ls" for cf0
    by (cases "foldM load_line cf0 ?ls") (simp_all add: foldM_append load_unended[OF assms(2)] del: line_text.simps)
  then show ?thesis by (simp add: loadEnvironment_def p r del: line_text.simps foldM_append)
qed

theorem last_line_ignored_witness:
  "loadEnvironment (readme_environment\<lparr>env_files := (env_files readme_environment)(''/home/NoDB//data/snoop.conf'' \<mapsto>
       conf_text readme_lines @ line_text (Setting SHeader ''2'' ''True''))\<rparr>) CF_start =
   loadEnvironment (readme_environment\<lparr>env_files := (env_files readme_environment)(''/home/NoDB//data/snoop.conf'' \<mapsto> conf_text readme_lines)\<rparr>) CF_start"
  by (rule last_line_ignored) code_simp+

end
