(* ===== verification/NoDB_Copy.thy ===== *)
theory NoDB_Copy
  imports NoDB_TableScan NoDB_Types Snoop_Config
begin

text \<open>
  Setting up a scan: \<open>NoDBScanOperatorInit\<close> of \<open>src/postgresql-9.6.5/src/backend/noDB/NoDBScan.c\<close> builds a COPY command from
  the configuration, has it parsed, takes the options of the statement (\<open>GetScanState\<close>, \<open>CopyGetAttnums\<close>), opens the file
  (\<open>GetScanExecStatusStmt\<close>) and hands the state to \<open>NoDBScanStateInit\<close>. The options are read with \<open>defGetString\<close> and
  \<open>defGetBoolean\<close> of \<open>backend/commands/define.c\<close>.

  The SQL parser, the catalog, the privileges, the encodings and the file system are the record \<open>copy_env\<close>. The
  statement names a file, so the branches for a pipe are left out. An \<open>ereport\<close> is a value of \<open>copy_option_error\<close>;
  \<open>None\<close> is undefined behaviour.
\<close>

section \<open>Options\<close>

datatype copy_option_error = RequiresParameter string | RequiresBoolean string | RedundantOption | UnknownFormat string
  | UnknownOption string | DelimiterNotOneByte | DelimiterLineEnd | DelimiterUnsafe | HeaderNeedsCSV | QuoteNeedsCSV
  | QuoteNotOneByte | DelimiterIsQuote | EscapeNeedsCSV | EscapeNotOneByte | QuoteInNull | NotSuperuser | NoRelation string
  | NoPrivilege | ReadOnlyTransaction | UnknownColumn string | DuplicateColumn string | WrongRelationKind char
  | FileNotOpened string | IsDirectory string | BadSignature | MissingFlags | CriticalFlags | MissingLength | WrongLength

definition bindE :: "'e + 'a \<Rightarrow> ('a \<Rightarrow> 'e + 'b) \<Rightarrow> 'e + 'b" where
  "bindE r f = (case r of Inl e \<Rightarrow> Inl e | Inr a \<Rightarrow> f a)"

primrec foldE :: "('a \<Rightarrow> 'b \<Rightarrow> 'e + 'a) \<Rightarrow> 'a \<Rightarrow> 'b list \<Rightarrow> 'e + 'a" where
  "foldE f a [] = Inr a"
| "foldE f a (b # bs) = bindE (f a b) (\<lambda>a. foldE f a bs)"

text \<open>A sequence of tests, each of which raises an error.\<close>

fun first_error :: "(bool \<times> 'e) list \<Rightarrow> 'a \<Rightarrow> 'e + 'a" where
  "first_error [] a = Inr a"
| "first_error ((b, e) # r) a = (if b then Inl e else first_error r a)"

datatype def_arg = T_Integer int | T_Float string | T_String string | T_List "string list" | T_A_Star

record DefElem =
  defname :: string
  def_arg :: "def_arg option"

fun nat_text :: "nat \<Rightarrow> string" where
  "nat_text n = (if n < 10 then [char_of (48 + n)] else nat_text (n div 10) @ [char_of (48 + n mod 10)])"

declare nat_text.simps [simp del]

definition int_text :: "int \<Rightarrow> string" where
  "int_text i = (if i < 0 then CHR ''-'' # nat_text (nat (- i)) else nat_text (nat i))"

fun NameListToString :: "string list \<Rightarrow> string" where
  "NameListToString [] = []"
| "NameListToString [n] = n"
| "NameListToString (n # ns) = n @ [CHR ''.''] @ NameListToString ns"

definition defGetString :: "DefElem \<Rightarrow> copy_option_error + string" where
  "defGetString d =
     (case def_arg d of
        None \<Rightarrow> Inl (RequiresParameter (defname d))
      | Some (T_Integer i) \<Rightarrow> Inr (int_text i)
      | Some (T_Float s) \<Rightarrow> Inr s
      | Some (T_String s) \<Rightarrow> Inr s
      | Some (T_List ns) \<Rightarrow> Inr (NameListToString ns)
      | Some T_A_Star \<Rightarrow> Inr [CHR ''*''])"

definition boolean_text :: "string \<Rightarrow> bool option" where
  "boolean_text s =
     (let l = map to_lower s in
      if l = ''true'' then Some True else if l = ''false'' then Some False
      else if l = ''on'' then Some True else if l = ''off'' then Some False else None)"

definition defGetBoolean :: "DefElem \<Rightarrow> copy_option_error + bool" where
  "defGetBoolean d =
     (case def_arg d of
        None \<Rightarrow> Inr True
      | Some (T_Integer i) \<Rightarrow> (if i = 0 then Inr False else if i = 1 then Inr True else Inl (RequiresBoolean (defname d)))
      | Some _ \<Rightarrow> bindE (defGetString d) (\<lambda>s.
          case boolean_text s of Some b \<Rightarrow> Inr b | None \<Rightarrow> Inl (RequiresBoolean (defname d))))"

section \<open>The state that the statement describes\<close>

record copy_state =
  cs_csv :: bool
  cs_binary :: bool
  cs_delim :: "string option"
  cs_null :: "string option"
  cs_header :: bool
  cs_quote :: "string option"
  cs_escape :: "string option"
  cs_attnumlist :: "int list"

definition copy_zero :: copy_state where
  "copy_zero = \<lparr>cs_csv = False, cs_binary = False, cs_delim = None, cs_null = None, cs_header = False, cs_quote = None,
     cs_escape = None, cs_attnumlist = []\<rparr>"

definition format_option :: "string \<Rightarrow> copy_state \<Rightarrow> copy_option_error + copy_state" where
  "format_option fmt c =
     (if fmt = ''text'' then Inr (c\<lparr>cs_csv := False\<rparr>)
      else if fmt = ''csv'' then Inr (c\<lparr>cs_csv := True\<rparr>)
      else if fmt = ''binary'' then Inr (c\<lparr>cs_binary := True\<rparr>)
      else Inl (UnknownFormat fmt))"

text \<open>The flag tells that a format was specified.\<close>

definition copy_option :: "copy_state \<times> bool \<Rightarrow> DefElem \<Rightarrow> copy_option_error + copy_state \<times> bool" where
  "copy_option cf d = (case cf of (c, fs) \<Rightarrow>
     (if defname d = ''format'' then
        bindE (defGetString d) (\<lambda>fmt. if fs then Inl RedundantOption else bindE (format_option fmt c) (\<lambda>c. Inr (c, True)))
      else if defname d = ''delimiter'' then
        (if cs_delim c \<noteq> None then Inl RedundantOption else bindE (defGetString d) (\<lambda>s. Inr (c\<lparr>cs_delim := Some s\<rparr>, fs)))
      else if defname d = ''null'' then
        (if cs_null c \<noteq> None then Inl RedundantOption else bindE (defGetString d) (\<lambda>s. Inr (c\<lparr>cs_null := Some s\<rparr>, fs)))
      else if defname d = ''header'' then
        (if cs_header c then Inl RedundantOption else bindE (defGetBoolean d) (\<lambda>b. Inr (c\<lparr>cs_header := b\<rparr>, fs)))
      else if defname d = ''quote'' then
        (if cs_quote c \<noteq> None then Inl RedundantOption else bindE (defGetString d) (\<lambda>s. Inr (c\<lparr>cs_quote := Some s\<rparr>, fs)))
      else if defname d = ''escape'' then
        (if cs_escape c \<noteq> None then Inl RedundantOption else bindE (defGetString d) (\<lambda>s. Inr (c\<lparr>cs_escape := Some s\<rparr>, fs)))
      else Inl (UnknownOption (defname d))))"

definition or_default :: "'a option \<Rightarrow> 'a \<Rightarrow> 'a option" where
  "or_default v d = (case v of None \<Rightarrow> Some d | Some _ \<Rightarrow> v)"

definition copy_defaults :: "copy_state \<Rightarrow> copy_state" where
  "copy_defaults c =
     (let c = c\<lparr>cs_delim := or_default (cs_delim c) (if cs_csv c then '','' else [CHR 0x09])\<rparr>;
          c = c\<lparr>cs_null := or_default (cs_null c) (if cs_csv c then [] else [CHR 0x5C, CHR ''N''])\<rparr> in
      if cs_csv c
      then (let q = or_default (cs_quote c) [CHR 0x22] in c\<lparr>cs_quote := q, cs_escape := (if cs_escape c = None then q else cs_escape c)\<rparr>)
      else c)"

definition unsafe_delims :: string where
  "unsafe_delims = CHR 0x5C # ''.abcdefghijklmnopqrstuvwxyz0123456789''"

definition copy_checks :: "bool \<Rightarrow> copy_state \<Rightarrow> copy_option_error + copy_state" where
  "copy_checks superuser c =
     (let d = the (cs_delim c); n = the (cs_null c); q = cs_quote c in
      first_error
        [(length d \<noteq> 1, DelimiterNotOneByte),
         (CHR 0x0D \<in> set d \<or> CHR 0x0A \<in> set d, DelimiterLineEnd),
         (\<not> cs_csv c \<and> hd d \<in> set unsafe_delims, DelimiterUnsafe),
         (\<not> cs_csv c \<and> cs_header c, HeaderNeedsCSV),
         (\<not> cs_csv c \<and> q \<noteq> None, QuoteNeedsCSV),
         (cs_csv c \<and> length (the q) \<noteq> 1, QuoteNotOneByte),
         (cs_csv c \<and> hd d = hd (the q), DelimiterIsQuote),
         (\<not> cs_csv c \<and> cs_escape c \<noteq> None, EscapeNeedsCSV),
         (cs_csv c \<and> length (the (cs_escape c)) \<noteq> 1, EscapeNotOneByte),
         (cs_csv c \<and> hd (the q) \<in> set n, QuoteInNull),
         (\<not> superuser, NotSuperuser)]
        c)"


section \<open>The relation\<close>

record pg_attribute =
  attname :: string
  attisdropped :: bool
  attlen :: int
  attbyval :: bool

record Relation_t =
  rd_relname :: string
  rd_att :: "pg_attribute list"
  rd_relkind :: char
  rd_islocaltemp :: bool

datatype file_entry = RegularFile "byte list" | Directory

record CopyStmt =
  stmt_relation :: "string option"
  stmt_attlist :: "string list"
  stmt_is_from :: bool
  stmt_filename :: string
  stmt_options :: "DefElem list"

text \<open>
  \<open>table_privilege\<close> and \<open>column_privilege\<close> say whether the user may insert into (for a COPY FROM) or select from a
  relation and a column of it.
\<close>

record copy_env =
  GetQueryCopyStmt :: "string \<Rightarrow> CopyStmt option"
  heap_openrv :: "string \<Rightarrow> Relation_t option"
  superuser :: bool
  table_privilege :: "string \<Rightarrow> bool \<Rightarrow> bool"
  column_privilege :: "string \<Rightarrow> int \<Rightarrow> bool \<Rightarrow> bool"
  XactReadOnly :: bool
  client_encoding :: int
  database_encoding :: int
  encoding_max_length :: int
  PG_ENCODING_IS_CLIENT_ONLY :: "int \<Rightarrow> bool"
  file_system :: "string \<Rightarrow> file_entry option"

definition NAMEDATALEN :: nat where "NAMEDATALEN = 64"

definition namestrcmp :: "string \<Rightarrow> string \<Rightarrow> bool" where
  "namestrcmp n s \<longleftrightarrow> take NAMEDATALEN n = take NAMEDATALEN s"

text \<open>The number of the first column of that name that is not dropped; 0 is \<open>InvalidAttrNumber\<close>.\<close>

fun column_number :: "pg_attribute list \<Rightarrow> string \<Rightarrow> int \<Rightarrow> int" where
  "column_number [] name i = 0"
| "column_number (a # as) name i = (if \<not> attisdropped a \<and> namestrcmp (attname a) name then i else column_number as name (i + 1))"

fun live_columns :: "pg_attribute list \<Rightarrow> int \<Rightarrow> int list" where
  "live_columns [] i = []"
| "live_columns (a # as) i = (if attisdropped a then live_columns as (i + 1) else i # live_columns as (i + 1))"

definition add_attnum :: "pg_attribute list \<Rightarrow> int list \<Rightarrow> string \<Rightarrow> copy_option_error + int list" where
  "add_attnum td attnums name =
     (let attnum = column_number td name 1 in
      if attnum = 0 then Inl (UnknownColumn name)
      else if attnum \<in> set attnums then Inl (DuplicateColumn name)
      else Inr (attnums @ [attnum]))"

definition CopyGetAttnums :: "pg_attribute list \<Rightarrow> string list \<Rightarrow> copy_option_error + int list" where
  "CopyGetAttnums td attnamelist =
     (if attnamelist = [] then Inr (live_columns td 1) else foldE (add_attnum td) [] attnamelist)"

definition check_privileges :: "copy_env \<Rightarrow> CopyStmt \<Rightarrow> Relation_t \<Rightarrow> copy_option_error + unit" where
  "check_privileges env stmt rel =
     (if table_privilege env (rd_relname rel) (stmt_is_from stmt) then Inr ()
      else bindE (CopyGetAttnums (rd_att rel) (stmt_attlist stmt)) (\<lambda>attnums.
        if list_all (\<lambda>a. column_privilege env (rd_relname rel) a (stmt_is_from stmt)) attnums then Inr () else Inl NoPrivilege))"

definition GetScanState :: "copy_env \<Rightarrow> CopyStmt \<Rightarrow> (copy_option_error + copy_state \<times> Relation_t) option" where
  "GetScanState env stmt =
     (case bindE (foldE copy_option (copy_zero, False) (stmt_options stmt)) (\<lambda>(c, fs). copy_checks (superuser env) (copy_defaults c)) of
        Inl e \<Rightarrow> Some (Inl e)
      | Inr c \<Rightarrow>
          (case stmt_relation stmt of
             None \<Rightarrow> None
           | Some name \<Rightarrow>
               Some (case heap_openrv env name of
                  None \<Rightarrow> Inl (NoRelation name)
                | Some rel \<Rightarrow>
                    bindE (check_privileges env stmt rel) (\<lambda>_.
                      if XactReadOnly env \<and> stmt_is_from stmt \<and> \<not> rd_islocaltemp rel then Inl ReadOnlyTransaction
                      else bindE (CopyGetAttnums (rd_att rel) (stmt_attlist stmt)) (\<lambda>attnums.
                        Inr (c\<lparr>cs_attnumlist := attnums\<rparr>, rel))))))"

section \<open>Opening the file\<close>

definition BinarySignature :: "byte list" where
  "BinarySignature = [0x50, 0x47, 0x43, 0x4F, 0x50, 0x59, 0x0A, 0xFF, 0x0D, 0x0A, 0x00]"

text \<open>\<open>CopyGetInt32\<close> reads four bytes in network order.\<close>

definition CopyGetInt32 :: "byte list \<Rightarrow> nat \<Rightarrow> (32 word \<times> nat) option" where
  "CopyGetInt32 file pos =
     (case take 4 (drop pos file) of
        [a, b, c, d] \<Rightarrow> Some (of_nat (((unat a * 256 + unat b) * 256 + unat c) * 256 + unat d), pos + 4)
      | _ \<Rightarrow> None)"

text \<open>The header of a binary file: the position behind it and whether the file has OIDs.\<close>

definition binary_header :: "byte list \<Rightarrow> copy_option_error + nat \<times> bool" where
  "binary_header file =
     (if take 11 file \<noteq> BinarySignature then Inl BadSignature
      else (case CopyGetInt32 file 11 of
         None \<Rightarrow> Inl MissingFlags
       | Some (flags, pos) \<Rightarrow>
           (if drop_bit 17 flags \<noteq> 0 then Inl CriticalFlags
            else (case CopyGetInt32 file pos of
               None \<Rightarrow> Inl MissingLength
             | Some (ext, pos) \<Rightarrow>
                 (if sint ext < 0 then Inl MissingLength
                  else if length file < pos + unat ext then Inl WrongLength
                  else Inr (pos + unat ext, bit flags 16))))))"

text \<open>What \<open>NoDBScanStateInit\<close> sets later; \<open>palloc0\<close> has cleared it.\<close>

definition zero_cache :: NoDBCache_t where
  "zero_cache = \<lparr>c_rel = 0, c_type = NODB_DATA_CACHE, c_startRow = 0, c_usedRows = 0, c_nRows = None, c_startOffset = 0, c_rowSize = 0, c_rowFree = 0,
     c_cols = [], c_usedCols = 0, c_offset = [], c_map = [], c_list = [], c_buf = None, c_sizeOfHeader = None\<rparr>"

definition zero_strategy :: NoDBScanStrategy_t where
  "zero_strategy = \<lparr>startRow = 0, nrows = 0, readPreFilterWithCache = [], readPreFilterWithPM = [], readPreFilterViaPM = [],
     readPreFilterWithFile = [], convertPreFilter = [], readPostFilterWithCache = [], readPostFilterWithPM = [], readPostFilterViaPM = [],
     readPostFilterWithFile = [], convertPostFilter = [], writeToCacheByValue = [], writeToCacheByRef = [], writeToPM = []\<rparr>"

definition zero_bitmap :: NoDBBitmap_t where
  "zero_bitmap = \<lparr>bits = [], size_bm = 0\<rparr>"

definition zero_plan :: NoDBPlanState_t where
  "zero_plan = \<lparr>p_eolCache = None, readFile = FromFile,
     iterator = \<lparr>queryInfo = \<lparr>qi_rel = 0, qi_limit = 0, qi_cols = [], qi_rows = [], readBitmap = zero_bitmap,
       readFilterBitmap = zero_bitmap, readRestBitmap = zero_bitmap, writeDataBitmap = zero_bitmap, writePositionsBitmap = zero_bitmap, readCols = []\<rparr>, strategy = [], it_len = 0, it_cur = 0\<rparr>,
     curStrategy = zero_strategy, tuplesToRead = 0, nRows = 0, nEOL = 0, nMin = 0, hasEOL = False\<rparr>"

definition bytes_of :: "string \<Rightarrow> byte list" where
  "bytes_of = map of_char"

definition first_byte :: "string option \<Rightarrow> byte" where
  "first_byte s = (case s of Some (c # _) \<Rightarrow> of_char c | _ \<Rightarrow> 0)"

definition copy_read_format :: "copy_env \<Rightarrow> copy_state \<Rightarrow> read_format" where
  "copy_read_format env c = \<lparr>csv_mode = cs_csv c, rquote = first_byte (cs_quote c), rescape = first_byte (cs_escape c),
     encoding_embeds_ascii = PG_ENCODING_IS_CLIENT_ONLY env (client_encoding env),
     need_transcoding = (client_encoding env \<noteq> database_encoding env \<or> encoding_max_length env > 1)\<rparr>"

definition copy_line_format :: "copy_state \<Rightarrow> bool \<Rightarrow> line_format" where
  "copy_line_format c oids = \<lparr>delimc = first_byte (cs_delim c), quotec = first_byte (cs_quote c), escapec = first_byte (cs_escape c),
     null_print = bytes_of (the (cs_null c)), nfields = (if oids then int (length (cs_attnumlist c)) + 1 else int (length (cs_attnumlist c))),
     lastfield = 0\<rparr>"

definition start_reader :: "copy_state \<Rightarrow> byte list \<Rightarrow> nat \<Rightarrow> reader" where
  "start_reader c file pos = \<lparr>copy_file = file, copy_pos = pos, raw_buf = [], raw_buf_index = 0, line_buf = [], line_buf_converted = False,
     eol_type = EOL_UNKNOWN, cur_lineno = 0, header_line = cs_header c, read_header = False, eolCache = zero_cache, processed = 0,
     tupleRead = 0, tupleStored = 0\<rparr>"

definition start_state :: "copy_env \<Rightarrow> copy_state \<Rightarrow> Relation_t \<Rightarrow> byte list \<Rightarrow> nat \<Rightarrow> bool \<Rightarrow> scan_state" where
  "start_state env c rel file pos oids =
     (let n = length (rd_att rel); lf = copy_line_format c oids in
      \<lparr>s_read = copy_read_format env c, s_format = lf, s_natts = int n, s_attrlen = map attlen (rd_att rel), s_qual = False,
       s_relation = rd_relname rel, s_reader = start_reader c file pos,
       s_line = \<lparr>field_strings = replicate (nat (nfields lf)) None, attributes = []\<rparr>,
       s_values = \<lparr>dvalues = replicate n (Some 0), dnulls = replicate n (Some True)\<rparr>, s_plan = zero_plan, s_execInfo = 0,
       readAllAtts = [], readFilterAtts = [], readRestAtts = [], writeDataCols = [], writePositionCols = [], execNoDBPlan = ExecPlan\<rparr>)"

definition GetScanExecStatusStmt :: "copy_env \<Rightarrow> CopyStmt \<Rightarrow> copy_state \<Rightarrow> Relation_t \<Rightarrow> copy_option_error + scan_state" where
  "GetScanExecStatusStmt env stmt c rel =
     (if rd_relkind rel \<noteq> CHR ''r'' then Inl (WrongRelationKind (rd_relkind rel))
      else (case file_system env (stmt_filename stmt) of
         None \<Rightarrow> Inl (FileNotOpened (stmt_filename stmt))
       | Some Directory \<Rightarrow> Inl (IsDirectory (stmt_filename stmt))
       | Some (RegularFile file) \<Rightarrow>
           (if \<not> cs_binary c then Inr (start_state env c rel file 0 False)
            else bindE (binary_header file) (\<lambda>(pos, oids). Inr (start_state env c rel file pos oids)))))"

text \<open>The scan node contributes the name of its relation and whether it has a filter.\<close>

definition NoDBScanOperatorInit ::
    "copy_env \<Rightarrow> externals \<Rightarrow> ConfigurationFile \<Rightarrow> query_state \<Rightarrow> string \<Rightarrow> bool \<Rightarrow> nodb_world \<Rightarrow> (copy_option_error + nodb_world \<times> scan_state) option" where
  "NoDBScanOperatorInit env x cf q relname qual w =
     do {
       command \<leftarrow> copy_command cf relname;
       stmt \<leftarrow> GetQueryCopyStmt env command;
       r \<leftarrow> GetScanState env stmt;
       (case bindE r (\<lambda>(c, rel). bindE (GetScanExecStatusStmt env stmt c rel) (\<lambda>s. Inr (rel, s))) of
          Inl e \<Rightarrow> Some (Inl e)
        | Inr (rel, s) \<Rightarrow>
            map_option Inr (NoDBScanStateInit x q (map attname (rd_att rel)) (map (\<lambda>a. if attbyval a then 1 else 0) (rd_att rel))
              (stmt_filename stmt) w (s\<lparr>s_relation := relname, s_qual := qual\<rparr>)))
     }"

section \<open>What the options guarantee\<close>

lemma bindE_Inr [simp]: "bindE r f = Inr b \<longleftrightarrow> (\<exists>a. r = Inr a \<and> f a = Inr b)"
  by (cases r) (simp_all add: bindE_def)

lemma bindE_simps [simp]: "bindE (Inr a) f = f a" "bindE (Inl e) f = Inl e"
  by (simp_all add: bindE_def)

lemma first_error_Inr: "first_error bs a = Inr b \<longleftrightarrow> b = a \<and> (\<forall>p \<in> set bs. \<not> fst p)"
  by (induction bs) (auto split: if_splits)

lemma foldE_invariant:
  assumes "foldE f a bs = Inr c" "P a" "\<And>a b c. P a \<Longrightarrow> f a b = Inr c \<Longrightarrow> P c"
  shows "P c"
  using assms(1,2) by (induction bs arbitrary: a) (auto intro: assms(3))

text \<open>A format the line reader and the parsers can work with.\<close>

definition copy_ok :: "copy_state \<Rightarrow> bool" where
  "copy_ok c \<longleftrightarrow> (\<exists>d n. cs_delim c = Some [d] \<and> cs_null c = Some n \<and> d \<notin> {CHR 0x0D, CHR 0x0A} \<and>
     (if cs_csv c then \<exists>q e. cs_quote c = Some [q] \<and> cs_escape c = Some [e] \<and> q \<noteq> d \<and> q \<notin> set n
      else cs_quote c = None \<and> cs_escape c = None \<and> \<not> cs_header c \<and> d \<notin> set unsafe_delims))"

definition attnums_ok :: "pg_attribute list \<Rightarrow> int list \<Rightarrow> bool" where
  "attnums_ok td as \<longleftrightarrow> distinct as \<and> (\<forall>a \<in> set as. 1 \<le> a \<and> a \<le> int (length td) \<and> \<not> attisdropped (td ! nat (a - 1)))"

lemma copy_ok_attnums [simp]: "copy_ok (c\<lparr>cs_attnumlist := as\<rparr>) = copy_ok c"
  by (simp add: copy_ok_def cong: if_cong)

lemma defaults_set:
  "\<exists>d. cs_delim (copy_defaults c) = Some d" "\<exists>n. cs_null (copy_defaults c) = Some n"
  "cs_csv (copy_defaults c) \<Longrightarrow> \<exists>q. cs_quote (copy_defaults c) = Some q" "cs_csv (copy_defaults c) \<Longrightarrow> \<exists>e. cs_escape (copy_defaults c) = Some e"
  by (auto simp: copy_defaults_def or_default_def Let_def split: option.split if_splits)

lemma checks_ok:
  assumes "copy_checks su (copy_defaults c0) = Inr c"
  shows "copy_ok c \<and> su"
proof -
  have c: "c = copy_defaults c0" using assms by (simp add: copy_checks_def Let_def first_error_Inr del: first_error.simps)
  obtain d n where d: "cs_delim c = Some d" "cs_null c = Some n" using defaults_set(1,2)[of c0] c by auto
  have len: "length d = 1" "CHR 0x0D \<notin> set d" "CHR 0x0A \<notin> set d" "su"
    using assms d c by (auto simp: copy_checks_def Let_def first_error_Inr simp del: first_error.simps)
  then obtain d0 where d0: "d = [d0]" by (auto simp: length_Suc_conv)
  show ?thesis
  proof (cases "cs_csv c")
    case True
    obtain q e where q: "cs_quote c = Some q" "cs_escape c = Some e" using True defaults_set(3,4)[of c0] c by auto
    have "length q = 1" "length e = 1" "hd d \<noteq> hd q" "hd q \<notin> set n"
      using assms d c q True by (auto simp: copy_checks_def Let_def first_error_Inr simp del: first_error.simps)
    then show ?thesis using d q d0 len True by (auto simp: copy_ok_def length_Suc_conv)
  next
    case False
    have "hd d \<notin> set unsafe_delims" "\<not> cs_header c" "cs_quote c = None" "cs_escape c = None"
      using assms d c False by (auto simp: copy_checks_def Let_def first_error_Inr simp del: first_error.simps)
    then show ?thesis using d d0 len False by (auto simp: copy_ok_def)
  qed
qed

lemma column_number_ok: "column_number td name i = 0 \<or> (i \<le> column_number td name i \<and> column_number td name i < i + int (length td) \<and>
    \<not> attisdropped (td ! nat (column_number td name i - i)))"
proof (induction td arbitrary: i)
  case (Cons a td)
  show ?case
  proof (cases "\<not> attisdropped a \<and> namestrcmp (attname a) name")
    case False
    then have e: "column_number (a # td) name i = column_number td name (i + 1)" by auto
    have "nat (k - i) = Suc (nat (k - (i + 1)))" if "i + 1 \<le> k" for k using that by simp
    then show ?thesis using Cons.IH[of "i + 1"] unfolding e by auto
  qed auto
qed simp

lemma live_columns_ok:
  "sorted_wrt (<) (live_columns td i) \<and> (\<forall>a \<in> set (live_columns td i). i \<le> a \<and> a < i + int (length td) \<and> \<not> attisdropped (td ! nat (a - i)))"
proof (induction td arbitrary: i)
  case (Cons b td)
  have "nat (k - i) = Suc (nat (k - (i + 1)))" if "i + 1 \<le> k" for k using that by simp
  then show ?case using Cons.IH[of "i + 1"] by (auto simp: strict_sorted_iff)
qed simp

lemma attnums_sound: "CopyGetAttnums td names = Inr as \<Longrightarrow> attnums_ok td as"
proof (cases "names = []")
  case True
  moreover assume "CopyGetAttnums td names = Inr as"
  ultimately have "as = live_columns td 1" by (simp add: CopyGetAttnums_def)
  then show ?thesis using live_columns_ok[of td 1] by (auto simp: attnums_ok_def strict_sorted_iff)
next
  case False
  moreover assume "CopyGetAttnums td names = Inr as"
  ultimately have "foldE (add_attnum td) [] names = Inr as" by (simp add: CopyGetAttnums_def)
  then show ?thesis
  proof (rule foldE_invariant)
    show "attnums_ok td c" if "attnums_ok td a" "add_attnum td a b = Inr c" for a b c
      using that column_number_ok[of td b 1] by (auto simp: add_attnum_def attnums_ok_def Let_def split: if_splits)
  qed (simp add: attnums_ok_def)
qed

text \<open>
  C23: What \<open>GetScanState\<close> lets pass. Whatever the options of the statement are, a state that is returned has a delimiter of
  one byte that is not a line end; in CSV mode a quote and an escape of one byte, where the quote differs from the
  delimiter and does not occur in the null marker; in text mode no quote, no escape and no header, and a delimiter that
  cannot be confused with an escape sequence. The columns are distinct, exist and are not dropped. The relation is the one
  of the statement, the user is a superuser with privileges on the table or on every column, and a read-only
  transaction gets no state for a relation that is not temporary.
\<close>

theorem copy_state_sound:
  assumes "GetScanState env stmt = Some (Inr (c, rel))"
  shows "copy_ok c \<and> attnums_ok (rd_att rel) (cs_attnumlist c) \<and> superuser env \<and>
    (\<exists>name. stmt_relation stmt = Some name \<and> heap_openrv env name = Some rel) \<and>
    (table_privilege env (rd_relname rel) (stmt_is_from stmt) \<or>
     (\<forall>a \<in> set (cs_attnumlist c). column_privilege env (rd_relname rel) a (stmt_is_from stmt))) \<and>
    (stmt_is_from stmt \<and> \<not> rd_islocaltemp rel \<longrightarrow> \<not> XactReadOnly env)"
proof -
  obtain c0 c1 fs where o: "foldE copy_option (copy_zero, False) (stmt_options stmt) = Inr (c0, fs)"
      "copy_checks (superuser env) (copy_defaults c0) = Inr c1"
    using assms by (auto simp: GetScanState_def split: sum.splits prod.splits)
  obtain name as where r: "stmt_relation stmt = Some name" "heap_openrv env name = Some rel" "check_privileges env stmt rel = Inr ()"
      "\<not> (XactReadOnly env \<and> stmt_is_from stmt \<and> \<not> rd_islocaltemp rel)" "CopyGetAttnums (rd_att rel) (stmt_attlist stmt) = Inr as"
      "c = c1\<lparr>cs_attnumlist := as\<rparr>"
    using assms o by (auto simp: GetScanState_def split: option.splits if_splits)
  have "copy_ok c" "superuser env" using checks_ok[OF o(2)] r(6) by simp_all
  moreover have "attnums_ok (rd_att rel) (cs_attnumlist c)" using attnums_sound[OF r(5)] r(6) by simp
  moreover have "table_privilege env (rd_relname rel) (stmt_is_from stmt) \<or>
      (\<forall>a \<in> set (cs_attnumlist c). column_privilege env (rd_relname rel) a (stmt_is_from stmt))"
    using r(3,5,6) by (auto simp: check_privileges_def list_all_iff split: if_splits)
  ultimately show ?thesis using r by blast
qed

section \<open>The options of the command\<close>

text \<open>
  What the parser makes of the command that \<open>copy_command\<close> writes: a COPY FROM of all columns with the three options of the
  command, the delimiter being the literal between the quotes.
\<close>

definition command_options :: "string \<Rightarrow> bool \<Rightarrow> DefElem list" where
  "command_options d h =
     [\<lparr>defname = ''format'', def_arg = Some (T_String ''csv'')\<rparr>, \<lparr>defname = ''delimiter'', def_arg = Some (T_String d)\<rparr>,
      \<lparr>defname = ''header'', def_arg = Some (T_String (if h then ''true'' else ''false''))\<rparr>]"

definition command_stmt :: "string \<Rightarrow> string \<Rightarrow> string \<Rightarrow> bool \<Rightarrow> CopyStmt" where
  "command_stmt relname filename d h = \<lparr>stmt_relation = Some relname, stmt_attlist = [], stmt_is_from = True, stmt_filename = filename,
     stmt_options = command_options d h\<rparr>"

definition command_state :: "string \<Rightarrow> bool \<Rightarrow> copy_state" where
  "command_state d h = \<lparr>cs_csv = True, cs_binary = False, cs_delim = Some d, cs_null = Some [], cs_header = h, cs_quote = Some [CHR 0x22],
     cs_escape = Some [CHR 0x22], cs_attnumlist = []\<rparr>"

lemma boolean_texts: "boolean_text ''true'' = Some True" "boolean_text ''false'' = Some False"
  by code_simp+

lemma command_options_read:
  "\<exists>c. foldE copy_option (copy_zero, False) (command_options d h) = Inr (c, True) \<and> copy_defaults c = command_state d h"
proof (intro exI conjI)
  let ?c = "copy_zero\<lparr>cs_csv := True, cs_delim := Some d, cs_header := h\<rparr>"
  show "foldE copy_option (copy_zero, False) (command_options d h) = Inr (?c, True)"
    by (auto simp: command_options_def copy_option_def defGetString_def defGetBoolean_def format_option_def copy_zero_def boolean_texts)
  show "copy_defaults ?c = command_state d h" by (simp add: copy_zero_def copy_defaults_def or_default_def command_state_def Let_def)
qed

lemma command_scan_state:
  assumes "heap_openrv env relname = Some rel" "superuser env" "table_privilege env (rd_relname rel) True" "\<not> XactReadOnly env"
  shows "GetScanState env (command_stmt relname filename d h) =
    Some (if length d \<noteq> 1 then Inl DelimiterNotOneByte else if hd d \<in> {CHR 0x0D, CHR 0x0A} then Inl DelimiterLineEnd
      else if hd d = CHR 0x22 then Inl DelimiterIsQuote
      else Inr ((command_state d h)\<lparr>cs_attnumlist := live_columns (rd_att rel) 1\<rparr>, rel))"
proof -
  obtain c where c: "foldE copy_option (copy_zero, False) (command_options d h) = Inr (c, True)" "copy_defaults c = command_state d h"
    using command_options_read by blast
  have s: "set d = {hd d}" if "length d = 1" using that by (cases d) auto
  have "copy_checks True (command_state d h) =
      (if length d \<noteq> 1 then Inl DelimiterNotOneByte else if hd d \<in> {CHR 0x0D, CHR 0x0A} then Inl DelimiterLineEnd
       else if hd d = CHR 0x22 then Inl DelimiterIsQuote else Inr (command_state d h))"
    using s by (auto simp: copy_checks_def command_state_def Let_def)
  then show ?thesis
    using assms c by (simp add: GetScanState_def command_stmt_def check_privileges_def CopyGetAttnums_def)
qed

section \<open>The header\<close>

definition behind_header :: "byte list option \<Rightarrow> scan_state \<Rightarrow> scan_state" where
  "behind_header ho s = (case ho of None \<Rightarrow> s
     | Some h \<Rightarrow> s\<lparr>s_reader := (s_reader s)\<lparr>copy_pos := Suc (length h), read_header := True\<rparr>\<rparr>)"

text \<open>A reader that has not read anything of a file with a header line.\<close>

definition at_header :: "byte list \<Rightarrow> byte list \<Rightarrow> reader \<Rightarrow> bool" where
  "at_header h rest rd \<longleftrightarrow> header_line rd \<and> \<not> read_header rd \<and> copy_pos rd = 0 \<and> raw_buf rd = [] \<and> raw_buf_index rd = 0 \<and>
     copy_file rd = h @ 10 # rest \<and> 10 \<notin> set h \<and> length h < RAW_BUF_SIZE"

definition past_line :: "byte list \<Rightarrow> reader \<Rightarrow> reader" where
  "past_line h rd = rd\<lparr>copy_pos := Suc (length h), read_header := True, eolCache := NoDBCacheSetHeaderSize (eolCache rd) (of_nat (Suc (length h)))\<rparr>"

lemma takeWhile_header: "10 \<notin> set h \<Longrightarrow> length h < n \<Longrightarrow> length (takeWhile (\<lambda>c. c \<noteq> 10) (take n (h @ (10 :: byte) # rest))) = length h"
proof (induction h arbitrary: n)
  case Nil
  then show ?case by (cases n) simp_all
next
  case (Cons a h)
  then show ?case by (cases n) auto
qed

lemma get_data_header:
  assumes "at_header h rest rd"
  shows "NoDBCopyGetData RAW_BUF_SIZE rd = NoDBCopyGetData RAW_BUF_SIZE (past_line h rd)"
proof -
  have h: "header_line rd" "\<not> read_header rd" "copy_pos rd = 0" "copy_file rd = h @ 10 # rest" "10 \<notin> set h" "length h < RAW_BUF_SIZE"
    using assms by (simp_all add: at_header_def)
  let ?t = "take RAW_BUF_SIZE (h @ 10 # rest)"
  have t: "?t \<noteq> []" "10 \<in> set ?t" "length (takeWhile (\<lambda>c. c \<noteq> 10) ?t) = length h"
    using h(5,6) takeWhile_header[of h RAW_BUF_SIZE rest] by (auto simp: take_append take_Cons' split: nat.split)
  have "NoDBCopyGetData RAW_BUF_SIZE (past_line h rd) = Some (fread RAW_BUF_SIZE (past_line h rd))"
    by (simp add: NoDBCopyGetData_def past_line_def)
  moreover have "NoDBCopyGetData RAW_BUF_SIZE rd = Some (fread RAW_BUF_SIZE (past_line h rd))"
    using h t by (simp add: NoDBCopyGetData_def fread_def past_line_def Let_def)
  ultimately show ?thesis by simp
qed

lemma line_header:
  assumes "at_header h rest rd"
  shows "NoDBCopyReadLineText fmt mb rd = NoDBCopyReadLineText fmt mb (past_line h rd)"
proof -
  have r: "raw_buf rd = []" "raw_buf_index rd = 0" using assms by (simp_all add: at_header_def)
  have "load_more rd (start_scan rd) = load_more (past_line h rd) (start_scan (past_line h rd))"
    using get_data_header[OF assms] r
    by (simp add: load_more_def REFILL_LINEBUF_def NoDBCopyLoadRawBuf_def start_scan_def) (simp add: past_line_def)
  moreover have "start_scan (past_line h rd) = start_scan rd" by (simp add: start_scan_def past_line_def)
  ultimately have "read_line_loop fmt mb rd (start_scan rd) = read_line_loop fmt mb (past_line h rd) (start_scan (past_line h rd))"
    using r by (subst (1 2) read_line_loop.simps) (simp add: start_scan_def past_line_def)
  then show ?thesis by (simp add: NoDBCopyReadLineText_def)
qed

lemma read_header_line:
  assumes "at_header h rest (s_reader s)" "readFile (s_plan s) = FromFile" "load_cache w (p_eolCache (s_plan s)) = Some c"
  defines "w1 \<equiv> store_cache w (p_eolCache (s_plan s)) (NoDBCacheSetHeaderSize c (of_nat (Suc (length h))))"
  shows "readFile_call x (w, s) = readFile_call x (w1, behind_header (Some h) s)"
proof -
  obtain a where a: "p_eolCache (s_plan s) = Some a" using assms(3) by (cases "p_eolCache (s_plan s)") (simp_all add: load_cache_def)
  let ?c = "NoDBCacheSetHeaderSize c (of_nat (Suc (length h)))" and ?rd = "(s_reader s)\<lparr>eolCache := c, line_buf := []\<rparr>"
  have "at_header h rest ?rd" using assms(1) by (simp add: at_header_def)
  then have "NoDBCopyReadLineText (s_read s) (pg_encoding_mblen x) ?rd = NoDBCopyReadLineText (s_read s) (pg_encoding_mblen x) (past_line h ?rd)"
    by (rule line_header)
  moreover have "past_line h ?rd = (s_reader s)\<lparr>copy_pos := Suc (length h), read_header := True, eolCache := ?c, line_buf := []\<rparr>"
    by (cases "s_reader s") (simp add: past_line_def)
  ultimately have n: "NoDBGetNextTupleFromFile (s_read s) (pg_encoding_mblen x) e (pg_client_to_server x) ((s_reader s)\<lparr>eolCache := c\<rparr>) =
      NoDBGetNextTupleFromFile (s_read s) (pg_encoding_mblen x) e (pg_client_to_server x)
        ((s_reader s)\<lparr>copy_pos := Suc (length h), read_header := True, eolCache := ?c\<rparr>)" for e
    unfolding NoDBGetNextTupleFromFile_def by (simp only:)
  have w: "load_cache w1 (Some a) = Some ?c" "load_info w1 (s_execInfo s) = load_info w (s_execInfo s)" "store_cache w1 (Some a) d = store_cache w (Some a) d" for d
    by (simp_all add: w1_def a load_cache_def store_cache_def upd_cache_def load_info_def)
  show ?thesis
    using assms(2,3) n w by (simp add: readFile_call_def behind_header_def a Let_def cong: res.case_cong prod.case_cong)
qed

text \<open>
  C12: A header line is skipped. When the first plan call of a scan finds a file whose first line is shorter than the
  buffer and the header is to be skipped, then this call does what it would do on a file position behind the first line
  with the header marked as read and its size, line end included, stored in the end-of-line cache: it delivers the same slot
  and leaves the same scan and the same caches, with and without a filter.
\<close>

theorem header_skipped:
  assumes "at_header h rest (s_reader s)" "readFile (s_plan s) = FromFile" "load_cache w (p_eolCache (s_plan s)) = Some c"
    "execNoDBPlan s = ExecPlan \<or> execNoDBPlan s = ExecPlanWithFilters"
  shows "execNoDBPlan_call x w s pass =
      execNoDBPlan_call x (store_cache w (p_eolCache (s_plan s)) (NoDBCacheSetHeaderSize c (of_nat (Suc (length h))))) (behind_header (Some h) s) pass \<and>
    unread (s_reader (behind_header (Some h) s)) = rest \<and> buf_inv (s_reader (behind_header (Some h) s))"
proof -
  have "execNoDBPlan (behind_header (Some h) s) = execNoDBPlan s" by (simp add: behind_header_def)
  moreover have "unread (s_reader (behind_header (Some h) s)) = rest" "buf_inv (s_reader (behind_header (Some h) s))"
    using assms(1) by (simp_all add: at_header_def behind_header_def unread_def stream_def buf_inv_def header_pending_def)
  ultimately show ?thesis
    using assms(4) read_header_line[OF assms(1-3), of x] by (auto simp: NoDBExecPlan_def NoDBExecPlanWithFilters_def)
qed

section \<open>The scan a command sets up\<close>

definition plain_encoding :: "copy_env \<Rightarrow> bool" where
  "plain_encoding env \<longleftrightarrow> client_encoding env = database_encoding env \<and> encoding_max_length env \<le> 1 \<and>
     \<not> PG_ENCODING_IS_CLIENT_ONLY env (client_encoding env)"

text \<open>A table without dropped columns that the user may read.\<close>

definition may_copy :: "copy_env \<Rightarrow> Relation_t \<Rightarrow> bool" where
  "may_copy env rel \<longleftrightarrow> superuser env \<and> table_privilege env (rd_relname rel) True \<and> \<not> XactReadOnly env \<and> rd_relkind rel = CHR ''r'' \<and>
     rd_att rel \<noteq> [] \<and> (\<forall>a \<in> set (rd_att rel). \<not> attisdropped a) \<and> distinct (map attname (rd_att rel))"

definition table_format :: "char \<Rightarrow> nat \<Rightarrow> line_format" where
  "table_format d n = \<lparr>delimc = of_char d, quotec = 34, escapec = 34, null_print = [], nfields = int n, lastfield = int n - 1\<rparr>"

text \<open>The file: an optional header line and the rows as CSV.\<close>

definition raw_file :: "line_format \<Rightarrow> byte list option \<Rightarrow> csv_item list list \<Rightarrow> byte list" where
  "raw_file lf ho rows = (case ho of None \<Rightarrow> [] | Some h \<Rightarrow> h @ [10]) @ file_of EOL_NL (map (row_line lf) rows)"

lemma live_columns_length: "\<forall>a \<in> set td. \<not> attisdropped a \<Longrightarrow> length (live_columns td i) = length td"
  by (induction td arbitrary: i) auto

lemma csv_write_lastfield: "csv_write (lf\<lparr>lastfield := n\<rparr>) v = csv_write lf v" "csv_writable (lf\<lparr>lastfield := n\<rparr>) v = csv_writable lf v"
  "item_bytes (lf\<lparr>lastfield := n\<rparr>) v = item_bytes lf v"
  by (cases v; simp)+

lemma csv_row_lastfield:
  "row_line (lf\<lparr>lastfield := n\<rparr>) vs = row_line lf vs" "csv_row_ok lf vs \<Longrightarrow> n \<le> lastfield lf \<Longrightarrow> csv_row_ok (lf\<lparr>lastfield := n\<rparr>) vs"
  by (simp_all add: csv_row_ok_def row_line_def csv_write_lastfield cong: map_cong)

lemma byte_of_char: "unat (of_char c :: byte) = of_char c"
proof -
  have "unat (of_char c :: byte) = unat (of_nat (of_char c) :: byte)" by (simp only: of_nat_of_char)
  also have "\<dots> = of_char c" by (simp add: unat_of_nat of_char_mod_256)
  finally show ?thesis .
qed

lemma byte_char_eq: "of_char c = (of_char d :: byte) \<longleftrightarrow> c = d"
  using byte_of_char[of c] byte_of_char[of d] of_char_eq_iff[of c d, where 'a = nat] by metis

lemma byte_eqs: "of_char c = (0 :: byte) \<longleftrightarrow> c = CHR 0x00" "of_char c = (10 :: byte) \<longleftrightarrow> c = CHR 0x0A" "of_char c = (13 :: byte) \<longleftrightarrow> c = CHR 0x0D"
  "of_char c = (34 :: byte) \<longleftrightarrow> c = CHR 0x22"
  using byte_char_eq[of c "CHR 0x00"] byte_char_eq[of c "CHR 0x0A"] byte_char_eq[of c "CHR 0x0D"] byte_char_eq[of c "CHR 0x22"] by simp_all

lemma init_frame:
  assumes "NoDBScanStateInit x q attrs bv filename w s = Some (w', s')"
  shows "s_read s' = s_read s" "s_reader s' = s_reader s" "field_strings (s_line s') = field_strings (s_line s)"
    "length (attributes (s_line s')) = Suc (nat (s_natts s))" "a_ptr (attributes (s_line s') ! 0) = Some 0"
    "length (dvalues (s_values s')) = nat (s_natts s)" "length (dnulls (s_values s')) = nat (s_natts s)"
  using assms by (auto simp: NoDBScanStateInit_def bind_eq_Some_conv Let_def)

lemma init_format:
  assumes "NoDBScanStateInit x q attrs bv filename w s = Some (w', s')"
  shows "getQueryAttributes q attrs (s_relation s) = Some (readAllAtts s')" "last_attribute (readAllAtts s') = Some (lastfield (s_format s'))"
    "s_format s' = (s_format s)\<lparr>lastfield := lastfield (s_format s')\<rparr>"
  using assms by (auto simp: NoDBScanStateInit_def bind_eq_Some_conv Let_def)

text \<open>The last wanted column is the largest one.\<close>

lemma marked_last:
  assumes "last_attribute (map Some (marked attrs P)) = Some m" "attrs \<noteq> []"
  shows "0 \<le> m \<and> m < int (length attrs) \<and> (\<forall>c \<in> set (marked attrs P). 0 \<le> c \<and> c \<le> m)"
proof (cases "marked attrs P = []")
  case True
  then show ?thesis using assms by (simp add: last_attribute_def NoDBColVectorSize_def)
next
  case False
  have "nat (int k - 1) = k - 1" for k by simp
  then have m: "m = last (marked attrs P)"
    using assms(1) False by (auto simp: last_attribute_def NoDBColVectorSize_def NoDBColVectorGet_def arr_get_def last_conv_nth split: if_splits)
  obtain ys l where "marked attrs P = ys @ [l]" using False by (cases "marked attrs P" rule: rev_cases) auto
  then have "c \<le> last (marked attrs P)" if "c \<in> set (marked attrs P)" for c
    using that marked_sorted[of attrs P] by (auto simp: sorted_wrt_append)
  then show ?thesis using m False last_in_set[OF False] by (auto simp: marked_set)
qed

lemma command_start:
  fixes h :: bool
  assumes "may_copy env rel" "plain_encoding env" "d \<notin> {CHR 0x00, CHR 0x0A, CHR 0x0D, CHR 0x22}"
  defines "c \<equiv> (command_state [d] h)\<lparr>cs_attnumlist := live_columns (rd_att rel) 1\<rparr>" and "n \<equiv> length (rd_att rel)"
  shows "s_format (start_state env c rel file 0 False) = (table_format d n)\<lparr>lastfield := 0\<rparr>"
    "csv_config (s_read (start_state env c rel file 0 False)) ((table_format d n)\<lparr>lastfield := m\<rparr>)"
    "GetScanExecStatusStmt env stmt c rel =
      (case file_system env (stmt_filename stmt) of None \<Rightarrow> Inl (FileNotOpened (stmt_filename stmt)) | Some Directory \<Rightarrow> Inl (IsDirectory (stmt_filename stmt))
       | Some (RegularFile bs) \<Rightarrow> Inr (start_state env c rel bs 0 False))"
proof -
  have "length (live_columns (rd_att rel) 1) = n" using assms(1) live_columns_length by (auto simp: may_copy_def n_def)
  then show "s_format (start_state env c rel file 0 False) = (table_format d n)\<lparr>lastfield := 0\<rparr>"
    by (simp add: start_state_def copy_line_format_def table_format_def c_def command_state_def first_byte_def bytes_of_def Let_def)
  show "csv_config (s_read (start_state env c rel file 0 False)) ((table_format d n)\<lparr>lastfield := m\<rparr>)"
    using assms(2,3)
    by (simp add: csv_config_def start_state_def copy_read_format_def table_format_def c_def command_state_def first_byte_def plain_read_def
        plain_format_def plain_encoding_def byte_eqs Let_def) auto
  show "GetScanExecStatusStmt env stmt c rel =
      (case file_system env (stmt_filename stmt) of None \<Rightarrow> Inl (FileNotOpened (stmt_filename stmt)) | Some Directory \<Rightarrow> Inl (IsDirectory (stmt_filename stmt))
       | Some (RegularFile bs) \<Rightarrow> Inr (start_state env c rel bs 0 False))"
    using assms(1) by (simp add: GetScanExecStatusStmt_def may_copy_def c_def command_state_def split: option.split file_entry.split)
qed

lemma start_reader_header:
  assumes "h \<longleftrightarrow> ho \<noteq> None" "cs_header c = h" "s_reader s = start_reader c (raw_file lf ho rows) 0"
  shows "buf_inv (s_reader (behind_header ho s)) \<and> unread (s_reader (behind_header ho s)) = file_of EOL_NL (map (row_line lf) rows) \<and>
    eol_type (s_reader (behind_header ho s)) = EOL_UNKNOWN"
  using assms by (cases ho) (simp_all add: behind_header_def start_reader_def buf_inv_def header_pending_def unread_def stream_def raw_file_def)

lemma start_scan_ready:
  fixes h qual :: bool and relname :: string
  assumes "may_copy env rel" "plain_encoding env" "d \<notin> {CHR 0x00, CHR 0x0A, CHR 0x0D, CHR 0x22}" "h \<longleftrightarrow> ho \<noteq> None"
    "\<forall>vs \<in> set rows. csv_row_ok (table_format d (length (rd_att rel))) vs" "query_reach q"
  defines "c \<equiv> (command_state [d] h)\<lparr>cs_attnumlist := live_columns (rd_att rel) 1\<rparr>" and "attrs \<equiv> map attname (rd_att rel)"
  defines "s0 \<equiv> (start_state env c rel (raw_file (table_format d (length (rd_att rel))) ho rows) 0 False)\<lparr>s_relation := relname, s_qual := qual\<rparr>"
  assumes i: "NoDBScanStateInit x q attrs bv filename w s0 = Some (w', s')"
  shows "before_rows rows (behind_header ho s') \<and> columns_ok (marked attrs (wants (NoDBQueryDesc q) relname)) s'"
proof -
  let ?n = "length (rd_att rel)" and ?m = "lastfield (s_format s')"
  let ?lf = "(table_format d ?n)\<lparr>lastfield := ?m\<rparr>"
  note st = command_start[OF assms(1-3), where h = h, folded c_def]
  have fmt: "s_format s' = ?lf" using init_format(3)[OF i] st(1) by (simp add: s0_def)
  have at: "distinct attrs" "attrs \<noteq> []" "length attrs = ?n" using assms(1) by (auto simp: may_copy_def attrs_def)
  have "readAllAtts s' = map Some (marked attrs (wants (NoDBQueryDesc q) relname))"
    using init_format(1)[OF i] query_attributes_ok[OF query_reach_ok[OF assms(6)] at(1)] by (simp add: s0_def)
  then have m: "0 \<le> ?m" "?m < int ?n" "\<forall>c \<in> set (marked attrs (wants (NoDBQueryDesc q) relname)). 0 \<le> c \<and> c \<le> ?m"
    using marked_last[of attrs _ ?m] init_format(2)[OF i] at(2,3) by simp_all
  have "?m \<le> lastfield (table_format d ?n)" using m(2) by (simp add: table_format_def)
  then have rows: "\<forall>vs \<in> set rows. csv_row_ok ?lf vs" using assms(5) csv_row_lastfield(2) by blast
  have rl: "row_line ?lf = row_line (table_format d ?n)" by (rule ext) (rule csv_row_lastfield(1))
  have "s_reader s' = start_reader c (raw_file (table_format d ?n) ho rows) 0" using init_frame(2)[OF i] by (simp add: s0_def start_state_def Let_def)
  moreover have "cs_header c = h" by (simp add: c_def command_state_def)
  ultimately have rd: "buf_inv (s_reader (behind_header ho s')) \<and> unread (s_reader (behind_header ho s')) = file_of EOL_NL (map (row_line ?lf) rows) \<and>
      eol_type (s_reader (behind_header ho s')) = EOL_UNKNOWN"
    unfolding rl using start_reader_header[OF assms(4)] by blast
  have "s_format (behind_header ho s') = ?lf" "s_read (behind_header ho s') = s_read s'" using fmt by (simp_all add: behind_header_def split: option.split)
  moreover have "csv_config (s_read s') ?lf" using st(2) init_frame(1)[OF i] by (simp add: s0_def)
  ultimately have b: "before_rows rows (behind_header ho s')" using rd rows by (simp add: before_rows_def)
  have "nat (s_natts s0) = ?n" "length (field_strings (s_line s0)) = ?n"
    using st(1) by (simp_all add: s0_def start_state_def Let_def) (simp add: table_format_def)
  moreover have "nfields (s_format s') = int ?n" using arg_cong[OF fmt, of nfields] by (simp add: table_format_def)
  ultimately have "columns_ok (marked attrs (wants (NoDBQueryDesc q) relname)) s'"
    using m init_frame[OF i] by (auto simp: columns_ok_def fits_def line_start_def)
  with b show ?thesis by blast
qed


section \<open>A table and its set-up\<close>

definition copy_conf :: ConfigurationFile where
  "copy_conf = CF_start\<lparr>cf_files := slots_of [\<lparr>in_filename = ''t.csv'', in_relation = ''t'', in_delimiter = '','', in_header = True, in_id = 1\<rparr>],
     cf_how_many := 1, cf_loaded := True\<rparr>"

definition copy_rel :: Relation_t where
  "copy_rel = \<lparr>rd_relname = ''t'', rd_att = map (\<lambda>n. \<lparr>attname = n, attisdropped = False, attlen = 8, attbyval = True\<rparr>) [''a'', ''b'', ''c''],
     rd_relkind = CHR ''r'', rd_islocaltemp = False\<rparr>"

definition copy_head :: "byte list" where
  "copy_head = bytes_of ''a,b,c''"

definition copy_world :: copy_env where
  "copy_world = \<lparr>GetQueryCopyStmt = (\<lambda>_. Some (command_stmt ''t'' ''t.csv'' '','' True)), heap_openrv = [''t'' \<mapsto> copy_rel], superuser = True,
     table_privilege = (\<lambda>_ _. True), column_privilege = (\<lambda>_ _ _. False), XactReadOnly = False, client_encoding = 0, database_encoding = 0,
     encoding_max_length = 1, PG_ENCODING_IS_CLIENT_ONLY = (\<lambda>_. False),
     file_system = [''t.csv'' \<mapsto> RegularFile (raw_file (table_format (CHR '','') 3) (Some copy_head) table_rows)]\<rparr>"

theorem copy_state_sound_witness:
  "\<exists>c. GetScanState copy_world (command_stmt ''t'' ''t.csv'' ''|'' True) = Some (Inr (c, copy_rel)) \<and> cs_delim c = Some ''|'' \<and>
     copy_ok c \<and> attnums_ok (rd_att copy_rel) (cs_attnumlist c)"
proof -
  let ?c = "(command_state ''|'' True)\<lparr>cs_attnumlist := live_columns (rd_att copy_rel) 1\<rparr>"
  have "GetScanState copy_world (command_stmt ''t'' ''t.csv'' ''|'' True) = Some (Inr (?c, copy_rel))"
    by (subst command_scan_state[of _ _ copy_rel]) (simp_all add: copy_world_def)
  moreover have "cs_delim ?c = Some ''|''" by (simp add: command_state_def)
  ultimately show ?thesis using copy_state_sound by blast
qed

lemma copy_operator: "case NoDBScanOperatorInit copy_world plan_externals copy_conf demo_query ''t'' False types_world of Some (Inr ws) \<Rightarrow> True | _ \<Rightarrow> False"
  by code_simp

lemma copy_rows_ok: "\<forall>vs \<in> set table_rows. csv_row_ok (table_format (CHR '','') 3) vs"
  by (simp add: csv_row_ok_def row_line_def csv_escape_def table_rows_def table_format_def)


definition header_scan :: scan_state where
  "header_scan = table_start\<lparr>s_reader := (text_reader (copy_head @ 10 # unread (s_reader table_start)))\<lparr>header_line := True\<rparr>, execNoDBPlan := ExecPlan\<rparr>"

theorem header_skipped_witness:
  "\<exists>c. execNoDBPlan_call plan_externals table_world header_scan True =
       execNoDBPlan_call plan_externals (store_cache table_world (p_eolCache (s_plan header_scan)) c) (behind_header (Some copy_head) header_scan) True \<and>
     unread (s_reader (behind_header (Some copy_head) header_scan)) = file_of EOL_NL (map (row_line (s_format table_start)) table_rows)"
proof -
  have "at_header copy_head (unread (s_reader table_start)) (s_reader header_scan)"
    by (simp add: at_header_def header_scan_def text_reader_def copy_head_def bytes_of_def RAW_BUF_SIZE_def)
  moreover have "readFile (s_plan header_scan) = FromFile" "execNoDBPlan header_scan = ExecPlan" by (simp_all add: header_scan_def table_start_def)
  moreover obtain c where "load_cache table_world (p_eolCache (s_plan header_scan)) = Some c"
    using table_ready by (auto simp: scan_ready_def eol_ready_def header_scan_def)
  moreover have "unread (s_reader table_start) = file_of EOL_NL (map (row_line (s_format table_start)) table_rows)"
    using table_ready by (simp add: scan_ready_def before_rows_def)
  ultimately show ?thesis using header_skipped[of copy_head _ header_scan table_world _ plan_externals True] by metis
qed

end
