(* ===== verification/NoDB_Execute.thy ===== *)
theory NoDB_Execute
  imports NoDB_ExecScan Snoop_Config
begin

text \<open>
  The loop of \<open>ExecutePlan2\<close> in \<open>src/postgresql-9.6.5/src/backend/executor/execMain.c\<close> for a plan that consists of a NoDB scan
  node: tuples are sent to the receiver until the scan is at its end, which closes the scan, or until the requested number is reached.
  The junk filter of PostgreSQL is a parameter; the receiver is the list of the tuples sent to it, and its answer is ignored as in the code.
  The requested number is a \<open>long\<close>, which is converted to the unsigned type of the count when they are compared.
\<close>

section \<open>The loop\<close>

record exec_options =
  es_junkFilter :: "(TupleTableSlot \<Rightarrow> TupleTableSlot) option"
  sendTuples :: bool
  is_select :: bool
  numberTuples :: int
  enable_invisible_db :: bool

record 'p exec_run =
  er_node :: "'p scan_node"
  er_query :: query_state
  er_sent :: "TupleTableSlot list"
  es_processed :: "64 word"

text \<open>At the end of the scan, for a relation of the configuration, the scan is closed; the query descriptor is reset.\<close>

definition end_query :: "exec_options \<Rightarrow> ConfigurationFile \<Rightarrow> 'p exec_run \<Rightarrow> 'p exec_run option" where
  "end_query opts cf r =
     (if enable_invisible_db opts then
        do {
          let nd = er_node r;
          w \<leftarrow> (if isInConfigFile cf (s_relation (sn_scan nd)) then finish_scan (sn_world nd, sn_scan nd) else Some (sn_world nd));
          Some (r\<lparr>er_node := nd\<lparr>sn_world := w\<rparr>, er_query := resetQueryDescriptor (er_query r)\<rparr>)
        }
      else Some r)"

definition send_tuple :: "exec_options \<Rightarrow> TupleTableSlot \<Rightarrow> 'p exec_run \<Rightarrow> 'p exec_run" where
  "send_tuple opts t r =
     (let t = (case es_junkFilter opts of None \<Rightarrow> t | Some junk \<Rightarrow> junk t);
          r = (if sendTuples opts then r\<lparr>er_sent := er_sent r @ [t]\<rparr> else r) in
      if is_select opts then r\<lparr>es_processed := es_processed r + 1\<rparr> else r)"

partial_function (option) ExecutePlan2_loop ::
    "externals \<Rightarrow> 'p ProjectionInfo option \<Rightarrow> exec_options \<Rightarrow> ConfigurationFile \<Rightarrow> 64 word \<Rightarrow> 'p exec_run \<Rightarrow> 'p exec_run res option" where
  "ExecutePlan2_loop x proj opts cf current_tuple_count r =
     do {
       e \<leftarrow> ExecScan x proj (er_node r);
       (case e of
          Err e \<Rightarrow> Some (Err e)
        | Val (nd, slot) \<Rightarrow>
            (let r = r\<lparr>er_node := nd\<rparr> in
             if TupIsNull slot then map_option Val (end_query opts cf r)
             else
               (let r = send_tuple opts (the slot) r;
                    current_tuple_count = current_tuple_count + 1 in
                if numberTuples opts \<noteq> 0 \<and> word_of_int (numberTuples opts) = current_tuple_count then Some (Val r)
                else ExecutePlan2_loop x proj opts cf current_tuple_count r)))
     }"

section \<open>The loop and the tuples of the scan\<close>

definition send_all :: "exec_options \<Rightarrow> TupleTableSlot list \<Rightarrow> 'p exec_run \<Rightarrow> 'p exec_run" where
  "send_all opts ts r = fold (send_tuple opts) ts r"

lemma send_all_simps [simp]: "send_all opts [] r = r" "send_all opts (t # ts) r = send_all opts ts (send_tuple opts t r)"
  by (simp_all add: send_all_def)

lemma send_tuple_frame [simp]: "er_query (send_tuple opts t r) = er_query r" "er_node (send_tuple opts t r) = er_node r"
  "send_tuple opts t (r\<lparr>er_node := nd\<rparr>) = (send_tuple opts t r)\<lparr>er_node := nd\<rparr>"
  by (cases r, simp add: send_tuple_def Let_def split: option.split)+

lemma send_frame [simp]: "er_query (send_all opts ts r) = er_query r" "er_node (send_all opts ts r) = er_node r"
  "send_all opts ts (r\<lparr>er_node := nd\<rparr>) = (send_all opts ts r)\<lparr>er_node := nd\<rparr>"
  by (induction ts arbitrary: r) simp_all

lemma send_all_sent:
  "sendTuples opts \<Longrightarrow> er_sent (send_all opts ts r) = er_sent r @ map (case es_junkFilter opts of None \<Rightarrow> id | Some junk \<Rightarrow> junk) ts"
  "is_select opts \<Longrightarrow> es_processed (send_all opts ts r) = es_processed r + of_nat (length ts)"
  by (induction ts arbitrary: r) (simp_all add: send_tuple_def Let_def split: option.split)

text \<open>Below the requested number the loop goes on with the node behind the tuples.\<close>

lemma loop_fetch:
  assumes "fetch x proj (length ts) (er_node r) = Some (Val (ts, nd))"
    "\<forall>k. 0 < k \<and> k \<le> length ts \<longrightarrow> numberTuples opts = 0 \<or> word_of_int (numberTuples opts) \<noteq> cnt + of_nat k"
  shows "ExecutePlan2_loop x proj opts cf cnt r = ExecutePlan2_loop x proj opts cf (cnt + of_nat (length ts)) ((send_all opts ts r)\<lparr>er_node := nd\<rparr>)"
  using assms
proof (induction ts arbitrary: r cnt)
  case (Cons t ts)
  obtain nd1 slot where e: "ExecScan x proj (er_node r) = Some (Val (nd1, slot))" "\<not> TupIsNull slot" "the slot = t"
      "fetch x proj (length ts) nd1 = Some (Val (ts, nd))"
    using Cons.prems(1) by (auto split: option.splits res.splits if_splits)
  let ?r = "send_tuple opts t (r\<lparr>er_node := nd1\<rparr>)"
  have n: "er_node ?r = nd1" by simp
  have "numberTuples opts = 0 \<or> word_of_int (numberTuples opts) \<noteq> cnt + 1 + of_nat k" if "0 < k" "k \<le> length ts" for k
    using Cons.prems(2)[rule_format, of "Suc k"] that by (simp add: add.assoc)
  then have "ExecutePlan2_loop x proj opts cf (cnt + 1) ?r =
      ExecutePlan2_loop x proj opts cf (cnt + 1 + of_nat (length ts)) ((send_all opts ts ?r)\<lparr>er_node := nd\<rparr>)"
    using Cons.IH[of ?r "cnt + 1"] e(4) n by simp
  moreover have "ExecutePlan2_loop x proj opts cf cnt r = ExecutePlan2_loop x proj opts cf (cnt + 1) ?r"
    using e(1-3) Cons.prems(2)[rule_format, of 1] by (subst ExecutePlan2_loop.simps) (auto simp: Let_def)
  moreover have "(send_all opts ts ?r)\<lparr>er_node := nd\<rparr> = (send_all opts (t # ts) r)\<lparr>er_node := nd\<rparr>"
    by simp
  ultimately show ?case by (simp add: add.assoc)
next
  case Nil
  then have "r\<lparr>er_node := nd\<rparr> = r" by (cases r) simp
  then show ?case by simp
qed

context scan_plan
begin

text \<open>The first tuples of a scan, and what is left behind them.\<close>

lemma fetch_prefix:
  assumes "node_ready rows nd" "projects proj f" "m \<le> length (filter passes rows)"
  shows "\<exists>ts nd' rows'. fetch x proj m nd = Some (Val (map f ts, nd')) \<and> node_ready rows' nd' \<and>
    filter passes rows' = drop m (filter passes rows) \<and> list_all2 (\<lambda>vs t. good vs t True) (take m (filter passes rows)) ts"
  using assms(1,3)
proof (induction rows arbitrary: nd m)
  case (Cons vs rows)
  show ?case
  proof (cases m)
    case 0
    then show ?thesis using Cons.prems(1) by (intro exI[of _ "[]"] exI[of _ nd] exI[of _ "vs # rows"]) simp
  next
    case (Suc k)
    show ?thesis
    proof (cases "passes vs")
      case False
      obtain nd1 where n: "ExecScan x proj nd = ExecScan x proj nd1" "node_ready rows nd1"
        by (rule scan_skip[OF Cons.prems(1) False])
      have "fetch x proj m nd = fetch x proj m nd1" using n(1) Suc by simp
      then show ?thesis using Cons.IH[OF n(2), of m] Cons.prems(2) False by auto
    next
      case True
      obtain nd1 t where n: "ExecScan x proj nd = Some (Val (nd1, Some (f t)))" "\<not> tts_isempty (f t)" "good vs t True" "node_ready rows nd1"
        by (rule scan_pass[OF Cons.prems(1) True assms(2)])
      obtain ts nd' rows' where IH: "fetch x proj k nd1 = Some (Val (map f ts, nd'))" "node_ready rows' nd'"
          "filter passes rows' = drop k (filter passes rows)" "list_all2 (\<lambda>vs t. good vs t True) (take k (filter passes rows)) ts"
        using Cons.IH[OF n(4), of k] Cons.prems(2) True Suc by auto
      have "fetch x proj m nd = Some (Val (map f (t # ts), nd'))" using n(1,2) IH(1) Suc by simp
      then show ?thesis using IH(2-4) n(3) True Suc by (intro exI[of _ "t # ts"] exI[of _ nd'] exI[of _ rows']) simp
    qed
  qed
qed (auto intro: exI[of _ "[]"])

lemma scan_none:
  assumes "node_ready rows nd" "filter passes rows = []"
  shows "\<exists>w s nd' slot b. ExecScan x proj nd = Some (Val (nd', slot)) \<and> TupIsNull slot \<and> ready [] w s \<and>
    execNoDBPlan_call x w s True = Some (Val (sn_world nd', sn_scan nd', None, b))"
  using assms
proof (induction rows arbitrary: nd)
  case Nil
  have rd: "ready [] (sn_world nd) (sn_scan nd)" using Nil(1) by (simp add: node_ready_def)
  then obtain w s b where c: "execNoDBPlan_call x (sn_world nd) (sn_scan nd) True = Some (Val (w, s, None, b))" using stop by blast
  let ?nd = "nd\<lparr>sn_world := w, sn_scan := s\<rparr>"
  have "call_plan x True nd = Some (Val (?nd, None, b))" using c by (simp add: call_plan_def)
  then obtain slot where "ExecScan x proj nd = Some (Val (?nd, slot))" "TupIsNull slot"
    using exec_loop[OF Nil(1), of proj] by (simp add: scan_loop.simps[of x proj nd] ExecClearTuple_def split: option.splits)
  moreover have "execNoDBPlan_call x (sn_world nd) (sn_scan nd) True = Some (Val (sn_world ?nd, sn_scan ?nd, None, b))"
    using c by (simp del: execNoDBPlan_call.simps)
  ultimately show ?case using rd by blast
next
  case (Cons vs rows)
  have p: "\<not> passes vs" "filter passes rows = []" using Cons.prems(2) by (auto split: if_splits)
  obtain nd1 where n: "ExecScan x proj nd = ExecScan x proj nd1" "node_ready rows nd1"
    by (rule scan_skip[OF Cons.prems(1) p(1)])
  then show ?case using Cons.IH[OF n(2) p(2)] by simp
qed

end

section \<open>What a call leaves alone\<close>

definition same_shape :: "nodb_world \<Rightarrow> nodb_world \<Rightarrow> bool" where
  "same_shape w w' \<longleftrightarrow> nw_info w' = nw_info w \<and> nw_eol w' = nw_eol w \<and> h_rels (nw_heap w') = h_rels (nw_heap w) \<and>
     (\<forall>p. h_caches (nw_heap w) p \<noteq> None \<longrightarrow> h_caches (nw_heap w') p \<noteq> None)"

lemma same_shape_refl: "same_shape w w"
  by (simp add: same_shape_def)

lemma same_shape_trans: "same_shape w w1 \<Longrightarrow> same_shape w1 w2 \<Longrightarrow> same_shape w w2"
  by (simp add: same_shape_def)

lemma same_shape_store: "same_shape w (store_cache w p c)"
  by (cases p) (simp_all add: same_shape_def store_cache_def upd_cache_def)

lemma foldM_same_shape:
  assumes "foldM f w xs = Some w'" "\<And>w x w'. f w x = Some w' \<Longrightarrow> same_shape w w'"
  shows "same_shape w w'"
  using assms(1) by (induction xs arbitrary: w) (auto simp: same_shape_refl intro: same_shape_trans assms(2) split: option.splits)

lemma write_caches_shape: "write_caches x t s w = Some w' \<Longrightarrow> same_shape w w'"
proof -
  have v: "same_shape w w'" if "write_by_value l s w = Some w'" for l w w'
    using that unfolding write_by_value_def by (rule foldM_same_shape) (auto simp: bind_eq_Some_conv same_shape_store)
  have p: "same_shape w w'" if "write_positions l s w = Some w'" for l w w'
    using that unfolding write_positions_def by (rule foldM_same_shape) (auto simp: bind_eq_Some_conv same_shape_store)
  have st: "same_shape w (store_cache (w\<lparr>nw_arena := a, nw_mem := m\<rparr>) q c)" for w a m q c
    by (cases q) (simp_all add: same_shape_def store_cache_def upd_cache_def)
  have r: "same_shape w w'" if "write_by_ref x l s w = Some w'" for l w w'
    using that unfolding write_by_ref_def by (rule foldM_same_shape) (auto simp: bind_eq_Some_conv st)
  assume "write_caches x t s w = Some w'"
  then obtain w1 w2 where "write_by_value (writeToCacheByValue t) s w = Some w1" "write_by_ref x (writeToCacheByRef t) s w1 = Some w2"
      "write_positions (writeToPM t) s w2 = Some w'"
    by (auto simp: write_caches_def bind_eq_Some_conv)
  then show ?thesis using same_shape_trans[OF same_shape_trans[OF v r] p] by blast
qed

definition scan_frame :: "scan_state \<Rightarrow> NoDBPlanState_t \<times> nat \<times> NoDBColVector_t \<times> string" where
  "scan_frame s = (s_plan s, s_execInfo s, readAllAtts s, s_relation s)"

lemma read_call_frame: "readFile_call x (w, s) = Some (Val (w', s', dn)) \<Longrightarrow> same_shape w w' \<and> scan_frame s' = scan_frame s"
  by (auto simp: readFile_call_def same_shape_store scan_frame_def Let_def split: Option.bind_split_asm res.split_asm)

lemma foldM_frame:
  assumes "foldM f s xs = Some s'" "\<And>s x s'. f s x = Some s' \<Longrightarrow> scan_frame s' = scan_frame s"
  shows "scan_frame s' = scan_frame s"
  using assms(1) by (induction xs arbitrary: s) (auto dest: assms(2) split: option.splits)

lemma read_columns_shape: "read_columns x w a b c d e f s = Some (Val s') \<Longrightarrow> scan_frame s' = scan_frame s"
proof -
  have a: "scan_frame s' = scan_frame s" if "read_with_cache w l s = Some s'" for l s s'
    using that unfolding read_with_cache_def by (rule foldM_frame) (auto simp: bind_eq_Some_conv scan_frame_def)
  have b: "scan_frame s' = scan_frame s" if "read_with_pm w l s = Some s'" for l s s'
    using that unfolding read_with_pm_def by (rule foldM_frame) (auto simp: bind_eq_Some_conv scan_frame_def put_attributes_def Let_def)
  have c: "scan_frame s' = scan_frame s" if "read_via_pm l s = Some s'" for l s s'
    using that unfolding read_via_pm_def by (rule foldM_frame) (auto simp: bind_eq_Some_conv scan_frame_def put_attributes_def)
  have d: "scan_frame s' = scan_frame s" if "values_from_file x l s = Some (Val s')" for l s s'
    using that by (auto simp: values_from_file_def scan_frame_def split: Option.bind_split_asm res.split_asm)
  have e: "scan_frame s' = scan_frame s" if "values_from_pm x l s = Some s'" for l s s'
    using that by (auto simp: values_from_pm_def bind_eq_Some_conv scan_frame_def)
  assume "read_columns x w a b c d e f s = Some (Val s')"
  then show ?thesis by (auto simp: read_columns_def bind_eq_Some_conv split: if_splits dest!: a b c d e)
qed

lemma return_frame:
  assumes "return_tuple pass (w, s) = Some (Val (w', s', slot, b))" "nMin (s_plan s) \<noteq> 1"
  shows "w' = w \<and> scan_frame s' = scan_frame (s\<lparr>s_plan := (s_plan s)\<lparr>nMin := nMin (s_plan s) - 1\<rparr>\<rparr>)"
  using assms by (auto simp: return_tuple_def finish_tuple_def scan_frame_def Let_def split: if_splits)

definition keeps_scan :: "scan_state \<Rightarrow> scan_state \<Rightarrow> bool" where
  "keeps_scan s s' \<longleftrightarrow> curStrategy (s_plan s') = curStrategy (s_plan s) \<and> s_execInfo s' = s_execInfo s \<and> readAllAtts s' = readAllAtts s \<and>
     s_relation s' = s_relation s"

lemma filters_frame:
  assumes "NoDBExecPlanWithFilters x w s = Some (Val (w', s', slot, b))" "nMin (s_plan s) \<noteq> 1"
  shows "same_shape w w' \<and> keeps_scan s s'"
proof -
  obtain w1 s1 dn where r: "readFile_call x (w, s) = Some (Val (w1, s1, dn))"
    using assms(1) by (auto simp: NoDBExecPlanWithFilters_def split: Option.bind_split_asm res.split_asm)
  have f1: "same_shape w w1" "scan_frame s1 = scan_frame s" using read_call_frame[OF r] by simp_all
  show ?thesis
  proof (cases dn)
    case True
    then show ?thesis using assms(1) r f1 by (simp add: NoDBExecPlanWithFilters_def keeps_scan_def scan_frame_def)
  next
    case False
    let ?t = "curStrategy (s_plan s1)"
    obtain s2 where s2: "read_columns x w1 (readPreFilterWithCache ?t) (readPreFilterWithPM ?t) (readPreFilterViaPM ?t)
        (readPreFilterWithFile ?t) (convertPreFilter ?t) (convertPreFilter ?t) s1 = Some (Val s2)"
      using assms(1) r False by (auto simp: NoDBExecPlanWithFilters_def Let_def split: Option.bind_split_asm res.split_asm)
    define pass where "pass = ExecQual x (dvalues (s_values s2)) (dnulls (s_values s2))"
    obtain s3 w2 where s3: "(if pass then read_columns x w1 (readPostFilterWithCache ?t) (readPostFilterWithPM ?t) (readPostFilterViaPM ?t)
          (readPostFilterWithFile ?t) (readPostFilterWithFile ?t) (convertPostFilter ?t) s2 else Some (Val s2)) = Some (Val s3)"
        "write_caches x ?t s3 w1 = Some w2" "return_tuple pass (w2, s3) = Some (Val (w', s', slot, b))"
      using assms(1) r False s2 unfolding pass_def
      by (auto simp: NoDBExecPlanWithFilters_def Let_def split: Option.bind_split_asm res.split_asm if_split_asm)
    have f3: "scan_frame s3 = scan_frame s1" using s3(1) read_columns_shape[OF s2] by (cases pass) (auto dest: read_columns_shape)
    then have "nMin (s_plan s3) \<noteq> 1" using f1(2) assms(2) by (simp add: scan_frame_def)
    from return_frame[OF s3(3) this] show ?thesis
      using f1 f3 write_caches_shape[OF s3(2)] by (auto simp: keeps_scan_def scan_frame_def intro: same_shape_trans)
  qed
qed

lemma filters_end:
  assumes "NoDBExecPlanWithFilters x w s = Some (Val (w', s', None, b))"
  shows "same_shape w w' \<and> keeps_scan s s'"
proof -
  obtain w1 s1 dn where r: "readFile_call x (w, s) = Some (Val (w1, s1, dn))"
    using assms by (auto simp: NoDBExecPlanWithFilters_def split: Option.bind_split_asm res.split_asm)
  have "return_tuple p ws \<noteq> Some (Val (w', s', None, b))" for p ws
    by (cases "finish_tuple ws") (auto simp: return_tuple_def)
  then have dn using assms r
    by (auto simp: NoDBExecPlanWithFilters_def Let_def split: Option.bind_split_asm res.split_asm bool.split_asm if_split_asm)
  then show ?thesis using assms r read_call_frame[OF r] by (simp add: NoDBExecPlanWithFilters_def keeps_scan_def scan_frame_def)
qed

section \<open>Closing the scan\<close>

text \<open>A scan that can be closed: its caches exist, and the locks and the number of rows of its relation can be set.\<close>

definition caches_exist :: "NoDBColumnsPerCache_t option list \<Rightarrow> nodb_world \<Rightarrow> bool" where
  "caches_exist l w \<longleftrightarrow> (\<forall>oc \<in> set l. \<exists>c a. oc = Some c \<and> cpc_cache c = Some a \<and> h_caches (nw_heap w) a \<noteq> None)"

definition closable :: "NoDBCol_t list \<Rightarrow> nodb_world \<Rightarrow> scan_state \<Rightarrow> bool" where
  "closable cs w s \<longleftrightarrow>
     caches_exist (writeToCacheByRef (curStrategy (s_plan s))) w \<and> caches_exist (writeToCacheByValue (curStrategy (s_plan s))) w \<and>
     caches_exist (writeToPM (curStrategy (s_plan s))) w \<and> readAllAtts s = map Some cs \<and>
     (\<exists>e. load_info w (s_execInfo s) = Some e \<and> atts_ok (length (CacheLock e)) cs \<and> atts_ok (length (PMLock e)) cs \<and>
        NoDBExecSetNumberOffRows (eol_view w) e \<noteq> None)"

lemma rows_shape:
  assumes "same_shape w w'" "NoDBExecSetNumberOffRows (eol_view w) e \<noteq> None"
  shows "NoDBExecSetNumberOffRows (eol_view w') e \<noteq> None"
proof -
  have g: "NoDBGetEOLCache (eol_view w') nm = NoDBGetEOLCache (eol_view w) nm" for nm
    using assms(1) by (simp add: NoDBGetEOLCache_def eol_view_def same_shape_def)
  obtain rel r where r: "h_rels (nw_heap w) (ei_rel e) = Some rel" "NoDBGetEOLCache (eol_view w) (rel_name rel) = Some r"
      "\<forall>p. r = Some p \<longrightarrow> h_caches (nw_heap w) p \<noteq> None"
    using assms(2) by (auto simp: NoDBExecSetNumberOffRows_def eol_view_def split: Option.bind_split_asm option.split_asm)
  have "h_rels (nw_heap w') (ei_rel e) = Some rel" "\<forall>p. r = Some p \<longrightarrow> h_caches (nw_heap w') p \<noteq> None"
    using assms(1) r(1,3) by (simp_all add: same_shape_def)
  then show ?thesis using r(2) g[of "rel_name rel"] by (cases r) (auto simp: NoDBExecSetNumberOffRows_def eol_view_def)
qed

lemma caches_exist_shape: "caches_exist l w \<Longrightarrow> same_shape w w' \<Longrightarrow> caches_exist l w'"
  unfolding caches_exist_def same_shape_def by metis

lemma load_info_shape: "same_shape w w' \<Longrightarrow> load_info w' i = load_info w i"
  by (simp add: load_info_def same_shape_def)

lemma closable_shape:
  assumes "closable cs w s" "same_shape w w'" "keeps_scan s s'"
  shows "closable cs w' s'"
proof -
  obtain e where "load_info w (s_execInfo s) = Some e" "atts_ok (length (CacheLock e)) cs" "atts_ok (length (PMLock e)) cs"
      "NoDBExecSetNumberOffRows (eol_view w) e \<noteq> None"
    using assms(1) unfolding closable_def by blast
  then have "\<exists>e. load_info w' (s_execInfo s') = Some e \<and> atts_ok (length (CacheLock e)) cs \<and> atts_ok (length (PMLock e)) cs \<and>
      NoDBExecSetNumberOffRows (eol_view w') e \<noteq> None"
    using load_info_shape[OF assms(2), of "s_execInfo s"] rows_shape[OF assms(2)] assms(3) by (simp add: keeps_scan_def)
  then show ?thesis
    using assms caches_exist_shape[OF _ assms(2)] unfolding closable_def keeps_scan_def by simp
qed

lemma set_used_ok:
  assumes "caches_exist l w"
  shows "\<exists>w'. set_used_rows l row w = Some w' \<and> same_shape w w'"
  using assms
proof (induction l arbitrary: w)
  case Nil
  then show ?case by (simp add: set_used_rows_def same_shape_refl)
next
  case (Cons oc l)
  obtain c a k where c: "oc = Some c" "cpc_cache c = Some a" "h_caches (nw_heap w) a = Some k" using Cons.prems by (auto simp: caches_exist_def)
  let ?w = "store_cache w (Some a) (NoDBCacheSetUsedRows k (row - NoDBCacheGetBegin k))"
  have sh: "same_shape w ?w" by (rule same_shape_store)
  have "caches_exist l w" using Cons.prems by (simp add: caches_exist_def)
  then have "caches_exist l ?w" using caches_exist_shape sh by blast
  from Cons.IH[OF this] obtain w' where "set_used_rows l row ?w = Some w'" "same_shape ?w w'" by blast
  moreover have "set_used_rows (oc # l) row w = set_used_rows l row ?w"
    using c by (simp add: set_used_rows_def load_cache_def)
  ultimately show ?case using same_shape_trans[OF sh] by auto
qed

lemma load_store_info: "load_info w i \<noteq> None \<Longrightarrow> load_info (store_info w i e) i = Some e"
  by (cases "nw_info w") (simp_all add: load_info_def store_info_def split: if_split_asm)

lemma finalize_ok:
  assumes "closable cs w s"
  shows "\<exists>w' e. NoDBFinalizeStrategy (w, s) = Some w' \<and> load_info w' (s_execInfo s) = Some e \<and>
    atts_ok (length (CacheLock e)) cs \<and> atts_ok (length (PMLock e)) cs"
proof -
  let ?t = "curStrategy (s_plan s)" and ?i = "s_execInfo s"
  obtain e where e: "load_info w ?i = Some e" "atts_ok (length (CacheLock e)) cs" "atts_ok (length (PMLock e)) cs"
      "NoDBExecSetNumberOffRows (eol_view w) e \<noteq> None"
    and ex: "caches_exist (writeToCacheByRef ?t) w" "caches_exist (writeToCacheByValue ?t) w" "caches_exist (writeToPM ?t) w"
    using assms unfolding closable_def by blast
  obtain w1 where w1: "set_used_rows (writeToCacheByRef ?t) (s_row s) w = Some w1" "same_shape w w1" using set_used_ok[OF ex(1)] by blast
  obtain w2 where w2: "set_used_rows (writeToCacheByValue ?t) (s_row s) w1 = Some w2" "same_shape w1 w2"
    using set_used_ok[OF caches_exist_shape[OF ex(2) w1(2)]] by blast
  have s2: "same_shape w w2" using same_shape_trans[OF w1(2) w2(2)] .
  obtain w3 where w3: "set_used_rows (writeToPM ?t) (s_row s) w2 = Some w3" "same_shape w2 w3"
    using set_used_ok[OF caches_exist_shape[OF ex(3) s2]] by blast
  have s3: "same_shape w w3" using same_shape_trans[OF s2 w3(2)] .
  obtain e' where e': "NoDBExecSetNumberOffRows (eol_view w3) e = Some e'" using rows_shape[OF s3 e(4)] by blast
  have l: "CacheLock e' = CacheLock e" "PMLock e' = PMLock e"
    using e' by (auto simp: NoDBExecSetNumberOffRows_def split: Option.bind_split_asm option.split_asm)
  have i3: "load_info w3 ?i = Some e" using load_info_shape[OF s3] e(1) by simp
  then have "NoDBFinalizeStrategy (w, s) = Some (store_info w3 ?i e')"
    using w1(1) w2(1) w3(1) e' by (simp add: NoDBFinalizeStrategy_def Let_def)
  moreover have "load_info (store_info w3 ?i e') ?i = Some e'" using load_store_info i3 by simp
  ultimately show ?thesis using e(2,3) l by auto
qed

lemma finish_ok:
  assumes "closable cs w s"
  shows "\<exists>w' e. finish_scan (w, s) = Some w' \<and> load_info w' (s_execInfo s) = Some e \<and>
    locked_cols (CacheLock e) \<inter> set cs = {} \<and> locked_cols (PMLock e) \<inter> set cs = {}"
proof -
  obtain w1 e where f: "NoDBFinalizeStrategy (w, s) = Some w1" "load_info w1 (s_execInfo s) = Some e"
      "atts_ok (length (CacheLock e)) cs" "atts_ok (length (PMLock e)) cs"
    using finalize_ok[OF assms] by blast
  have at: "readAllAtts s = map Some cs" using assms by (simp add: closable_def)
  obtain pl cp where p: "release_locks (PMLock e) (map Some cs) = Some (pl, cp)" "locked_cols pl = locked_cols (PMLock e) - set cs"
    using release_loop[OF f(4)] by blast
  obtain cl cc where c: "release_locks (CacheLock e) (map Some cs) = Some (cl, cc)" "locked_cols cl = locked_cols (CacheLock e) - set cs"
    using release_loop[OF f(3)] by blast
  let ?e = "NoDBExecIntegrityCheckCompleted (e\<lparr>PMLock := pl, CacheLock := cl\<rparr>)"
  have "finish_scan (w, s) = Some (store_info w1 (s_execInfo s) ?e)"
    using f(1,2) p(1) c(1) at by (simp add: finish_scan_def NoDBExecReleasePMLocks_def NoDBExecReleaseCacheLocks_def)
  moreover have "load_info (store_info w1 (s_execInfo s) ?e) (s_execInfo s) = Some ?e" using load_store_info f(2) by simp
  ultimately show ?thesis using p(2) c(2) by (auto simp: NoDBExecIntegrityCheckCompleted_def)
qed

section \<open>The execution of a filtered scan\<close>

interpretation closing_plan: scan_plan x
    "\<lambda>rows w s. filter_reads x pre Q \<and> filters_rows pre post pcs pms n rows w s \<and> closable cs w s \<and> nw_info w = info \<and> s_execInfo s = i \<and> s_relation s = rel" pcs pms
    "\<lambda>vs t b. b = Q (item_datum (input_fn x) vs) \<and> row_slot x (if b then pre @ post else pre) vs t"
    "\<lambda>vs. Q (item_datum (input_fn x) vs)"
  for x pre Q post pcs pms n cs info i rel
proof
  fix vs rows w s
  assume a: "filter_reads x pre Q \<and> filters_rows pre post pcs pms n (vs # rows) w s \<and> closable cs w s \<and> nw_info w = info \<and> s_execInfo s = i \<and> s_relation s = rel"
    and "caches_room pcs pms w (s_row s)"
  then obtain w' s' t b where p: "execNoDBPlan_call x w s True = Some (Val (w', s', Some t, b))" "filters_rows pre post pcs pms n rows w' s'"
      "b = Q (item_datum (input_fn x) vs)" "row_slot x (if b then pre @ post else pre) vs t" "row_stored x pcs pms vs w s w' s'"
    using filter_plan.step[of x pre Q post pcs pms n vs rows w s] by blast
  have "NoDBExecPlanWithFilters x w s = Some (Val (w', s', Some t, b))" using p(1) a by (simp add: filters_rows_def)
  moreover have "nMin (s_plan s) \<noteq> 1" using a by (auto simp: filters_rows_def scan_ready_def)
  ultimately have fr: "same_shape w w'" "keeps_scan s s'" using filters_frame by blast+
  then have "closable cs w' s'" "nw_info w' = info" "s_execInfo s' = i" "s_relation s' = rel"
    using a closable_shape by (blast, simp_all add: same_shape_def keeps_scan_def)
  then show "\<exists>w' s' t b. execNoDBPlan_call x w s True = Some (Val (w', s', Some t, b)) \<and>
      (filter_reads x pre Q \<and> filters_rows pre post pcs pms n rows w' s' \<and> closable cs w' s' \<and> nw_info w' = info \<and> s_execInfo s' = i \<and> s_relation s' = rel) \<and>
      (b = Q (item_datum (input_fn x) vs) \<and> row_slot x (if b then pre @ post else pre) vs t) \<and> row_stored x pcs pms vs w s w' s'"
    using p a by blast
next
  fix w s
  assume "filter_reads x pre Q \<and> filters_rows pre post pcs pms n [] w s \<and> closable cs w s \<and> nw_info w = info \<and> s_execInfo s = i \<and> s_relation s = rel"
  then show "\<exists>w' s' b. execNoDBPlan_call x w s True = Some (Val (w', s', None, b)) \<and> keeps (fst ` set pcs \<union> fst ` set pms) w w'"
    using filter_plan.stop[of x pre Q post pcs pms n w s] by blast
next
  fix rows w s
  assume a: "filter_reads x pre Q \<and> filters_rows pre post pcs pms n rows w s \<and> closable cs w s \<and> nw_info w = info \<and> s_execInfo s = i \<and> s_relation s = rel"
  then show "processed (s_reader s) + length rows < 2 ^ 64" "s_qual s"
    using filter_plan.rows_bound[of x pre Q post pcs pms n rows w s] filter_plan.filtered[of x pre Q post pcs pms n rows w s] by blast+
qed (simp add: row_slot_def)

definition junk_free :: "exec_options \<Rightarrow> TupleTableSlot \<Rightarrow> TupleTableSlot" where
  "junk_free opts = (case es_junkFilter opts of None \<Rightarrow> id | Some junk \<Rightarrow> junk)"

text \<open>The tuple of a row that passes has the converted values of the wanted columns.\<close>

definition row_tuple :: "externals \<Rightarrow> NoDBCol_t list \<Rightarrow> csv_item list \<Rightarrow> TupleTableSlot \<Rightarrow> bool" where
  "row_tuple x cs vs t \<longleftrightarrow> (\<forall>c \<in> set cs. tts_values t ! nat c = Some (datum (item_datum (input_fn x) vs c)) \<and>
     tts_isnull t ! nat c = Some (null (item_datum (input_fn x) vs c)))"

lemma first_tuples:
  assumes "filters_rows pre post pcs pms n rows (sn_world nd) (sn_scan nd)" "filter_reads x pre Q" "projects proj f" "\<not> ps_TupFromTlist nd"
    "\<forall>i < length rows. caches_room pcs pms (sn_world nd) (of_nat (processed (s_reader (sn_scan nd)) + i))" "closable cs (sn_world nd) (sn_scan nd)"
    "m \<le> length (filter (\<lambda>vs. Q (item_datum (input_fn x) vs)) rows)"
  defines "ready \<equiv> closing_plan.node_ready x pre Q post pcs pms n cs (nw_info (sn_world nd)) (s_execInfo (sn_scan nd)) (s_relation (sn_scan nd))"
  obtains ts nd' rows' where "fetch x proj m nd = Some (Val (map f ts, nd'))" "length ts = m" "ready rows' nd'"
    "filter (\<lambda>vs. Q (item_datum (input_fn x) vs)) rows' = drop m (filter (\<lambda>vs. Q (item_datum (input_fn x) vs)) rows)"
    "list_all2 (row_tuple x (pre @ post)) (take m (filter (\<lambda>vs. Q (item_datum (input_fn x) vs)) rows)) ts"
proof -
  have "ready rows nd"
    unfolding ready_def closing_plan.node_ready_def closing_plan.room_for_def using assms(1,2,4-6) by blast
  from closing_plan.fetch_prefix[OF this[unfolded ready_def] assms(3,7)] obtain ts nd' rows' where
      t: "fetch x proj m nd = Some (Val (map f ts, nd'))" "ready rows' nd'"
      "filter (\<lambda>vs. Q (item_datum (input_fn x) vs)) rows' = drop m (filter (\<lambda>vs. Q (item_datum (input_fn x) vs)) rows)"
      "list_all2 (\<lambda>vs t. True = Q (item_datum (input_fn x) vs) \<and> row_slot x (if True then pre @ post else pre) vs t)
        (take m (filter (\<lambda>vs. Q (item_datum (input_fn x) vs)) rows)) ts"
    unfolding ready_def by blast
  have "list_all2 (row_tuple x (pre @ post)) (take m (filter (\<lambda>vs. Q (item_datum (input_fn x) vs)) rows)) ts"
    by (rule list_all2_mono[OF t(4)]) (simp add: row_tuple_def row_slot_def)
  moreover have "length ts = m" using list_all2_lengthD[OF t(4)] assms(7) by simp
  ultimately show thesis using that t by blast
qed


lemma fetch_split:
  assumes "fetch x proj (Suc k) nd = Some (Val (ts, nd'))" "length ts = Suc k"
  shows "\<exists>nd1 slot. fetch x proj k nd = Some (Val (butlast ts, nd1)) \<and> ExecScan x proj nd1 = Some (Val (nd', slot)) \<and>
    \<not> TupIsNull slot \<and> the slot = last ts"
  using assms
proof (induction k arbitrary: nd ts)
  case 0
  then show ?case by (auto split: option.splits res.splits if_splits)
next
  case (Suc k)
  obtain nd1 slot us where e: "ExecScan x proj nd = Some (Val (nd1, slot))" "\<not> TupIsNull slot" "fetch x proj (Suc k) nd1 = Some (Val (us, nd'))"
      "ts = the slot # us"
    using Suc.prems by (auto simp del: fetch.simps simp: fetch.simps(2)[of x proj "Suc k"] split: option.splits res.splits if_splits)
  then have "length us = Suc k" using Suc.prems(2) by simp
  from Suc.IH[OF e(3) this] obtain nd2 sl where "fetch x proj k nd1 = Some (Val (butlast us, nd2))" "ExecScan x proj nd2 = Some (Val (nd', sl))"
      "\<not> TupIsNull sl" "the sl = last us"
    by blast
  moreover have "us \<noteq> []" using \<open>length us = Suc k\<close> by auto
  ultimately show ?case using e(1,2,4) by (intro exI[of _ nd2] exI[of _ sl]) simp
qed

text \<open>
  C32: A query that stops at a number of tuples is not closed. When \<open>ExecutePlan2\<close> is asked for \<open>m\<close> tuples, as for a cursor or a
  function, and at least \<open>m\<close> rows pass the filter, it sends the first \<open>m\<close> of them and returns without closing the scan: the
  query descriptor keeps the columns of this query, which the next query then finds, and the execution information, with
  the write locks of its columns, is as it was.
\<close>

theorem count_leaves_query:
  assumes "filters_rows pre post pcs pms n rows (sn_world (er_node r)) (sn_scan (er_node r))" "filter_reads x pre Q" "projects proj f"
    "\<not> ps_TupFromTlist (er_node r)"
    "\<forall>i < length rows. caches_room pcs pms (sn_world (er_node r)) (of_nat (processed (s_reader (sn_scan (er_node r))) + i))"
    "closable cs (sn_world (er_node r)) (sn_scan (er_node r))" "numberTuples opts = int m" "0 < m"
    "m \<le> length (filter (\<lambda>vs. Q (item_datum (input_fn x) vs)) rows)" "sendTuples opts"
  shows "\<exists>r' ts. ExecutePlan2_loop x proj opts cf 0 r = Some (Val r') \<and>
    list_all2 (row_tuple x (pre @ post)) (take m (filter (\<lambda>vs. Q (item_datum (input_fn x) vs)) rows)) ts \<and>
    er_sent r' = er_sent r @ map (junk_free opts \<circ> f) ts \<and> er_query r' = er_query r \<and>
    nw_info (sn_world (er_node r')) = nw_info (sn_world (er_node r))"
proof -
  let ?F = "filter (\<lambda>vs. Q (item_datum (input_fn x) vs)) rows" and ?nd = "er_node r"
  obtain ts nd' rows' where t: "fetch x proj m ?nd = Some (Val (map f ts, nd'))" "length ts = m"
      "closing_plan.node_ready x pre Q post pcs pms n cs (nw_info (sn_world ?nd)) (s_execInfo (sn_scan ?nd)) (s_relation (sn_scan ?nd)) rows' nd'"
      "filter (\<lambda>vs. Q (item_datum (input_fn x) vs)) rows' = drop m ?F" "list_all2 (row_tuple x (pre @ post)) (take m ?F) ts"
    by (rule first_tuples[OF assms(1-6,9)])
  obtain k where k: "m = Suc k" using assms(8) by (cases m) auto
  obtain nd1 slot where s: "fetch x proj k ?nd = Some (Val (butlast (map f ts), nd1))" "ExecScan x proj nd1 = Some (Val (nd', slot))"
      "\<not> TupIsNull slot" "the slot = last (map f ts)"
    using fetch_split[of x proj k ?nd "map f ts" nd'] t(1,2) k by auto
  have lk: "length (butlast (map f ts)) = k" using t(2) k by simp
  have b: "length rows < 2 ^ 64" using filter_plan.rows_bound[of x pre Q post pcs pms n rows "sn_world ?nd" "sn_scan ?nd"] assms(1,2) by simp
  then have m: "m < 2 ^ 64" using assms(9) length_filter_le[of _ rows] le_trans le_less_trans by blast
  have ne: "(of_nat m :: 64 word) \<noteq> of_nat j" if "j < m" for j
    using row_inj[of m j] that m by linarith
  let ?s = "send_all opts (butlast (map f ts)) r"
  let ?r = "(send_tuple opts (last (map f ts)) ?s)\<lparr>er_node := nd'\<rparr>"
  have "ExecutePlan2_loop x proj opts cf 0 r = ExecutePlan2_loop x proj opts cf (of_nat k) (?s\<lparr>er_node := nd1\<rparr>)"
    using loop_fetch[of x proj "butlast (map f ts)" r nd1 opts 0 cf] s(1) ne k assms(7) unfolding lk by simp
  also have "\<dots> = Some (Val ?r)"
    using s(2-4) assms(7) k by (subst ExecutePlan2_loop.simps) (simp add: Let_def)
  finally have l: "ExecutePlan2_loop x proj opts cf 0 r = Some (Val ?r)" .
  have "map f ts = butlast (map f ts) @ [last (map f ts)]" using t(2) k by (metis append_butlast_last_id length_map list.size(3) nat.distinct(1))
  then have "send_all opts (map f ts) r = send_tuple opts (last (map f ts)) ?s" by (metis fold_append comp_apply fold_simps send_all_def)
  then have "er_sent ?r = er_sent r @ map (junk_free opts \<circ> f) ts" "er_query ?r = er_query r"
    using send_all_sent(1)[of opts "map f ts" r] assms(10) by (simp_all add: junk_free_def)
  moreover have "nw_info (sn_world nd') = nw_info (sn_world ?nd)" using t(3) unfolding closing_plan.node_ready_def by blast
  ultimately show ?thesis using l t(5) by (intro exI[of _ ?r] exI[of _ ts]) simp
qed

section \<open>An example\<close>

text \<open>The query of the scan node, on a table of the configuration, with the locks of its columns held.\<close>

definition exec_world :: nodb_world where
  "exec_world = table_world\<lparr>nw_heap := (nw_heap table_world)\<lparr>h_rels := (\<lambda>_. None)(1 := Some \<lparr>rel_name = ''t'', rel_used = 3, rel_max = 3,
       rel_attrs = replicate 3 (Some \<lparr>attr_size = 16, byValue = 1\<rparr>)\<rparr>)\<rparr>,
     nw_eol := Some [\<lparr>relation = ''t'', EOLCache = Some 0\<rparr>],
     nw_info := Some \<lparr>eiv_size = 1, eiv_used = 1, eiv_vector = [Some (demo_info\<lparr>CacheLock := [0, 1, 1], PMLock := [0, 1, 1]\<rparr>)]\<rparr>\<rparr>"

definition exec_conf :: ConfigurationFile where
  "exec_conf = CF_start\<lparr>cf_files := slots_of [\<lparr>in_filename = ''t.csv'', in_relation = ''t'', in_delimiter = '','', in_header = False, in_id = 1\<rparr>],
     cf_how_many := 1, cf_loaded := True\<rparr>"

definition exec_opts :: exec_options where
  "exec_opts = \<lparr>es_junkFilter = None, sendTuples = True, is_select = True, numberTuples = 0, enable_invisible_db = True\<rparr>"

definition exec_start :: "unit exec_run" where
  "exec_start = \<lparr>er_node = query_node\<lparr>sn_world := exec_world\<rparr>, er_query = demo_query, er_sent = [], es_processed = 0\<rparr>"

lemma exec_loads:
  "load_cache exec_world = load_cache table_world"
  "load_info exec_world 0 = Some (demo_info\<lparr>CacheLock := [0, 1, 1], PMLock := [0, 1, 1]\<rparr>)" "s_execInfo (sn_scan query_node) = 0" "sn_world query_node = table_world"
  by (simp_all add: load_cache_def load_info_def exec_world_def fun_eq_iff arr_get_def) (simp_all add: query_node_def table_start_def plan_scan_def)

lemma exec_ready: "filters_rows [1] [2] [(5, [1])] [(7, [2])] 2 table_rows (sn_world (er_node exec_start)) (sn_scan (er_node exec_start))"
  using query_ready by (simp add: filters_rows_def scan_ready_def eol_ready_def exec_start_def exec_loads)

lemma exec_room: "\<forall>i < length table_rows. caches_room [(5, [1])] [(7, [2])] (sn_world (er_node exec_start))
    (of_nat (processed (s_reader (sn_scan (er_node exec_start))) + i))"
  using query_room by (simp add: caches_room_def row_room_def cell_room_def table_rows_def exec_start_def query_node_def exec_world_def)

lemma exec_closable: "closable [1, 2] (sn_world (er_node exec_start)) (sn_scan (er_node exec_start))"
proof -
  have "caches_exist [cpc (5, [1])] exec_world" "caches_exist [cpc (7, [2])] exec_world" "caches_exist [] exec_world"
    by (simp_all add: caches_exist_def cpc_def exec_world_def table_world_def plan_world_def)
  moreover have "readAllAtts (sn_scan (er_node exec_start)) = map Some [1, 2]"
    by (simp add: exec_start_def query_node_def table_start_def plan_scan_def)
  moreover have "NoDBExecSetNumberOffRows (eol_view exec_world) (demo_info\<lparr>CacheLock := [0, 1, 1], PMLock := [0, 1, 1]\<rparr>) \<noteq> None"
    by code_simp
  ultimately show ?thesis
    by (simp add: closable_def exec_start_def exec_loads atts_ok_def) (simp add: query_node_def table_start_def plan_scan_def plan_strategy_def)
qed

lemma exec_projects: "projects (Some query_projection) (\<lambda>t :: TupleTableSlot. generateTupleTableSlot 1 [tts_values t ! 2] [tts_isnull t ! 2])"
  by (simp add: projects_def query_projection_def generateTupleTableSlot_def)

lemma exec_start_ok: "\<not> ps_TupFromTlist (er_node exec_start)" "isInConfigFile exec_conf (s_relation (sn_scan (er_node exec_start)))"
proof -
  show "\<not> ps_TupFromTlist (er_node exec_start)" by (simp add: exec_start_def query_node_def)
  have "isInConfigFile exec_conf ''t''" by code_simp
  then show "isInConfigFile exec_conf (s_relation (sn_scan (er_node exec_start)))"
    by (simp add: exec_start_def query_node_def table_start_def plan_scan_def)
qed

lemma exec_sent:
  assumes "list_all2 (row_tuple query_externals ([1] @ [2])) [table_rows ! 1] ts"
  shows "map (\<lambda>t :: TupleTableSlot. generateTupleTableSlot 1 [tts_values t ! 2] [tts_isnull t ! 2]) ts = [generateTupleTableSlot 1 [Some 1] [Some False]]"
proof -
  have "item_datum (input_fn query_externals) (table_rows ! 1) 2 = \<lparr>datum = 1, null = False\<rparr>"
    by (simp add: item_datum_def table_rows_def plan_externals_def query_externals_def)
  then show ?thesis using assms by (auto simp: list_all2_Cons1 row_tuple_def)
qed


theorem count_leaves_query_witness:
  "\<exists>r'. ExecutePlan2_loop query_externals (Some query_projection) (exec_opts\<lparr>numberTuples := 1\<rparr>) exec_conf 0 exec_start = Some (Val r') \<and>
     er_sent r' = [generateTupleTableSlot 1 [Some 1] [Some False]] \<and> er_query r' = demo_query \<and>
     nw_info (sn_world (er_node r')) = Some \<lparr>eiv_size = 1, eiv_used = 1, eiv_vector = [Some (demo_info\<lparr>CacheLock := [0, 1, 1], PMLock := [0, 1, 1]\<rparr>)]\<rparr>"
proof -
  let ?f = "\<lambda>t :: TupleTableSlot. generateTupleTableSlot 1 [tts_values t ! 2] [tts_isnull t ! 2]" and ?o = "exec_opts\<lparr>numberTuples := 1\<rparr>"
  have o: "numberTuples ?o = int 1" "0 < (1 :: nat)" "1 \<le> length [table_rows ! 1]" "sendTuples ?o" "junk_free ?o = id" "take 1 [table_rows ! 1] = [table_rows ! 1]"
    by (simp_all add: exec_opts_def junk_free_def)
  obtain r' ts where r: "ExecutePlan2_loop query_externals (Some query_projection) ?o exec_conf 0 exec_start = Some (Val r')"
      "list_all2 (row_tuple query_externals ([1] @ [2])) [table_rows ! 1] ts" "er_sent r' = er_sent exec_start @ map (junk_free ?o \<circ> ?f) ts"
      "er_query r' = er_query exec_start" "nw_info (sn_world (er_node r')) = nw_info (sn_world (er_node exec_start))"
    using count_leaves_query[OF exec_ready query_filter exec_projects exec_start_ok(1) exec_room exec_closable o(1,2), unfolded query_selects, OF o(3,4)]
    unfolding o(6) by blast
  then show ?thesis using exec_sent[OF r(2)] o(5) by (intro exI[of _ r']) (simp add: exec_start_def exec_world_def)
qed

end
